(* ===== verification/Prelude.thy ===== *)
theory Prelude
  imports Main "HOL-Library.AList" "HOL-Library.Multiset" "HOL-Library.Char_ord" "HOL-Library.List_Lexorder"
begin

text \<open>
  What every component of the development shares: results that are either an error or a value
  (Python's exceptions made explicit), the lemma collections the component proofs rewrite with,
  the insertion-ordered dictionaries of Python as association lists, decimal printing of
  integers, and the small list facts that the containers of the program need.
\<close>

named_theorems result_elims \<open>inversion of a computation that returned or raised\<close>
named_theorems dict_simps \<open>reading and writing insertion-ordered dictionaries\<close>
named_theorems wf_intros \<open>preservation of the well-formedness invariants\<close>

section \<open>Results: an error or a value\<close>

type_synonym ('e, 'a) res = "'e + 'a"

definition bind_res :: "('e, 'a) res \<Rightarrow> ('a \<Rightarrow> ('e, 'b) res) \<Rightarrow> ('e, 'b) res" where
  "bind_res m f = (case m of Inl e \<Rightarrow> Inl e | Inr x \<Rightarrow> f x)"

lemma bind_res_simps [simp]:
  "bind_res (Inl e) f = Inl e"
  "bind_res (Inr x) f = f x"
  by (simp_all add: bind_res_def)

lemma bind_res_eq_Inr [result_elims]:
  "bind_res m f = Inr y \<longleftrightarrow> (\<exists>x. m = Inr x \<and> f x = Inr y)"
  by (cases m) auto

lemma bind_res_eq_Inl [result_elims]:
  "bind_res m f = Inl e \<longleftrightarrow> m = Inl e \<or> (\<exists>x. m = Inr x \<and> f x = Inl e)"
  by (cases m) auto

lemma bind_res_cong [fundef_cong]:
  "m = m' \<Longrightarrow> (\<And>x. m' = Inr x \<Longrightarrow> f x = f' x) \<Longrightarrow> bind_res m f = bind_res m' f'"
  by (cases m') auto

lemma bind_res_assoc:
  "bind_res (bind_res m f) g = bind_res m (\<lambda>x. bind_res (f x) g)"
  by (cases m) auto

definition is_ok :: "('e, 'a) res \<Rightarrow> bool" where
  "is_ok r = (case r of Inl _ \<Rightarrow> False | Inr _ \<Rightarrow> True)"

lemma is_ok_simps [simp]: "is_ok (Inr x)" "\<not> is_ok (Inl e)"
  by (simp_all add: is_ok_def)

lemma is_ok_iff: "is_ok r \<longleftrightarrow> (\<exists>x. r = Inr x)"
  by (cases r) auto

text \<open>A loop that stops at the first error, as an exception leaves a Python \<open>for\<close> loop.\<close>

fun map_res :: "('a \<Rightarrow> ('e, 'b) res) \<Rightarrow> 'a list \<Rightarrow> ('e, 'b list) res" where
  "map_res f [] = Inr []"
| "map_res f (x # xs) = bind_res (f x) (\<lambda>y. bind_res (map_res f xs) (\<lambda>ys. Inr (y # ys)))"

lemma map_res_cong [fundef_cong]:
  "xs = ys \<Longrightarrow> (\<And>x. x \<in> set ys \<Longrightarrow> f x = g x) \<Longrightarrow> map_res f xs = map_res g ys"
  by (induction xs arbitrary: ys) auto

lemma map_res_Inr_iff: "map_res f xs = Inr ys \<longleftrightarrow> list_all2 (\<lambda>x y. f x = Inr y) xs ys"
  by (induction xs arbitrary: ys) (auto simp: bind_res_eq_Inr list_all2_Cons1)

lemma map_res_all_ok: "(\<And>x. x \<in> set xs \<Longrightarrow> f x = Inr (g x)) \<Longrightarrow> map_res f xs = Inr (map g xs)"
  by (induction xs) auto

section \<open>Insertion-ordered dictionaries\<close>

text \<open>
  A Python \<open>dict\<close> keeps its keys in insertion order and has each key once. It is an association
  list: \<open>d[k]\<close> and \<open>d.get(k)\<close> read with \<^const>\<open>map_of\<close>, \<open>d[k] = v\<close> and
  \<open>{**d, k: v}\<close> write with \<open>AList.update\<close>, which overwrites in place or appends.
\<close>

type_synonym ('k, 'v) dict = "('k \<times> 'v) list"

abbreviation keys :: "('k, 'v) dict \<Rightarrow> 'k list" where
  "keys d \<equiv> map fst d"

abbreviation values_of :: "('k, 'v) dict \<Rightarrow> 'v list" where
  "values_of d \<equiv> map snd d"

abbreviation dict_set :: "'k \<Rightarrow> 'v \<Rightarrow> ('k, 'v) dict \<Rightarrow> ('k, 'v) dict" where
  "dict_set k v d \<equiv> AList.update k v d"

definition dict_ok :: "('k, 'v) dict \<Rightarrow> bool" where
  "dict_ok d \<longleftrightarrow> distinct (keys d)"

lemma dict_ok_Nil [simp]: "dict_ok []"
  by (simp add: dict_ok_def)

lemma dict_ok_Cons [simp]: "dict_ok ((k, v) # d) \<longleftrightarrow> k \<notin> set (keys d) \<and> dict_ok d"
  by (simp add: dict_ok_def)

lemma dict_ok_set [simp, intro, wf_intros]: "dict_ok d \<Longrightarrow> dict_ok (dict_set k v d)"
  unfolding dict_ok_def by (rule AList.distinct_update)

lemma map_of_dict_set [simp, dict_simps]: "map_of (dict_set k v d) = (map_of d)(k \<mapsto> v)"
  by (rule AList.update_conv')

lemma keys_dict_set [dict_simps]:
  "keys (dict_set k v d) = (if k \<in> set (keys d) then keys d else keys d @ [k])"
  by (rule AList.update_keys)

lemma dict_set_fresh: "k \<notin> set (keys d) \<Longrightarrow> dict_set k v d = d @ [(k, v)]"
  by (induction d) auto

lemma set_dict_set_subset: "set (dict_set k v d) \<subseteq> insert (k, v) (set d)"
  by (induction d) auto

lemma in_set_dict_set:
  "dict_ok d \<Longrightarrow> (x, y) \<in> set (dict_set k v d) \<longleftrightarrow> (if x = k then y = v else (x, y) \<in> set d)"
  by (induction d) (auto simp: rev_image_eqI)

lemma map_of_eq_None_keys: "map_of d k = None \<longleftrightarrow> k \<notin> set (keys d)"
  by (induction d) auto

lemma map_of_Some_key: "map_of d k = Some v \<Longrightarrow> k \<in> set (keys d)"
  by (metis map_of_eq_None_keys option.distinct(1))

lemma dict_ok_map_of [dict_simps]:
  "dict_ok d \<Longrightarrow> map_of d k = Some v \<longleftrightarrow> (k, v) \<in> set d"
  by (simp add: dict_ok_def)

lemma keys_map_value [simp]: "keys (map (\<lambda>(k, v). (k, f k v)) d) = keys d"
  by (induction d) auto

lemma map_of_map_value: "map_of (map (\<lambda>(k, v). (k, f k v)) d) k = map_option (f k) (map_of d k)"
  by (induction d) auto

lemma values_of_dict_set_fresh:
  "k \<notin> set (keys d) \<Longrightarrow> values_of (dict_set k v d) = values_of d @ [v]"
  by (simp add: dict_set_fresh)

section \<open>Decimal text\<close>

definition digit_char :: "nat \<Rightarrow> char" where
  "digit_char n = char_of (48 + n)"

fun nat_text :: "nat \<Rightarrow> string" where
  "nat_text n = (if n < 10 then [digit_char n] else nat_text (n div 10) @ [digit_char (n mod 10)])"

declare nat_text.simps [simp del]

definition int_text :: "int \<Rightarrow> string" where
  "int_text i = (if i < 0 then ''-'' @ nat_text (nat (- i)) else nat_text (nat i))"

definition join_with :: "string \<Rightarrow> string list \<Rightarrow> string" where
  "join_with sep xs = (case xs of [] \<Rightarrow> [] | y # ys \<Rightarrow> y @ concat (map (\<lambda>z. sep @ z) ys))"

section \<open>Lists\<close>

text \<open>Sorting by a key that is already strictly increasing changes nothing.\<close>

lemma sort_key_id: "sorted (map f xs) \<Longrightarrow> sort_key f xs = xs"
  by (induction xs) (auto simp: insort_is_Cons)

lemma sort_key_append_sorted: "sort_key f (sort_key f xs @ ys) = sort_key f (xs @ ys)"
proof (rule properties_for_sort_key)
  show "mset (sort_key f (xs @ ys)) = mset (sort_key f xs @ ys)" by simp
  show "filter (\<lambda>x. f k = f x) (sort_key f (xs @ ys)) = filter (\<lambda>x. f k = f x) (sort_key f xs @ ys)" for k
    using sort_key_stable [of f "f k"] by (simp add: eq_commute [of "f k"])
  show "sorted (map f (sort_key f (xs @ ys)))" by simp
qed

lemma sort_key_map: "sort_key f (map g xs) = map g (sort_key (\<lambda>x. f (g x)) xs)"
proof (induction xs)
  case (Cons x xs)
  have "insort_key f (g x) (map g ys) = map g (insort_key (\<lambda>x. f (g x)) x ys)" for ys by (induction ys) auto
  then show ?case using Cons by simp
qed simp

text \<open>Two permutations of each other with distinct keys sort to the same list.\<close>

lemma filter_key_singleton:
  assumes "distinct (map f xs)" and "x \<in> set xs"
  shows "filter (\<lambda>y. f x = f y) xs = [x]"
  using assms
proof (induction xs)
  case (Cons a xs)
  show ?case
  proof (cases "x = a")
    case True
    with Cons.prems show ?thesis by (auto simp: filter_empty_conv rev_image_eqI)
  next
    case False
    with Cons show ?thesis by (auto simp: rev_image_eqI)
  qed
qed simp

lemma sort_key_perm_unique:
  assumes "mset xs = mset ys" and "distinct (map f ys)"
  shows "sort_key f xs = sort_key f ys"
proof (rule properties_for_sort_key)
  have dx: "distinct (map f xs)"
    using assms by (metis distinct_map mset_eq_imp_distinct_iff mset_eq_setD)
  have ds: "distinct (map f (sort_key f ys))"
    using assms(2) by (metis distinct_map distinct_sort set_sort)
  show "mset (sort_key f ys) = mset xs" using assms(1) by simp
  show "sorted (map f (sort_key f ys))" by simp
  show "filter (\<lambda>x. f k = f x) (sort_key f ys) = filter (\<lambda>x. f k = f x) xs"
    if k: "k \<in> set (sort_key f ys)" for k
  proof -
    have "k \<in> set xs" using k assms(1) by (metis mset_eq_setD set_sort)
    then show ?thesis
      using filter_key_singleton [OF dx] filter_key_singleton [OF ds k] by simp
  qed
qed

section \<open>Invariants of step relations\<close>

text \<open>
  What every component with a state promises: an invariant that each of its steps preserves, and
  so every sequence of steps.
\<close>

locale preserved =
  fixes step :: "'s \<Rightarrow> 's \<Rightarrow> bool"
    and inv :: "'s \<Rightarrow> bool"
  assumes step_preserves: "inv s \<Longrightarrow> step s s' \<Longrightarrow> inv s'"
begin

lemma reachable: "step\<^sup>*\<^sup>* s s' \<Longrightarrow> inv s \<Longrightarrow> inv s'"
  by (induction rule: rtranclp_induct) (auto intro: step_preserves)

end

end
