(* ===== verification/PyValue.thy ===== *)
theory PyValue
  imports Prelude
begin

text \<open>
  The dynamic values the program passes around as \<open>Any\<close> (tool arguments, tool results, seeded
  states, trace payloads) and what the source does with them: equality, ordering, truth of
  membership, subscripting, \<open>.get\<close>, \<open>repr\<close>, together with the exception each of these
  operations raises on a value of the wrong type. Characters are code points below 256; numbers
  inside payloads are integers. Exceptions are values: a class and the text \<open>str(error)\<close> gives.
\<close>

section \<open>Values and exceptions\<close>

datatype pyval =
    PNone
  | PBool bool
  | PInt int
  | PStr string
  | PList "pyval list"
  | PDict "(string \<times> pyval) list"

type_synonym pydict = "(string, pyval) dict"

datatype exc_class =
    NotFoundError
  | PolicyViolationError
  | UnknownToolError
  | TypeError
  | KeyError
  | AttributeError
  | ValueError
  | ValidationError
  | AssertionError
  | TransientModelError
  | JudgeResponseError
  | DuplicateGoldLabelError
  | SuiteIntegrityError
  | ResponseError
  | IndexError
  | IntegrityError
  | DBAPIError
  | NoResultFound
  | HTTPException nat
  | HTTPStatusError
  | ZeroDivisionError

datatype exc = Raise (exc_of: exc_class) (exc_text: string)

text \<open>\<open>type(error).__name__\<close>.\<close>

fun class_name :: "exc_class \<Rightarrow> string" where
  "class_name NotFoundError = ''NotFoundError''"
| "class_name PolicyViolationError = ''PolicyViolationError''"
| "class_name UnknownToolError = ''UnknownToolError''"
| "class_name TypeError = ''TypeError''"
| "class_name KeyError = ''KeyError''"
| "class_name AttributeError = ''AttributeError''"
| "class_name ValueError = ''ValueError''"
| "class_name ValidationError = ''ValidationError''"
| "class_name AssertionError = ''AssertionError''"
| "class_name TransientModelError = ''TransientModelError''"
| "class_name JudgeResponseError = ''JudgeResponseError''"
| "class_name DuplicateGoldLabelError = ''DuplicateGoldLabelError''"
| "class_name SuiteIntegrityError = ''SuiteIntegrityError''"
| "class_name ResponseError = ''ResponseError''"
| "class_name IndexError = ''IndexError''"
| "class_name IntegrityError = ''IntegrityError''"
| "class_name DBAPIError = ''DBAPIError''"
| "class_name NoResultFound = ''NoResultFound''"
| "class_name (HTTPException n) = ''HTTPException''"
| "class_name HTTPStatusError = ''HTTPStatusError''"
| "class_name ZeroDivisionError = ''ZeroDivisionError''"

fun type_name :: "pyval \<Rightarrow> string" where
  "type_name PNone = ''NoneType''"
| "type_name (PBool b) = ''bool''"
| "type_name (PInt i) = ''int''"
| "type_name (PStr s) = ''str''"
| "type_name (PList xs) = ''list''"
| "type_name (PDict d) = ''dict''"

section \<open>Text of values\<close>

definition hex_digit :: "nat \<Rightarrow> char" where
  "hex_digit n = (if n < 10 then char_of (48 + n) else char_of (87 + n))"

definition hex_byte :: "char \<Rightarrow> string" where
  "hex_byte c = [hex_digit (of_char c div 16), hex_digit (of_char c mod 16)]"

text \<open>\<open>repr\<close> of a string: double quotes only when the text has a single and no double quote.\<close>

definition repr_quote :: "string \<Rightarrow> char" where
  "repr_quote s = (if CHR 0x27 \<in> set s \<and> CHR 0x22 \<notin> set s then CHR 0x22 else CHR 0x27)"

definition repr_char :: "char \<Rightarrow> char \<Rightarrow> string" where
  "repr_char q c =
     (let n = (of_char c :: nat) in
      if c = q \<or> c = CHR 0x5C then [CHR 0x5C, c]
      else if c = CHR 0x0A then [CHR 0x5C, CHR ''n'']
      else if c = CHR 0x0D then [CHR 0x5C, CHR ''r'']
      else if c = CHR 0x09 then [CHR 0x5C, CHR ''t'']
      else if n < 32 \<or> 127 \<le> n \<and> n \<le> 160 \<or> n = 173 then [CHR 0x5C, CHR ''x''] @ hex_byte c
      else [c])"

definition repr_str :: "string \<Rightarrow> string" where
  "repr_str s = (let q = repr_quote s in [q] @ concat (map (repr_char q) s) @ [q])"

fun py_repr :: "pyval \<Rightarrow> string" where
  "py_repr PNone = ''None''"
| "py_repr (PBool b) = (if b then ''True'' else ''False'')"
| "py_repr (PInt i) = int_text i"
| "py_repr (PStr s) = repr_str s"
| "py_repr (PList xs) = ''['' @ join_with '', '' (map py_repr xs) @ '']''"
| "py_repr (PDict d) =
     ''{'' @ join_with '', '' (map (\<lambda>(k, v). repr_str k @ '': '' @ py_repr v) d) @ ''}''"

fun py_str :: "pyval \<Rightarrow> string" where
  "py_str (PStr s) = s"
| "py_str v = py_repr v"

section \<open>Equality\<close>

text \<open>
  \<open>==\<close>: booleans are the integers 0 and 1, dictionaries compare without their order.
\<close>

fun num_of :: "pyval \<Rightarrow> int option" where
  "num_of (PInt i) = Some i"
| "num_of (PBool b) = Some (if b then 1 else 0)"
| "num_of v = None"

fun py_eq :: "pyval \<Rightarrow> pyval \<Rightarrow> bool" where
  "py_eq PNone w = (w = PNone)"
| "py_eq (PBool b) w = (num_of w = Some (if b then 1 else 0))"
| "py_eq (PInt i) w = (num_of w = Some i)"
| "py_eq (PStr s) w = (w = PStr s)"
| "py_eq (PList []) w = (w = PList [])"
| "py_eq (PList (x # xs)) w =
     (case w of PList (y # ys) \<Rightarrow> py_eq x y \<and> py_eq (PList xs) (PList ys) | _ \<Rightarrow> False)"
| "py_eq (PDict d) w =
     (case w of
        PDict e \<Rightarrow> length d = length e \<and>
          list_all (\<lambda>(k, v). case map_of e k of None \<Rightarrow> False | Some u \<Rightarrow> py_eq v u) d
      | _ \<Rightarrow> False)"

text \<open>Every dictionary inside a value has each key once, as Python guarantees.\<close>

fun wf_val :: "pyval \<Rightarrow> bool" where
  "wf_val (PList xs) = list_all wf_val xs"
| "wf_val (PDict d) = (dict_ok d \<and> list_all (\<lambda>(k, v). wf_val v) d)"
| "wf_val v = True"

abbreviation wf_dict :: "pydict \<Rightarrow> bool" where
  "wf_dict d \<equiv> wf_val (PDict d)"

lemma wf_val_member: "wf_val (PList xs) \<Longrightarrow> x \<in> set xs \<Longrightarrow> wf_val x"
  by (simp add: list_all_iff)

lemma wf_dict_lookup: "wf_dict d \<Longrightarrow> map_of d k = Some v \<Longrightarrow> wf_val v"
  by (auto simp: list_all_iff dest!: map_of_SomeD)

lemma wf_dict_ok: "wf_dict d \<Longrightarrow> dict_ok d"
  by simp

lemma wf_dict_set [wf_intros]: "wf_dict d \<Longrightarrow> wf_val v \<Longrightarrow> wf_dict (dict_set k v d)"
  using set_dict_set_subset [of k v d] by (fastforce simp: list_all_iff)

text \<open>\<open>==\<close> is an equivalence on well-formed values.\<close>

lemma py_eq_refl: "wf_val v \<Longrightarrow> py_eq v v"
proof (induction v)
  case (PList xs)
  then show ?case by (induction xs) auto
next
  case (PDict d)
  have "py_eq v v" if "(k, v) \<in> set d" for k v
    using PDict that by (force simp: list_all_iff)
  with PDict.prems show ?case by (auto simp: list_all_iff dict_ok_def)
qed auto

lemma num_of_eq_Some: "num_of v = Some i \<longleftrightarrow> v = PInt i \<or> (\<exists>b. v = PBool b \<and> i = (if b then 1 else 0))"
  by (cases v) auto

lemma py_eq_num: "num_of v = Some i \<Longrightarrow> py_eq v w = (num_of w = Some i)"
  by (cases v) auto

lemma py_eq_PStr [simp]: "py_eq v (PStr s) = (v = PStr s)"
proof (cases v)
  case (PList xs)
  then show ?thesis by (cases xs) auto
qed auto

lemma py_eq_PNone [simp]: "py_eq v PNone = (v = PNone)"
proof (cases v)
  case (PList xs)
  then show ?thesis by (cases xs) auto
qed auto

lemma py_eq_PList_iff: "py_eq (PList xs) (PList ys) = list_all2 py_eq xs ys"
proof (induction xs arbitrary: ys)
  case (Cons x xs)
  then show ?case by (cases ys) auto
qed auto

text \<open>Equality of dictionaries key by key, over the union of the keys.\<close>

lemma py_eq_PDict_iff:
  assumes "dict_ok d" and "dict_ok e"
  shows "py_eq (PDict d) (PDict e) \<longleftrightarrow>
     set (keys d) = set (keys e) \<and>
     (\<forall>k v u. map_of d k = Some v \<longrightarrow> map_of e k = Some u \<longrightarrow> py_eq v u)"
    (is "?L = ?R")
proof
  assume L: ?L
  have "k \<in> set (keys e)" if kv: "(k, v) \<in> set d" for k v
  proof -
    obtain u where "map_of e k = Some u"
      using L kv by (fastforce simp: list_all_iff split: option.splits)
    then show ?thesis by (rule map_of_Some_key)
  qed
  then have sub: "set (keys d) \<subseteq> set (keys e)" by auto
  have "length (keys d) = length (keys e)" using L by simp
  then have "card (set (keys d)) = card (set (keys e))"
    using assms by (simp only: dict_ok_def distinct_card)
  then have "set (keys d) = set (keys e)"
    using sub by (metis List.finite_set card_subset_eq)
  moreover have "py_eq v u" if "map_of d k = Some v" and "map_of e k = Some u" for k v u
    using L map_of_SomeD [OF that(1)] that(2) by (fastforce simp: list_all_iff)
  ultimately show ?R by blast
next
  assume R: ?R
  then have "card (set (keys d)) = card (set (keys e))" by simp
  then have "length (keys d) = length (keys e)"
    using assms by (simp only: dict_ok_def distinct_card)
  then have len: "length d = length e" by simp
  have "case map_of e k of None \<Rightarrow> False | Some u \<Rightarrow> py_eq v u" if kv: "(k, v) \<in> set d" for k v
  proof -
    have v: "map_of d k = Some v" using kv assms(1) by (simp add: dict_ok_def)
    have "k \<in> set (keys e)" using R kv by (force simp: rev_image_eqI)
    then obtain u where "map_of e k = Some u" by (metis map_of_eq_None_keys not_None_eq)
    with R v show ?thesis by auto
  qed
  with len show ?L by (auto simp: list_all_iff)
qed

lemma py_eq_PDict_shape: "py_eq v (PDict e) \<Longrightarrow> \<exists>d. v = PDict d"
proof (cases v)
  case (PList xs)
  then show "py_eq v (PDict e) \<Longrightarrow> ?thesis" by (cases xs) simp_all
qed simp_all

lemma py_eq_num_right: "num_of w = Some i \<Longrightarrow> py_eq v w = (num_of v = Some i)"
proof (cases v)
  case (PList xs)
  then show "num_of w = Some i \<Longrightarrow> ?thesis" by (cases w; cases xs) simp_all
next
  case (PDict d)
  then show "num_of w = Some i \<Longrightarrow> ?thesis" by (cases w) simp_all
qed auto

lemma py_eq_sym_imp: "wf_val v \<Longrightarrow> wf_val w \<Longrightarrow> py_eq v w \<Longrightarrow> py_eq w v"
proof (induction v arbitrary: w)
  case (PList xs)
  from PList.prems(3) obtain ys where w: "w = PList ys" by (cases w; cases xs) simp_all
  have "list_all2 py_eq ys xs" if "list_all2 py_eq xs ys"
    using that PList unfolding w by (auto simp: list_all2_conv_all_nth list_all_length)
  then show ?case using PList.prems(3) unfolding w py_eq_PList_iff by blast
next
  case (PDict d)
  from PDict.prems(3) obtain e where w: "w = PDict e" by (cases w) simp_all
  have ok: "dict_ok d" "dict_ok e" using PDict.prems(1,2) by (auto simp: w)
  have eq: "set (keys d) = set (keys e)"
    and pt: "\<And>k v u. map_of d k = Some v \<Longrightarrow> map_of e k = Some u \<Longrightarrow> py_eq v u"
    using PDict.prems(3) py_eq_PDict_iff [OF ok] by (auto simp: w)
  have "py_eq u v" if "map_of e k = Some u" "map_of d k = Some v" for k u v
  proof -
    have "(k, v) \<in> set d" using that(2) by (rule map_of_SomeD)
    moreover have "wf_val v" "wf_val u"
      using PDict.prems(1,2) that wf_dict_lookup unfolding w by blast+
    ultimately show ?thesis using PDict.IH [of "(k, v)" v u] pt that by simp
  qed
  then show ?case unfolding w using py_eq_PDict_iff [OF ok(2,1)] eq by blast
qed (auto simp: py_eq_num_right)

lemma py_eq_sym: "wf_val v \<Longrightarrow> wf_val w \<Longrightarrow> py_eq v w = py_eq w v"
  using py_eq_sym_imp by blast

section \<open>Ordering\<close>

text \<open>
  \<open>v < w\<close> and \<open>v <= w\<close> on numbers, on text by code points, on lists by their first elements
  that are not equal; anything else raises. An unorderable pair is reported by its type names.
\<close>

datatype py_order = Less | Equal | Greater

definition order_of :: "'a::linorder \<Rightarrow> 'a \<Rightarrow> py_order" where
  "order_of x y = (if x < y then Less else if x = y then Equal else Greater)"

fun py_cmp :: "pyval \<Rightarrow> pyval \<Rightarrow> (string \<times> string, py_order) res" where
  "py_cmp (PStr s) (PStr t) = Inr (order_of s t)"
| "py_cmp (PList []) (PList []) = Inr Equal"
| "py_cmp (PList []) (PList (y # ys)) = Inr Less"
| "py_cmp (PList (x # xs)) (PList []) = Inr Greater"
| "py_cmp (PList (x # xs)) (PList (y # ys)) =
     (if py_eq x y then py_cmp (PList xs) (PList ys) else py_cmp x y)"
| "py_cmp v w =
     (case (num_of v, num_of w) of
        (Some i, Some j) \<Rightarrow> Inr (order_of i j)
      | _ \<Rightarrow> Inl (type_name v, type_name w))"

definition unorderable :: "string \<Rightarrow> string \<times> string \<Rightarrow> exc" where
  "unorderable op = (\<lambda>(l, r). Raise TypeError
     (repr_str op @ '' not supported between instances of '' @ repr_str l @ '' and '' @ repr_str r))"

definition py_le :: "pyval \<Rightarrow> pyval \<Rightarrow> (exc, bool) res" where
  "py_le v w = (case py_cmp v w of
     Inl p \<Rightarrow> Inl (unorderable ''<='' p) | Inr c \<Rightarrow> Inr (c \<noteq> Greater))"

definition py_gt :: "pyval \<Rightarrow> pyval \<Rightarrow> (exc, bool) res" where
  "py_gt v w = (case py_cmp v w of
     Inl p \<Rightarrow> Inl (unorderable ''>'' p) | Inr c \<Rightarrow> Inr (c = Greater))"

lemma py_le_nums: "num_of v = Some i \<Longrightarrow> num_of w = Some j \<Longrightarrow> py_le v w = Inr (i \<le> j)"
  by (cases v; cases w) (auto simp: py_le_def order_of_def)

lemma py_gt_nums: "num_of v = Some i \<Longrightarrow> num_of w = Some j \<Longrightarrow> py_gt v w = Inr (j < i)"
  by (cases v; cases w) (auto simp: py_gt_def order_of_def)

lemma py_cmp_num_ok: "py_cmp v w = Inr c \<Longrightarrow> num_of w = Some j \<Longrightarrow> \<exists>i. num_of v = Some i"
  by (cases "(v, w)" rule: py_cmp.cases) (auto split: option.splits)

section \<open>Reading and writing containers\<close>

definition unhashable :: "pyval \<Rightarrow> exc" where
  "unhashable v = Raise TypeError (''unhashable type: '' @ repr_str (type_name v))"

fun hashable :: "pyval \<Rightarrow> bool" where
  "hashable (PList xs) = False"
| "hashable (PDict d) = False"
| "hashable v = True"

text \<open>\<open>obj[key]\<close> with a text key.\<close>

fun py_getitem :: "pyval \<Rightarrow> string \<Rightarrow> (exc, pyval) res" where
  "py_getitem (PDict d) k =
     (case map_of d k of None \<Rightarrow> Inl (Raise KeyError (repr_str k)) | Some v \<Rightarrow> Inr v)"
| "py_getitem (PList xs) k = Inl (Raise TypeError ''list indices must be integers or slices, not str'')"
| "py_getitem (PStr s) k =
     Inl (Raise TypeError (''string indices must be integers, not '' @ repr_str ''str''))"
| "py_getitem v k = Inl (Raise TypeError (repr_str (type_name v) @ '' object is not subscriptable''))"

text \<open>\<open>obj[key] = value\<close> with a text key; the object afterwards.\<close>

fun py_setitem :: "pyval \<Rightarrow> string \<Rightarrow> pyval \<Rightarrow> (exc, pyval) res" where
  "py_setitem (PDict d) k v = Inr (PDict (dict_set k v d))"
| "py_setitem (PList xs) k v =
     Inl (Raise TypeError ''list indices must be integers or slices, not str'')"
| "py_setitem w k v =
     Inl (Raise TypeError (repr_str (type_name w) @ '' object does not support item assignment''))"

definition no_attribute :: "pyval \<Rightarrow> string \<Rightarrow> exc" where
  "no_attribute v a =
     Raise AttributeError (repr_str (type_name v) @ '' object has no attribute '' @ repr_str a)"

text \<open>\<open>obj.get(key, default)\<close> with any key.\<close>

fun py_get :: "pyval \<Rightarrow> pyval \<Rightarrow> pyval \<Rightarrow> (exc, pyval) res" where
  "py_get (PDict d) k dflt =
     (if \<not> hashable k then Inl (unhashable k)
      else case k of
          PStr s \<Rightarrow> Inr (case map_of d s of None \<Rightarrow> dflt | Some v \<Rightarrow> v)
        | _ \<Rightarrow> Inr dflt)"
| "py_get v k dflt = Inl (no_attribute v ''get'')"

text \<open>\<open>key in obj\<close>.\<close>

definition substring :: "string \<Rightarrow> string \<Rightarrow> bool" where
  "substring s t \<longleftrightarrow> list_ex (\<lambda>i. take (length s) (drop i t) = s) [0..<Suc (length t)]"

fun py_in :: "pyval \<Rightarrow> pyval \<Rightarrow> (exc, bool) res" where
  "py_in k (PDict d) =
     (if \<not> hashable k then Inl (unhashable k)
      else Inr (case k of PStr s \<Rightarrow> s \<in> set (keys d) | _ \<Rightarrow> False))"
| "py_in k (PList xs) = Inr (list_ex (\<lambda>x. py_eq x k) xs)"
| "py_in k (PStr t) =
     (case k of
        PStr s \<Rightarrow> Inr (substring s t)
      | _ \<Rightarrow> Inl (Raise TypeError
          (repr_str ''in <string>'' @ '' requires string as left operand, not '' @ type_name k)))"
| "py_in k v =
     Inl (Raise TypeError (''argument of type '' @ repr_str (type_name v) @ '' is not iterable''))"

text \<open>\<open>value in frozenset({...})\<close> for a set of texts.\<close>

definition in_frozenset :: "pyval \<Rightarrow> string set \<Rightarrow> (exc, bool) res" where
  "in_frozenset v S =
     (if \<not> hashable v then Inl (unhashable v)
      else Inr (case v of PStr s \<Rightarrow> s \<in> S | _ \<Rightarrow> False))"

text \<open>\<open>for x in obj\<close>: what the loop runs over.\<close>

fun py_iter :: "pyval \<Rightarrow> (exc, pyval list) res" where
  "py_iter (PList xs) = Inr xs"
| "py_iter (PDict d) = Inr (map PStr (keys d))"
| "py_iter (PStr s) = Inr (map (\<lambda>c. PStr [c]) s)"
| "py_iter v = Inl (Raise TypeError (repr_str (type_name v) @ '' object is not iterable''))"

text \<open>\<open>obj.append(x)\<close> and \<open>obj + 1\<close>.\<close>

fun py_append :: "pyval \<Rightarrow> pyval \<Rightarrow> (exc, pyval) res" where
  "py_append (PList xs) x = Inr (PList (xs @ [x]))"
| "py_append v x = Inl (no_attribute v ''append'')"

fun py_add1 :: "pyval \<Rightarrow> (exc, pyval) res" where
  "py_add1 (PInt i) = Inr (PInt (i + 1))"
| "py_add1 (PBool b) = Inr (PInt ((if b then 1 else 0) + 1))"
| "py_add1 (PStr s) = Inl (Raise TypeError
     (''can only concatenate str (not '' @ [CHR 0x22] @ ''int'' @ [CHR 0x22] @ '') to str''))"
| "py_add1 (PList xs) = Inl (Raise TypeError
     (''can only concatenate list (not '' @ [CHR 0x22] @ ''int'' @ [CHR 0x22] @ '') to list''))"
| "py_add1 v = Inl (Raise TypeError
     (''unsupported operand type(s) for +: '' @ repr_str (type_name v) @ '' and '' @ repr_str ''int''))"

text \<open>\<open>obj + n\<close> for an integer, \<open>obj[key]\<close> with any key, and \<open>{**obj}\<close>.\<close>

fun py_add_int :: "pyval \<Rightarrow> int \<Rightarrow> (exc, pyval) res" where
  "py_add_int (PInt i) n = Inr (PInt (i + n))"
| "py_add_int (PBool b) n = Inr (PInt ((if b then 1 else 0) + n))"
| "py_add_int v n = py_add1 v"

definition index_list :: "'a list \<Rightarrow> int \<Rightarrow> string \<Rightarrow> (exc, 'a) res" where
  "index_list xs i kind =
     (let j = (if i < 0 then i + int (length xs) else i) in
      if 0 \<le> j \<and> j < int (length xs) then Inr (xs ! nat j)
      else Inl (Raise IndexError (kind @ '' index out of range'')))"

fun py_index :: "pyval \<Rightarrow> pyval \<Rightarrow> (exc, pyval) res" where
  "py_index (PDict d) k =
     (if \<not> hashable k then Inl (unhashable k)
      else case (case k of PStr s \<Rightarrow> map_of d s | _ \<Rightarrow> None) of
          Some v \<Rightarrow> Inr v
        | None \<Rightarrow> Inl (Raise KeyError (py_repr k)))"
| "py_index (PList xs) k =
     (case num_of k of
        Some i \<Rightarrow> index_list xs i ''list''
      | None \<Rightarrow> Inl (Raise TypeError (''list indices must be integers or slices, not '' @ type_name k)))"
| "py_index (PStr s) k =
     (case num_of k of
        Some i \<Rightarrow> map_sum id (\<lambda>c. PStr [c]) (index_list s i ''string'')
      | None \<Rightarrow> Inl (Raise TypeError (''string indices must be integers, not '' @ repr_str (type_name k))))"
| "py_index v k = Inl (Raise TypeError (repr_str (type_name v) @ '' object is not subscriptable''))"

fun unpack_mapping :: "pyval \<Rightarrow> (exc, pydict) res" where
  "unpack_mapping (PDict d) = Inr d"
| "unpack_mapping v = Inl (Raise TypeError (repr_str (type_name v) @ '' object is not a mapping''))"

lemma unpack_mapping_Inr [simp]: "unpack_mapping v = Inr d \<longleftrightarrow> v = PDict d"
  by (cases v) auto

lemma py_getitem_eq_Inr [result_elims]:
  "py_getitem v k = Inr u \<longleftrightarrow> (\<exists>d. v = PDict d \<and> map_of d k = Some u)"
  by (cases v) (auto split: option.splits)

lemma py_setitem_eq_Inr [result_elims]:
  "py_setitem v k x = Inr u \<longleftrightarrow> (\<exists>d. v = PDict d \<and> u = PDict (dict_set k x d))"
  by (cases v) auto

lemma py_get_str [simp]:
  "py_get (PDict d) (PStr s) dflt = Inr (case map_of d s of None \<Rightarrow> dflt | Some v \<Rightarrow> v)"
  by simp

text \<open>A \<open>.get\<close> that finds something other than its default found it under a text key.\<close>

lemma py_get_found:
  assumes "py_get v k dflt = Inr u" and "u \<noteq> dflt"
  shows "\<exists>d s. v = PDict d \<and> k = PStr s \<and> map_of d s = Some u"
  using assms by (cases v; cases k) (auto split: option.splits if_splits)

lemma py_in_dict_str [simp]: "py_in (PStr s) (PDict d) = Inr (s \<in> set (keys d))"
  by simp

end
