(* ===== verification/Redaction.thy ===== *)
theory Redaction
  imports PyValue
begin

text \<open>
  \<open>backend/app/redaction.py\<close>: the copy of a trace payload that is persisted, with the value
  under every sensitive key replaced, at any depth. The theorems: nothing sensitive survives,
  the shape and every other value do, redaction is idempotent, and two payloads have the same
  redacted copy exactly when they differ under sensitive keys only.
\<close>

section \<open>The operations\<close>

definition REDACTED :: string where
  "REDACTED = ''[REDACTED]''"

definition SENSITIVE_KEYS :: "string list" where
  "SENSITIVE_KEYS =
     [''name'', ''email'', ''phone'', ''phone_number'', ''address'', ''ssn'', ''credit_card'',
      ''card_number'']"

text \<open>\<open>str.lower\<close> on code points below 256.\<close>

definition lower_char :: "char \<Rightarrow> char" where
  "lower_char c =
     (let n = (of_char c :: nat) in
      if 65 \<le> n \<and> n \<le> 90 \<or> 192 \<le> n \<and> n \<le> 222 \<and> n \<noteq> 215 then char_of (n + 32) else c)"

definition lower :: "string \<Rightarrow> string" where
  "lower s = map lower_char s"

definition sensitive :: "string \<Rightarrow> bool" where
  "sensitive key \<longleftrightarrow> lower key \<in> set SENSITIVE_KEYS"

fun redact_value :: "pyval \<Rightarrow> pyval" where
  "redact_value (PDict d) =
     PDict (map (\<lambda>(key, item). (key, if sensitive key then PStr REDACTED else redact_value item)) d)"
| "redact_value (PList xs) = PList (map redact_value xs)"
| "redact_value v = v"

definition redact_payload :: "pydict \<Rightarrow> pydict" where
  "redact_payload payload =
     map (\<lambda>(key, item). (key, if sensitive key then PStr REDACTED else redact_value item)) payload"

lemma redact_value_PDict: "redact_value (PDict d) = PDict (redact_payload d)"
  by (simp add: redact_payload_def)

section \<open>What redaction guarantees\<close>

text \<open>No sensitive key of the value, at any depth, holds anything but the marker.\<close>

fun no_sensitive :: "pyval \<Rightarrow> bool" where
  "no_sensitive (PDict d) =
     list_all (\<lambda>(key, item). if sensitive key then item = PStr REDACTED else no_sensitive item) d"
| "no_sensitive (PList xs) = list_all no_sensitive xs"
| "no_sensitive v = True"

text \<open>
  Two values that agree except under sensitive keys: same shape, same keys in the same order,
  same leaves wherever no sensitive key is above them.
\<close>

fun same_public :: "pyval \<Rightarrow> pyval \<Rightarrow> bool" where
  "same_public (PDict []) w = (w = PDict [])"
| "same_public (PDict ((k, v) # d)) w =
     (case w of
        PDict ((k', v') # d') \<Rightarrow>
          k = k' \<and> (sensitive k \<or> same_public v v') \<and> same_public (PDict d) (PDict d')
      | _ \<Rightarrow> False)"
| "same_public (PList []) w = (w = PList [])"
| "same_public (PList (x # xs)) w =
     (case w of PList (y # ys) \<Rightarrow> same_public x y \<and> same_public (PList xs) (PList ys) | _ \<Rightarrow> False)"
| "same_public v w = (v = w)"

lemma redact_value_no_sensitive: "no_sensitive (redact_value v)"
  by (induction v rule: redact_value.induct) (auto simp: list_all_iff)

lemma redact_value_fixpoint: "no_sensitive v \<Longrightarrow> redact_value v = v"
proof (induction v rule: redact_value.induct)
  case (1 d)
  then show ?case by (auto simp: list_all_iff intro!: map_idI split: if_splits)
next
  case (2 xs)
  then show ?case by (auto simp: list_all_iff intro!: map_idI)
qed auto

lemma redact_payload_keys [simp]: "keys (redact_payload d) = keys d"
  by (induction d) (auto simp: redact_payload_def)

lemma redact_payload_lookup:
  "map_of (redact_payload d) k =
     map_option (\<lambda>v. if sensitive k then PStr REDACTED else redact_value v) (map_of d k)"
  by (induction d) (auto simp: redact_payload_def)

lemma redact_payload_no_sensitive: "no_sensitive (PDict (redact_payload d))"
  using redact_value_no_sensitive [of "PDict d"] by (simp only: redact_value_PDict)

lemma redact_payload_idem [simp]: "redact_payload (redact_payload d) = redact_payload d"
  using redact_value_fixpoint [OF redact_value_no_sensitive [of "PDict d"]]
  by (simp only: redact_value_PDict pyval.inject)

lemma redact_value_wf: "wf_val v \<Longrightarrow> wf_val (redact_value v)"
proof (induction v rule: redact_value.induct)
  case (1 d)
  have "list_all (\<lambda>(k, u). wf_val u) (redact_payload d)"
    using 1 by (auto simp: redact_payload_def list_all_iff)
  moreover have "dict_ok (redact_payload d)"
    using "1.prems" by (simp add: dict_ok_def)
  ultimately show ?case by (simp add: redact_value_PDict del: redact_value.simps)
qed (auto simp: list_all_iff)

lemma same_public_sound: "same_public v w \<Longrightarrow> redact_value v = redact_value w"
  by (induction v w rule: same_public.induct) (auto split: pyval.splits list.splits)

lemma redact_value_leaf:
  "(PNone = redact_value w) = (PNone = w)" "(PBool b = redact_value w) = (PBool b = w)"
  "(PInt i = redact_value w) = (PInt i = w)" "(PStr s = redact_value w) = (PStr s = w)"
  by (cases w; simp; blast)+

lemma same_public_complete: "redact_value v = redact_value w \<Longrightarrow> same_public v w"
proof (induction v w rule: same_public.induct)
  case (1 w)
  then show ?case by (cases w) auto
next
  case (2 k v d w)
  then obtain d2 where w: "w = PDict d2" by (cases w) auto
  with 2 show ?case by (cases d2) (auto split: if_splits)
next
  case (3 w)
  then show ?case by (cases w) auto
next
  case (4 x xs w)
  then obtain ys where w: "w = PList ys" by (cases w) auto
  with 4 show ?case by (cases ys) auto
qed (auto simp: redact_value_leaf)

text \<open>The value at a path of keys and indices inside a value.\<close>

datatype path_step = Key string | Idx nat

fun value_at :: "pyval \<Rightarrow> path_step list \<Rightarrow> pyval option" where
  "value_at v [] = Some v"
| "value_at (PDict d) (Key k # p) = (case map_of d k of None \<Rightarrow> None | Some u \<Rightarrow> value_at u p)"
| "value_at (PList xs) (Idx i # p) = (if i < length xs then value_at (xs ! i) p else None)"
| "value_at v p = None"

fun public_step :: "path_step \<Rightarrow> bool" where
  "public_step (Key k) = (\<not> sensitive k)"
| "public_step (Idx i) = True"

lemma value_at_redact_public:
  "list_all public_step p \<Longrightarrow> value_at (redact_value v) p = map_option redact_value (value_at v p)"
proof (induction v p rule: value_at.induct)
  case (2 d k p)
  then show ?case
    by (auto simp: redact_value_PDict redact_payload_lookup simp del: redact_value.simps
      split: option.splits)
qed auto

lemma value_at_append:
  "value_at v (p @ q) = (case value_at v p of None \<Rightarrow> None | Some u \<Rightarrow> value_at u q)"
  by (induction v p rule: value_at.induct) (auto split: option.splits)

lemma value_at_redact_sensitive:
  assumes "list_all public_step p" and "sensitive k"
  shows "value_at (redact_value v) (p @ Key k # q) =
    (if value_at v (p @ [Key k]) = None then None else if q = [] then Some (PStr REDACTED) else None)"
proof (cases "value_at v p")
  case None
  then show ?thesis using value_at_redact_public [OF assms(1), of v] by (simp add: value_at_append)
next
  case (Some u)
  have at: "value_at (redact_value v) p = Some (redact_value u)"
    using value_at_redact_public [OF assms(1), of v] Some by simp
  show ?thesis
  proof (cases u)
    case (PDict d)
    have "value_at (PStr REDACTED) q = (if q = [] then Some (PStr REDACTED) else None)"
      by (cases q) auto
    then show ?thesis using assms(2) at Some PDict
      by (auto simp: value_at_append redact_value_PDict redact_payload_lookup
        simp del: redact_value.simps split: option.splits)
  qed (use at Some in \<open>auto simp: value_at_append\<close>)
qed

section \<open>Properties of redaction\<close>

text \<open>C15: Redaction removes every value under a sensitive key at any depth, is idempotent, and
  loses nothing else: two payloads have the same redacted copy exactly when they agree outside
  the sensitive keys.\<close>

theorem redaction_hides_exactly_the_sensitive:
  "no_sensitive (redact_value v) \<and> redact_value (redact_value v) = redact_value v \<and>
   (redact_value v = redact_value w \<longleftrightarrow> same_public v w)"
  using redact_value_no_sensitive redact_value_fixpoint same_public_sound same_public_complete by metis

text \<open>What is found at a path of a redacted payload: along public keys the redacted original
  value, under a sensitive key the marker when the original has the key, and nothing below it.\<close>

theorem redaction_at_path:
  assumes "list_all public_step p" and "sensitive k"
  shows "value_at (redact_value v) p = map_option redact_value (value_at v p) \<and>
    value_at (redact_value v) (p @ Key k # q) =
      (if value_at v (p @ [Key k]) = None then None else if q = [] then Some (PStr REDACTED) else None)"
  using value_at_redact_public value_at_redact_sensitive assms by blast

theorem redaction_at_path_witness:
  "value_at (redact_value (PDict [(''items'', PList [PDict [(''Email'', PStr ''a@b'')]])]))
     ([Key ''items'', Idx 0] @ Key ''Email'' # []) = Some (PStr REDACTED)"
proof -
  have "list_all public_step [Key ''items'', Idx 0]" "sensitive ''Email''" by code_simp+
  from redaction_at_path [OF this, of "PDict [(''items'', PList [PDict [(''Email'', PStr ''a@b'')]])]" "[]"]
  show ?thesis by simp
qed

end
