(* ===== verification/SupportTools.thy ===== *)
theory SupportTools
  imports PyValue
begin

text \<open>
  \<open>tool_environment/\<close>: the deterministic customer-support services an evaluated agent calls.
  The state is the five collections of \<open>SupportState\<close>, each the dynamic value the task seeded
  it with; every service method is one definition. A method that writes returns the state it
  leaves behind with its outcome, because an exception raised half-way (a ticket whose notes are
  not a list, say) leaves the writes done before it.
\<close>

section \<open>State\<close>

record support_state =
  customers :: pyval
  orders :: pyval
  refunds :: pyval
  replacements :: pyval
  tickets :: pyval

definition seeded :: "pydict \<Rightarrow> string \<Rightarrow> pyval" where
  "seeded data k = (case map_of data k of None \<Rightarrow> PDict [] | Some v \<Rightarrow> v)"

text \<open>\<open>SupportState.from_mapping\<close> and \<open>snapshot\<close>; a deep copy of a value is the value.\<close>

definition from_mapping :: "pydict \<Rightarrow> support_state" where
  "from_mapping data =
     \<lparr>customers = seeded data ''customers'',
      orders = seeded data ''orders'',
      refunds = seeded data ''refunds'',
      replacements = seeded data ''replacements'',
      tickets = seeded data ''tickets''\<rparr>"

definition snapshot :: "support_state \<Rightarrow> pydict" where
  "snapshot st =
     [(''customers'', customers st), (''orders'', orders st), (''refunds'', refunds st),
      (''replacements'', replacements st), (''tickets'', tickets st)]"

type_synonym outcome = "(exc, pyval) res"

text \<open>
  Writing an entity object that the collection holds under \<open>entity_id\<close>: the source mutates the
  object in place, so the collection holds the new fields afterwards. An entity is only ever found
  under a text key of a dictionary.
\<close>

fun put_entity :: "pyval \<Rightarrow> pyval \<Rightarrow> pyval \<Rightarrow> pyval" where
  "put_entity (PDict d) (PStr k) v = PDict (dict_set k v d)"
| "put_entity coll k v = coll"

text \<open>\<open>collection.get(id)\<close> followed by the \<open>None\<close> check every method starts with.\<close>

definition find_entity :: "string \<Rightarrow> pyval \<Rightarrow> pyval \<Rightarrow> outcome" where
  "find_entity kind coll entity_id =
     bind_res (py_get coll entity_id PNone) (\<lambda>entity.
       if entity = PNone
       then Inl (Raise NotFoundError (kind @ '' not found: '' @ py_str entity_id))
       else Inr entity)"

section \<open>CustomerService and OrderService\<close>

definition get_customer :: "support_state \<Rightarrow> pyval \<Rightarrow> outcome" where
  "get_customer st customer_id = find_entity ''Customer'' (customers st) customer_id"

definition CANCELLABLE_STATUSES :: "string list" where
  "CANCELLABLE_STATUSES = [''placed'', ''processing'', ''shipped'']"

definition find_order :: "support_state \<Rightarrow> pyval \<Rightarrow> outcome" where
  "find_order st order_id = find_entity ''Order'' (orders st) order_id"

definition get_order :: "support_state \<Rightarrow> pyval \<Rightarrow> outcome" where
  "get_order st order_id = find_order st order_id"

definition check_owner :: "pyval \<Rightarrow> pyval \<Rightarrow> pyval \<Rightarrow> (exc, unit) res" where
  "check_owner order order_id requesting_customer_id =
     bind_res (py_getitem order ''customer_id'') (\<lambda>owner.
       if \<not> py_eq owner requesting_customer_id
       then Inl (Raise PolicyViolationError
         (''Order '' @ py_str order_id @ '' does not belong to customer '' @ py_str requesting_customer_id))
       else Inr ())"

definition cancel_order :: "support_state \<Rightarrow> pyval \<Rightarrow> pyval \<Rightarrow> outcome \<times> support_state" where
  "cancel_order st order_id requesting_customer_id =
     (case
        bind_res (find_order st order_id) (\<lambda>order.
        bind_res (check_owner order order_id requesting_customer_id) (\<lambda>_.
        bind_res (py_getitem order ''status'') (\<lambda>status.
        bind_res (in_frozenset status (set CANCELLABLE_STATUSES)) (\<lambda>cancellable.
          if \<not> cancellable
          then Inl (Raise PolicyViolationError
            (''Order cannot be cancelled once its status is '' @ py_repr status @ '': '' @ py_str order_id))
          else py_setitem order ''status'' (PStr ''cancelled'')))))
      of
        Inl e \<Rightarrow> (Inl e, st)
      | Inr order \<Rightarrow> (Inr order, st\<lparr>orders := put_entity (orders st) order_id order\<rparr>))"

section \<open>PolicyService\<close>

definition REFUND_WINDOW_DAYS :: int where
  "REFUND_WINDOW_DAYS = 30"

definition REPLACEMENT_WINDOW_DAYS :: int where
  "REPLACEMENT_WINDOW_DAYS = 30"

text \<open>\<open>order["status"] == "delivered" and order["delivered_days_ago"] <= window\<close>.\<close>

definition within_window :: "pyval \<Rightarrow> int \<Rightarrow> (exc, bool) res" where
  "within_window order window =
     bind_res (py_getitem order ''status'') (\<lambda>status.
       if py_eq status (PStr ''delivered'')
       then bind_res (py_getitem order ''delivered_days_ago'') (\<lambda>days. py_le days (PInt window))
       else Inr False)"

definition window_reason :: "bool \<Rightarrow> pyval" where
  "window_reason eligible = PStr (if eligible then ''within_window'' else ''outside_policy'')"

definition check_refund_policy :: "support_state \<Rightarrow> pyval \<Rightarrow> outcome" where
  "check_refund_policy st order_id =
     bind_res (find_order st order_id) (\<lambda>order.
     bind_res (within_window order REFUND_WINDOW_DAYS) (\<lambda>eligible.
     bind_res (if eligible then py_getitem order ''total_cents'' else Inr (PInt 0)) (\<lambda>max_refund.
       Inr (PDict [(''order_id'', order_id), (''eligible'', PBool eligible),
         (''max_refund_cents'', max_refund), (''reason'', window_reason eligible)]))))"

definition check_replacement_policy :: "support_state \<Rightarrow> pyval \<Rightarrow> outcome" where
  "check_replacement_policy st order_id =
     bind_res (find_order st order_id) (\<lambda>order.
     bind_res (within_window order REPLACEMENT_WINDOW_DAYS) (\<lambda>eligible.
       Inr (PDict [(''order_id'', order_id), (''eligible'', PBool eligible),
         (''reason'', window_reason eligible)])))"

text \<open>\<open>policy["eligible"]\<close> of a policy the service just built, where it is a boolean.\<close>

definition policy_eligible :: "pyval \<Rightarrow> (exc, bool) res" where
  "policy_eligible policy =
     bind_res (py_getitem policy ''eligible'') (\<lambda>v. Inr (py_eq v (PBool True)))"

text \<open>\<open>any(item["sku"] == sku for item in items)\<close>, which stops at the first match.\<close>

fun any_sku :: "pyval \<Rightarrow> pyval list \<Rightarrow> (exc, bool) res" where
  "any_sku sku [] = Inr False"
| "any_sku sku (item # items) =
     bind_res (py_getitem item ''sku'') (\<lambda>s. if py_eq s sku then Inr True else any_sku sku items)"

definition replace_item ::
  "support_state \<Rightarrow> pyval \<Rightarrow> pyval \<Rightarrow> pyval \<Rightarrow> pyval \<Rightarrow> outcome \<times> support_state" where
  "replace_item st order_id requesting_customer_id sku reason =
     (let replacement = PDict [(''order_id'', order_id), (''sku'', sku), (''reason'', reason)] in
      case
        bind_res (find_order st order_id) (\<lambda>order.
        bind_res (check_owner order order_id requesting_customer_id) (\<lambda>_.
        bind_res (py_get order (PStr ''items'') (PList [])) (\<lambda>items.
        bind_res (py_iter items) (\<lambda>items.
        bind_res (any_sku sku items) (\<lambda>found.
          if \<not> found
          then Inl (Raise NotFoundError
            (''Item not found on order '' @ py_str order_id @ '': '' @ py_str sku))
          else
        bind_res (py_in order_id (replacements st)) (\<lambda>exists.
          if exists
          then Inl (Raise PolicyViolationError
            (''A replacement already exists for order: '' @ py_str order_id))
          else
        bind_res (check_replacement_policy st order_id) (\<lambda>policy.
        bind_res (policy_eligible policy) (\<lambda>eligible.
          if \<not> eligible
          then Inl (Raise PolicyViolationError
            (''Order is not eligible for replacement: '' @ py_str order_id))
          else py_setitem (replacements st) (py_str order_id) replacement))))))))
      of
        Inl e \<Rightarrow> (Inl e, st)
      | Inr coll \<Rightarrow> (Inr replacement, st\<lparr>replacements := coll\<rparr>))"

section \<open>RefundService\<close>

definition create_refund ::
  "support_state \<Rightarrow> pyval \<Rightarrow> pyval \<Rightarrow> pyval \<Rightarrow> pyval \<Rightarrow> outcome \<times> support_state" where
  "create_refund st order_id requesting_customer_id amount_cents reason =
     (let refund = PDict [(''order_id'', order_id), (''amount_cents'', amount_cents), (''reason'', reason)] in
      case
        bind_res (find_order st order_id) (\<lambda>order.
        bind_res (check_owner order order_id requesting_customer_id) (\<lambda>_.
        bind_res (py_in order_id (refunds st)) (\<lambda>exists.
          if exists
          then Inl (Raise PolicyViolationError (''A refund already exists for order: '' @ py_str order_id))
          else
        bind_res (check_refund_policy st order_id) (\<lambda>policy.
        bind_res (policy_eligible policy) (\<lambda>eligible.
          if \<not> eligible
          then Inl (Raise PolicyViolationError (''Order is not eligible for refund: '' @ py_str order_id))
          else
        bind_res (py_getitem policy ''max_refund_cents'') (\<lambda>max_refund.
        bind_res (py_gt amount_cents max_refund) (\<lambda>too_much.
          if too_much
          then Inl (Raise PolicyViolationError ''Refund amount exceeds policy maximum'')
          else py_setitem (refunds st) (py_str order_id) refund)))))))
      of
        Inl e \<Rightarrow> (Inl e, st)
      | Inr coll \<Rightarrow> (Inr refund, st\<lparr>refunds := coll\<rparr>))"

section \<open>TicketService\<close>

definition ESCALATABLE_STATUSES :: "string list" where
  "ESCALATABLE_STATUSES = [''open'', ''pending'']"

definition find_ticket :: "support_state \<Rightarrow> pyval \<Rightarrow> outcome" where
  "find_ticket st ticket_id = find_entity ''Ticket'' (tickets st) ticket_id"

text \<open>\<open>ticket.setdefault("notes", []).append(note)\<close>: the ticket afterwards.\<close>

fun push_note :: "pyval \<Rightarrow> pyval \<Rightarrow> outcome" where
  "push_note (PDict d) note =
     bind_res (py_append (case map_of d ''notes'' of None \<Rightarrow> PList [] | Some v \<Rightarrow> v) note) (\<lambda>notes.
       Inr (PDict (dict_set ''notes'' notes d)))"
| "push_note v note = Inl (no_attribute v ''setdefault'')"

text \<open>One write to the ticket object; the state keeps the writes done before a failing one.\<close>

definition write_ticket ::
  "pyval \<Rightarrow> outcome \<Rightarrow> (pyval \<Rightarrow> support_state \<Rightarrow> outcome \<times> support_state) \<Rightarrow> support_state
    \<Rightarrow> outcome \<times> support_state" where
  "write_ticket ticket_id new_ticket rest st =
     (case new_ticket of
        Inl e \<Rightarrow> (Inl e, st)
      | Inr ticket \<Rightarrow> rest ticket (st\<lparr>tickets := put_entity (tickets st) ticket_id ticket\<rparr>))"

definition update_ticket ::
  "support_state \<Rightarrow> pyval \<Rightarrow> pyval \<Rightarrow> pyval \<Rightarrow> outcome \<times> support_state" where
  "update_ticket st ticket_id status note =
     (case find_ticket st ticket_id of
        Inl e \<Rightarrow> (Inl e, st)
      | Inr ticket \<Rightarrow>
          write_ticket ticket_id
            (if status \<noteq> PNone then py_setitem ticket ''status'' status else Inr ticket) (\<lambda>ticket.
          write_ticket ticket_id
            (if note \<noteq> PNone then push_note ticket note else Inr ticket) (\<lambda>ticket st.
          (Inr ticket, st))) st)"

definition escalate_ticket :: "support_state \<Rightarrow> pyval \<Rightarrow> pyval \<Rightarrow> outcome \<times> support_state" where
  "escalate_ticket st ticket_id reason =
     (case
        bind_res (find_ticket st ticket_id) (\<lambda>ticket.
        bind_res (py_getitem ticket ''status'') (\<lambda>status.
        bind_res (in_frozenset status (set ESCALATABLE_STATUSES)) (\<lambda>escalatable.
          if \<not> escalatable
          then Inl (Raise PolicyViolationError
            (''Ticket cannot be escalated from status '' @ py_repr status @ '': '' @ py_str ticket_id))
          else Inr ticket)))
      of
        Inl e \<Rightarrow> (Inl e, st)
      | Inr ticket \<Rightarrow>
          write_ticket ticket_id (py_setitem ticket ''status'' (PStr ''escalated'')) (\<lambda>ticket.
          write_ticket ticket_id
            (bind_res (py_get ticket (PStr ''escalation_count'') (PInt 0)) (\<lambda>n.
             bind_res (py_add1 n) (\<lambda>n. py_setitem ticket ''escalation_count'' n))) (\<lambda>ticket.
          write_ticket ticket_id (push_note ticket reason) (\<lambda>ticket st.
          (Inr ticket, st)))) st)"

section \<open>Well-formed states\<close>

text \<open>
  \<open>errors.py\<close>: \<open>ToolEnvironmentError\<close> and its two subclasses; with \<open>TypeError\<close> they are
  what a service method raises on a well-formed state.
\<close>

fun tool_environment_error :: "exc_class \<Rightarrow> bool" where
  "tool_environment_error NotFoundError = True"
| "tool_environment_error PolicyViolationError = True"
| "tool_environment_error c = False"

definition tool_failure :: "exc \<Rightarrow> bool" where
  "tool_failure e \<longleftrightarrow> tool_environment_error (exc_of e) \<or> exc_of e = TypeError"

fun field :: "pyval \<Rightarrow> string \<Rightarrow> pyval option" where
  "field (PDict d) k = map_of d k"
| "field v k = None"

definition num_field :: "pyval \<Rightarrow> string \<Rightarrow> int option" where
  "num_field v k = (case field v k of None \<Rightarrow> None | Some u \<Rightarrow> num_of u)"

definition item_ok :: "pyval \<Rightarrow> bool" where
  "item_ok item \<longleftrightarrow> field item ''sku'' \<noteq> None"

text \<open>The fields the services read, at the types they read them at.\<close>

definition wf_order :: "pyval \<Rightarrow> bool" where
  "wf_order order \<longleftrightarrow>
     wf_val order \<and> field order ''customer_id'' \<noteq> None \<and>
     (case field order ''status'' of
        Some (PStr s) \<Rightarrow> s = ''delivered'' \<longrightarrow> num_field order ''delivered_days_ago'' \<noteq> None
      | _ \<Rightarrow> False) \<and>
     num_field order ''total_cents'' \<noteq> None \<and>
     (case field order ''items'' of
        None \<Rightarrow> True | Some (PList items) \<Rightarrow> list_all item_ok items | _ \<Rightarrow> False)"

definition wf_ticket :: "pyval \<Rightarrow> bool" where
  "wf_ticket ticket \<longleftrightarrow>
     wf_val ticket \<and> field ticket ''status'' \<noteq> None \<and>
     (case field ticket ''notes'' of None \<Rightarrow> True | Some (PList xs) \<Rightarrow> True | _ \<Rightarrow> False) \<and>
     (case field ticket ''escalation_count'' of None \<Rightarrow> True | Some n \<Rightarrow> num_of n \<noteq> None)"

fun wf_collection :: "(pyval \<Rightarrow> bool) \<Rightarrow> pyval \<Rightarrow> bool" where
  "wf_collection P (PDict d) = (dict_ok d \<and> list_all (\<lambda>(k, v). P v) d)"
| "wf_collection P v = False"

definition wf_support :: "support_state \<Rightarrow> bool" where
  "wf_support st \<longleftrightarrow>
     wf_collection wf_val (customers st) \<and>
     wf_collection wf_order (orders st) \<and>
     wf_collection wf_val (refunds st) \<and>
     wf_collection wf_val (replacements st) \<and>
     wf_collection wf_ticket (tickets st)"

lemma wf_support_parts:
  assumes "wf_support st"
  shows "wf_collection wf_val (customers st)" "wf_collection wf_order (orders st)"
    "wf_collection wf_val (refunds st)" "wf_collection wf_val (replacements st)"
    "wf_collection wf_ticket (tickets st)"
  using assms by (simp_all add: wf_support_def)

lemma tool_failure_simps [simp]:
  "tool_failure (Raise NotFoundError m)"
  "tool_failure (Raise PolicyViolationError m)"
  "tool_failure (Raise TypeError m)"
  "tool_failure (unhashable v)"
  "tool_failure (unorderable s p)"
  by (auto simp: tool_failure_def unhashable_def unorderable_def split: prod.splits)

lemma wf_collection_PDict: "wf_collection P coll \<Longrightarrow> \<exists>d. coll = PDict d \<and> dict_ok d"
  by (cases coll) auto

lemma wf_collection_lookup: "wf_collection P coll \<Longrightarrow> field coll k = Some v \<Longrightarrow> P v"
  by (cases coll) (auto simp: list_all_iff dest!: map_of_SomeD)

lemma wf_collection_put [wf_intros]:
  "wf_collection P coll \<Longrightarrow> P v \<Longrightarrow> wf_collection P (put_entity coll k v)"
proof (cases coll)
  case (PDict d)
  assume "wf_collection P coll" "P v"
  then show ?thesis
    using PDict set_dict_set_subset by (cases k) (fastforce simp: list_all_iff)+
qed auto

lemma field_put_entity:
  "wf_collection P coll \<Longrightarrow>
     field (put_entity coll (PStr k) v) k' = (if k' = k then Some v else field coll k')"
  by (cases coll) auto

lemma py_setitem_put_entity:
  "wf_collection P coll \<Longrightarrow> py_setitem coll k v = Inr (put_entity coll (PStr k) v)"
  by (cases coll) auto

lemma py_getitem_field: "field v k = Some u \<Longrightarrow> py_getitem v k = Inr u"
  by (cases v) auto

lemma py_in_field:
  "wf_collection P coll \<Longrightarrow> py_in (PStr k) coll = Inr (field coll k \<noteq> None)"
  by (cases coll) (auto simp: map_of_eq_None_keys)

text \<open>Finding an entity either returns one the collection holds or fails as a tool does.\<close>

lemma find_entity_Inr:
  "wf_collection P coll \<Longrightarrow>
     find_entity kind coll i = Inr v \<longleftrightarrow> (\<exists>k. i = PStr k \<and> field coll k = Some v \<and> v \<noteq> PNone)"
  by (cases coll; cases i)
    (auto simp: find_entity_def bind_res_eq_Inr split: option.splits if_splits)

lemma find_entity_Inl:
  "wf_collection P coll \<Longrightarrow> find_entity kind coll i = Inl e \<Longrightarrow> tool_failure e"
  by (cases coll; cases i)
    (auto simp: find_entity_def bind_res_eq_Inl split: option.splits if_splits)

lemma wf_order_not_None: "wf_order v \<Longrightarrow> v \<noteq> PNone"
  by (auto simp: wf_order_def)

lemma wf_ticket_not_None: "wf_ticket v \<Longrightarrow> v \<noteq> PNone"
  by (auto simp: wf_ticket_def)

lemma find_order_Inr:
  "wf_support st \<Longrightarrow>
     find_order st i = Inr v \<longleftrightarrow> (\<exists>k. i = PStr k \<and> field (orders st) k = Some v)"
  unfolding find_order_def wf_support_def
  using find_entity_Inr wf_collection_lookup wf_order_not_None by metis

lemma find_order_found: "wf_support st \<Longrightarrow> find_order st i = Inr v \<Longrightarrow> wf_order v"
  using find_order_Inr wf_collection_lookup wf_support_parts(2) by metis

lemma find_order_Inl: "wf_support st \<Longrightarrow> find_order st i = Inl e \<Longrightarrow> tool_failure e"
  unfolding find_order_def wf_support_def using find_entity_Inl by blast

lemma find_ticket_Inr:
  "wf_support st \<Longrightarrow>
     find_ticket st i = Inr v \<longleftrightarrow> (\<exists>k. i = PStr k \<and> field (tickets st) k = Some v)"
  unfolding find_ticket_def wf_support_def
  using find_entity_Inr wf_collection_lookup wf_ticket_not_None by metis

lemma find_ticket_found: "wf_support st \<Longrightarrow> find_ticket st i = Inr v \<Longrightarrow> wf_ticket v"
  using find_ticket_Inr wf_collection_lookup wf_support_parts(5) by metis

lemma find_ticket_Inl: "wf_support st \<Longrightarrow> find_ticket st i = Inl e \<Longrightarrow> tool_failure e"
  unfolding find_ticket_def wf_support_def using find_entity_Inl by blast

subsection \<open>Reading an order\<close>

lemma wf_order_fields:
  assumes "wf_order order"
  shows "\<exists>owner. field order ''customer_id'' = Some owner \<and> py_getitem order ''customer_id'' = Inr owner"
    and "\<exists>s. field order ''status'' = Some (PStr s) \<and> py_getitem order ''status'' = Inr (PStr s)"
    and "\<exists>v t. field order ''total_cents'' = Some v \<and> num_of v = Some t \<and>
           py_getitem order ''total_cents'' = Inr v"
    and "\<exists>d. order = PDict d"
  using assms by (cases order; auto simp: wf_order_def num_field_def split: option.splits pyval.splits)+

definition eligible_within :: "pyval \<Rightarrow> int \<Rightarrow> bool" where
  "eligible_within order window \<longleftrightarrow>
     field order ''status'' = Some (PStr ''delivered'') \<and>
     (case num_field order ''delivered_days_ago'' of None \<Rightarrow> False | Some days \<Rightarrow> days \<le> window)"

lemma within_window_wf:
  assumes "wf_order order"
  shows "within_window order window = Inr (eligible_within order window)"
proof -
  obtain s where s: "field order ''status'' = Some (PStr s)" "py_getitem order ''status'' = Inr (PStr s)"
    using wf_order_fields(2) [OF assms] by blast
  show ?thesis
  proof (cases "s = ''delivered''")
    case True
    then obtain v d where v: "field order ''delivered_days_ago'' = Some v" "num_of v = Some d"
      using assms s(1) by (auto simp: wf_order_def num_field_def split: option.splits)
    then show ?thesis
      using s True py_getitem_field [OF v(1)]
      by (simp add: within_window_def eligible_within_def num_field_def py_le_nums)
  next
    case False
    then show ?thesis using s by (simp add: within_window_def eligible_within_def)
  qed
qed

lemma check_owner_wf:
  assumes "field order ''customer_id'' = Some owner"
  shows "check_owner order i c =
     (if py_eq owner c then Inr ()
      else Inl (Raise PolicyViolationError
        (''Order '' @ py_str i @ '' does not belong to customer '' @ py_str c)))"
  using py_getitem_field [OF assms] by (simp add: check_owner_def)

lemma policy_eligible_simp [simp]:
  "policy_eligible (PDict ((''order_id'', i) # (''eligible'', PBool b) # rest)) = Inr b"
  by (simp add: policy_eligible_def)

section \<open>The operations on well-formed states\<close>

text \<open>
  For each method that writes: exactly when it succeeds and what it then writes, and that a
  failing call reports a tool failure and writes nothing.
\<close>

definition cancel_allowed :: "support_state \<Rightarrow> string \<Rightarrow> pyval \<Rightarrow> bool" where
  "cancel_allowed st k customer =
     (case field (orders st) k of
        None \<Rightarrow> False
      | Some order \<Rightarrow>
          (case field order ''customer_id'' of None \<Rightarrow> False | Some owner \<Rightarrow> py_eq owner customer) \<and>
          (case field order ''status'' of
             Some (PStr s) \<Rightarrow> s \<in> set CANCELLABLE_STATUSES | _ \<Rightarrow> False))"

definition refund_allowed :: "support_state \<Rightarrow> string \<Rightarrow> pyval \<Rightarrow> pyval \<Rightarrow> bool" where
  "refund_allowed st k customer amount =
     (case field (orders st) k of
        None \<Rightarrow> False
      | Some order \<Rightarrow>
          (case field order ''customer_id'' of None \<Rightarrow> False | Some owner \<Rightarrow> py_eq owner customer) \<and>
          field (refunds st) k = None \<and>
          eligible_within order REFUND_WINDOW_DAYS \<and>
          (case (num_field order ''total_cents'', num_of amount) of
             (Some t, Some a) \<Rightarrow> a \<le> t | _ \<Rightarrow> False))"

definition replacement_allowed :: "support_state \<Rightarrow> string \<Rightarrow> pyval \<Rightarrow> pyval \<Rightarrow> bool" where
  "replacement_allowed st k customer sku =
     (case field (orders st) k of
        None \<Rightarrow> False
      | Some order \<Rightarrow>
          (case field order ''customer_id'' of None \<Rightarrow> False | Some owner \<Rightarrow> py_eq owner customer) \<and>
          (case field order ''items'' of
             Some (PList items) \<Rightarrow>
               list_ex (\<lambda>item. case field item ''sku'' of None \<Rightarrow> False | Some s \<Rightarrow> py_eq s sku) items
           | _ \<Rightarrow> False) \<and>
          field (replacements st) k = None \<and>
          eligible_within order REPLACEMENT_WINDOW_DAYS)"


lemma py_gt_not_num:
  assumes "num_of w = Some t" and "num_of v = None"
  shows "\<exists>e. py_gt v w = Inl e \<and> tool_failure e"
proof (cases "py_cmp v w")
  case (Inr c)
  then show ?thesis using py_cmp_num_ok [OF Inr assms(1)] assms(2) by simp
qed (auto simp: py_gt_def)

lemma check_refund_policy_wf:
  assumes "wf_support st" and "field (orders st) k = Some order"
  obtains v t where "num_field order ''total_cents'' = Some t"
    and "num_of v = Some t"
    and "check_refund_policy st (PStr k) =
      Inr (PDict [(''order_id'', PStr k), (''eligible'', PBool (eligible_within order REFUND_WINDOW_DAYS)),
        (''max_refund_cents'', if eligible_within order REFUND_WINDOW_DAYS then v else PInt 0),
        (''reason'', window_reason (eligible_within order REFUND_WINDOW_DAYS))])"
proof -
  have ord: "find_order st (PStr k) = Inr order" using assms find_order_Inr by blast
  then have wf: "wf_order order" using assms(1) find_order_found by blast
  obtain v t where v: "field order ''total_cents'' = Some v" "num_of v = Some t"
      "py_getitem order ''total_cents'' = Inr v"
    using wf_order_fields(3) [OF wf] by blast
  show thesis
    by (rule that [of t v]) (use v ord within_window_wf [OF wf] in \<open>simp_all add: check_refund_policy_def num_field_def\<close>)
qed

lemma create_refund_wf:
  assumes wf: "wf_support st"
  shows "(case order_id of
      PStr k \<Rightarrow> if refund_allowed st k customer amount
        then create_refund st order_id customer amount reason =
          (let refund = PDict [(''order_id'', order_id), (''amount_cents'', amount), (''reason'', reason)]
           in (Inr refund, st\<lparr>refunds := put_entity (refunds st) order_id refund\<rparr>))
        else \<exists>e. create_refund st order_id customer amount reason = (Inl e, st) \<and> tool_failure e
    | _ \<Rightarrow> \<exists>e. create_refund st order_id customer amount reason = (Inl e, st) \<and> tool_failure e)"
proof (cases "find_order st order_id")
  case (Inl e)
  then have "create_refund st order_id customer amount reason = (Inl e, st)"
    by (simp add: create_refund_def)
  moreover have "\<not> refund_allowed st k customer amount" if "order_id = PStr k" for k
    using Inl that find_order_Inr [OF wf, of order_id] by (auto simp: refund_allowed_def split: option.splits)
  ultimately show ?thesis using find_order_Inl [OF wf Inl] by (auto split: pyval.splits)
next
  case (Inr order)
  then obtain k where k: "order_id = PStr k" "field (orders st) k = Some order"
    using find_order_Inr [OF wf] by blast
  have wo: "wf_order order" using find_order_found [OF wf Inr] .
  obtain owner where owner: "field order ''customer_id'' = Some owner" using wf_order_fields(1) [OF wo] by blast
  obtain v t where t: "num_field order ''total_cents'' = Some t" "num_of v = Some t"
    and pol: "check_refund_policy st (PStr k) =
      Inr (PDict [(''order_id'', PStr k), (''eligible'', PBool (eligible_within order REFUND_WINDOW_DAYS)),
        (''max_refund_cents'', if eligible_within order REFUND_WINDOW_DAYS then v else PInt 0),
        (''reason'', window_reason (eligible_within order REFUND_WINDOW_DAYS))])"
    using check_refund_policy_wf [OF wf k(2)] by metis
  note co = check_owner_wf [OF owner, of order_id customer]
  note ins = py_in_field [OF wf_support_parts(3) [OF wf], of k]
  note set = py_setitem_put_entity [OF wf_support_parts(3) [OF wf], of k]
  show ?thesis
  proof (cases "num_of amount")
    case None
    then show ?thesis using py_gt_not_num [OF t(2) None] Inr k t pol co ins set owner
      by (auto simp: create_refund_def refund_allowed_def Let_def)
  next
    case (Some a)
    then show ?thesis using py_gt_nums [OF Some t(2)] Inr k t pol co ins set owner
      by (auto simp: create_refund_def refund_allowed_def Let_def)
  qed
qed

lemma in_frozenset_str [simp]: "in_frozenset (PStr s) S = Inr (s \<in> S)"
  by (simp add: in_frozenset_def)

lemma cancel_order_wf:
  assumes wf: "wf_support st"
  shows "(case order_id of
      PStr k \<Rightarrow> if cancel_allowed st k customer
        then \<exists>d. field (orders st) k = Some (PDict d) \<and>
          cancel_order st order_id customer =
            (let order = PDict (dict_set ''status'' (PStr ''cancelled'') d)
             in (Inr order, st\<lparr>orders := put_entity (orders st) order_id order\<rparr>))
        else \<exists>e. cancel_order st order_id customer = (Inl e, st) \<and> tool_failure e
    | _ \<Rightarrow> \<exists>e. cancel_order st order_id customer = (Inl e, st) \<and> tool_failure e)"
proof (cases "find_order st order_id")
  case (Inl e)
  then have "cancel_order st order_id customer = (Inl e, st)"
    by (simp add: cancel_order_def)
  moreover have "\<not> cancel_allowed st k customer" if "order_id = PStr k" for k
    using Inl that find_order_Inr [OF wf, of order_id] by (auto simp: cancel_allowed_def split: option.splits)
  ultimately show ?thesis using find_order_Inl [OF wf Inl] by (auto split: pyval.splits)
next
  case (Inr order)
  then obtain k where k: "order_id = PStr k" "field (orders st) k = Some order"
    using find_order_Inr [OF wf] by blast
  have wo: "wf_order order" using find_order_found [OF wf Inr] .
  obtain owner where owner: "field order ''customer_id'' = Some owner" using wf_order_fields(1) [OF wo] by blast
  obtain s where s: "field order ''status'' = Some (PStr s)" "py_getitem order ''status'' = Inr (PStr s)"
    using wf_order_fields(2) [OF wo] by blast
  obtain d where d: "order = PDict d" using wf_order_fields(4) [OF wo] by blast
  show ?thesis using Inr k s d owner check_owner_wf [OF owner, of order_id customer]
    by (auto simp: cancel_order_def cancel_allowed_def Let_def)
qed

lemma any_sku_wf:
  "list_all item_ok items \<Longrightarrow>
     any_sku sku items =
       Inr (list_ex (\<lambda>item. case field item ''sku'' of None \<Rightarrow> False | Some s \<Rightarrow> py_eq s sku) items)"
  by (induction items) (auto simp: item_ok_def py_getitem_field)

lemma replace_item_wf:
  assumes wf: "wf_support st"
  shows "(case order_id of
      PStr k \<Rightarrow> if replacement_allowed st k customer sku
        then replace_item st order_id customer sku reason =
          (let replacement = PDict [(''order_id'', order_id), (''sku'', sku), (''reason'', reason)]
           in (Inr replacement, st\<lparr>replacements := put_entity (replacements st) order_id replacement\<rparr>))
        else \<exists>e. replace_item st order_id customer sku reason = (Inl e, st) \<and> tool_failure e
    | _ \<Rightarrow> \<exists>e. replace_item st order_id customer sku reason = (Inl e, st) \<and> tool_failure e)"
proof (cases "find_order st order_id")
  case (Inl e)
  then have "replace_item st order_id customer sku reason = (Inl e, st)"
    by (simp add: replace_item_def)
  moreover have "\<not> replacement_allowed st k customer sku" if "order_id = PStr k" for k
    using Inl that find_order_Inr [OF wf, of order_id]
    by (auto simp: replacement_allowed_def split: option.splits)
  ultimately show ?thesis using find_order_Inl [OF wf Inl] by (auto split: pyval.splits)
next
  case (Inr order)
  then obtain k where k: "order_id = PStr k" "field (orders st) k = Some order"
    using find_order_Inr [OF wf] by blast
  have wo: "wf_order order" using find_order_found [OF wf Inr] .
  obtain owner where owner: "field order ''customer_id'' = Some owner" using wf_order_fields(1) [OF wo] by blast
  obtain d where d: "order = PDict d" using wf_order_fields(4) [OF wo] by blast
  define items where "items = (case map_of d ''items'' of Some (PList xs) \<Rightarrow> xs | _ \<Rightarrow> [])"
  have items: "py_get order (PStr ''items'') (PList []) = Inr (PList items)" "list_all item_ok items"
    and fi: "(case field order ''items'' of Some (PList items) \<Rightarrow> P items | _ \<Rightarrow> False) \<longleftrightarrow>
      P items \<and> map_of d ''items'' \<noteq> None" for P
    using wo unfolding d by (auto simp: wf_order_def items_def split: option.splits pyval.splits)
  have none: "map_of d ''items'' = None \<Longrightarrow> items = []" by (simp add: items_def)
  have pol: "check_replacement_policy st order_id =
    Inr (PDict [(''order_id'', order_id), (''eligible'', PBool (eligible_within order REPLACEMENT_WINDOW_DAYS)),
        (''reason'', window_reason (eligible_within order REPLACEMENT_WINDOW_DAYS))])"
    using Inr within_window_wf [OF wo] by (simp add: check_replacement_policy_def)
  note ins = py_in_field [OF wf_support_parts(4) [OF wf], of k]
  note set = py_setitem_put_entity [OF wf_support_parts(4) [OF wf], of k]
  let ?has = "list_ex (\<lambda>item. case field item ''sku'' of None \<Rightarrow> False | Some s \<Rightarrow> py_eq s sku) items"
  have fi': "(case field order ''items'' of Some (PList items) \<Rightarrow>
      list_ex (\<lambda>item. case field item ''sku'' of None \<Rightarrow> False | Some s \<Rightarrow> py_eq s sku) items | _ \<Rightarrow> False) = ?has"
    unfolding fi using none by (cases "items = []") auto
  show ?thesis using Inr k pol owner check_owner_wf [OF owner, of order_id customer] items(1)
    ins set any_sku_wf [OF items(2), of sku]
    by (auto simp: replace_item_def replacement_allowed_def Let_def fi')
qed

subsection \<open>Tickets\<close>

lemma put_entity_twice:
  "put_entity (put_entity coll (PStr k) v) (PStr k) w = put_entity coll (PStr k) w"
  by (cases coll) auto

lemma wf_ticket_dict: "wf_ticket t \<Longrightarrow> \<exists>d. t = PDict d"
  by (cases t) (auto simp: wf_ticket_def)

lemma wf_ticket_set_status [wf_intros]:
  "wf_ticket (PDict d) \<Longrightarrow> wf_val v \<Longrightarrow> wf_ticket (PDict (dict_set ''status'' v d))"
  using wf_dict_set by (auto simp: wf_ticket_def simp del: wf_val.simps)

lemma wf_ticket_set_count [wf_intros]:
  "wf_ticket (PDict d) \<Longrightarrow> wf_ticket (PDict (dict_set ''escalation_count'' (PInt n) d))"
  using wf_dict_set [of d "PInt n"] by (auto simp: wf_ticket_def)

definition notes_of :: "pyval \<Rightarrow> pyval list" where
  "notes_of ticket = (case field ticket ''notes'' of Some (PList xs) \<Rightarrow> xs | _ \<Rightarrow> [])"

definition count_of :: "pyval \<Rightarrow> int" where
  "count_of ticket = (case num_field ticket ''escalation_count'' of None \<Rightarrow> 0 | Some n \<Rightarrow> n)"

lemma push_note_wf:
  "wf_ticket (PDict d) \<Longrightarrow>
     push_note (PDict d) v = Inr (PDict (dict_set ''notes'' (PList (notes_of (PDict d) @ [v])) d))"
  by (auto simp: wf_ticket_def notes_of_def split: option.splits pyval.splits)

lemma wf_ticket_push [wf_intros]:
  assumes "wf_ticket (PDict d)" and "wf_val v"
  shows "wf_ticket (PDict (dict_set ''notes'' (PList (notes_of (PDict d) @ [v])) d))"
proof -
  have "wf_val (PList (notes_of (PDict d) @ [v]))"
    using assms wf_dict_lookup [of d "''notes''"]
    by (auto simp: notes_of_def wf_ticket_def split: option.splits pyval.splits)
  then show ?thesis using assms wf_dict_set [of d _ "''notes''"]
    by (auto simp: wf_ticket_def simp del: wf_val.simps)
qed

lemma bump_count_wf:
  "wf_ticket (PDict d) \<Longrightarrow>
     bind_res (py_get (PDict d) (PStr ''escalation_count'') (PInt 0)) py_add1 = Inr (PInt (count_of (PDict d) + 1))"
  by (auto simp: wf_ticket_def count_of_def num_field_def num_of_eq_Some split: option.splits)

text \<open>What an update leaves of a ticket: a new status and a note appended, each only when given.\<close>

definition updated_ticket :: "pyval \<Rightarrow> pyval \<Rightarrow> pydict \<Rightarrow> pydict" where
  "updated_ticket status note d =
     (let d = (if status = PNone then d else dict_set ''status'' status d)
      in if note = PNone then d else dict_set ''notes'' (PList (notes_of (PDict d) @ [note])) d)"

definition escalated_ticket :: "pyval \<Rightarrow> pydict \<Rightarrow> pydict" where
  "escalated_ticket reason d =
     dict_set ''notes'' (PList (notes_of (PDict d) @ [reason]))
       (dict_set ''escalation_count'' (PInt (count_of (PDict d) + 1))
         (dict_set ''status'' (PStr ''escalated'') d))"

lemma wf_updated_ticket [wf_intros]:
  "wf_ticket (PDict d) \<Longrightarrow> wf_val status \<Longrightarrow> wf_val note \<Longrightarrow>
     wf_ticket (PDict (updated_ticket status note d))"
  by (auto simp: updated_ticket_def Let_def intro: wf_ticket_push wf_ticket_set_status)

lemma notes_of_other: "k \<noteq> ''notes'' \<Longrightarrow> notes_of (PDict (dict_set k v d)) = notes_of (PDict d)"
  by (simp add: notes_of_def)

lemma count_of_other:
  "k \<noteq> ''escalation_count'' \<Longrightarrow> count_of (PDict (dict_set k v d)) = count_of (PDict d)"
  by (simp add: count_of_def num_field_def)

lemma wf_escalated_ticket [wf_intros]:
  assumes "wf_ticket (PDict d)" and "wf_val reason"
  shows "wf_ticket (PDict (escalated_ticket reason d))"
proof -
  let ?d = "dict_set ''escalation_count'' (PInt (count_of (PDict d) + 1))
         (dict_set ''status'' (PStr ''escalated'') d)"
  have "wf_ticket (PDict ?d)"
    using assms by (intro wf_ticket_set_count wf_ticket_set_status) simp_all
  from wf_ticket_push [OF this assms(2)] show ?thesis
    by (simp add: escalated_ticket_def notes_of_other)
qed

lemma update_ticket_wf:
  assumes wf: "wf_support st" and args: "wf_val status"
  shows "(case find_ticket st ticket_id of
      Inl e \<Rightarrow> update_ticket st ticket_id status note = (Inl e, st)
    | Inr ticket \<Rightarrow> \<exists>d. ticket = PDict d \<and>
        update_ticket st ticket_id status note =
          (let ticket = PDict (updated_ticket status note d)
           in (Inr ticket, st\<lparr>tickets := put_entity (tickets st) ticket_id ticket\<rparr>)))"
proof (cases "find_ticket st ticket_id")
  case (Inr ticket)
  obtain k where k: "ticket_id = PStr k" using find_ticket_Inr [OF wf] Inr by blast
  have wt: "wf_ticket ticket" using find_ticket_found [OF wf Inr] .
  then obtain d where d: "ticket = PDict d" using wf_ticket_dict by blast
  have "push_note (PDict d') note =
      Inr (PDict (dict_set ''notes'' (PList (notes_of (PDict d') @ [note])) d'))"
    if "d' = (if status = PNone then d else dict_set ''status'' status d)" for d'
    by (rule push_note_wf) (use wt d args that wf_ticket_set_status in auto)
  then show ?thesis using Inr k d
    by (auto simp: update_ticket_def write_ticket_def updated_ticket_def Let_def put_entity_twice)
qed (simp add: update_ticket_def)

definition escalate_allowed :: "support_state \<Rightarrow> string \<Rightarrow> bool" where
  "escalate_allowed st k =
     (case field (tickets st) k of
        None \<Rightarrow> False
      | Some ticket \<Rightarrow>
          (case field ticket ''status'' of
             Some (PStr s) \<Rightarrow> s \<in> set ESCALATABLE_STATUSES | _ \<Rightarrow> False))"

lemma in_frozenset_failure: "in_frozenset v S = Inl e \<Longrightarrow> tool_failure e"
  by (auto simp: in_frozenset_def split: if_splits)

lemma escalate_ticket_wf:
  assumes wf: "wf_support st"
  shows "(case ticket_id of
      PStr k \<Rightarrow> if escalate_allowed st k
        then \<exists>d. field (tickets st) k = Some (PDict d) \<and>
          escalate_ticket st ticket_id reason =
            (let ticket = PDict (escalated_ticket reason d)
             in (Inr ticket, st\<lparr>tickets := put_entity (tickets st) ticket_id ticket\<rparr>))
        else \<exists>e. escalate_ticket st ticket_id reason = (Inl e, st) \<and> tool_failure e
    | _ \<Rightarrow> \<exists>e. escalate_ticket st ticket_id reason = (Inl e, st) \<and> tool_failure e)"
proof (cases "find_ticket st ticket_id")
  case (Inl e)
  then have "escalate_ticket st ticket_id reason = (Inl e, st)"
    by (simp add: escalate_ticket_def)
  moreover have "\<not> escalate_allowed st k" if "ticket_id = PStr k" for k
    using Inl that find_ticket_Inr [OF wf, of ticket_id]
    by (auto simp: escalate_allowed_def split: option.splits)
  ultimately show ?thesis using find_ticket_Inl [OF wf Inl] by (auto split: pyval.splits)
next
  case (Inr ticket)
  then obtain k where k: "ticket_id = PStr k" "field (tickets st) k = Some ticket"
    using find_ticket_Inr [OF wf] by blast
  have wt: "wf_ticket ticket" using find_ticket_found [OF wf Inr] .
  then obtain d where d: "ticket = PDict d" using wf_ticket_dict by blast
  obtain s where s: "map_of d ''status'' = Some s" using wt d by (auto simp: wf_ticket_def)
  have w1: "wf_ticket (PDict (dict_set ''status'' (PStr ''escalated'') d))"
    using wt d by (auto intro: wf_ticket_set_status)
  define d2 where "d2 = dict_set ''escalation_count'' (PInt (count_of (PDict d) + 1))
         (dict_set ''status'' (PStr ''escalated'') d)"
  have push: "push_note (PDict d2) reason = Inr (PDict (escalated_ticket reason d))"
    using push_note_wf [of d2 reason] w1
    by (auto simp: d2_def escalated_ticket_def notes_of_other intro: wf_ticket_set_count)
  have count: "bind_res (py_get (PDict (dict_set ''status'' (PStr ''escalated'') d)) (PStr ''escalation_count'') (PInt 0))
      (\<lambda>n. bind_res (py_add1 n) (\<lambda>n. py_setitem (PDict (dict_set ''status'' (PStr ''escalated'') d)) ''escalation_count'' n)) =
    Inr (PDict d2)"
    using bump_count_wf [OF w1] by (auto simp: bind_res_assoc [symmetric] count_of_other d2_def simp del: py_get.simps py_get_str)
  have first: "py_setitem (PDict d) ''status'' v = Inr (PDict (dict_set ''status'' v d))" for v by simp
  show ?thesis
  proof (cases "in_frozenset s (set ESCALATABLE_STATUSES)")
    case (Inl e)
    then show ?thesis using Inr k d s in_frozenset_failure [OF Inl]
      by (cases s) (auto simp: escalate_ticket_def escalate_allowed_def)
  next
    case (Inr b)
    then have "b \<longleftrightarrow> escalate_allowed st k" using k d s
      by (cases s) (auto simp: escalate_allowed_def in_frozenset_def split: if_splits)
    then show ?thesis using \<open>find_ticket st ticket_id = Inr ticket\<close> Inr k d s count push first
      by (auto simp: escalate_ticket_def write_ticket_def put_entity_twice Let_def
          simp del: py_get.simps py_get_str py_setitem.simps push_note.simps)
  qed
qed
section \<open>What one successful call may change\<close>

text \<open>An order only ever goes from a cancellable status to \<open>cancelled\<close>.\<close>

definition order_step :: "pyval \<Rightarrow> pyval \<Rightarrow> bool" where
  "order_step o1 o2 \<longleftrightarrow>
     o2 = o1 \<or>
     (\<exists>d s. o1 = PDict d \<and> map_of d ''status'' = Some (PStr s) \<and> s \<in> set CANCELLABLE_STATUSES \<and>
        o2 = PDict (dict_set ''status'' (PStr ''cancelled'') d))"

text \<open>A refund, or a replacement, is justified by the order it is filed under.\<close>

definition refund_justified :: "support_state \<Rightarrow> string \<Rightarrow> pyval \<Rightarrow> bool" where
  "refund_justified st k r \<longleftrightarrow>
     field r ''order_id'' = Some (PStr k) \<and>
     (\<exists>ord t a. field (orders st) k = Some ord \<and> eligible_within ord REFUND_WINDOW_DAYS \<and>
        num_field ord ''total_cents'' = Some t \<and> num_field r ''amount_cents'' = Some a \<and> a \<le> t)"

definition replacement_justified :: "support_state \<Rightarrow> string \<Rightarrow> pyval \<Rightarrow> bool" where
  "replacement_justified st k r \<longleftrightarrow>
     field r ''order_id'' = Some (PStr k) \<and>
     (\<exists>ord sku items. field (orders st) k = Some ord \<and> eligible_within ord REPLACEMENT_WINDOW_DAYS \<and>
        field r ''sku'' = Some sku \<and> field ord ''items'' = Some (PList items) \<and>
        list_ex (\<lambda>item. case field item ''sku'' of None \<Rightarrow> False | Some s \<Rightarrow> py_eq s sku) items)"

text \<open>A collection that only gains entries, each of them justified, and never rewrites one.\<close>

definition only_gains :: "(string \<Rightarrow> pyval \<Rightarrow> bool) \<Rightarrow> pyval \<Rightarrow> pyval \<Rightarrow> bool" where
  "only_gains justified c1 c2 \<longleftrightarrow>
     (\<forall>k. field c2 k = field c1 k \<or>
        (field c1 k = None \<and> (\<exists>r. field c2 k = Some r \<and> justified k r)))"

text \<open>A ticket keeps its notes and its escalation count never decreases.\<close>

definition ticket_step :: "pyval \<Rightarrow> pyval \<Rightarrow> bool" where
  "ticket_step t1 t2 \<longleftrightarrow>
     (\<exists>new. notes_of t2 = notes_of t1 @ new) \<and> count_of t1 \<le> count_of t2"

definition pointwise :: "(pyval \<Rightarrow> pyval \<Rightarrow> bool) \<Rightarrow> pyval \<Rightarrow> pyval \<Rightarrow> bool" where
  "pointwise R c1 c2 \<longleftrightarrow>
     (\<forall>k. (field c1 k = None \<longleftrightarrow> field c2 k = None) \<and>
        (\<forall>v w. field c1 k = Some v \<longrightarrow> field c2 k = Some w \<longrightarrow> R v w))"

definition state_step :: "support_state \<Rightarrow> support_state \<Rightarrow> bool" where
  "state_step st st' \<longleftrightarrow>
     customers st' = customers st \<and>
     pointwise order_step (orders st) (orders st') \<and>
     only_gains (refund_justified st) (refunds st) (refunds st') \<and>
     only_gains (replacement_justified st) (replacements st) (replacements st') \<and>
     pointwise ticket_step (tickets st) (tickets st')"

lemma order_step_refl [simp]: "order_step v v"
  by (simp add: order_step_def)

lemma ticket_step_refl [simp]: "ticket_step v v"
  by (simp add: ticket_step_def)

lemma pointwise_refl [simp]: "(\<And>v. R v v) \<Longrightarrow> pointwise R c c"
  by (auto simp: pointwise_def)

lemma only_gains_refl [simp]: "only_gains J c c"
  by (simp add: only_gains_def)

lemma state_step_refl [simp]: "state_step st st"
  by (simp add: state_step_def)

lemma pointwise_put:
  "wf_collection P coll \<Longrightarrow> field coll k = Some v \<Longrightarrow> R v w \<Longrightarrow> (\<And>u. R u u) \<Longrightarrow>
     pointwise R coll (put_entity coll (PStr k) w)"
  by (auto simp: pointwise_def field_put_entity)

lemma only_gains_put:
  "wf_collection P coll \<Longrightarrow> field coll k = None \<Longrightarrow> J k r \<Longrightarrow>
     only_gains J coll (put_entity coll (PStr k) r)"
  by (auto simp: only_gains_def field_put_entity)

text \<open>The contract of a service call: all or nothing.\<close>

definition call_contract :: "support_state \<Rightarrow> outcome \<times> support_state \<Rightarrow> bool" where
  "call_contract st r =
     (case r of
        (Inl e, st') \<Rightarrow> st' = st \<and> tool_failure e
      | (Inr v, st') \<Rightarrow> wf_support st' \<and> wf_val v \<and> state_step st st')"

lemma call_contract_simps [simp]:
  "call_contract st (Inl e, st') \<longleftrightarrow> st' = st \<and> tool_failure e"
  "call_contract st (Inr v, st') \<longleftrightarrow> wf_support st' \<and> wf_val v \<and> state_step st st'"
  by (simp_all add: call_contract_def)

lemma wf_support_updates [wf_intros]:
  "wf_support st \<Longrightarrow> wf_order v \<Longrightarrow> wf_support (st\<lparr>orders := put_entity (orders st) k v\<rparr>)"
  "wf_support st \<Longrightarrow> wf_val v \<Longrightarrow> wf_support (st\<lparr>refunds := put_entity (refunds st) k v\<rparr>)"
  "wf_support st \<Longrightarrow> wf_val v \<Longrightarrow> wf_support (st\<lparr>replacements := put_entity (replacements st) k v\<rparr>)"
  "wf_support st \<Longrightarrow> wf_ticket v \<Longrightarrow> wf_support (st\<lparr>tickets := put_entity (tickets st) k v\<rparr>)"
  by (simp_all add: wf_support_def wf_collection_put)

lemma wf_order_cancelled:
  "wf_order (PDict d) \<Longrightarrow> wf_order (PDict (dict_set ''status'' (PStr ''cancelled'') d))"
  using wf_dict_set [of d "PStr ''cancelled''"] by (auto simp: wf_order_def num_field_def)

lemma find_entity_contract:
  assumes "wf_collection P coll" and "\<And>v. P v \<Longrightarrow> wf_val v" and "wf_support st"
  shows "call_contract st (find_entity kind coll i, st)"
proof (cases "find_entity kind coll i")
  case (Inl e)
  then show ?thesis using find_entity_Inl [OF assms(1)] by simp
next
  case (Inr v)
  then obtain k where "field coll k = Some v" using find_entity_Inr [OF assms(1)] by blast
  then have "wf_val v" using assms wf_collection_lookup by metis
  then show ?thesis using Inr assms(3) by simp
qed

lemma wf_order_val: "wf_order v \<Longrightarrow> wf_val v"
  by (simp add: wf_order_def)

lemma wf_ticket_val: "wf_ticket v \<Longrightarrow> wf_val v"
  by (simp add: wf_ticket_def)

lemma get_customer_contract: "wf_support st \<Longrightarrow> call_contract st (get_customer st i, st)"
  unfolding get_customer_def using wf_support_parts(1) find_entity_contract by blast

lemma get_order_contract: "wf_support st \<Longrightarrow> call_contract st (get_order st i, st)"
  unfolding get_order_def find_order_def
  using wf_support_parts(2) find_entity_contract wf_order_val by blast

lemma cancel_order_contract:
  assumes wf: "wf_support st"
  shows "call_contract st (cancel_order st i c)"
proof (cases "\<exists>k. i = PStr k \<and> cancel_allowed st k c")
  case True
  then obtain k where k: "i = PStr k" "cancel_allowed st k c" by blast
  obtain d where d: "field (orders st) k = Some (PDict d)"
    and eq: "cancel_order st i c =
      (Inr (PDict (dict_set ''status'' (PStr ''cancelled'') d)),
       st\<lparr>orders := put_entity (orders st) i (PDict (dict_set ''status'' (PStr ''cancelled'') d))\<rparr>)"
    using cancel_order_wf [OF wf, of i c] k by (auto simp: Let_def)
  have wo: "wf_order (PDict d)" using wf_collection_lookup [OF wf_support_parts(2) [OF wf] d] .
  have "order_step (PDict d) (PDict (dict_set ''status'' (PStr ''cancelled'') d))"
    using k(2) d by (auto simp: order_step_def cancel_allowed_def split: option.splits pyval.splits)
  then show ?thesis
    using eq wf wf_order_cancelled [OF wo] pointwise_put [OF wf_support_parts(2) [OF wf] d]
    by (auto simp: k(1) state_step_def wf_order_val simp del: wf_val.simps intro: wf_support_updates)
next
  case False
  then obtain e where "cancel_order st i c = (Inl e, st)" "tool_failure e"
    using cancel_order_wf [OF wf, of i c] by (cases i) auto
  then show ?thesis by simp
qed

lemma create_refund_contract:
  assumes wf: "wf_support st" and args: "wf_val amount" "wf_val reason"
  shows "call_contract st (create_refund st i c amount reason)"
proof (cases "\<exists>k. i = PStr k \<and> refund_allowed st k c amount")
  case True
  then obtain k where k: "i = PStr k" "refund_allowed st k c amount" by blast
  let ?r = "PDict [(''order_id'', i), (''amount_cents'', amount), (''reason'', reason)]"
  have eq: "create_refund st i c amount reason = (Inr ?r, st\<lparr>refunds := put_entity (refunds st) i ?r\<rparr>)"
    using create_refund_wf [OF wf, of i c amount reason] k by (simp add: Let_def)
  have j: "refund_justified st k ?r" and n: "field (refunds st) k = None"
    using k by (auto simp: refund_justified_def refund_allowed_def num_field_def split: option.splits)
  then show ?thesis
    using eq wf args only_gains_put [OF wf_support_parts(3) [OF wf] n, of "refund_justified st", OF j]
    by (auto simp: k(1) state_step_def intro: wf_support_updates)
next
  case False
  then obtain e where "create_refund st i c amount reason = (Inl e, st)" "tool_failure e"
    using create_refund_wf [OF wf, of i c amount reason] by (cases i) auto
  then show ?thesis by simp
qed

lemma replace_item_contract:
  assumes wf: "wf_support st" and args: "wf_val sku" "wf_val reason"
  shows "call_contract st (replace_item st i c sku reason)"
proof (cases "\<exists>k. i = PStr k \<and> replacement_allowed st k c sku")
  case True
  then obtain k where k: "i = PStr k" "replacement_allowed st k c sku" by blast
  let ?r = "PDict [(''order_id'', i), (''sku'', sku), (''reason'', reason)]"
  have eq: "replace_item st i c sku reason = (Inr ?r, st\<lparr>replacements := put_entity (replacements st) i ?r\<rparr>)"
    using replace_item_wf [OF wf, of i c sku reason] k by (simp add: Let_def)
  have j: "replacement_justified st k ?r" and n: "field (replacements st) k = None"
    using k by (auto simp: replacement_justified_def replacement_allowed_def split: option.splits pyval.splits)
  then show ?thesis
    using eq wf args only_gains_put [OF wf_support_parts(4) [OF wf] n, of "replacement_justified st", OF j]
    by (auto simp: k(1) state_step_def intro: wf_support_updates)
next
  case False
  then obtain e where "replace_item st i c sku reason = (Inl e, st)" "tool_failure e"
    using replace_item_wf [OF wf, of i c sku reason] by (cases i) auto
  then show ?thesis by simp
qed

lemma window_reason_wf [simp]: "wf_val (window_reason b)"
  by (simp add: window_reason_def)

lemma check_refund_policy_contract:
  assumes wf: "wf_support st" and i: "wf_val i"
  shows "call_contract st (check_refund_policy st i, st)"
proof (cases "find_order st i")
  case (Inl e)
  then show ?thesis using find_order_Inl [OF wf Inl] by (simp add: check_refund_policy_def)
next
  case (Inr ord)
  then obtain k where k: "i = PStr k" "field (orders st) k = Some ord" using find_order_Inr [OF wf] by blast
  obtain v t where "num_of v = Some t"
    and pol: "check_refund_policy st (PStr k) =
      Inr (PDict [(''order_id'', PStr k), (''eligible'', PBool (eligible_within ord REFUND_WINDOW_DAYS)),
        (''max_refund_cents'', if eligible_within ord REFUND_WINDOW_DAYS then v else PInt 0),
        (''reason'', window_reason (eligible_within ord REFUND_WINDOW_DAYS))])"
    using check_refund_policy_wf [OF wf k(2)] by metis
  then have "wf_val v" by (auto simp: num_of_eq_Some)
  with pol wf show ?thesis by (simp add: k(1))
qed

lemma check_replacement_policy_contract:
  assumes wf: "wf_support st" and i: "wf_val i"
  shows "call_contract st (check_replacement_policy st i, st)"
proof (cases "find_order st i")
  case (Inl e)
  then show ?thesis using find_order_Inl [OF wf Inl] by (simp add: check_replacement_policy_def)
next
  case (Inr ord)
  then show ?thesis using within_window_wf [OF find_order_found [OF wf Inr]] wf i
    by (simp add: check_replacement_policy_def)
qed

lemma ticket_put_contract:
  assumes wf: "wf_support st" and k: "field (tickets st) k = Some t"
    and t: "wf_ticket t'" "ticket_step t t'"
  shows "call_contract st (Inr t', st\<lparr>tickets := put_entity (tickets st) (PStr k) t'\<rparr>)"
  using wf t pointwise_put [OF wf_support_parts(5) [OF wf] k, of ticket_step, OF t(2)]
  by (auto simp: state_step_def wf_ticket_val intro: wf_support_updates)

lemma notes_of_push [simp]: "notes_of (PDict (dict_set ''notes'' (PList xs) d)) = xs"
  by (simp add: notes_of_def)

lemma updated_ticket_step: "ticket_step (PDict d) (PDict (updated_ticket status note d))"
  by (auto simp: ticket_step_def updated_ticket_def Let_def notes_of_other count_of_other)

lemma escalated_ticket_step: "ticket_step (PDict d) (PDict (escalated_ticket reason d))"
  by (auto simp: ticket_step_def escalated_ticket_def notes_of_other count_of_other)
    (simp add: count_of_def num_field_def)

lemma update_ticket_contract:
  assumes wf: "wf_support st" and args: "wf_val status" "wf_val note"
  shows "call_contract st (update_ticket st i status note)"
proof (cases "find_ticket st i")
  case (Inl e)
  then show ?thesis using find_ticket_Inl [OF wf Inl] by (simp add: update_ticket_def)
next
  case (Inr t)
  then obtain k where k: "i = PStr k" "field (tickets st) k = Some t" using find_ticket_Inr [OF wf] by blast
  obtain d where d: "t = PDict d" and eq: "update_ticket st i status note =
      (Inr (PDict (updated_ticket status note d)),
       st\<lparr>tickets := put_entity (tickets st) i (PDict (updated_ticket status note d))\<rparr>)"
    using update_ticket_wf [OF wf args(1), of i "note"] Inr by (auto simp: Let_def)
  have "wf_ticket (PDict d)" using find_ticket_found [OF wf Inr] d by simp
  then show ?thesis
    using ticket_put_contract [OF wf k(2)] updated_ticket_step wf_updated_ticket args
    by (simp add: eq [unfolded k(1)] k(1) d del: wf_val.simps)
qed

lemma escalate_ticket_contract:
  assumes wf: "wf_support st" and args: "wf_val reason"
  shows "call_contract st (escalate_ticket st i reason)"
proof (cases "\<exists>k. i = PStr k \<and> escalate_allowed st k")
  case True
  then obtain k where k: "i = PStr k" "escalate_allowed st k" by blast
  obtain d where d: "field (tickets st) k = Some (PDict d)" and eq: "escalate_ticket st i reason =
      (Inr (PDict (escalated_ticket reason d)),
       st\<lparr>tickets := put_entity (tickets st) i (PDict (escalated_ticket reason d))\<rparr>)"
    using escalate_ticket_wf [OF wf, of i reason] k by (auto simp: Let_def)
  have "wf_ticket (PDict d)" using wf_collection_lookup [OF wf_support_parts(5) [OF wf] d] .
  then show ?thesis
    using ticket_put_contract [OF wf d] escalated_ticket_step wf_escalated_ticket args
    by (simp add: eq [unfolded k(1)] k(1) del: wf_val.simps)
next
  case False
  then obtain e where "escalate_ticket st i reason = (Inl e, st)" "tool_failure e"
    using escalate_ticket_wf [OF wf, of i reason] by (cases i) auto
  then show ?thesis by simp
qed

lemmas call_contracts =
  get_customer_contract get_order_contract cancel_order_contract replace_item_contract
  check_refund_policy_contract check_replacement_policy_contract create_refund_contract
  update_ticket_contract escalate_ticket_contract

section \<open>What a whole session may change\<close>

text \<open>
  From a well-formed seed, after any number of calls: customers are untouched; each order is its
  seeded self or was cancelled from a cancellable status; tickets only gain notes; a seeded refund
  or replacement is still there and every other one is justified by the order as it is now.
\<close>

definition all_justified :: "(string \<Rightarrow> pyval \<Rightarrow> bool) \<Rightarrow> pyval \<Rightarrow> pyval \<Rightarrow> bool" where
  "all_justified justified c0 c \<longleftrightarrow>
     (\<forall>k r. field c0 k = Some r \<longrightarrow> field c k = Some r) \<and>
     (\<forall>k r. field c k = Some r \<longrightarrow> field c0 k = Some r \<or> justified k r)"

definition session_ok :: "support_state \<Rightarrow> support_state \<Rightarrow> bool" where
  "session_ok st0 st \<longleftrightarrow>
     wf_support st \<and> customers st = customers st0 \<and>
     pointwise order_step (orders st0) (orders st) \<and>
     all_justified (refund_justified st) (refunds st0) (refunds st) \<and>
     all_justified (replacement_justified st) (replacements st0) (replacements st) \<and>
     pointwise ticket_step (tickets st0) (tickets st)"

lemma order_step_trans: "order_step a b \<Longrightarrow> order_step b c \<Longrightarrow> order_step a c"
  by (auto simp: order_step_def CANCELLABLE_STATUSES_def)

lemma ticket_step_trans: "ticket_step a b \<Longrightarrow> ticket_step b c \<Longrightarrow> ticket_step a c"
  by (auto simp: ticket_step_def)

lemma pointwise_trans:
  assumes "\<And>u v w. R u v \<Longrightarrow> R v w \<Longrightarrow> R u w" and "pointwise R a b" and "pointwise R b c"
  shows "pointwise R a c"
  using assms unfolding pointwise_def by (metis not_None_eq)

text \<open>A delivered order never changes again, so what it justified stays justified.\<close>

lemma order_step_eligible:
  assumes "order_step o1 o2" and "eligible_within o1 w"
  shows "o2 = o1"
  using assms by (auto simp: order_step_def eligible_within_def CANCELLABLE_STATUSES_def)

lemma eligible_order_kept:
  assumes "pointwise order_step (orders st) (orders st')"
    and "field (orders st) k = Some ord" and "eligible_within ord w"
  shows "field (orders st') k = Some ord"
proof -
  obtain ord' where "field (orders st') k = Some ord'" "order_step ord ord'"
    using assms(1,2) unfolding pointwise_def by (metis not_None_eq)
  then show ?thesis using order_step_eligible [OF _ assms(3)] by metis
qed

lemma state_step_kept:
  "state_step st st' \<Longrightarrow> field (orders st) k = Some ord \<Longrightarrow> eligible_within ord w \<Longrightarrow>
     field (orders st') k = Some ord"
  unfolding state_step_def using eligible_order_kept by blast

lemma refund_justified_kept:
  "state_step st st' \<Longrightarrow> refund_justified st k r \<Longrightarrow> refund_justified st' k r"
  by (auto simp: refund_justified_def dest: state_step_kept)

lemma replacement_justified_kept:
  "state_step st st' \<Longrightarrow> replacement_justified st k r \<Longrightarrow> replacement_justified st' k r"
  by (auto simp: replacement_justified_def dest: state_step_kept)

lemma pointwise_steps_trans:
  "pointwise order_step a b \<Longrightarrow> pointwise order_step b c \<Longrightarrow> pointwise order_step a c"
  "pointwise ticket_step a b \<Longrightarrow> pointwise ticket_step b c \<Longrightarrow> pointwise ticket_step a c"
  by (rule pointwise_trans; blast intro: order_step_trans ticket_step_trans)+

lemma all_justified_step:
  assumes "all_justified J c0 c" and "only_gains J c c'" and "\<And>k r. J k r \<Longrightarrow> J' k r"
  shows "all_justified J' c0 c'"
  using assms unfolding all_justified_def only_gains_def by (metis option.distinct(1) option.inject)

lemma session_ok_refl: "wf_support st \<Longrightarrow> session_ok st st"
  by (simp add: session_ok_def all_justified_def)

lemma session_ok_step:
  assumes "session_ok st0 st" and "wf_support st'" and step: "state_step st st'"
  shows "session_ok st0 st'"
proof -
  have "pointwise order_step (orders st0) (orders st')" "pointwise ticket_step (tickets st0) (tickets st')"
    using assms pointwise_steps_trans unfolding session_ok_def state_step_def by blast+
  moreover have "all_justified (refund_justified st') (refunds st0) (refunds st')"
    "all_justified (replacement_justified st') (replacements st0) (replacements st')"
    using assms all_justified_step refund_justified_kept [OF step] replacement_justified_kept [OF step]
    unfolding session_ok_def state_step_def by blast+
  ultimately show ?thesis using assms unfolding session_ok_def state_step_def by metis
qed

section \<open>Properties of the services\<close>

text \<open>A seed with one order of each kind, for the concrete instances below.\<close>

definition sample_order :: "string \<Rightarrow> int \<Rightarrow> pyval" where
  "sample_order status days =
     PDict [(''customer_id'', PStr ''cust_1''), (''status'', PStr status),
       (''delivered_days_ago'', PInt days), (''total_cents'', PInt 5000),
       (''items'', PList [PDict [(''sku'', PStr ''mug'')]])]"

definition sample_state :: support_state where
  "sample_state = from_mapping
     [(''customers'', PDict [(''cust_1'', PDict [(''name'', PStr ''Ann'')])]),
      (''orders'', PDict [(''o1'', sample_order ''delivered'' 3), (''o2'', sample_order ''placed'' 0),
         (''o3'', sample_order ''delivered'' 31)]),
      (''tickets'', PDict [(''t1'', PDict [(''status'', PStr ''open'')])])]"

lemma wf_sample_state: "wf_support sample_state"
  by code_simp

text \<open>C28: On a well-formed state \<open>create_refund\<close> succeeds exactly when the order exists, belongs
  to the requesting customer, has no refund, was delivered within the window, and the amount is a
  number not above the order's total; it then files exactly that refund, and otherwise it fails
  with a tool error and changes nothing.\<close>

theorem create_refund_exact:
  assumes "wf_support st"
  shows "(case order_id of
      PStr k \<Rightarrow> if refund_allowed st k customer amount
        then create_refund st order_id customer amount reason =
          (let refund = PDict [(''order_id'', order_id), (''amount_cents'', amount), (''reason'', reason)]
           in (Inr refund, st\<lparr>refunds := put_entity (refunds st) order_id refund\<rparr>))
        else \<exists>e. create_refund st order_id customer amount reason = (Inl e, st) \<and> tool_failure e
    | _ \<Rightarrow> \<exists>e. create_refund st order_id customer amount reason = (Inl e, st) \<and> tool_failure e)"
  using assms by (rule create_refund_wf)

theorem create_refund_exact_witness:
  "fst (create_refund sample_state (PStr ''o1'') (PStr ''cust_1'') (PInt 5000) (PStr ''late'')) =
     Inr (PDict [(''order_id'', PStr ''o1''), (''amount_cents'', PInt 5000), (''reason'', PStr ''late'')]) \<and>
   snd (create_refund sample_state (PStr ''o3'') (PStr ''cust_1'') (PInt 1) (PStr ''late'')) = sample_state"
proof -
  have a: "refund_allowed sample_state ''o1'' (PStr ''cust_1'') (PInt 5000)"
    and b: "\<not> refund_allowed sample_state ''o3'' (PStr ''cust_1'') (PInt 1)" by code_simp+
  show ?thesis
    using create_refund_exact [OF wf_sample_state, of "PStr ''o1''" "PStr ''cust_1''" "PInt 5000" "PStr ''late''"]
      create_refund_exact [OF wf_sample_state, of "PStr ''o3''" "PStr ''cust_1''" "PInt 1" "PStr ''late''"] a b
    by (auto simp: Let_def)
qed

text \<open>On a well-formed state \<open>cancel_order\<close> succeeds exactly when the order exists, belongs
  to the requesting customer and is placed, processing or shipped; it then only sets the status to
  cancelled, and otherwise fails with a tool error and changes nothing.\<close>

theorem cancel_order_exact:
  assumes "wf_support st"
  shows "(case order_id of
      PStr k \<Rightarrow> if cancel_allowed st k customer
        then \<exists>d. field (orders st) k = Some (PDict d) \<and>
          cancel_order st order_id customer =
            (let order = PDict (dict_set ''status'' (PStr ''cancelled'') d)
             in (Inr order, st\<lparr>orders := put_entity (orders st) order_id order\<rparr>))
        else \<exists>e. cancel_order st order_id customer = (Inl e, st) \<and> tool_failure e
    | _ \<Rightarrow> \<exists>e. cancel_order st order_id customer = (Inl e, st) \<and> tool_failure e)"
  using assms by (rule cancel_order_wf)

theorem cancel_order_exact_witness:
  "snd (cancel_order sample_state (PStr ''o1'') (PStr ''cust_1'')) = sample_state \<and>
   field (orders (snd (cancel_order sample_state (PStr ''o2'') (PStr ''cust_1'')))) ''o2'' =
     Some (sample_order ''cancelled'' 0)"
proof -
  have a: "cancel_allowed sample_state ''o2'' (PStr ''cust_1'')"
    and b: "\<not> cancel_allowed sample_state ''o1'' (PStr ''cust_1'')" by code_simp+
  have c: "field (orders sample_state) ''o2'' = Some (sample_order ''placed'' 0)" by code_simp
  show ?thesis
    using cancel_order_exact [OF wf_sample_state, of "PStr ''o1''" "PStr ''cust_1''"]
      cancel_order_exact [OF wf_sample_state, of "PStr ''o2''" "PStr ''cust_1''"] a b c
      field_put_entity [OF wf_support_parts(2) [OF wf_sample_state]]
    by (auto simp: Let_def sample_order_def)
qed

text \<open>On a well-formed state \<open>replace_item\<close> succeeds exactly when the order exists, belongs to
  the requesting customer, has an item with the SKU, has no replacement yet and was delivered
  within the window; it then files exactly that replacement, and otherwise changes nothing.\<close>

theorem replace_item_exact:
  assumes "wf_support st"
  shows "(case order_id of
      PStr k \<Rightarrow> if replacement_allowed st k customer sku
        then replace_item st order_id customer sku reason =
          (let replacement = PDict [(''order_id'', order_id), (''sku'', sku), (''reason'', reason)]
           in (Inr replacement, st\<lparr>replacements := put_entity (replacements st) order_id replacement\<rparr>))
        else \<exists>e. replace_item st order_id customer sku reason = (Inl e, st) \<and> tool_failure e
    | _ \<Rightarrow> \<exists>e. replace_item st order_id customer sku reason = (Inl e, st) \<and> tool_failure e)"
  using assms by (rule replace_item_wf)

theorem replace_item_exact_witness:
  "snd (replace_item sample_state (PStr ''o1'') (PStr ''cust_1'') (PStr ''cup'') (PStr ''broken'')) = sample_state \<and>
   fst (replace_item sample_state (PStr ''o1'') (PStr ''cust_1'') (PStr ''mug'') (PStr ''broken'')) =
     Inr (PDict [(''order_id'', PStr ''o1''), (''sku'', PStr ''mug''), (''reason'', PStr ''broken'')])"
proof -
  have a: "replacement_allowed sample_state ''o1'' (PStr ''cust_1'') (PStr ''mug'')"
    and b: "\<not> replacement_allowed sample_state ''o1'' (PStr ''cust_1'') (PStr ''cup'')" by code_simp+
  show ?thesis
    using replace_item_exact [OF wf_sample_state, of "PStr ''o1''" "PStr ''cust_1''" "PStr ''mug''" "PStr ''broken''"]
      replace_item_exact [OF wf_sample_state, of "PStr ''o1''" "PStr ''cust_1''" "PStr ''cup''" "PStr ''broken''"] a b
    by (auto simp: Let_def)
qed

text \<open>On a well-formed state \<open>escalate_ticket\<close> succeeds exactly on an open or pending ticket,
  and then sets the status, adds one to the escalation count and appends the reason to the notes,
  all three; otherwise it fails with a tool error and changes nothing.\<close>

theorem escalate_ticket_exact:
  assumes "wf_support st"
  shows "(case ticket_id of
      PStr k \<Rightarrow> if escalate_allowed st k
        then \<exists>d t'. field (tickets st) k = Some (PDict d) \<and> t' = PDict (escalated_ticket reason d) \<and>
          escalate_ticket st ticket_id reason =
            (Inr t', st\<lparr>tickets := put_entity (tickets st) ticket_id t'\<rparr>) \<and>
          field t' ''status'' = Some (PStr ''escalated'') \<and>
          count_of t' = count_of (PDict d) + 1 \<and> notes_of t' = notes_of (PDict d) @ [reason]
        else \<exists>e. escalate_ticket st ticket_id reason = (Inl e, st) \<and> tool_failure e
    | _ \<Rightarrow> \<exists>e. escalate_ticket st ticket_id reason = (Inl e, st) \<and> tool_failure e)"
proof -
  have "field (PDict (escalated_ticket reason d)) ''status'' = Some (PStr ''escalated'') \<and>
      count_of (PDict (escalated_ticket reason d)) = count_of (PDict d) + 1 \<and>
      notes_of (PDict (escalated_ticket reason d)) = notes_of (PDict d) @ [reason]" for d
    by (simp add: escalated_ticket_def count_of_other) (simp add: count_of_def num_field_def)
  then show ?thesis
    using escalate_ticket_wf [OF assms, of ticket_id reason] by (cases ticket_id) (auto simp: Let_def)
qed

theorem escalate_ticket_exact_witness:
  "\<exists>t st. escalate_ticket sample_state (PStr ''t1'') (PStr ''angry'') = (Inr t, st) \<and> count_of t = 1 \<and>
     notes_of t = [PStr ''angry'']"
proof -
  have a: "escalate_allowed sample_state ''t1''" by code_simp
  have c: "field (tickets sample_state) ''t1'' = Some (PDict [(''status'', PStr ''open'')])" by code_simp
  show ?thesis
    using escalate_ticket_exact [OF wf_sample_state, of "PStr ''t1''" "PStr ''angry''"] a c
    by (auto simp: count_of_def num_field_def notes_of_def)
qed

text \<open>Nothing bounds a refund from below: whenever a refund of some amount is allowed, so is
  every smaller one, negative amounts included, and the service files it.\<close>

theorem negative_refund_accepted:
  assumes "wf_support st" and "refund_allowed st k customer (PInt a)" and "b \<le> a"
  shows "fst (create_refund st (PStr k) customer (PInt b) reason) =
      Inr (PDict [(''order_id'', PStr k), (''amount_cents'', PInt b), (''reason'', reason)])"
proof -
  have "refund_allowed st k customer (PInt b)"
    using assms(2,3) by (auto simp: refund_allowed_def split: option.splits)
  then show ?thesis using create_refund_wf [OF assms(1), of "PStr k" customer "PInt b" reason]
    by (simp add: Let_def)
qed

theorem negative_refund_accepted_witness:
  "is_ok (fst (create_refund sample_state (PStr ''o1'') (PStr ''cust_1'') (PInt (- 700)) (PStr ''late'')))"
proof -
  have "refund_allowed sample_state ''o1'' (PStr ''cust_1'') (PInt 1)" by code_simp
  from negative_refund_accepted [OF wf_sample_state this, of "- 700" "PStr ''late''"] show ?thesis by simp
qed

end
