(* ===== verification/Schemas.thy ===== *)
theory Schemas
  imports PyValue Complex_Main
begin

text \<open>
  \<open>backend/app/schemas.py\<close>: the contracts of the platform layer. An enum is a datatype, a
  pydantic model a record, a model that inherits from another a record extension, and the
  constraints of a model's fields (with its \<open>model_validator\<close>) the function that constructs it,
  which returns the model or the \<open>ValidationError\<close>. The text pydantic composes for an error is
  not modelled: the message names the offending field, or is the text the source raises itself.
  Money is a rational; the arithmetic on it is a parameter where the code computes.
\<close>

section \<open>Identifiers and times\<close>

text \<open>A \<open>UUID\<close> is its 128-bit integer, and is ordered by it; a \<open>datetime\<close> its microseconds.\<close>

datatype uuid = UUID (uuid_int: nat)

instantiation uuid :: linorder
begin

definition less_eq_uuid :: "uuid \<Rightarrow> uuid \<Rightarrow> bool" where
  "less_eq_uuid a b \<longleftrightarrow> uuid_int a \<le> uuid_int b"

definition less_uuid :: "uuid \<Rightarrow> uuid \<Rightarrow> bool" where
  "less_uuid a b \<longleftrightarrow> uuid_int a < uuid_int b"

instance
  by standard (auto simp: less_eq_uuid_def less_uuid_def uuid.expand)

end

type_synonym datetime = int

text \<open>\<open>str(uuid)\<close>: 32 hexadecimal digits in groups of 8, 4, 4, 4 and 12.\<close>

definition uuid_text :: "uuid \<Rightarrow> string" where
  "uuid_text u =
     (let hex = map (\<lambda>i. hex_digit (uuid_int u div 16 ^ (31 - i) mod 16)) [0..<32]
      in join_with ''-'' [take 8 hex, take 4 (drop 8 hex), take 4 (drop 12 hex), take 4 (drop 16 hex),
           drop 20 hex])"

section \<open>Enumerations\<close>

datatype event_type =
  MODEL_REQUEST | MODEL_RESPONSE | TOOL_CALL | TOOL_RESULT | RETRY | ERROR | FINAL_ANSWER

datatype run_status = RUN_QUEUED | RUN_RUNNING | RUN_COMPLETED | RUN_FAILED

datatype execution_status = PENDING | RUNNING | PASSED | FAILED | ERRORED

datatype regression_disposition =
  STABLE_PASS | STABLE_FAILURE | IMPROVEMENT | REGRESSION | INDETERMINATE

datatype trace_divergence_type =
  WRONG_TOOL | INVALID_TOOL_ARGUMENT | TOOL_ERROR | PREMATURE_TERMINATION | FINAL_ANSWER_MISMATCH

datatype judge_label = JUDGE_PASS | JUDGE_FAIL | JUDGE_UNCERTAIN

fun event_type_value :: "event_type \<Rightarrow> string" where
  "event_type_value MODEL_REQUEST = ''model_request''"
| "event_type_value MODEL_RESPONSE = ''model_response''"
| "event_type_value TOOL_CALL = ''tool_call''"
| "event_type_value TOOL_RESULT = ''tool_result''"
| "event_type_value RETRY = ''retry''"
| "event_type_value ERROR = ''error''"
| "event_type_value FINAL_ANSWER = ''final_answer''"

fun judge_label_value :: "judge_label \<Rightarrow> string" where
  "judge_label_value JUDGE_PASS = ''pass''"
| "judge_label_value JUDGE_FAIL = ''fail''"
| "judge_label_value JUDGE_UNCERTAIN = ''uncertain''"

lemma event_type_value_inject: "event_type_value a = event_type_value b \<longleftrightarrow> a = b"
  by (cases a; cases b) simp_all

lemma judge_label_value_inject: "judge_label_value a = judge_label_value b \<longleftrightarrow> a = b"
  by (cases a; cases b) simp_all

text \<open>The statuses a finished execution has.\<close>

definition terminal_status :: "execution_status \<Rightarrow> bool" where
  "terminal_status s \<longleftrightarrow> s \<in> {PASSED, FAILED, ERRORED}"

lemma terminal_status_simps [simp]:
  "terminal_status PASSED" "terminal_status FAILED" "terminal_status ERRORED"
  "\<not> terminal_status PENDING" "\<not> terminal_status RUNNING"
  by (simp_all add: terminal_status_def)

section \<open>Validation\<close>

text \<open>
  A model's fields are checked one by one; construction fails when one is out of its bounds.
\<close>

definition length_in :: "nat \<Rightarrow> nat \<Rightarrow> string \<Rightarrow> bool" where
  "length_in lo hi s \<longleftrightarrow> lo \<le> length s \<and> length s \<le> hi"

definition non_negative :: "int option \<Rightarrow> bool" where
  "non_negative v = (case v of None \<Rightarrow> True | Some i \<Rightarrow> 0 \<le> i)"

definition validated :: "(string \<times> bool) list \<Rightarrow> 'm \<Rightarrow> (exc, 'm) res" where
  "validated checks m =
     (case filter (\<lambda>(field, ok). \<not> ok) checks of
        [] \<Rightarrow> Inr m
      | (field, ok) # rest \<Rightarrow> Inl (Raise ValidationError field))"

lemma validated_Inr: "validated checks m = Inr m' \<longleftrightarrow> m' = m \<and> list_all snd checks"
  by (induction checks) (auto simp: validated_def)

lemma validated_Inl: "validated checks m = Inl e \<Longrightarrow> exc_of e = ValidationError"
  by (auto simp: validated_def split: list.splits)

lemma validated_total: "list_all snd checks \<Longrightarrow> validated checks m = Inr m"
  by (simp add: validated_Inr)

section \<open>Agent versions, runs, executions\<close>

record agent_version_create =
  av_name :: string
  av_git_sha :: string
  av_model :: string
  av_system_prompt :: string
  av_tool_schema_hash :: string
  av_config :: pydict

record agent_version = agent_version_create +
  av_id :: uuid
  av_content_hash :: string
  av_created_at :: datetime

definition AgentVersionCreate :: "'a agent_version_create_scheme \<Rightarrow> (exc, 'a agent_version_create_scheme) res" where
  "AgentVersionCreate v =
     validated
       [(''name'', length_in 1 120 (av_name v)), (''git_sha'', length_in 7 64 (av_git_sha v)),
        (''model'', length_in 1 160 (av_model v)), (''system_prompt'', av_system_prompt v \<noteq> []),
        (''tool_schema_hash'', length_in 7 128 (av_tool_schema_hash v))] v"

record evaluation_run_create =
  run_agent_version_id :: uuid
  run_suite_id :: string
  run_suite_version :: string
  run_suite_manifest_hash :: string
  run_seed :: int

record evaluation_run = evaluation_run_create +
  run_id :: uuid
  run_status_of :: run_status
  run_created_at :: datetime
  run_finished_at :: "datetime option"

definition EvaluationRunCreate :: "'a evaluation_run_create_scheme \<Rightarrow> (exc, 'a evaluation_run_create_scheme) res" where
  "EvaluationRunCreate r =
     validated
       [(''suite_id'', length_in 1 120 (run_suite_id r)),
        (''suite_version'', length_in 1 80 (run_suite_version r)),
        (''suite_manifest_hash'', length_in 7 128 (run_suite_manifest_hash r)),
        (''seed'', 0 \<le> run_seed r)] r"

record task_execution_create =
  ex_task_id :: string
  ex_task_seed :: int

record task_execution = task_execution_create +
  ex_id :: uuid
  ex_run_id :: uuid
  ex_status :: execution_status
  ex_passed :: "bool option"
  ex_final_output :: "string option"
  ex_latency_ms :: "int option"
  ex_input_tokens :: "int option"
  ex_output_tokens :: "int option"
  ex_estimated_cost_usd :: "rat option"
  ex_missing_expected_actions :: "string list"
  ex_forbidden_actions_seen :: "string list"
  ex_final_state_mismatches :: "string list"
  ex_created_at :: datetime
  ex_finished_at :: "datetime option"

definition TaskExecutionCreate :: "'a task_execution_create_scheme \<Rightarrow> (exc, 'a task_execution_create_scheme) res" where
  "TaskExecutionCreate e =
     validated
       [(''task_id'', length_in 1 120 (ex_task_id e)), (''task_seed'', 0 \<le> ex_task_seed e)] e"

record task_execution_result =
  res_status :: execution_status
  res_passed :: bool
  res_final_output :: string
  res_latency_ms :: int
  res_input_tokens :: int
  res_output_tokens :: int
  res_estimated_cost_usd :: rat
  res_missing_expected_actions :: "string list"
  res_forbidden_actions_seen :: "string list"
  res_final_state_mismatches :: "string list"

definition terminal_status_matches_outcome :: "task_execution_result \<Rightarrow> (exc, task_execution_result) res" where
  "terminal_status_matches_outcome r =
     (if res_status r \<notin> {PASSED, FAILED, ERRORED}
      then Inl (Raise ValidationError ''result status must be passed, failed, or errored'')
      else if res_status r = PASSED \<and> \<not> res_passed r
      then Inl (Raise ValidationError ''a passed execution must have passed=true'')
      else if res_status r = FAILED \<and> res_passed r
      then Inl (Raise ValidationError ''a failed execution must have passed=false'')
      else Inr r)"

definition TaskExecutionResult :: "task_execution_result \<Rightarrow> (exc, task_execution_result) res" where
  "TaskExecutionResult r =
     bind_res
       (validated
         [(''final_output'', res_final_output r \<noteq> []), (''latency_ms'', 0 \<le> res_latency_ms r),
          (''input_tokens'', 0 \<le> res_input_tokens r), (''output_tokens'', 0 \<le> res_output_tokens r),
          (''estimated_cost_usd'', 0 \<le> res_estimated_cost_usd r)] r)
       terminal_status_matches_outcome"

section \<open>Trace events and judge verdicts\<close>

record trace_event_create =
  ev_id :: uuid
  ev_sequence_no :: int
  ev_event_type :: event_type
  ev_payload :: pydict
  ev_parent_event_id :: "uuid option"
  ev_duration_ms :: "int option"

record trace_event = trace_event_create +
  ev_execution_id :: uuid
  ev_created_at :: datetime

definition TraceEventCreate :: "'a trace_event_create_scheme \<Rightarrow> (exc, 'a trace_event_create_scheme) res" where
  "TraceEventCreate e =
     validated
       [(''sequence_no'', 0 \<le> ev_sequence_no e), (''duration_ms'', non_negative (ev_duration_ms e))] e"

record judge_verdict_create =
  jv_judge_name :: string
  jv_rubric_version :: string
  jv_label :: judge_label
  jv_confidence :: rat
  jv_rationale :: string

record judge_verdict = judge_verdict_create +
  jv_id :: uuid
  jv_execution_id :: uuid
  jv_created_at :: datetime

definition JudgeVerdictCreate :: "'a judge_verdict_create_scheme \<Rightarrow> (exc, 'a judge_verdict_create_scheme) res" where
  "JudgeVerdictCreate v =
     validated
       [(''judge_name'', length_in 1 120 (jv_judge_name v)),
        (''rubric_version'', length_in 1 40 (jv_rubric_version v)),
        (''confidence'', 0 \<le> jv_confidence v \<and> jv_confidence v \<le> 1),
        (''rationale'', jv_rationale v \<noteq> [])] v"

section \<open>Comparison results\<close>

record trace_attribution =
  at_task_id :: string
  at_baseline_execution_id :: uuid
  at_candidate_execution_id :: uuid
  at_baseline_event_id :: "uuid option"
  at_candidate_event_id :: "uuid option"
  at_divergence_type :: trace_divergence_type
  at_evidence :: pydict

record paired_task_comparison =
  pc_task_id :: string
  pc_disposition :: regression_disposition
  pc_baseline_execution_id :: uuid
  pc_candidate_execution_id :: uuid
  pc_baseline_passed :: "bool option"
  pc_candidate_passed :: "bool option"
  pc_latency_delta_ms :: "int option"
  pc_cost_delta_usd :: "rat option"
  pc_attribution :: "trace_attribution option"

record run_comparison =
  rc_baseline_run_id :: uuid
  rc_candidate_run_id :: uuid
  rc_compared_tasks :: nat
  rc_regressions :: nat
  rc_improvements :: nat
  rc_results :: "paired_task_comparison list"

section \<open>What a valid execution result is\<close>

lemma TaskExecutionResult_Inr [result_elims]:
  "TaskExecutionResult r = Inr r' \<longleftrightarrow>
     r' = r \<and> res_final_output r \<noteq> [] \<and> 0 \<le> res_latency_ms r \<and> 0 \<le> res_input_tokens r \<and>
     0 \<le> res_output_tokens r \<and> 0 \<le> res_estimated_cost_usd r \<and> terminal_status (res_status r) \<and>
     (res_status r = PASSED \<longrightarrow> res_passed r) \<and> (res_status r = FAILED \<longrightarrow> \<not> res_passed r)"
  by (auto simp: TaskExecutionResult_def bind_res_eq_Inr validated_Inr terminal_status_def
      terminal_status_matches_outcome_def split: if_splits)

end
