(* ===== verification/Trace.thy ===== *)
theory Trace
  imports Schemas Redaction
begin

text \<open>
  \<open>backend/app/trace.py\<close>: the ordered, typed trace of one task execution. A payload class is a
  constructor of \<open>step_payload\<close>; building one checks its field constraints. A trace assigns
  sequence numbers and identifiers itself; \<open>to_storage\<close> and \<open>from_storage\<close> convert it to and
  from the stored events. \<open>uuid4 n\<close> is the identifier drawn for the trace's step number \<open>n\<close>.
\<close>

section \<open>Payloads\<close>

datatype step_payload =
    ModelRequestPayload "pydict list" string pydict
  | ModelResponsePayload "string option" "pydict list" string "int option" "int option"
  | ToolCallPayload string string string pydict
  | ToolResultPayload string pyval
  | RetryPayload int string
  | ErrorPayload string string
  | FinalAnswerPayload string

fun payload_event_type :: "step_payload \<Rightarrow> event_type" where
  "payload_event_type (ModelRequestPayload messages model params) = MODEL_REQUEST"
| "payload_event_type (ModelResponsePayload content calls finish inp outp) = MODEL_RESPONSE"
| "payload_event_type (ToolCallPayload call_id service operation arguments) = TOOL_CALL"
| "payload_event_type (ToolResultPayload call_id result) = TOOL_RESULT"
| "payload_event_type (RetryPayload attempt reason) = RETRY"
| "payload_event_type (ErrorPayload error_type message) = ERROR"
| "payload_event_type (FinalAnswerPayload content) = FINAL_ANSWER"

text \<open>The field constraints: \<open>ge=0\<close> on token counts, \<open>ge=1\<close> on the attempt.\<close>

fun build_payload :: "step_payload \<Rightarrow> (exc, step_payload) res" where
  "build_payload (ModelResponsePayload content calls finish inp outp) =
     validated [(''input_tokens'', non_negative inp), (''output_tokens'', non_negative outp)]
       (ModelResponsePayload content calls finish inp outp)"
| "build_payload (RetryPayload attempt reason) =
     validated [(''attempt'', 1 \<le> attempt)] (RetryPayload attempt reason)"
| "build_payload p = Inr p"

definition payload_ok :: "step_payload \<Rightarrow> bool" where
  "payload_ok p \<longleftrightarrow> build_payload p = Inr p"

lemma build_payload_Inr: "build_payload p = Inr q \<Longrightarrow> q = p \<and> payload_ok p"
  by (cases p rule: build_payload.cases) (auto simp: payload_ok_def validated_Inr)

lemma build_payload_Inl: "build_payload p = Inl e \<Longrightarrow> exc_of e = ValidationError"
  by (cases p rule: build_payload.cases) (auto dest: validated_Inl)

lemma payload_ok_simps [simp]:
  "payload_ok (ModelRequestPayload messages model params)"
  "payload_ok (ModelResponsePayload content calls finish inp outp) \<longleftrightarrow> non_negative inp \<and> non_negative outp"
  "payload_ok (ToolCallPayload call_id service operation arguments)"
  "payload_ok (ToolResultPayload call_id result)"
  "payload_ok (RetryPayload attempt reason) \<longleftrightarrow> 1 \<le> attempt"
  "payload_ok (ErrorPayload error_type message)"
  "payload_ok (FinalAnswerPayload text)"
  by (simp_all add: payload_ok_def validated_Inr)

text \<open>\<open>payload.model_dump(mode="json")\<close>, without and with the discriminator.\<close>

definition opt_text :: "string option \<Rightarrow> pyval" where
  "opt_text v = (case v of None \<Rightarrow> PNone | Some s \<Rightarrow> PStr s)"

definition opt_num :: "int option \<Rightarrow> pyval" where
  "opt_num v = (case v of None \<Rightarrow> PNone | Some i \<Rightarrow> PInt i)"

fun dump_payload :: "step_payload \<Rightarrow> pydict" where
  "dump_payload (ModelRequestPayload messages model params) =
     [(''messages'', PList (map PDict messages)), (''model'', PStr model), (''params'', PDict params)]"
| "dump_payload (ModelResponsePayload content calls finish inp outp) =
     [(''content'', opt_text content), (''tool_calls'', PList (map PDict calls)),
      (''finish_reason'', PStr finish), (''input_tokens'', opt_num inp), (''output_tokens'', opt_num outp)]"
| "dump_payload (ToolCallPayload call_id service operation arguments) =
     [(''call_id'', PStr call_id), (''service'', PStr service), (''operation'', PStr operation),
      (''arguments'', PDict arguments)]"
| "dump_payload (ToolResultPayload call_id result) = [(''call_id'', PStr call_id), (''result'', result)]"
| "dump_payload (RetryPayload attempt reason) = [(''attempt'', PInt attempt), (''reason'', PStr reason)]"
| "dump_payload (ErrorPayload error_type message) =
     [(''error_type'', PStr error_type), (''message'', PStr message)]"
| "dump_payload (FinalAnswerPayload content) = [(''content'', PStr content)]"

definition dump_with_type :: "step_payload \<Rightarrow> pydict" where
  "dump_with_type p = (''event_type'', PStr (event_type_value (payload_event_type p))) # dump_payload p"

section \<open>Validation of stored payloads\<close>

text \<open>
  \<open>TypeAdapter(StepPayload).validate_python\<close> in pydantic's lax mode: a text is only taken from a
  text, an integer from an integer, a boolean or (\<open>int_of_text\<close>, pydantic's own grammar) a numeric
  text; a key that no field names is ignored, a missing one takes its default or is an error.
\<close>

type_synonym 'a field_type = "pyval \<Rightarrow> 'a option"

definition required :: "pydict \<Rightarrow> string \<Rightarrow> 'a field_type \<Rightarrow> (exc, 'a) res" where
  "required d k parse =
     (case map_of d k of
        None \<Rightarrow> Inl (Raise ValidationError k)
      | Some v \<Rightarrow> (case parse v of None \<Rightarrow> Inl (Raise ValidationError k) | Some x \<Rightarrow> Inr x))"

definition defaulted :: "pydict \<Rightarrow> string \<Rightarrow> 'a \<Rightarrow> 'a field_type \<Rightarrow> (exc, 'a) res" where
  "defaulted d k dflt parse = (if map_of d k = None then Inr dflt else required d k parse)"

fun as_str :: "string field_type" where
  "as_str (PStr s) = Some s"
| "as_str v = None"

fun as_dict :: "pydict field_type" where
  "as_dict (PDict d) = Some d"
| "as_dict v = None"

fun as_dicts :: "pydict list field_type" where
  "as_dicts (PList []) = Some []"
| "as_dicts (PList (v # vs)) =
     (case (as_dict v, as_dicts (PList vs)) of (Some d, Some ds) \<Rightarrow> Some (d # ds) | _ \<Rightarrow> None)"
| "as_dicts v = None"

fun as_int :: "(string \<Rightarrow> int option) \<Rightarrow> int field_type" where
  "as_int int_of_text (PInt i) = Some i"
| "as_int int_of_text (PBool b) = Some (if b then 1 else 0)"
| "as_int int_of_text (PStr s) = int_of_text s"
| "as_int int_of_text v = None"

definition optional :: "'a field_type \<Rightarrow> 'a option field_type" where
  "optional parse v = (if v = PNone then Some None else map_option Some (parse v))"

fun decode_payload :: "(string \<Rightarrow> int option) \<Rightarrow> event_type \<Rightarrow> pydict \<Rightarrow> (exc, step_payload) res" where
  "decode_payload int_of_text MODEL_REQUEST d =
     bind_res (required d ''messages'' as_dicts) (\<lambda>messages.
     bind_res (required d ''model'' as_str) (\<lambda>model.
     bind_res (defaulted d ''params'' [] as_dict) (\<lambda>params.
       Inr (ModelRequestPayload messages model params))))"
| "decode_payload int_of_text MODEL_RESPONSE d =
     bind_res (defaulted d ''content'' None (optional as_str)) (\<lambda>content.
     bind_res (defaulted d ''tool_calls'' [] as_dicts) (\<lambda>calls.
     bind_res (required d ''finish_reason'' as_str) (\<lambda>finish.
     bind_res (defaulted d ''input_tokens'' None (optional (as_int int_of_text))) (\<lambda>inp.
     bind_res (defaulted d ''output_tokens'' None (optional (as_int int_of_text))) (\<lambda>outp.
       build_payload (ModelResponsePayload content calls finish inp outp))))))"
| "decode_payload int_of_text TOOL_CALL d =
     bind_res (required d ''call_id'' as_str) (\<lambda>call_id.
     bind_res (required d ''service'' as_str) (\<lambda>service.
     bind_res (required d ''operation'' as_str) (\<lambda>operation.
     bind_res (defaulted d ''arguments'' [] as_dict) (\<lambda>arguments.
       Inr (ToolCallPayload call_id service operation arguments)))))"
| "decode_payload int_of_text TOOL_RESULT d =
     bind_res (required d ''call_id'' as_str) (\<lambda>call_id.
     bind_res (defaulted d ''result'' PNone Some) (\<lambda>result.
       Inr (ToolResultPayload call_id result)))"
| "decode_payload int_of_text RETRY d =
     bind_res (required d ''attempt'' (as_int int_of_text)) (\<lambda>attempt.
     bind_res (required d ''reason'' as_str) (\<lambda>reason.
       build_payload (RetryPayload attempt reason)))"
| "decode_payload int_of_text ERROR d =
     bind_res (required d ''error_type'' as_str) (\<lambda>error_type.
     bind_res (required d ''message'' as_str) (\<lambda>message.
       Inr (ErrorPayload error_type message)))"
| "decode_payload int_of_text FINAL_ANSWER d =
     bind_res (required d ''content'' as_str) (\<lambda>content. Inr (FinalAnswerPayload content))"

section \<open>The trace\<close>

record trace_step =
  step_id :: uuid
  step_no :: int
  step_payload :: step_payload
  step_parent :: "uuid option"
  step_duration_ms :: "int option"
  step_created_at :: "datetime option"

record trace =
  tr_execution_id :: uuid
  tr_steps :: "trace_step list"
  tr_step_ids :: "uuid set"

definition TraceStep :: "trace_step \<Rightarrow> (exc, trace_step) res" where
  "TraceStep step =
     validated
       [(''sequence_no'', 0 \<le> step_no step), (''duration_ms'', non_negative (step_duration_ms step))] step"

definition empty_trace :: "uuid \<Rightarrow> trace" where
  "empty_trace execution_id = \<lparr>tr_execution_id = execution_id, tr_steps = [], tr_step_ids = {}\<rparr>"

definition push_step :: "trace_step \<Rightarrow> trace \<Rightarrow> trace" where
  "push_step step t =
     t\<lparr>tr_steps := tr_steps t @ [step], tr_step_ids := insert (step_id step) (tr_step_ids t)\<rparr>"

definition append_step ::
  "(nat \<Rightarrow> uuid) \<Rightarrow> step_payload \<Rightarrow> uuid option \<Rightarrow> int option \<Rightarrow> trace \<Rightarrow> (exc, trace_step \<times> trace) res" where
  "append_step uuid4 payload parent_step_id duration_ms t =
     (if \<not> (case parent_step_id of None \<Rightarrow> True | Some p \<Rightarrow> p \<in> tr_step_ids t)
      then Inl (Raise ValueError
        (''parent_step_id '' @ (case parent_step_id of None \<Rightarrow> ''None'' | Some p \<Rightarrow> uuid_text p)
          @ '' is not a step in this trace''))
      else
        bind_res (TraceStep
          \<lparr>step_id = uuid4 (length (tr_steps t)), step_no = int (length (tr_steps t)), step_payload = payload,
           step_parent = parent_step_id, step_duration_ms = duration_ms, step_created_at = None\<rparr>) (\<lambda>step.
          Inr (step, push_step step t)))"

section \<open>Storage\<close>

definition step_to_event :: "trace_step \<Rightarrow> trace_event_create" where
  "step_to_event step =
     \<lparr>ev_id = step_id step, ev_sequence_no = step_no step,
      ev_event_type = payload_event_type (step_payload step),
      ev_payload = dump_payload (step_payload step),
      ev_parent_event_id = step_parent step, ev_duration_ms = step_duration_ms step\<rparr>"

definition to_storage :: "trace \<Rightarrow> (exc, trace_event_create list) res" where
  "to_storage t = map_res (\<lambda>step. TraceEventCreate (step_to_event step)) (tr_steps t)"

fun restore_events ::
  "(string \<Rightarrow> int option) \<Rightarrow> int \<Rightarrow> trace_event list \<Rightarrow> trace \<Rightarrow> (exc, trace) res" where
  "restore_events int_of_text expected [] t = Inr t"
| "restore_events int_of_text expected (event # events) t =
     (if ev_sequence_no event \<noteq> expected
      then Inl (Raise ValueError
        (''trace event sequence gap: expected '' @ int_text expected @ '', got '' @ int_text (ev_sequence_no event)))
      else if \<not> (case ev_parent_event_id event of None \<Rightarrow> True | Some p \<Rightarrow> p \<in> tr_step_ids t)
      then Inl (Raise ValueError
        (''parent_event_id '' @ (case ev_parent_event_id event of None \<Rightarrow> ''None'' | Some p \<Rightarrow> uuid_text p)
          @ '' is not a prior step in this trace''))
      else
        bind_res (decode_payload int_of_text (ev_event_type event)
          (dict_set ''event_type'' (PStr (event_type_value (ev_event_type event))) (ev_payload event))) (\<lambda>payload.
        bind_res (TraceStep
          \<lparr>step_id = ev_id event, step_no = ev_sequence_no event, step_payload = payload,
           step_parent = ev_parent_event_id event, step_duration_ms = ev_duration_ms event,
           step_created_at = Some (ev_created_at event)\<rparr>) (\<lambda>step.
          restore_events int_of_text (expected + 1) events (push_step step t))))"

definition from_storage ::
  "(string \<Rightarrow> int option) \<Rightarrow> uuid \<Rightarrow> trace_event list \<Rightarrow> (exc, trace) res" where
  "from_storage int_of_text execution_id events =
     restore_events int_of_text 0 (sort_key ev_sequence_no events) (empty_trace execution_id)"

section \<open>Invariant\<close>

text \<open>
  What a trace always is: its steps are numbered from 0 in order, every parent is the identifier
  of an earlier step, the set of identifiers is the identifiers of the steps, and every payload
  and duration is within its bounds.
\<close>

definition parents_prior :: "trace_step list \<Rightarrow> bool" where
  "parents_prior steps \<longleftrightarrow>
     list_all (\<lambda>i. case step_parent (steps ! i) of
         None \<Rightarrow> True | Some p \<Rightarrow> p \<in> set (map step_id (take i steps))) [0..<length steps]"

lemma parents_prior_nth:
  "parents_prior steps \<Longrightarrow> i < length steps \<Longrightarrow>
     case step_parent (steps ! i) of None \<Rightarrow> True | Some p \<Rightarrow> p \<in> set (map step_id (take i steps))"
  by (simp add: parents_prior_def list_all_iff)

definition step_ok :: "trace_step \<Rightarrow> bool" where
  "step_ok step \<longleftrightarrow> payload_ok (step_payload step) \<and> non_negative (step_duration_ms step)"

definition trace_ok :: "trace \<Rightarrow> bool" where
  "trace_ok t \<longleftrightarrow>
     map step_no (tr_steps t) = map int [0..<length (tr_steps t)] \<and>
     tr_step_ids t = set (map step_id (tr_steps t)) \<and>
     parents_prior (tr_steps t) \<and> list_all step_ok (tr_steps t)"

lemma trace_ok_empty [simp]: "trace_ok (empty_trace eid)"
  by (simp add: trace_ok_def empty_trace_def parents_prior_def)

lemma push_step_simps [simp]:
  "tr_steps (push_step step t) = tr_steps t @ [step]"
  "tr_step_ids (push_step step t) = insert (step_id step) (tr_step_ids t)"
  "tr_execution_id (push_step step t) = tr_execution_id t"
  by (simp_all add: push_step_def)

lemma empty_trace_simps [simp]:
  "tr_steps (empty_trace eid) = []" "tr_step_ids (empty_trace eid) = {}"
  "tr_execution_id (empty_trace eid) = eid"
  by (simp_all add: empty_trace_def)

lemma parents_prior_snoc:
  "parents_prior (steps @ [step]) \<longleftrightarrow>
     parents_prior steps \<and>
     (case step_parent step of None \<Rightarrow> True | Some p \<Rightarrow> p \<in> set (map step_id steps))"
  by (auto simp: parents_prior_def list_all_iff nth_append split: option.splits)

lemma trace_ok_push [wf_intros]:
  assumes "trace_ok t" and "step_no step = int (length (tr_steps t))" and "step_ok step"
    and "case step_parent step of None \<Rightarrow> True | Some p \<Rightarrow> p \<in> tr_step_ids t"
  shows "trace_ok (push_step step t)"
  using assms by (auto simp: trace_ok_def parents_prior_snoc split: option.splits)

lemma append_step_Inr [result_elims]:
  "append_step uuid4 payload parent duration t = Inr (step, t') \<longleftrightarrow>
     (case parent of None \<Rightarrow> True | Some p \<Rightarrow> p \<in> tr_step_ids t) \<and> non_negative duration \<and>
     step = \<lparr>step_id = uuid4 (length (tr_steps t)), step_no = int (length (tr_steps t)), step_payload = payload,
           step_parent = parent, step_duration_ms = duration, step_created_at = None\<rparr> \<and>
     t' = push_step step t"
  by (auto simp: append_step_def TraceStep_def bind_res_eq_Inr validated_Inr split: option.splits)

lemma append_step_ok:
  assumes "append_step uuid4 payload parent duration t = Inr (step, t')"
    and "trace_ok t" and "payload_ok payload"
  shows "trace_ok t'" and "step_id step \<in> tr_step_ids t'"
  using assms by (auto simp: append_step_Inr step_ok_def intro!: trace_ok_push)

lemma append_step_total:
  "parent = None \<or> (\<exists>p. parent = Some p \<and> p \<in> tr_step_ids t) \<Longrightarrow> non_negative duration \<Longrightarrow>
     \<exists>step. append_step uuid4 payload parent duration t = Inr (step, push_step step t) \<and>
       step_payload step = payload \<and> step_parent step = parent"
  by (auto simp: append_step_Inr)

section \<open>Round trip\<close>

lemma as_dicts_map [simp]: "as_dicts (PList (map PDict ds)) = Some ds"
  by (induction ds) auto

lemma optional_simps [simp]:
  "optional as_str (opt_text v) = Some v"
  "optional (as_int f) (opt_num n) = Some n"
  by (simp_all add: optional_def opt_text_def opt_num_def split: option.splits)

text \<open>Validating what a payload dumps to gives the payload back.\<close>

lemma decode_dump:
  "payload_ok p \<Longrightarrow> decode_payload int_of_text (payload_event_type p) (dict_set ''event_type'' v (dump_payload p)) = Inr p"
  by (cases p) (simp_all add: required_def defaulted_def payload_ok_def)

lemma decode_payload_ok:
  assumes "decode_payload int_of_text et d = Inr p"
  shows "payload_ok p \<and> payload_event_type p = et"
  using assms
proof (cases et)
  case MODEL_RESPONSE
  then show ?thesis using assms by (auto simp: bind_res_eq_Inr validated_Inr)
next
  case RETRY
  then show ?thesis using assms by (auto simp: bind_res_eq_Inr validated_Inr)
qed (auto simp: bind_res_eq_Inr)

definition stored_event :: "uuid \<Rightarrow> datetime \<Rightarrow> trace_event_create \<Rightarrow> trace_event" where
  "stored_event eid created e = trace_event_create.extend e \<lparr>ev_execution_id = eid, ev_created_at = created\<rparr>"

lemma stored_event_simps [simp]:
  "ev_id (stored_event eid created e) = ev_id e"
  "ev_sequence_no (stored_event eid created e) = ev_sequence_no e"
  "ev_event_type (stored_event eid created e) = ev_event_type e"
  "ev_payload (stored_event eid created e) = ev_payload e"
  "ev_parent_event_id (stored_event eid created e) = ev_parent_event_id e"
  "ev_duration_ms (stored_event eid created e) = ev_duration_ms e"
  "ev_execution_id (stored_event eid created e) = eid"
  "ev_created_at (stored_event eid created e) = created"
  by (simp_all add: stored_event_def trace_event_create.defs)

lemma step_to_event_simps [simp]:
  "ev_id (step_to_event s) = step_id s"
  "ev_sequence_no (step_to_event s) = step_no s"
  "ev_event_type (step_to_event s) = payload_event_type (step_payload s)"
  "ev_payload (step_to_event s) = dump_payload (step_payload s)"
  "ev_parent_event_id (step_to_event s) = step_parent s"
  "ev_duration_ms (step_to_event s) = step_duration_ms s"
  by (simp_all add: step_to_event_def)

lemma trace_ok_steps:
  assumes "trace_ok t" and "i < length (tr_steps t)"
  shows "step_no (tr_steps t ! i) = int i" and "step_ok (tr_steps t ! i)"
    and "case step_parent (tr_steps t ! i) of None \<Rightarrow> True | Some p \<Rightarrow> p \<in> set (map step_id (take i (tr_steps t)))"
proof -
  have "map step_no (tr_steps t) ! i = map int [0..<length (tr_steps t)] ! i"
    using assms(1) by (simp add: trace_ok_def)
  then show "step_no (tr_steps t ! i) = int i" using assms(2) by simp
qed (use assms parents_prior_nth [of "tr_steps t" i] in \<open>simp_all add: trace_ok_def list_all_length\<close>)

lemma to_storage_ok: "trace_ok t \<Longrightarrow> to_storage t = Inr (map step_to_event (tr_steps t))"
  unfolding to_storage_def
proof (rule map_res_all_ok)
  fix step assume ok: "trace_ok t" and "step \<in> set (tr_steps t)"
  then obtain i where "i < length (tr_steps t)" "step = tr_steps t ! i" by (metis in_set_conv_nth)
  with trace_ok_steps [OF ok, of i] show "TraceEventCreate (step_to_event step) = Inr (step_to_event step)"
    by (auto simp: TraceEventCreate_def validated_Inr step_ok_def)
qed

text \<open>
  The general form, which the redacting store needs too: the stored payloads may be any dump
  \<open>g p\<close> of other payloads, as long as those are well-formed and of the same kind.
\<close>

lemma restore_events_steps:
  assumes "\<And>s. s \<in> set steps \<Longrightarrow> payload_ok (g (step_payload s)) \<and>
      payload_event_type (g (step_payload s)) = payload_event_type (step_payload s)"
    and "map step_no (old @ steps) = map int [0..<length (old @ steps)]"
    and "parents_prior (old @ steps)" and "list_all step_ok steps"
    and "tr_step_ids t = set (map step_id old)"
  shows "restore_events int_of_text (int (length old))
      (map (\<lambda>s. stored_event eid (created (step_no s)) (step_to_event (s\<lparr>step_payload := g (step_payload s)\<rparr>))) steps) t =
    Inr (fold push_step
      (map (\<lambda>s. s\<lparr>step_payload := g (step_payload s), step_created_at := Some (created (step_no s))\<rparr>) steps) t)"
  using assms
proof (induction steps arbitrary: old t)
  case (Cons s steps)
  let ?n = "length old"
  have no: "step_no s = int ?n"
  proof -
    have "map step_no (old @ s # steps) ! ?n = map int [0..<length (old @ s # steps)] ! ?n"
      using Cons.prems(2) by simp
    then show ?thesis by (simp add: nth_append del: upt_Suc)
  qed
  have par: "case step_parent s of None \<Rightarrow> True | Some p \<Rightarrow> p \<in> tr_step_ids t"
    using parents_prior_nth [OF Cons.prems(3), of ?n] Cons.prems(5) by (simp split: option.splits)
  have g: "payload_ok (g (step_payload s))"
      "payload_event_type (g (step_payload s)) = payload_event_type (step_payload s)"
    using Cons.prems(1) by simp_all
  have dec: "decode_payload int_of_text (payload_event_type (step_payload s))
      (dict_set ''event_type'' v (dump_payload (g (step_payload s)))) = Inr (g (step_payload s))" for v
    using decode_dump [OF g(1)] g(2) by simp
  let ?s = "s\<lparr>step_payload := g (step_payload s), step_created_at := Some (created (step_no s))\<rparr>"
  have "restore_events int_of_text (int (length (old @ [s])))
      (map (\<lambda>s. stored_event eid (created (step_no s)) (step_to_event (s\<lparr>step_payload := g (step_payload s)\<rparr>))) steps)
      (push_step ?s t) =
    Inr (fold push_step
      (map (\<lambda>s. s\<lparr>step_payload := g (step_payload s), step_created_at := Some (created (step_no s))\<rparr>) steps)
      (push_step ?s t))"
    by (rule Cons.IH) (use Cons.prems in auto)
  moreover have "TraceStep \<lparr>step_id = step_id s, step_no = step_no s, step_payload = g (step_payload s),
      step_parent = step_parent s, step_duration_ms = step_duration_ms s,
      step_created_at = Some (created (step_no s))\<rparr> = Inr ?s"
    using Cons.prems(4) no by (simp add: TraceStep_def validated_Inr step_ok_def)
  ultimately show ?case using no par g(2) dec by (simp add: add.commute split: option.splits)
qed simp

lemma fold_push_step:
  "tr_steps (fold push_step ss t) = tr_steps t @ ss"
  "tr_step_ids (fold push_step ss t) = tr_step_ids t \<union> set (map step_id ss)"
  "tr_execution_id (fold push_step ss t) = tr_execution_id t"
  by (induction ss arbitrary: t) auto

definition stored_steps :: "(step_payload \<Rightarrow> step_payload) \<Rightarrow> (int \<Rightarrow> datetime) \<Rightarrow> trace_step list \<Rightarrow> trace_step list" where
  "stored_steps g created =
     map (\<lambda>s. s\<lparr>step_payload := g (step_payload s), step_created_at := Some (created (step_no s))\<rparr>)"

definition stored_events ::
  "(step_payload \<Rightarrow> step_payload) \<Rightarrow> uuid \<Rightarrow> (int \<Rightarrow> datetime) \<Rightarrow> trace_step list \<Rightarrow> trace_event list" where
  "stored_events g eid created =
     map (\<lambda>s. stored_event eid (created (step_no s)) (step_to_event (s\<lparr>step_payload := g (step_payload s)\<rparr>)))"

lemma stored_events_nos: "map ev_sequence_no (stored_events g eid created ss) = map step_no ss"
  by (simp add: stored_events_def)

lemma stored_steps_ids: "map step_id (stored_steps g created ss) = map step_id ss"
  by (simp add: stored_steps_def)

text \<open>Reading back, in whatever order the store returns them, the events of a trace.\<close>

lemma from_storage_stored:
  assumes ok: "trace_ok t"
    and g: "\<And>p. payload_ok p \<Longrightarrow> payload_ok (g p) \<and> payload_event_type (g p) = payload_event_type p"
    and es: "mset es = mset (stored_events g eid created (tr_steps t))"
  shows "from_storage int_of_text eid es =
    Inr \<lparr>tr_execution_id = eid, tr_steps = stored_steps g created (tr_steps t), tr_step_ids = tr_step_ids t\<rparr>"
proof -
  let ?ev = "stored_events g eid created (tr_steps t)"
  have nos: "map ev_sequence_no ?ev = map int [0..<length (tr_steps t)]"
    using ok by (simp add: stored_events_nos trace_ok_def)
  have "distinct (map ev_sequence_no ?ev)" "sorted (map ev_sequence_no ?ev)"
    unfolding nos by (simp_all add: distinct_map inj_on_def sorted_map_mono mono_on_def)
  then have srt: "sort_key ev_sequence_no es = ?ev"
    using sort_key_perm_unique [OF es] sort_key_id by metis
  have "restore_events int_of_text (int (length ([] :: trace_step list))) ?ev (empty_trace eid) =
      Inr (fold push_step (stored_steps g created (tr_steps t)) (empty_trace eid))"
    unfolding stored_events_def stored_steps_def
    by (rule restore_events_steps) (use ok g in \<open>auto simp: trace_ok_def step_ok_def list_all_iff\<close>)
  moreover have "fold push_step (stored_steps g created (tr_steps t)) (empty_trace eid) =
      \<lparr>tr_execution_id = eid, tr_steps = stored_steps g created (tr_steps t), tr_step_ids = tr_step_ids t\<rparr>"
    using ok fold_push_step stored_steps_ids [of g created "tr_steps t"]
    by (intro trace.equality) (simp_all add: trace_ok_def del: map_map set_map)
  ultimately show ?thesis by (simp add: from_storage_def srt)
qed

text \<open>
  Conversely: what \<open>from_storage\<close> accepts is exactly a gapless sequence of events, and what it
  returns is a trace, with the events' identifiers, parents and durations.
\<close>

definition step_of_event :: "trace_event \<Rightarrow> trace_step \<Rightarrow> bool" where
  "step_of_event e s \<longleftrightarrow>
     step_id s = ev_id e \<and> step_no s = ev_sequence_no e \<and> step_parent s = ev_parent_event_id e \<and>
     step_duration_ms s = ev_duration_ms e \<and> step_created_at s = Some (ev_created_at e) \<and>
     payload_event_type (step_payload s) = ev_event_type e"

lemma restore_events_sound:
  assumes "restore_events int_of_text (int (length (tr_steps t))) es t = Inr t'" and "trace_ok t"
  shows "trace_ok t' \<and> tr_execution_id t' = tr_execution_id t \<and>
    (\<exists>ss. tr_steps t' = tr_steps t @ ss \<and> list_all2 step_of_event es ss)"
  using assms
proof (induction es arbitrary: t)
  case (Cons e es)
  from Cons.prems(1) obtain p step where no: "ev_sequence_no e = int (length (tr_steps t))"
    and par: "case ev_parent_event_id e of None \<Rightarrow> True | Some p \<Rightarrow> p \<in> tr_step_ids t"
    and dec: "decode_payload int_of_text (ev_event_type e)
          (dict_set ''event_type'' (PStr (event_type_value (ev_event_type e))) (ev_payload e)) = Inr p"
    and step: "TraceStep \<lparr>step_id = ev_id e, step_no = ev_sequence_no e, step_payload = p,
           step_parent = ev_parent_event_id e, step_duration_ms = ev_duration_ms e,
           step_created_at = Some (ev_created_at e)\<rparr> = Inr step"
    and rest: "restore_events int_of_text (int (length (tr_steps t)) + 1) es (push_step step t) = Inr t'"
    by (auto simp: bind_res_eq_Inr split: if_splits)
  have s: "step_of_event e step" "step_ok step" "step_parent step = ev_parent_event_id e"
    using step decode_payload_ok [OF dec]
    by (auto simp: TraceStep_def validated_Inr step_of_event_def step_ok_def)
  have ok: "trace_ok (push_step step t)"
    by (rule trace_ok_push) (use s no par Cons.prems(2) in \<open>auto simp: step_of_event_def\<close>)
  have "trace_ok t' \<and> tr_execution_id t' = tr_execution_id (push_step step t) \<and>
    (\<exists>ss. tr_steps t' = tr_steps (push_step step t) @ ss \<and> list_all2 step_of_event es ss)"
    by (rule Cons.IH) (use rest ok in \<open>simp_all add: add.commute\<close>)
  then show ?case using s(1) by auto
qed auto

lemma from_storage_sound:
  assumes "from_storage int_of_text eid es = Inr t"
  shows "trace_ok t" and "tr_execution_id t = eid"
    and "list_all2 step_of_event (sort_key ev_sequence_no es) (tr_steps t)"
  using restore_events_sound [of int_of_text "empty_trace eid" "sort_key ev_sequence_no es" t] assms
  by (auto simp: from_storage_def)

text \<open>Redaction of a payload as the store does it, seen as a payload again.\<close>

fun redact_step_payload :: "step_payload \<Rightarrow> step_payload" where
  "redact_step_payload (ModelRequestPayload messages model params) =
     ModelRequestPayload (map redact_payload messages) model (redact_payload params)"
| "redact_step_payload (ModelResponsePayload content calls finish inp outp) =
     ModelResponsePayload content (map redact_payload calls) finish inp outp"
| "redact_step_payload (ToolCallPayload call_id service operation arguments) =
     ToolCallPayload call_id service operation (redact_payload arguments)"
| "redact_step_payload (ToolResultPayload call_id result) = ToolResultPayload call_id (redact_value result)"
| "redact_step_payload p = p"

lemma not_sensitive_fields:
  "list_all (\<lambda>k. \<not> sensitive k)
     [''messages'', ''model'', ''params'', ''content'', ''tool_calls'', ''finish_reason'',
      ''input_tokens'', ''output_tokens'', ''call_id'', ''service'', ''operation'', ''arguments'',
      ''result'', ''attempt'', ''reason'', ''error_type'', ''message'']"
  by code_simp

lemma redact_dump: "redact_payload (dump_payload p) = dump_payload (redact_step_payload p)"
proof -
  have ns: "\<not> sensitive k"
    if "k \<in> set [''messages'', ''model'', ''params'', ''content'', ''tool_calls'', ''finish_reason'',
      ''input_tokens'', ''output_tokens'', ''call_id'', ''service'', ''operation'', ''arguments'',
      ''result'', ''attempt'', ''reason'', ''error_type'', ''message'']" for k
    using that not_sensitive_fields unfolding list_all_iff by blast
  have pd: "map (redact_value \<circ> PDict) ds = map (PDict \<circ> redact_payload) ds" for ds
    by (simp add: redact_payload_def)
  show ?thesis
    by (cases p) (simp_all add: redact_payload_def ns pd opt_text_def opt_num_def redact_value_PDict split: option.splits)
qed

lemma redact_step_payload_ok:
  "payload_event_type (redact_step_payload p) = payload_event_type p"
  "payload_ok (redact_step_payload p) = payload_ok p"
  by (cases p; simp)+

section \<open>Properties of traces\<close>

text \<open>C13: A trace survives storage: the events \<open>to_storage\<close> makes, stamped by a store and read
  back in any order, give the same steps, identifiers, parents, payloads and durations.\<close>

theorem trace_storage_round_trip:
  assumes "trace_ok t"
    and "to_storage t = Inr events"
    and "mset stored = mset (map (\<lambda>e. stored_event (tr_execution_id t) (created (ev_sequence_no e)) e) events)"
  shows "\<exists>t'. from_storage int_of_text (tr_execution_id t) stored = Inr t' \<and>
    tr_steps t' = map (\<lambda>s. s\<lparr>step_created_at := Some (created (step_no s))\<rparr>) (tr_steps t) \<and>
    tr_step_ids t' = tr_step_ids t \<and> tr_execution_id t' = tr_execution_id t"
proof -
  have "mset stored = mset (stored_events (\<lambda>p. p) (tr_execution_id t) created (tr_steps t))"
    using assms(2,3) to_storage_ok [OF assms(1)] by (auto simp: stored_events_def comp_def image_mset.compositionality)
  from from_storage_stored [OF assms(1) _ this, of int_of_text] show ?thesis
    by (simp add: stored_steps_def)
qed

definition sample_trace :: trace where
  "sample_trace =
     (let step1 = \<lparr>step_id = UUID 1, step_no = 0, step_payload = ToolCallPayload ''c1'' ''order'' ''get_order'' [],
         step_parent = None, step_duration_ms = None, step_created_at = None\<rparr>;
       step2 = \<lparr>step_id = UUID 2, step_no = 1, step_payload = ErrorPayload ''TypeError'' ''missing'',
         step_parent = Some (UUID 1), step_duration_ms = Some 4, step_created_at = None\<rparr>
      in push_step step2 (push_step step1 (empty_trace (UUID 9))))"

lemma trace_ok_sample: "trace_ok sample_trace"
  by code_simp

theorem trace_storage_round_trip_witness:
  "\<exists>t'. from_storage (\<lambda>s. None) (UUID 9)
     (rev (map (stored_event (UUID 9) 7) (map step_to_event (tr_steps sample_trace)))) = Inr t' \<and>
   map step_payload (tr_steps t') = map step_payload (tr_steps sample_trace)"
proof -
  have e: "tr_execution_id sample_trace = UUID 9" by code_simp
  show ?thesis
    using trace_storage_round_trip [OF trace_ok_sample to_storage_ok [OF trace_ok_sample],
        of "rev (map (stored_event (UUID 9) 7) (map step_to_event (tr_steps sample_trace)))" "\<lambda>n. 7" "\<lambda>s. None"]
    unfolding e by (auto simp: comp_def)
qed



text \<open>The persisted copy is redacted and still readable: redacting the dumped payload of a
  step is dumping a payload of the same kind, and reading a trace back from redacted events gives
  the trace with exactly its payloads redacted.\<close>

theorem redacted_trace_reads_back:
  assumes "trace_ok t"
    and "mset stored = mset (map (\<lambda>s. stored_event eid (created (step_no s))
        ((step_to_event s)\<lparr>ev_payload := redact_payload (dump_payload (step_payload s))\<rparr>)) (tr_steps t))"
  shows "\<exists>t'. from_storage int_of_text eid stored = Inr t' \<and>
    map step_payload (tr_steps t') = map (redact_step_payload \<circ> step_payload) (tr_steps t) \<and>
    map step_id (tr_steps t') = map step_id (tr_steps t) \<and>
    map step_parent (tr_steps t') = map step_parent (tr_steps t)"
proof -
  have "(step_to_event s)\<lparr>ev_payload := redact_payload (dump_payload (step_payload s))\<rparr> =
      step_to_event (s\<lparr>step_payload := redact_step_payload (step_payload s)\<rparr>)" for s
    by (simp add: step_to_event_def redact_dump redact_step_payload_ok)
  then have "mset stored = mset (stored_events redact_step_payload eid created (tr_steps t))"
    using assms(2) by (simp add: stored_events_def)
  from from_storage_stored [OF assms(1) _ this, of int_of_text] show ?thesis
    using redact_step_payload_ok by (simp add: stored_steps_def comp_def)
qed

theorem redacted_trace_reads_back_witness:
  "is_ok (from_storage (\<lambda>s. None) (UUID 9) (map (\<lambda>s. stored_event (UUID 9) 7
     ((step_to_event s)\<lparr>ev_payload := redact_payload (dump_payload (step_payload s))\<rparr>)) (tr_steps sample_trace)))"
  using redacted_trace_reads_back [OF trace_ok_sample refl, of "\<lambda>s. None" "UUID 9" "\<lambda>n. 7"]
  by (auto simp: is_ok_iff)
end
