(* ===== verification/ToolProxy.thy ===== *)
theory ToolProxy
  imports SupportTools Trace
begin

text \<open>
  \<open>runner/tool_proxy.py\<close> and \<open>tool_environment/environment.py\<close>: how an agent's tool call
  reaches a service method. The name is resolved against the five services, the keyword arguments
  are bound to the method's parameters as CPython binds them, and the proxy records a tool_call
  step followed by a tool_result or an error step.
\<close>

section \<open>The services and their methods\<close>

text \<open>\<open>_SERVICE_ATTRS\<close>.\<close>

definition SERVICE_ATTRS :: "string list" where
  "SERVICE_ATTRS = [''customer'', ''order'', ''policy'', ''refund'', ''ticket'']"

text \<open>The class behind a service, its method, the required and the optional parameters.\<close>

definition signatures :: "((string \<times> string) \<times> (string \<times> string list \<times> string list)) list" where
  "signatures =
     [((''customer'', ''get_customer''), (''CustomerService'', [''customer_id''], [])),
      ((''order'', ''get_order''), (''OrderService'', [''order_id''], [])),
      ((''order'', ''cancel_order''), (''OrderService'', [''order_id'', ''requesting_customer_id''], [])),
      ((''order'', ''replace_item''),
        (''OrderService'', [''order_id'', ''requesting_customer_id'', ''sku'', ''reason''], [])),
      ((''policy'', ''check_refund_policy''), (''PolicyService'', [''order_id''], [])),
      ((''policy'', ''check_replacement_policy''), (''PolicyService'', [''order_id''], [])),
      ((''refund'', ''create_refund''),
        (''RefundService'', [''order_id'', ''requesting_customer_id'', ''amount_cents'', ''reason''], [])),
      ((''ticket'', ''update_ticket''), (''TicketService'', [''ticket_id''], [''status'', ''note''])),
      ((''ticket'', ''escalate_ticket''), (''TicketService'', [''ticket_id'', ''reason''], []))]"

text \<open>
  The callable attributes every Python object has besides. \<open>getattr\<close> finds them too, so the
  proxy resolves them; what calling one does is the parameter \<open>object_call\<close> below.
\<close>

definition OBJECT_CALLABLES :: "string list" where
  "OBJECT_CALLABLES =
     [''__class__'', ''__delattr__'', ''__dir__'', ''__eq__'', ''__format__'', ''__ge__'',
      ''__getattribute__'', ''__getstate__'', ''__gt__'', ''__hash__'', ''__init__'',
      ''__init_subclass__'', ''__le__'', ''__lt__'', ''__ne__'', ''__new__'', ''__reduce__'',
      ''__reduce_ex__'', ''__repr__'', ''__setattr__'', ''__sizeof__'', ''__str__'',
      ''__subclasshook__'']"

datatype resolved = Method string "string list" "string list" | Inherited

definition resolve :: "string \<Rightarrow> string \<Rightarrow> (exc, resolved) res" where
  "resolve service operation =
     (if service \<notin> set SERVICE_ATTRS
      then Inl (Raise UnknownToolError (''unknown service: '' @ service))
      else case map_of signatures (service, operation) of
          Some (cls, req, opt) \<Rightarrow> Inr (Method cls req opt)
        | None \<Rightarrow>
            if operation \<in> set OBJECT_CALLABLES then Inr Inherited
            else Inl (Raise UnknownToolError (''unknown operation: '' @ service @ ''.'' @ operation)))"

section \<open>Binding keyword arguments\<close>

definition quoted_list :: "string list \<Rightarrow> string" where
  "quoted_list xs =
     (case map repr_str xs of
        [x, y] \<Rightarrow> x @ '' and '' @ y
      | ys \<Rightarrow> if length ys < 2 then concat ys
              else join_with '', '' (butlast ys) @ '', and '' @ last ys)"

text \<open>
  CPython takes the keywords in order and rejects the first that names no parameter, or \<open>self\<close>;
  then it reports the required parameters left without a value.
\<close>

fun bind_keywords :: "string \<Rightarrow> string list \<Rightarrow> string list \<Rightarrow> (exc, unit) res" where
  "bind_keywords qualname params [] = Inr ()"
| "bind_keywords qualname params (k # ks) =
     (if k = ''self''
      then Inl (Raise TypeError (qualname @ ''() got multiple values for argument '' @ repr_str k))
      else if k \<notin> set params
      then Inl (Raise TypeError (qualname @ ''() got an unexpected keyword argument '' @ repr_str k))
      else bind_keywords qualname params ks)"

definition bind_args :: "string \<Rightarrow> string list \<Rightarrow> string list \<Rightarrow> pydict \<Rightarrow> (exc, unit) res" where
  "bind_args qualname req opt arguments =
     bind_res (bind_keywords qualname (req @ opt) (keys arguments)) (\<lambda>_.
       let missing = filter (\<lambda>k. k \<notin> set (keys arguments)) req in
       if missing = [] then Inr ()
       else Inl (Raise TypeError
         (qualname @ ''() missing '' @ nat_text (length missing) @ '' required positional argument''
           @ (if length missing = 1 then [] else ''s'') @ '': '' @ quoted_list missing)))"

definition arg :: "pydict \<Rightarrow> string \<Rightarrow> pyval" where
  "arg arguments k = (case map_of arguments k of None \<Rightarrow> PNone | Some v \<Rightarrow> v)"

text \<open>The method body with its parameters bound; an optional parameter left out is \<open>None\<close>.\<close>

definition run_method :: "string \<Rightarrow> pydict \<Rightarrow> support_state \<Rightarrow> outcome \<times> support_state" where
  "run_method operation arguments st =
     (let a = arg arguments in
      if operation = ''get_customer'' then (get_customer st (a ''customer_id''), st)
      else if operation = ''get_order'' then (get_order st (a ''order_id''), st)
      else if operation = ''cancel_order'' then cancel_order st (a ''order_id'') (a ''requesting_customer_id'')
      else if operation = ''replace_item''
      then replace_item st (a ''order_id'') (a ''requesting_customer_id'') (a ''sku'') (a ''reason'')
      else if operation = ''check_refund_policy'' then (check_refund_policy st (a ''order_id''), st)
      else if operation = ''check_replacement_policy'' then (check_replacement_policy st (a ''order_id''), st)
      else if operation = ''create_refund''
      then create_refund st (a ''order_id'') (a ''requesting_customer_id'') (a ''amount_cents'') (a ''reason'')
      else if operation = ''update_ticket'' then update_ticket st (a ''ticket_id'') (a ''status'') (a ''note'')
      else escalate_ticket st (a ''ticket_id'') (a ''reason''))"

section \<open>One tool call\<close>

text \<open>
  What the host supplies to a run: \<open>uuid4 n\<close> and \<open>elapsed_ms n\<close>, the identifier and the
  measured duration of the trace's step number \<open>n\<close> (\<open>perf_counter\<close> does not run backwards);
  \<open>run_ms\<close>, the duration of the whole run, and \<open>run_uuid\<close>, the identifier drawn for it when it
  is given none; \<open>object_call\<close>, Python's object protocol.
\<close>

record runtime =
  uuid4 :: "nat \<Rightarrow> uuid"
  elapsed_ms :: "nat \<Rightarrow> nat"
  run_ms :: nat
  run_uuid :: uuid
  object_call :: "string \<Rightarrow> string \<Rightarrow> pydict \<Rightarrow> support_state \<Rightarrow> outcome \<times> support_state"

definition call_method ::
  "runtime \<Rightarrow> string \<Rightarrow> string \<Rightarrow> pydict \<Rightarrow> support_state \<Rightarrow> outcome \<times> support_state" where
  "call_method rt service operation arguments st =
     (case resolve service operation of
        Inl e \<Rightarrow> (Inl e, st)
      | Inr Inherited \<Rightarrow> object_call rt service operation arguments st
      | Inr (Method cls req opt) \<Rightarrow>
          (case bind_args (cls @ ''.'' @ operation) req opt arguments of
             Inl e \<Rightarrow> (Inl e, st)
           | Inr _ \<Rightarrow> run_method operation arguments st))"

text \<open>\<open>except (ToolEnvironmentError, UnknownToolError, TypeError)\<close>.\<close>

definition caught :: "exc \<Rightarrow> bool" where
  "caught e \<longleftrightarrow> tool_environment_error (exc_of e) \<or> exc_of e = UnknownToolError \<or> exc_of e = TypeError"

text \<open>
  \<open>TracedToolProxy.invoke\<close>, over the environment \<open>call\<close> the proxy was constructed with.
\<close>

definition invoke_on ::
  "(string \<Rightarrow> string \<Rightarrow> pydict \<Rightarrow> 's \<Rightarrow> outcome \<times> 's) \<Rightarrow> runtime \<Rightarrow>
     string \<Rightarrow> string \<Rightarrow> string \<Rightarrow> pydict \<Rightarrow> trace \<times> 's \<Rightarrow> (exc, trace_step \<times> trace \<times> 's) res" where
  "invoke_on call rt call_id service operation arguments = (\<lambda>(t, st).
     bind_res (append_step (uuid4 rt) (ToolCallPayload call_id service operation arguments) None None t)
       (\<lambda>(call_step, t).
       let duration_ms = Some (int (elapsed_ms rt (length (tr_steps t)))) in
       case call service operation arguments st of
         (Inl e, st) \<Rightarrow>
           if caught e
           then bind_res (append_step (uuid4 rt) (ErrorPayload (class_name (exc_of e)) (exc_text e))
               (Some (step_id call_step)) duration_ms t) (\<lambda>(step, t). Inr (step, t, st))
           else Inl e
       | (Inr result, st) \<Rightarrow>
           bind_res (append_step (uuid4 rt) (ToolResultPayload call_id result)
             (Some (step_id call_step)) duration_ms t) (\<lambda>(step, t). Inr (step, t, st))))"

definition invoke ::
  "runtime \<Rightarrow> string \<Rightarrow> string \<Rightarrow> string \<Rightarrow> pydict \<Rightarrow> trace \<times> support_state
     \<Rightarrow> (exc, trace_step \<times> trace \<times> support_state) res" where
  "invoke rt = invoke_on (call_method rt) rt"

section \<open>The contract of the environment, and the proxy over it\<close>

text \<open>
  What the proxy relies on: on a good state an admissible call either succeeds and leaves a good
  state, or raises one of the exceptions the proxy catches.
\<close>

locale tool_provider =
  fixes call :: "string \<Rightarrow> string \<Rightarrow> pydict \<Rightarrow> 's \<Rightarrow> outcome \<times> 's"
    and good :: "'s \<Rightarrow> bool"
    and admissible :: "string \<Rightarrow> pydict \<Rightarrow> bool"
    and step :: "'s \<Rightarrow> 's \<Rightarrow> bool"
  assumes call_raises: "good st \<Longrightarrow> admissible op args \<Longrightarrow> call svc op args st = (Inl e, st') \<Longrightarrow> caught e \<and> st' = st"
    and call_returns: "good st \<Longrightarrow> admissible op args \<Longrightarrow> call svc op args st = (Inr v, st') \<Longrightarrow>
           good st' \<and> step st st' \<and> wf_val v"
begin

text \<open>An admissible call through the proxy never raises; it adds the call and its outcome.\<close>

lemma invoke_two_steps:
  assumes good: "good st" and adm: "admissible op args" and t: "trace_ok t"
  obtains step1 step2 st' where
    "invoke_on call rt cid svc op args (t, st) = Inr (step2, push_step step2 (push_step step1 t), st')"
    and "step_payload step1 = ToolCallPayload cid svc op args"
    and "step_parent step1 = None" and "step_parent step2 = Some (step_id step1)"
    and "(\<exists>v. call svc op args st = (Inr v, st') \<and> wf_val v \<and> step_payload step2 = ToolResultPayload cid v) \<or>
         (\<exists>e. call svc op args st = (Inl e, st') \<and>
            step_payload step2 = ErrorPayload (class_name (exc_of e)) (exc_text e))"
    and "good st'" and "st' = st \<or> step st st'"
    and "trace_ok (push_step step2 (push_step step1 t))"
proof -
  obtain step1 where s1: "append_step (uuid4 rt) (ToolCallPayload cid svc op args) None None t = Inr (step1, push_step step1 t)"
      "step_payload step1 = ToolCallPayload cid svc op args" "step_parent step1 = None"
    using append_step_total [of None t None] by (auto simp: non_negative_def)
  let ?t1 = "push_step step1 t" and ?d = "Some (int (elapsed_ms rt (length (tr_steps (push_step step1 t)))))"
  have t1: "trace_ok ?t1" "step_id step1 \<in> tr_step_ids ?t1" using append_step_ok [OF s1(1) t] by simp_all
  have app: "\<exists>step2. append_step (uuid4 rt) p (Some (step_id step1)) ?d ?t1 = Inr (step2, push_step step2 ?t1) \<and>
      step_payload step2 = p \<and> step_parent step2 = Some (step_id step1)" for p
    by (rule append_step_total) (use t1(2) in \<open>auto simp: non_negative_def\<close>)
  show thesis
  proof (cases "call svc op args st")
    case (Pair r st')
    show thesis
    proof (cases r)
      case (Inl e)
      have c: "caught e" "st' = st" using call_raises [OF good adm] Pair Inl by auto
      obtain step2 where s2: "append_step (uuid4 rt) (ErrorPayload (class_name (exc_of e)) (exc_text e))
          (Some (step_id step1)) ?d ?t1 = Inr (step2, push_step step2 ?t1)"
          "step_payload step2 = ErrorPayload (class_name (exc_of e)) (exc_text e)"
          "step_parent step2 = Some (step_id step1)"
        using app by blast
      show thesis
        by (rule that [of step2 step1 st])
          (use s1 s2 c good Pair Inl append_step_ok(1) [OF s2(1) t1(1)] in \<open>auto simp: invoke_on_def Let_def\<close>)
    next
      case (Inr v)
      have c: "good st'" "step st st'" "wf_val v" using call_returns [OF good adm] Pair Inr by auto
      obtain step2 where s2: "append_step (uuid4 rt) (ToolResultPayload cid v) (Some (step_id step1)) ?d ?t1 =
            Inr (step2, push_step step2 ?t1)"
          "step_payload step2 = ToolResultPayload cid v" "step_parent step2 = Some (step_id step1)"
        using app by blast
      show thesis
        by (rule that [of step2 step1 st'])
          (use s1 s2 c Pair Inr append_step_ok(1) [OF s2(1) t1(1)] in \<open>auto simp: invoke_on_def Let_def\<close>)
    qed
  qed
qed

end

section \<open>The support environment keeps the contract\<close>

definition plain_call :: "string \<Rightarrow> pydict \<Rightarrow> bool" where
  "plain_call operation arguments \<longleftrightarrow> operation \<notin> set OBJECT_CALLABLES \<and> wf_dict arguments"

lemma wf_arg: "wf_dict arguments \<Longrightarrow> wf_val (arg arguments k)"
  using wf_dict_lookup by (auto simp: arg_def simp del: wf_val.simps split: option.split) simp

lemma tool_failure_caught: "tool_failure e \<Longrightarrow> caught e"
  by (auto simp: tool_failure_def caught_def)

lemma bind_keywords_Inl: "bind_keywords q ps ks = Inl e \<Longrightarrow> exc_of e = TypeError"
  by (induction ks) (auto split: if_splits)

lemma bind_args_Inl: "bind_args q req opt args = Inl e \<Longrightarrow> exc_of e = TypeError"
  by (auto simp: bind_args_def bind_res_eq_Inl Let_def dest: bind_keywords_Inl split: if_splits)

lemma resolve_Inl: "resolve service operation = Inl e \<Longrightarrow> exc_of e = UnknownToolError"
  by (auto simp: resolve_def split: if_splits option.splits prod.splits)

lemma resolve_Inherited: "resolve service operation = Inr Inherited \<Longrightarrow> operation \<in> set OBJECT_CALLABLES"
  by (auto simp: resolve_def split: if_splits option.splits prod.splits)

lemma run_method_contract:
  assumes "wf_support st" and "wf_dict arguments"
  shows "call_contract st (run_method operation arguments st)"
  using assms wf_arg [OF assms(2)] by (simp add: run_method_def Let_def call_contracts)

lemma call_method_cases:
  assumes wf: "wf_support st" and adm: "plain_call operation arguments"
  shows "(\<exists>e. call_method rt service operation arguments st = (Inl e, st) \<and> caught e) \<or>
    (\<exists>v st'. call_method rt service operation arguments st = (Inr v, st') \<and>
       wf_support st' \<and> wf_val v \<and> state_step st st')"
proof (cases "resolve service operation")
  case (Inl e)
  then show ?thesis using resolve_Inl [OF Inl] by (simp add: call_method_def caught_def)
next
  case (Inr m)
  show ?thesis
  proof (cases m)
    case Inherited
    then show ?thesis using Inr resolve_Inherited adm by (auto simp: plain_call_def)
  next
    case (Method cls req opt)
    show ?thesis
    proof (cases "bind_args (cls @ ''.'' @ operation) req opt arguments")
      case (Inl e)
      then show ?thesis using Inr Method bind_args_Inl [OF Inl] by (simp add: call_method_def caught_def)
    next
      case (Inr u)
      have "call_contract st (run_method operation arguments st)"
        using run_method_contract [OF wf] adm by (simp add: plain_call_def)
      then show ?thesis
        using \<open>resolve service operation = Inr m\<close> Method Inr tool_failure_caught
        by (cases "run_method operation arguments st"; cases "fst (run_method operation arguments st)")
          (auto simp: call_method_def)
    qed
  qed
qed

interpretation support_tools: tool_provider "call_method rt" wf_support plain_call state_step for rt
proof unfold_locales
  fix st operation arguments service e st'
  assume "wf_support st" "plain_call operation arguments"
    "call_method rt service operation arguments st = (Inl e, st')"
  then show "caught e \<and> st' = st" using call_method_cases [of st operation arguments rt service] by auto
next
  fix st operation arguments service v st'
  assume "wf_support st" "plain_call operation arguments"
    "call_method rt service operation arguments st = (Inr v, st')"
  then show "wf_support st' \<and> state_step st st' \<and> wf_val v"
    using call_method_cases [of st operation arguments rt service] by auto
qed

section \<open>Sequences of calls\<close>

text \<open>One tool call of an agent, as a step of the shared state; failing calls are steps too.\<close>

inductive tool_step :: "runtime \<Rightarrow> support_state \<Rightarrow> support_state \<Rightarrow> bool" for rt where
  call: "plain_call operation arguments \<Longrightarrow> call_method rt service operation arguments st = (r, st') \<Longrightarrow>
     tool_step rt st st'"

inductive_cases tool_stepE: "tool_step rt st st'"
inductive_simps tool_step_simps: "tool_step rt st st'"

lemma tool_step_state_step:
  "tool_step rt st st' \<Longrightarrow> wf_support st \<Longrightarrow> wf_support st' \<and> state_step st st'"
  by (erule tool_stepE)
    (metis (no_types, lifting) Pair_inject call_method_cases state_step_refl)

interpretation session: preserved "tool_step rt" "session_ok st0" for rt st0
proof unfold_locales
  fix st st' assume ok: "session_ok st0 st" and step: "tool_step rt st st'"
  then have "wf_support st' \<and> state_step st st'"
    using tool_step_state_step by (simp add: session_ok_def)
  then show "session_ok st0 st'" using session_ok_step [OF ok] by blast
qed

lemma session_reachable:
  "wf_support st0 \<Longrightarrow> (tool_step rt)\<^sup>*\<^sup>* st0 st \<Longrightarrow> session_ok st0 st"
  using session.reachable session_ok_refl by blast

section \<open>Properties of tool calls\<close>

text \<open>Any call of any service on a well-formed state, with any arguments, is all or nothing:
  it raises one of the exceptions the proxy catches and leaves the state as it was, or it returns
  a value, the state stays well-formed, and it changed only what its rules allow.\<close>

theorem any_call_all_or_nothing:
  assumes "wf_support st" and "plain_call operation arguments"
  shows "case call_method rt service operation arguments st of
      (Inl e, st') \<Rightarrow> st' = st \<and> caught e
    | (Inr v, st') \<Rightarrow> wf_support st' \<and> wf_val v \<and> state_step st st'"
  using call_method_cases [OF assms, of rt service] by auto

definition sample_runtime :: runtime where
  "sample_runtime =
     \<lparr>uuid4 = UUID, elapsed_ms = (\<lambda>n. 3), run_ms = 12, run_uuid = UUID 77,
      object_call = (\<lambda>service operation arguments st. (Inr PNone, st))\<rparr>"

theorem any_call_all_or_nothing_witness:
  "wf_support (snd (call_method sample_runtime ''ticket'' ''update_ticket''
     [(''ticket_id'', PStr ''t1''), (''note'', PInt 3)] sample_state))"
proof -
  have "plain_call ''update_ticket'' [(''ticket_id'', PStr ''t1''), (''note'', PInt 3)]" by code_simp
  from any_call_all_or_nothing [OF wf_sample_state this, of sample_runtime "''ticket''"]
  show ?thesis using wf_sample_state by (auto split: prod.splits sum.splits)
qed

text \<open>C1: After any sequence of tool calls from a well-formed seed, no refund or replacement the
  seed held is changed or lost, and every other refund is for a delivered order within the
  window, at most its total; customers are as seeded, and an order is as seeded or was cancelled
  from a cancellable status.\<close>

theorem session_keeps_policy:
  assumes "wf_support st0" and "(tool_step rt)\<^sup>*\<^sup>* st0 st"
  shows "wf_support st \<and> customers st = customers st0 \<and>
    pointwise order_step (orders st0) (orders st) \<and>
    (\<forall>k r. field (refunds st) k = Some r \<longrightarrow> field (refunds st0) k = Some r \<or> refund_justified st k r) \<and>
    (\<forall>k r. field (refunds st0) k = Some r \<longrightarrow> field (refunds st) k = Some r) \<and>
    (\<forall>k r. field (replacements st) k = Some r \<longrightarrow>
       field (replacements st0) k = Some r \<or> replacement_justified st k r) \<and>
    (\<forall>k r. field (replacements st0) k = Some r \<longrightarrow> field (replacements st) k = Some r)"
  using session_reachable [OF assms] unfolding session_ok_def all_justified_def by blast

theorem session_keeps_policy_witness:
  "wf_support (snd (call_method sample_runtime ''refund'' ''create_refund''
     [(''order_id'', PStr ''o1''), (''requesting_customer_id'', PStr ''cust_1''),
      (''amount_cents'', PInt 100), (''reason'', PStr ''late'')] sample_state))"
proof -
  let ?a = "[(''order_id'', PStr ''o1''), (''requesting_customer_id'', PStr ''cust_1''),
      (''amount_cents'', PInt 100), (''reason'', PStr ''late'')]"
  have "plain_call ''create_refund'' ?a" by code_simp
  then have "tool_step sample_runtime sample_state
      (snd (call_method sample_runtime ''refund'' ''create_refund'' ?a sample_state))"
    by (rule tool_step.call [where service = "''refund''" and r = "fst (call_method sample_runtime ''refund'' ''create_refund'' ?a sample_state)"]) simp
  then show ?thesis using session_keeps_policy [OF wf_sample_state] by blast
qed

text \<open>\<open>invoke\<close> never raises on a well-formed state: it appends a tool_call step and, with
  that step as its parent, exactly one tool_result or error step that reports the call's outcome,
  and the trace stays well-formed.\<close>

theorem invoke_records_call_and_outcome:
  assumes "wf_support st" and "plain_call operation arguments" and "trace_ok t"
  shows "\<exists>call_step step st'.
    invoke rt call_id service operation arguments (t, st) =
      Inr (step, push_step step (push_step call_step t), st') \<and>
    step_payload call_step = ToolCallPayload call_id service operation arguments \<and>
    step_parent step = Some (step_id call_step) \<and>
    ((\<exists>v. call_method rt service operation arguments st = (Inr v, st') \<and>
        step_payload step = ToolResultPayload call_id v) \<or>
     (\<exists>e. call_method rt service operation arguments st = (Inl e, st') \<and>
        step_payload step = ErrorPayload (class_name (exc_of e)) (exc_text e))) \<and>
    wf_support st' \<and> trace_ok (push_step step (push_step call_step t))"
  unfolding invoke_def
  by (rule support_tools.invoke_two_steps [OF assms]) blast

theorem invoke_records_call_and_outcome_witness:
  "is_ok (invoke sample_runtime ''c1'' ''order'' ''cancel_order'' [(''order_id'', PStr ''o2'')]
     (empty_trace (UUID 9), sample_state))"
proof -
  have "plain_call ''cancel_order'' [(''order_id'', PStr ''o2'')]" by code_simp
  from invoke_records_call_and_outcome [OF wf_sample_state this trace_ok_empty, of sample_runtime "''c1''" "''order''" "UUID 9"]
  show ?thesis by (auto simp: is_ok_iff)
qed

text \<open>The proxy does not confine an agent to the service methods: every callable that Python
  objects inherit, \<open>__init__\<close> and \<open>__class__\<close> included, resolves on every service, and what it
  returns is taken as the tool's result.\<close>

theorem proxy_resolves_object_protocol:
  assumes "service \<in> set SERVICE_ATTRS" and "operation \<in> set OBJECT_CALLABLES"
    and "object_call rt service operation arguments st = (Inr v, st')"
  shows "resolve service operation = Inr Inherited \<and>
    call_method rt service operation arguments st = (Inr v, st')"
proof -
  have "list_all (\<lambda>s. list_all (\<lambda>operation. resolve s operation = Inr Inherited) OBJECT_CALLABLES) SERVICE_ATTRS"
    by code_simp
  then have "resolve service operation = Inr Inherited" using assms(1,2) by (simp add: list_all_iff)
  then show ?thesis using assms(3) by (simp add: call_method_def)
qed

theorem proxy_resolves_object_protocol_witness:
  "resolve ''customer'' ''__init__'' = Inr Inherited"
proof -
  have "''customer'' \<in> set SERVICE_ATTRS" "''__init__'' \<in> set OBJECT_CALLABLES" by code_simp+
  from proxy_resolves_object_protocol [OF this, of sample_runtime "[]" sample_state PNone sample_state]
  show ?thesis by (simp add: sample_runtime_def)
qed

end
