(* ===== verification/BenchmarkSchema.thy ===== *)
theory BenchmarkSchema
  imports PyValue
begin

text \<open>
  \<open>benchmark/schema.py\<close>: the contract of a benchmark task. A task seeds the tool environment
  (\<open>bt_initial_state\<close>), names the tool calls a run must and must not make, and the part of the
  final state it fixes. An adversarial variant carries its lineage.
\<close>

datatype difficulty = EASY | MEDIUM | HARD

fun difficulty_value :: "difficulty \<Rightarrow> string" where
  "difficulty_value EASY = ''easy''"
| "difficulty_value MEDIUM = ''medium''"
| "difficulty_value HARD = ''hard''"

text \<open>\<open>Difficulty(value)\<close>.\<close>

definition difficulty_of :: "string \<Rightarrow> difficulty option" where
  "difficulty_of s = List.find (\<lambda>d. difficulty_value d = s) [EASY, MEDIUM, HARD]"

lemma difficulty_of_value [simp]: "difficulty_of (difficulty_value d) = Some d"
  by (cases d) (simp_all add: difficulty_of_def)

lemma difficulty_of_Some: "difficulty_of s = Some d \<longleftrightarrow> s = difficulty_value d"
  by (cases d) (auto simp: difficulty_of_def)

record expected_action =
  ea_service :: string
  ea_operation :: string
  ea_arguments :: pydict

record forbidden_action =
  fa_service :: string
  fa_operation :: string
  fa_reason :: string
  fa_arguments :: pydict

record benchmark_task =
  bt_task_id :: string
  bt_input :: string
  bt_initial_state :: pydict
  bt_expected_actions :: "expected_action list"
  bt_forbidden_actions :: "forbidden_action list"
  bt_expected_final_state :: pydict
  bt_tags :: "string list"
  bt_difficulty :: difficulty

record adversarial_variant =
  va_task :: benchmark_task
  va_parent_task_id :: string
  va_mutation_type :: string
  va_random_seed :: int
  va_validator_result :: bool

end
