(* ===== verification/Runner.thy ===== *)
theory Runner
  imports ToolProxy BenchmarkSchema
begin

text \<open>
  \<open>runner/model_client.py\<close>, \<open>runner/reference_agent.py\<close> and \<open>runner/runner.py\<close>: one run of an
  agent version against a task. A model client is a function from its own state and the request to
  an outcome and its next state; the run retries transient failures, records every model request,
  response, tool call and outcome in the trace, and stops at a final answer or after
  \<open>max_steps\<close> requests.
\<close>

section \<open>Model clients\<close>

record tool_call_request =
  tc_call_id :: string
  tc_service :: string
  tc_operation :: string
  tc_arguments :: pydict

record model_reply =
  mr_finish_reason :: string
  mr_content :: "string option"
  mr_tool_calls :: "tool_call_request list"
  mr_input_tokens :: int
  mr_output_tokens :: int

text \<open>What awaiting \<open>complete\<close> gives: a reply, a \<open>TransientModelError\<close>, any other exception.\<close>

datatype model_outcome = Reply model_reply | Transient string | Crash exc

type_synonym 'c client = "pydict list \<Rightarrow> string \<Rightarrow> pydict \<Rightarrow> 'c \<Rightarrow> model_outcome \<times> 'c"

text \<open>\<open>ScriptedModelClient\<close>: the script and the number of calls made.\<close>

datatype script_item = ScriptReply model_reply | ScriptError string

record scripted_client =
  sc_script :: "script_item list"
  sc_calls :: nat

definition scripted_complete :: "scripted_client client" where
  "scripted_complete messages model params c =
     (if length (sc_script c) \<le> sc_calls c
      then (Crash (Raise AssertionError ''ScriptedModelClient script exhausted''), c)
      else
        (case sc_script c ! sc_calls c of ScriptReply r \<Rightarrow> Reply r | ScriptError m \<Rightarrow> Transient m,
         c\<lparr>sc_calls := sc_calls c + 1\<rparr>))"

text \<open>\<open>ReferenceAgentModelClient\<close>: walks the task's expected actions, then answers.\<close>

record reference_client =
  rf_actions :: "expected_action list"
  rf_step :: nat

definition reference_client_for :: "benchmark_task \<Rightarrow> reference_client" where
  "reference_client_for task = \<lparr>rf_actions = bt_expected_actions task, rf_step = 0\<rparr>"

definition reference_complete :: "reference_client client" where
  "reference_complete messages model params c =
     (if rf_step c < length (rf_actions c)
      then
        let action = rf_actions c ! rf_step c; n = rf_step c + 1 in
        (Reply \<lparr>mr_finish_reason = ''tool_calls'', mr_content = None,
           mr_tool_calls = [\<lparr>tc_call_id = ''c'' @ nat_text n, tc_service = ea_service action,
             tc_operation = ea_operation action, tc_arguments = ea_arguments action\<rparr>],
           mr_input_tokens = 0, mr_output_tokens = 0\<rparr>, c\<lparr>rf_step := n\<rparr>)
      else
        (Reply \<lparr>mr_finish_reason = ''stop'', mr_content = Some ''Resolved according to policy.'',
           mr_tool_calls = [], mr_input_tokens = 0, mr_output_tokens = 0\<rparr>, c))"

section \<open>Retries\<close>

text \<open>
  \<open>_complete_with_retries\<close>: the loop, with \<open>attempt\<close> its counter. The trace it leaves is part of
  its result also when it raises.
\<close>

function complete_with_retries ::
  "'c client \<Rightarrow> runtime \<Rightarrow> uuid \<Rightarrow> pydict list \<Rightarrow> agent_version \<Rightarrow> int \<Rightarrow> int \<Rightarrow> 'c \<Rightarrow> trace
     \<Rightarrow> (exc, model_reply) res \<times> 'c \<times> trace" where
  "complete_with_retries ask rt parent messages version max_retries attempt c t =
     (case ask messages (av_model version) (av_config version) c of
        (Reply reply, c) \<Rightarrow> (Inr reply, c, t)
      | (Crash e, c) \<Rightarrow> (Inl e, c, t)
      | (Transient m, c) \<Rightarrow>
          if attempt > max_retries
          then (case append_step (uuid4 rt) (ErrorPayload ''ModelError'' m) (Some parent) None t of
                  Inl e \<Rightarrow> (Inl e, c, t)
                | Inr (step, t) \<Rightarrow> (Inl (Raise TransientModelError m), c, t))
          else (case bind_res (build_payload (RetryPayload attempt m)) (\<lambda>p.
                    append_step (uuid4 rt) p (Some parent) None t) of
                  Inl e \<Rightarrow> (Inl e, c, t)
                | Inr (step, t) \<Rightarrow>
                    complete_with_retries ask rt parent messages version max_retries (attempt + 1) c t))"
  by pat_completeness auto

termination
  by (relation "measure (\<lambda>(ask, rt, parent, messages, version, max_retries, attempt, c, t).
      nat (max_retries + 1 - attempt))") auto

declare complete_with_retries.simps [simp del]

section \<open>The loop\<close>

record 'c run_state =
  rs_trace :: trace
  rs_env :: support_state
  rs_client :: 'c
  rs_messages :: "pydict list"
  rs_input_tokens :: int
  rs_output_tokens :: int

record runner_result =
  rr_execution_id :: uuid
  rr_trace :: trace
  rr_final_output :: "string option"
  rr_latency_ms :: int
  rr_input_tokens :: int
  rr_output_tokens :: int
  rr_final_state :: pydict
  rr_max_steps_exceeded :: bool

text \<open>\<open>vars(call)\<close>.\<close>

definition vars_call :: "tool_call_request \<Rightarrow> pydict" where
  "vars_call call =
     [(''call_id'', PStr (tc_call_id call)), (''service'', PStr (tc_service call)),
      (''operation'', PStr (tc_operation call)), (''arguments'', PDict (tc_arguments call))]"

fun invoke_calls ::
  "runtime \<Rightarrow> tool_call_request list \<Rightarrow> trace \<times> support_state \<times> pydict list
     \<Rightarrow> (exc, trace \<times> support_state \<times> pydict list) res" where
  "invoke_calls rt [] s = Inr s"
| "invoke_calls rt (call # calls) (t, env, messages) =
     bind_res (invoke rt (tc_call_id call) (tc_service call) (tc_operation call) (tc_arguments call) (t, env))
       (\<lambda>(result_step, t, env).
          invoke_calls rt calls (t, env, messages @
            [[(''role'', PStr ''tool''), (''call_id'', PStr (tc_call_id call)),
              (''content'', PDict (dump_with_type (step_payload result_step)))]]))"

text \<open>\<open>reply.content or ""\<close>.\<close>

definition answer_text :: "model_reply \<Rightarrow> string" where
  "answer_text reply = (case mr_content reply of None \<Rightarrow> [] | Some c \<Rightarrow> c)"

text \<open>One iteration: the answer when the model gave one, and the state after it.\<close>

definition run_iteration ::
  "'c client \<Rightarrow> runtime \<Rightarrow> agent_version \<Rightarrow> int \<Rightarrow> 'c run_state \<Rightarrow> (exc, string option \<times> 'c run_state) res" where
  "run_iteration ask rt version max_model_retries s =
     bind_res (append_step (uuid4 rt) (ModelRequestPayload (rs_messages s) (av_model version) []) None None (rs_trace s))
       (\<lambda>(request_step, t).
     case complete_with_retries ask rt (step_id request_step) (rs_messages s) version
            max_model_retries 1 (rs_client s) t of
       (Inl e, c, t) \<Rightarrow> Inl e
     | (Inr reply, c, t) \<Rightarrow>
         bind_res (build_payload (ModelResponsePayload (mr_content reply) (map vars_call (mr_tool_calls reply))
             (mr_finish_reason reply) (Some (mr_input_tokens reply)) (Some (mr_output_tokens reply)))) (\<lambda>p.
         bind_res (append_step (uuid4 rt) p (Some (step_id request_step)) None t) (\<lambda>(response_step, t).
         let s = s\<lparr>rs_client := c, rs_input_tokens := rs_input_tokens s + mr_input_tokens reply,
                   rs_output_tokens := rs_output_tokens s + mr_output_tokens reply\<rparr> in
         if mr_tool_calls reply = []
         then bind_res (append_step (uuid4 rt) (FinalAnswerPayload (answer_text reply)) None None t)
                (\<lambda>(final_step, t). Inr (Some (answer_text reply), s\<lparr>rs_trace := t\<rparr>))
         else
           bind_res (invoke_calls rt (mr_tool_calls reply)
               (t, rs_env s, rs_messages s @
                 [[(''role'', PStr ''assistant''), (''tool_calls'', PList (map (PDict \<circ> vars_call) (mr_tool_calls reply)))]]))
             (\<lambda>(t, env, messages). Inr (None, s\<lparr>rs_trace := t, rs_env := env, rs_messages := messages\<rparr>)))))"

text \<open>\<open>for _ in range(max_steps): ... else: ...\<close>, with the iterations left as a number.\<close>

fun run_loop ::
  "'c client \<Rightarrow> runtime \<Rightarrow> agent_version \<Rightarrow> int \<Rightarrow> int \<Rightarrow> nat \<Rightarrow> 'c run_state
     \<Rightarrow> (exc, string option \<times> bool \<times> 'c run_state) res" where
  "run_loop ask rt version max_steps max_model_retries 0 s =
     bind_res (append_step (uuid4 rt) (ErrorPayload ''MaxStepsExceeded''
         (''exceeded '' @ int_text max_steps @ '' steps without a final answer'')) None None (rs_trace s))
       (\<lambda>(step, t). Inr (None, True, s\<lparr>rs_trace := t\<rparr>))"
| "run_loop ask rt version max_steps max_model_retries (Suc n) s =
     bind_res (run_iteration ask rt version max_model_retries s) (\<lambda>(answer, s).
       case answer of
         Some a \<Rightarrow> Inr (Some a, False, s)
       | None \<Rightarrow> run_loop ask rt version max_steps max_model_retries n s)"

definition DEFAULT_MAX_STEPS :: int where
  "DEFAULT_MAX_STEPS = 20"

definition DEFAULT_MAX_MODEL_RETRIES :: int where
  "DEFAULT_MAX_MODEL_RETRIES = 2"

definition run_start :: "agent_version \<Rightarrow> benchmark_task \<Rightarrow> uuid \<Rightarrow> 'c \<Rightarrow> 'c run_state" where
  "run_start version task eid c =
     \<lparr>rs_trace = empty_trace eid, rs_env = from_mapping (bt_initial_state task), rs_client = c,
      rs_messages =
        [[(''role'', PStr ''system''), (''content'', PStr (av_system_prompt version))],
         [(''role'', PStr ''user''), (''content'', PStr (bt_input task))]],
      rs_input_tokens = 0, rs_output_tokens = 0\<rparr>"

definition run_task ::
  "'c client \<Rightarrow> runtime \<Rightarrow> agent_version \<Rightarrow> benchmark_task \<Rightarrow> 'c \<Rightarrow> uuid option \<Rightarrow> int \<Rightarrow> int
     \<Rightarrow> (exc, runner_result) res" where
  "run_task ask rt version task c execution_id max_steps max_model_retries =
     (let eid = (case execution_id of None \<Rightarrow> run_uuid rt | Some u \<Rightarrow> u) in
      bind_res (run_loop ask rt version max_steps max_model_retries (nat max_steps)
          (run_start version task eid c)) (\<lambda>(final_output, max_steps_exceeded, s).
        Inr \<lparr>rr_execution_id = eid, rr_trace = rs_trace s, rr_final_output = final_output,
             rr_latency_ms = int (run_ms rt), rr_input_tokens = rs_input_tokens s,
             rr_output_tokens = rs_output_tokens s, rr_final_state = snapshot (rs_env s),
             rr_max_steps_exceeded = max_steps_exceeded\<rparr>))"

section \<open>The shape of a run\<close>

text \<open>
  What the steps of a run may be, as a machine: a request, its retries and its response, then each
  tool call of the response in order and its outcome, then the next request or the end. \<open>Pending\<close>
  holds the calls of the response that are still to be made.
\<close>

datatype phase = Ready | Asking | Pending "pydict list" | Outcome string "pydict list" | Answering | Finished

definition calls_phase :: "pydict list \<Rightarrow> phase" where
  "calls_phase calls = (if calls = [] then Ready else Pending calls)"

fun call_payload :: "step_payload \<Rightarrow> pydict option" where
  "call_payload (ToolCallPayload call_id service operation arguments) =
     Some (vars_call \<lparr>tc_call_id = call_id, tc_service = service, tc_operation = operation, tc_arguments = arguments\<rparr>)"
| "call_payload p = None"

fun call_id_of :: "step_payload \<Rightarrow> string" where
  "call_id_of (ToolCallPayload call_id service operation arguments) = call_id"
| "call_id_of p = []"

fun phase_step :: "phase \<Rightarrow> step_payload \<Rightarrow> phase option" where
  "phase_step Ready (ModelRequestPayload messages model params) = Some Asking"
| "phase_step Ready (ErrorPayload error_type message) =
     (if error_type = ''MaxStepsExceeded'' then Some Finished else None)"
| "phase_step Asking (RetryPayload attempt reason) = Some Asking"
| "phase_step Asking (ModelResponsePayload content calls finish inp outp) =
     Some (if calls = [] then Answering else Pending calls)"
| "phase_step (Pending (call # calls)) p =
     (if call_payload p = Some call then Some (Outcome (call_id_of p) calls) else None)"
| "phase_step (Outcome call_id calls) (ToolResultPayload i result) =
     (if i = call_id then Some (calls_phase calls) else None)"
| "phase_step (Outcome call_id calls) (ErrorPayload error_type message) = Some (calls_phase calls)"
| "phase_step Answering (FinalAnswerPayload content) = Some Finished"
| "phase_step ph p = None"

fun phase_run :: "phase \<Rightarrow> step_payload list \<Rightarrow> phase option" where
  "phase_run ph [] = Some ph"
| "phase_run ph (p # ps) = (case phase_step ph p of None \<Rightarrow> None | Some ph' \<Rightarrow> phase_run ph' ps)"

lemma phase_run_append:
  "phase_run ph (ps @ qs) = (case phase_run ph ps of None \<Rightarrow> None | Some ph' \<Rightarrow> phase_run ph' qs)"
  by (induction ps arbitrary: ph) (auto split: option.splits)

abbreviation payloads :: "trace \<Rightarrow> step_payload list" where
  "payloads t \<equiv> map step_payload (tr_steps t)"

fun is_request :: "step_payload \<Rightarrow> bool" where
  "is_request (ModelRequestPayload messages model params) = True"
| "is_request p = False"

fun input_of :: "step_payload \<Rightarrow> int" where
  "input_of (ModelResponsePayload content calls finish (Some i) outp) = i"
| "input_of p = 0"

fun output_of :: "step_payload \<Rightarrow> int" where
  "output_of (ModelResponsePayload content calls finish inp (Some i)) = i"
| "output_of p = 0"

definition requests_in :: "step_payload list \<Rightarrow> nat" where
  "requests_in ps = length (filter is_request ps)"

definition input_sum :: "step_payload list \<Rightarrow> int" where
  "input_sum ps = sum_list (map input_of ps)"

definition output_sum :: "step_payload list \<Rightarrow> int" where
  "output_sum ps = sum_list (map output_of ps)"

lemma measures_append [simp]:
  "requests_in (ps @ qs) = requests_in ps + requests_in qs"
  "input_sum (ps @ qs) = input_sum ps + input_sum qs"
  "output_sum (ps @ qs) = output_sum ps + output_sum qs"
  by (simp_all add: requests_in_def input_sum_def output_sum_def)

definition quiet :: "step_payload list \<Rightarrow> bool" where
  "quiet ps \<longleftrightarrow> requests_in ps = 0 \<and> input_sum ps = 0 \<and> output_sum ps = 0"

lemma quiet_simps [simp]:
  "quiet []"
  "quiet (ToolCallPayload i s op a # ps) = quiet ps"
  "quiet (ToolResultPayload i v # ps) = quiet ps"
  "quiet (ErrorPayload et m # ps) = quiet ps"
  "quiet (RetryPayload n m # ps) = quiet ps"
  "quiet (FinalAnswerPayload m # ps) = quiet ps"
  by (simp_all add: quiet_def requests_in_def input_sum_def output_sum_def)

lemma closing_measures [simp]:
  "requests_in [FinalAnswerPayload a] = 0" "input_sum [FinalAnswerPayload a] = 0" "output_sum [FinalAnswerPayload a] = 0"
  "requests_in [ErrorPayload et m] = 0" "input_sum [ErrorPayload et m] = 0" "output_sum [ErrorPayload et m] = 0"
  "requests_in [] = 0" "input_sum [] = 0" "output_sum [] = 0"
  by (simp_all add: requests_in_def input_sum_def output_sum_def)

lemma quiet_append: "quiet ps \<Longrightarrow> quiet qs \<Longrightarrow> quiet (ps @ qs)"
  by (simp add: quiet_def)

text \<open>The calls a run made, in order, and that they are exactly those its replies requested.\<close>

fun call_triple :: "step_payload \<Rightarrow> (string \<times> string \<times> pydict) list" where
  "call_triple (ToolCallPayload call_id service operation arguments) = [(service, operation, arguments)]"
| "call_triple p = []"

definition calls_made :: "step_payload list \<Rightarrow> (string \<times> string \<times> pydict) list" where
  "calls_made ps = concat (map call_triple ps)"

definition request_triple :: "tool_call_request \<Rightarrow> string \<times> string \<times> pydict" where
  "request_triple call = (tc_service call, tc_operation call, tc_arguments call)"

lemma calls_made_simps [simp]:
  "calls_made [] = []"
  "calls_made (p # ps) = call_triple p @ calls_made ps"
  "calls_made (ps @ qs) = calls_made ps @ calls_made qs"
  by (simp_all add: calls_made_def)

lemma phase_run_Finished: "phase_run Finished ps = Some ph \<longleftrightarrow> ps = [] \<and> ph = Finished"
  by (cases ps) auto

lemma call_payload_request:
  "call_payload p = Some (vars_call call) \<longleftrightarrow>
     p = ToolCallPayload (tc_call_id call) (tc_service call) (tc_operation call) (tc_arguments call)"
  by (cases p) (auto simp: vars_call_def)

lemma phase_step_Outcome:
  "phase_step (Outcome i calls) p = Some ph \<Longrightarrow> ph = calls_phase calls \<and> call_triple p = [] \<and> \<not> is_request p"
  by (cases p) (auto split: if_splits)

lemma phase_run_calls:
  "phase_run (calls_phase (map vars_call calls)) ps = Some Ready \<Longrightarrow> requests_in ps = 0 \<Longrightarrow>
     calls_made ps = map request_triple calls"
proof (induction calls arbitrary: ps)
  case Nil
  then show ?case
  proof (cases ps)
    case (Cons p ps')
    then show ?thesis using Nil
      by (cases p) (auto simp: calls_phase_def requests_in_def phase_run_Finished split: if_splits)
  qed simp
next
  case (Cons call calls)
  obtain p q ps' ph where ps: "ps = p # q # ps'" and p: "call_payload p = Some (vars_call call)"
    and q: "phase_step (Outcome (call_id_of p) (map vars_call calls)) q = Some ph"
    and rest: "phase_run ph ps' = Some Ready"
    using Cons.prems(1)
    by (cases ps; cases "tl ps") (auto simp: calls_phase_def split: if_splits option.splits)
  have "calls_made ps' = map request_triple calls"
    using Cons.IH [of ps'] rest phase_step_Outcome [OF q] Cons.prems(2) ps by (auto simp: requests_in_def split: if_splits)
  then show ?case using ps p phase_step_Outcome [OF q] by (auto simp: call_payload_request request_triple_def)
qed

text \<open>The state a list of calls leaves behind, made one after the other from \<open>st\<close>.\<close>

fun replay ::
  "runtime \<Rightarrow> (string \<times> string \<times> pydict) list \<Rightarrow> support_state \<Rightarrow> support_state" where
  "replay rt [] st = st"
| "replay rt ((service, operation, arguments) # calls) st =
     replay rt calls (snd (call_method rt service operation arguments st))"

lemma replay_append [simp]: "replay rt (xs @ ys) st = replay rt ys (replay rt xs st)"
  by (induction rt xs st rule: replay.induct) auto

lemma invoke_on_state:
  "invoke_on call rt call_id service operation arguments (t, st) = Inr (step, t', st') \<Longrightarrow>
     st' = snd (call service operation arguments st)"
  by (cases "call service operation arguments st"; cases "fst (call service operation arguments st)")
    (auto simp: invoke_on_def Let_def bind_res_eq_Inr split: if_splits)

section \<open>Tool calls of one reply\<close>

lemma invoke_calls_ok:
  assumes "session_ok st0 env" and "trace_ok t"
    and "list_all (\<lambda>call. plain_call (tc_operation call) (tc_arguments call)) calls"
  shows "\<exists>t' env' messages' ps. invoke_calls rt calls (t, env, messages) = Inr (t', env', messages') \<and>
    session_ok st0 env' \<and> trace_ok t' \<and> tr_execution_id t' = tr_execution_id t \<and>
    payloads t' = payloads t @ ps \<and> quiet ps \<and> env' = replay rt (map request_triple calls) env \<and>
    phase_run (calls_phase (map vars_call calls)) ps = Some Ready"
  using assms
proof (induction calls arbitrary: t env messages)
  case Nil
  then show ?case by (auto simp: calls_phase_def intro!: exI [of _ "[]"])
next
  case (Cons call calls)
  have wf: "wf_support env" using Cons.prems(1) by (simp add: session_ok_def)
  have plain: "plain_call (tc_operation call) (tc_arguments call)" using Cons.prems(3) by simp
  obtain step1 step2 env1 where
    inv: "invoke_on (call_method rt) rt (tc_call_id call) (tc_service call) (tc_operation call) (tc_arguments call) (t, env) =
      Inr (step2, push_step step2 (push_step step1 t), env1)"
    and s1: "step_payload step1 = ToolCallPayload (tc_call_id call) (tc_service call) (tc_operation call) (tc_arguments call)"
    and s2: "(\<exists>v. step_payload step2 = ToolResultPayload (tc_call_id call) v) \<or>
      (\<exists>et m. step_payload step2 = ErrorPayload et m)"
    and env1: "wf_support env1" "env1 = env \<or> state_step env env1"
    and t1: "trace_ok (push_step step2 (push_step step1 t))"
    using support_tools.invoke_two_steps [OF wf plain Cons.prems(2)] by metis
  have ses: "session_ok st0 env1"
    using Cons.prems(1) env1 session_ok_step by blast
  let ?t1 = "push_step step2 (push_step step1 t)"
  let ?m = "messages @ [[(''role'', PStr ''tool''), (''call_id'', PStr (tc_call_id call)),
    (''content'', PDict (dump_with_type (step_payload step2)))]]"
  obtain t' env' messages' ps where IH: "invoke_calls rt calls (?t1, env1, ?m) = Inr (t', env', messages')"
    "session_ok st0 env'" "trace_ok t'" "tr_execution_id t' = tr_execution_id t"
    "payloads t' = payloads ?t1 @ ps" "quiet ps" "env' = replay rt (map request_triple calls) env1"
    "phase_run (calls_phase (map vars_call calls)) ps = Some Ready"
    using Cons.IH [OF ses t1, of ?m] Cons.prems(3) by auto
  let ?ps = "step_payload step1 # step_payload step2 # ps"
  have "quiet ?ps" using s1 s2 IH(6) by auto
  moreover have "phase_run (calls_phase (map vars_call (call # calls))) ?ps = Some Ready"
    using s1 s2 IH(8) by (auto simp: calls_phase_def vars_call_def)
  moreover have "env' = replay rt (map request_triple (call # calls)) env"
    using IH(7) invoke_on_state [OF inv] by (simp add: request_triple_def)
  ultimately show ?case using IH inv
    by (intro exI [of _ t'] exI [of _ env'] exI [of _ messages'] exI [of _ ?ps]) (simp add: invoke_def)
qed

section \<open>What the loop relies on of a client, and the run over it\<close>

definition reply_ok :: "model_reply \<Rightarrow> bool" where
  "reply_ok r \<longleftrightarrow> 0 \<le> mr_input_tokens r \<and> 0 \<le> mr_output_tokens r \<and>
     list_all (\<lambda>call. plain_call (tc_operation call) (tc_arguments call)) (mr_tool_calls r)"

fun outcome_ok :: "(exc \<Rightarrow> bool) \<Rightarrow> model_outcome \<Rightarrow> bool" where
  "outcome_ok may_raise (Reply r) = reply_ok r"
| "outcome_ok may_raise (Transient m) = may_raise (Raise TransientModelError m)"
| "outcome_ok may_raise (Crash e) = may_raise e"

text \<open>What holds of the run's state between iterations.\<close>

definition run_ok :: "('c \<Rightarrow> bool) \<Rightarrow> runtime \<Rightarrow> support_state \<Rightarrow> uuid \<Rightarrow> 'c run_state \<Rightarrow> bool" where
  "run_ok good rt st0 eid s \<longleftrightarrow>
     good (rs_client s) \<and> trace_ok (rs_trace s) \<and> tr_execution_id (rs_trace s) = eid \<and>
     session_ok st0 (rs_env s) \<and> replay rt (calls_made (payloads (rs_trace s))) st0 = rs_env s \<and>
     rs_input_tokens s = input_sum (payloads (rs_trace s)) \<and>
     rs_output_tokens s = output_sum (payloads (rs_trace s))"

locale model_client =
  fixes ask :: "'c client"
    and good :: "'c \<Rightarrow> bool"
    and may_raise :: "exc \<Rightarrow> bool"
  assumes ask_ok: "good c \<Longrightarrow> ask messages model params c = (r, c') \<Longrightarrow> good c' \<and> outcome_ok may_raise r"
begin

lemma retries_ok:
  assumes "good c" and "trace_ok t" and "parent \<in> tr_step_ids t" and "1 \<le> attempt"
    and "complete_with_retries ask rt parent messages version max_retries attempt c t = (r, c', t')"
  shows "good c' \<and> trace_ok t' \<and> tr_execution_id t' = tr_execution_id t \<and>
    tr_step_ids t \<subseteq> tr_step_ids t' \<and>
    (case r of
       Inl e \<Rightarrow> may_raise e
     | Inr reply \<Rightarrow> reply_ok reply \<and>
         (\<exists>ps. payloads t' = payloads t @ ps \<and> quiet ps \<and> calls_made ps = [] \<and> phase_run Asking ps = Some Asking \<and>
            int (length ps) \<le> max 0 (max_retries + 1 - attempt)))"
  using assms
proof (induction "nat (max_retries + 1 - attempt)" arbitrary: attempt c t rule: less_induct)
  case less
  note unf = complete_with_retries.simps [of ask rt parent messages version max_retries attempt c t]
  obtain out c1 where out: "ask messages (av_model version) (av_config version) c = (out, c1)" by fastforce
  have ok: "good c1" "outcome_ok may_raise out" using ask_ok [OF less.prems(1) out] by simp_all
  show ?case
  proof (cases out)
    case (Reply reply)
    then show ?thesis using less.prems out ok by (auto simp: unf)
  next
    case (Crash e)
    then show ?thesis using less.prems out ok by (auto simp: unf)
  next
    case (Transient m)
    have app: "\<exists>step. append_step (uuid4 rt) p (Some parent) None t = Inr (step, push_step step t) \<and>
        step_payload step = p \<and> step_parent step = Some parent" for p
      by (rule append_step_total) (use less.prems in \<open>auto simp: non_negative_def\<close>)
    show ?thesis
    proof (cases "attempt > max_retries")
      case True
      obtain step where "append_step (uuid4 rt) (ErrorPayload ''ModelError'' m) (Some parent) None t = Inr (step, push_step step t)"
        using app by blast
      then show ?thesis
        using less.prems out ok Transient True append_step_ok [of "uuid4 rt" "ErrorPayload ''ModelError'' m"]
        by (auto simp: unf)
    next
      case False
      obtain step where step: "append_step (uuid4 rt) (RetryPayload attempt m) (Some parent) None t = Inr (step, push_step step t)"
          "step_payload step = RetryPayload attempt m"
        using app by blast
      have t1: "trace_ok (push_step step t)" using append_step_ok(1) [OF step(1) less.prems(2)] less.prems(4) by simp
      have bp: "build_payload (RetryPayload attempt m) = Inr (RetryPayload attempt m)"
        using less.prems(4) by (simp add: validated_Inr)
      have rec: "complete_with_retries ask rt parent messages version max_retries (attempt + 1) c1 (push_step step t) = (r, c', t')"
        using less.prems(5) out Transient False step bp by (simp add: unf)
      have IH: "good c' \<and> trace_ok t' \<and> tr_execution_id t' = tr_execution_id (push_step step t) \<and>
        tr_step_ids (push_step step t) \<subseteq> tr_step_ids t' \<and>
        (case r of
           Inl e \<Rightarrow> may_raise e
         | Inr reply \<Rightarrow> reply_ok reply \<and>
             (\<exists>ps. payloads t' = payloads (push_step step t) @ ps \<and> quiet ps \<and> calls_made ps = [] \<and> phase_run Asking ps = Some Asking \<and>
                int (length ps) \<le> max 0 (max_retries + 1 - (attempt + 1))))"
        by (rule less.hyps [OF _ ok(1) t1 _ _ rec]) (use False less.prems in auto)
      show ?thesis
      proof (cases r)
        case (Inr reply)
        then obtain ps where ps: "payloads t' = payloads t @ (RetryPayload attempt m # ps)" "quiet ps" "calls_made ps = []"
            "phase_run Asking ps = Some Asking" "int (length ps) \<le> max 0 (max_retries - attempt)"
          using IH step(2) by auto
        have "int (length (RetryPayload attempt m # ps)) \<le> max 0 (max_retries + 1 - attempt)"
          using ps(5) False by simp
        moreover have "quiet (RetryPayload attempt m # ps)" "calls_made (RetryPayload attempt m # ps) = []" "phase_run Asking (RetryPayload attempt m # ps) = Some Asking"
          using ps by simp_all
        ultimately have "\<exists>ps. payloads t' = payloads t @ ps \<and> quiet ps \<and> calls_made ps = [] \<and> phase_run Asking ps = Some Asking \<and>
            int (length ps) \<le> max 0 (max_retries + 1 - attempt)"
          using ps(1) by blast
        moreover have "reply_ok reply" "good c'" "trace_ok t'" "tr_execution_id t' = tr_execution_id t"
            "tr_step_ids t \<subseteq> tr_step_ids t'"
          using IH Inr by auto
        ultimately show ?thesis unfolding Inr sum.case by blast
      qed (use IH in auto)
    qed
  qed
qed

lemma run_iteration_ok:
  assumes "run_ok good rt st0 eid s" and ready: "phase_run Ready (payloads (rs_trace s)) = Some Ready"
  shows "case run_iteration ask rt version max_retries s of
      Inl e \<Rightarrow> may_raise e
    | Inr (answer, s') \<Rightarrow> run_ok good rt st0 eid s' \<and>
        requests_in (payloads (rs_trace s')) = Suc (requests_in (payloads (rs_trace s))) \<and>
        (\<exists>reply parent t1 t2.
           complete_with_retries ask rt parent (rs_messages s) version max_retries 1 (rs_client s) t1 =
             (Inr reply, rs_client s', t2) \<and> trace_ok t1 \<and> parent \<in> tr_step_ids t1 \<and>
           calls_made (payloads (rs_trace s')) =
             calls_made (payloads (rs_trace s)) @ map request_triple (mr_tool_calls reply) \<and>
           answer = (if mr_tool_calls reply = [] then Some (answer_text reply) else None)) \<and>
        (case answer of
           None \<Rightarrow> phase_run Ready (payloads (rs_trace s')) = Some Ready
         | Some a \<Rightarrow> phase_run Ready (payloads (rs_trace s')) = Some Finished \<and>
             last (payloads (rs_trace s')) = FinalAnswerPayload a)"
proof -
  let ?t = "rs_trace s" and ?rp = "ModelRequestPayload (rs_messages s) (av_model version) []"
  have ok: "good (rs_client s)" "trace_ok ?t" "session_ok st0 (rs_env s)" "tr_execution_id ?t = eid"
      "rs_input_tokens s = input_sum (payloads ?t)" "rs_output_tokens s = output_sum (payloads ?t)"
      "replay rt (calls_made (payloads ?t)) st0 = rs_env s"
    using assms(1) by (simp_all add: run_ok_def)
  obtain rq where rq: "append_step (uuid4 rt) ?rp None None ?t = Inr (rq, push_step rq ?t)" "step_payload rq = ?rp"
    using append_step_total [of None ?t None] by (auto simp: non_negative_def)
  have t1: "trace_ok (push_step rq ?t)" "step_id rq \<in> tr_step_ids (push_step rq ?t)"
    using append_step_ok [OF rq(1) ok(2)] by simp_all
  obtain r c2 t2 where cr: "complete_with_retries ask rt (step_id rq) (rs_messages s) version max_retries 1
      (rs_client s) (push_step rq ?t) = (r, c2, t2)" by (metis prod_cases3)
  note ret = retries_ok [OF ok(1) t1 _ cr, simplified]
  show ?thesis
  proof (cases r)
    case (Inl e)
    then show ?thesis using ret cr rq by (simp add: run_iteration_def)
  next
    case (Inr reply)
    obtain ps where ps: "payloads t2 = payloads ?t @ ?rp # ps" "quiet ps" "phase_run Asking ps = Some Asking"
        "calls_made ps = []"
      and rep: "reply_ok reply" and t2: "trace_ok t2" "good c2" "tr_execution_id t2 = eid" "step_id rq \<in> tr_step_ids t2"
      using ret Inr rq(2) ok(4) by auto
    let ?p = "ModelResponsePayload (mr_content reply) (map vars_call (mr_tool_calls reply))
             (mr_finish_reason reply) (Some (mr_input_tokens reply)) (Some (mr_output_tokens reply))"
    have pok: "payload_ok ?p" using rep by (simp add: reply_ok_def non_negative_def)
    then have bp: "build_payload ?p = Inr ?p" by (simp only: payload_ok_def)
    obtain rs where rs: "append_step (uuid4 rt) ?p (Some (step_id rq)) None t2 = Inr (rs, push_step rs t2)" "step_payload rs = ?p"
      using append_step_total [of "Some (step_id rq)" t2 None "uuid4 rt" ?p] t2(4) by (auto simp: non_negative_def)
    let ?t3 = "push_step rs t2"
    have t3: "trace_ok ?t3" using append_step_ok(1) [OF rs(1) t2(1) pok] .
    have p3: "payloads ?t3 = payloads ?t @ ?rp # ps @ [?p]" using ps rs(2) by simp
    have m3: "requests_in (payloads ?t3) = Suc (requests_in (payloads ?t))"
        "input_sum (payloads ?t3) = input_sum (payloads ?t) + mr_input_tokens reply"
        "output_sum (payloads ?t3) = output_sum (payloads ?t) + mr_output_tokens reply"
      unfolding p3 using ps(2) by (simp_all add: quiet_def requests_in_def input_sum_def output_sum_def)
    have c3: "calls_made (payloads ?t3) = calls_made (payloads ?t)"
      unfolding p3 using ps(4) by simp
    have ph3: "phase_run Ready (payloads ?t3) =
        Some (if mr_tool_calls reply = [] then Answering else Pending (map vars_call (mr_tool_calls reply)))"
      unfolding p3 using ready ps(3) by (simp add: phase_run_append)
    show ?thesis
    proof (cases "mr_tool_calls reply = []")
      case True
      obtain fs where fs: "append_step (uuid4 rt) (FinalAnswerPayload (answer_text reply)) None None ?t3 = Inr (fs, push_step fs ?t3)"
          "step_payload fs = FinalAnswerPayload (answer_text reply)"
        using append_step_total [of None ?t3 None] by (auto simp: non_negative_def)
      have t4: "trace_ok (push_step fs ?t3)" using append_step_ok(1) [OF fs(1) t3] by simp
      have it: "run_iteration ask rt version max_retries s = Inr (Some (answer_text reply), s\<lparr>rs_client := c2,
          rs_input_tokens := rs_input_tokens s + mr_input_tokens reply,
          rs_output_tokens := rs_output_tokens s + mr_output_tokens reply, rs_trace := push_step fs ?t3\<rparr>)"
        using rq cr Inr bp rs fs True by (simp add: run_iteration_def Let_def del: build_payload.simps)
      have p4: "payloads (push_step fs ?t3) = payloads ?t3 @ [FinalAnswerPayload (answer_text reply)]"
        using fs(2) by simp
      have m4: "requests_in (payloads (push_step fs ?t3)) = Suc (requests_in (payloads ?t))"
          "input_sum (payloads (push_step fs ?t3)) = input_sum (payloads ?t) + mr_input_tokens reply"
          "output_sum (payloads (push_step fs ?t3)) = output_sum (payloads ?t) + mr_output_tokens reply"
        unfolding p4 measures_append m3 by simp_all
      have c4: "calls_made (payloads (push_step fs ?t3)) = calls_made (payloads ?t)"
        unfolding p4 using c3 by simp
      have ph4: "phase_run Ready (payloads (push_step fs ?t3)) = Some Finished"
          "last (payloads (push_step fs ?t3)) = FinalAnswerPayload (answer_text reply)"
        unfolding p4 phase_run_append ph3 using True by simp_all
      show ?thesis
        unfolding it using t4 t2 ok m4 ph4 c4 cr Inr True t1
        by (simp add: run_ok_def del: push_step_simps(1,2)) blast
    next
      case False
      let ?m = "rs_messages s @ [[(''role'', PStr ''assistant''),
        (''tool_calls'', PList (map (PDict \<circ> vars_call) (mr_tool_calls reply)))]]"
      obtain t4 env4 m4 qs where ic: "invoke_calls rt (mr_tool_calls reply) (?t3, rs_env s, ?m) = Inr (t4, env4, m4)"
        "session_ok st0 env4" "trace_ok t4" "tr_execution_id t4 = tr_execution_id ?t3"
        "payloads t4 = payloads ?t3 @ qs" "quiet qs" "env4 = replay rt (map request_triple (mr_tool_calls reply)) (rs_env s)"
        "phase_run (calls_phase (map vars_call (mr_tool_calls reply))) qs = Some Ready"
        using invoke_calls_ok [OF ok(3) t3, of "mr_tool_calls reply" rt ?m] rep by (auto simp: reply_ok_def)
      have it: "run_iteration ask rt version max_retries s = Inr (None, s\<lparr>rs_client := c2,
          rs_input_tokens := rs_input_tokens s + mr_input_tokens reply,
          rs_output_tokens := rs_output_tokens s + mr_output_tokens reply,
          rs_trace := t4, rs_env := env4, rs_messages := m4\<rparr>)"
        using rq cr Inr bp rs ic False by (simp add: run_iteration_def Let_def del: build_payload.simps)
      show ?thesis
        unfolding it using ic ok m3 ph3 False t2 c3 cr Inr t1
          phase_run_calls [OF ic(8)]
        by (simp add: run_ok_def phase_run_append calls_phase_def quiet_def del: push_step_simps(1,2)) blast
    qed
  qed
qed

lemma run_loop_ok:
  assumes "run_ok good rt st0 eid s" and "phase_run Ready (payloads (rs_trace s)) = Some Ready"
  shows "case run_loop ask rt version max_steps max_retries n s of
      Inl e \<Rightarrow> may_raise e
    | Inr (answer, exceeded, s') \<Rightarrow> run_ok good rt st0 eid s' \<and>
        phase_run Ready (payloads (rs_trace s')) = Some Finished \<and>
        (exceeded \<longleftrightarrow> answer = None) \<and>
        requests_in (payloads (rs_trace s')) \<le> requests_in (payloads (rs_trace s)) + n \<and>
        (exceeded \<longrightarrow> requests_in (payloads (rs_trace s')) = requests_in (payloads (rs_trace s)) + n) \<and>
        last (payloads (rs_trace s')) =
          (case answer of
             Some a \<Rightarrow> FinalAnswerPayload a
           | None \<Rightarrow> ErrorPayload ''MaxStepsExceeded'' (''exceeded '' @ int_text max_steps @ '' steps without a final answer''))"
  using assms
proof (induction n arbitrary: s)
  case 0
  let ?p = "ErrorPayload ''MaxStepsExceeded'' (''exceeded '' @ int_text max_steps @ '' steps without a final answer'')"
  obtain step where st: "append_step (uuid4 rt) ?p None None (rs_trace s) = Inr (step, push_step step (rs_trace s))"
      "step_payload step = ?p"
    using append_step_total [of None "rs_trace s" None] by (auto simp: non_negative_def)
  have p: "payloads (push_step step (rs_trace s)) = payloads (rs_trace s) @ [?p]" using st(2) by simp
  have ok: "trace_ok (push_step step (rs_trace s))"
    using append_step_ok(1) [OF st(1)] 0 by (simp add: run_ok_def)
  have m: "requests_in (payloads (push_step step (rs_trace s))) = requests_in (payloads (rs_trace s))"
      "input_sum (payloads (push_step step (rs_trace s))) = input_sum (payloads (rs_trace s))"
      "output_sum (payloads (push_step step (rs_trace s))) = output_sum (payloads (rs_trace s))"
      "phase_run Ready (payloads (push_step step (rs_trace s))) = Some Finished"
      "last (payloads (push_step step (rs_trace s))) = ?p"
      "calls_made (payloads (push_step step (rs_trace s))) = calls_made (payloads (rs_trace s))"
    unfolding calls_made_simps(3) p measures_append phase_run_append 0(2) by simp_all
  show ?case using 0 st(1) ok m by (simp add: run_ok_def del: push_step_simps(1))
next
  case (Suc n)
  note it = run_iteration_ok [OF Suc.prems, of version max_retries]
  show ?case
  proof (cases "run_iteration ask rt version max_retries s")
    case (Inl e)
    then show ?thesis using it by simp
  next
    case (Inr r)
    obtain answer s1 where r: "r = (answer, s1)" by fastforce
    show ?thesis
    proof (cases answer)
      case None
      have "run_ok good rt st0 eid s1" "phase_run Ready (payloads (rs_trace s1)) = Some Ready"
        using it Inr r None by simp_all
      from Suc.IH [OF this] show ?thesis
        using it Inr r None by (auto split: sum.splits prod.splits)
    next
      case (Some a)
      then show ?thesis using it Inr r by simp
    qed
  qed
qed

lemma run_task_ok:
  assumes "good c" and "wf_support (from_mapping (bt_initial_state task))"
  shows "case run_task ask rt version task c execution_id max_steps max_retries of
      Inl e \<Rightarrow> may_raise e
    | Inr r \<Rightarrow>
        trace_ok (rr_trace r) \<and> tr_execution_id (rr_trace r) = rr_execution_id r \<and>
        rr_execution_id r = (case execution_id of None \<Rightarrow> run_uuid rt | Some u \<Rightarrow> u) \<and>
        phase_run Ready (payloads (rr_trace r)) = Some Finished \<and>
        (rr_max_steps_exceeded r \<longleftrightarrow> rr_final_output r = None) \<and>
        requests_in (payloads (rr_trace r)) \<le> nat max_steps \<and>
        (rr_max_steps_exceeded r \<longrightarrow> requests_in (payloads (rr_trace r)) = nat max_steps) \<and>
        last (payloads (rr_trace r)) =
          (case rr_final_output r of
             Some a \<Rightarrow> FinalAnswerPayload a
           | None \<Rightarrow> ErrorPayload ''MaxStepsExceeded'' (''exceeded '' @ int_text max_steps @ '' steps without a final answer'')) \<and>
        rr_input_tokens r = input_sum (payloads (rr_trace r)) \<and>
        rr_output_tokens r = output_sum (payloads (rr_trace r)) \<and>
        0 \<le> rr_latency_ms r \<and>
        rr_final_state r =
          snapshot (replay rt (calls_made (payloads (rr_trace r))) (from_mapping (bt_initial_state task))) \<and>
        (\<exists>env. session_ok (from_mapping (bt_initial_state task)) env \<and> rr_final_state r = snapshot env)"
proof -
  let ?st0 = "from_mapping (bt_initial_state task)"
  let ?eid = "case execution_id of None \<Rightarrow> run_uuid rt | Some u \<Rightarrow> u"
  let ?s = "run_start version task ?eid c"
  have "run_ok good rt ?st0 ?eid ?s" "phase_run Ready (payloads (rs_trace ?s)) = Some Ready"
    "requests_in (payloads (rs_trace ?s)) = 0"
    using assms session_ok_refl by (simp_all add: run_ok_def run_start_def)
  with run_loop_ok [OF this(1,2), where version = version and max_steps = max_steps and max_retries = max_retries and n = "nat max_steps"] show ?thesis
    by (cases "run_loop ask rt version max_steps max_retries (nat max_steps) ?s")
      (auto simp: run_task_def Let_def run_ok_def)
qed

end

section \<open>The two clients keep the contract\<close>

fun script_item_ok :: "script_item \<Rightarrow> bool" where
  "script_item_ok (ScriptReply r) = reply_ok r"
| "script_item_ok (ScriptError m) = True"

definition scripted_good :: "scripted_client \<Rightarrow> bool" where
  "scripted_good c \<longleftrightarrow> list_all script_item_ok (sc_script c)"

definition scripted_may_raise :: "exc \<Rightarrow> bool" where
  "scripted_may_raise e \<longleftrightarrow>
     exc_of e = TransientModelError \<or> e = Raise AssertionError ''ScriptedModelClient script exhausted''"

interpretation scripted: model_client scripted_complete scripted_good scripted_may_raise
proof unfold_locales
  fix c messages model params r c'
  assume "scripted_good c" "scripted_complete messages model params c = (r, c')"
  then show "scripted_good c' \<and> outcome_ok scripted_may_raise r"
    by (auto simp: scripted_complete_def scripted_good_def scripted_may_raise_def list_all_length
        split: if_splits script_item.splits) (metis not_le script_item_ok.simps(1))
qed

text \<open>The reference client's calls are the task's expected actions, and it never raises.\<close>

definition reference_good :: "reference_client \<Rightarrow> bool" where
  "reference_good c \<longleftrightarrow> list_all (\<lambda>a. plain_call (ea_operation a) (ea_arguments a)) (rf_actions c)"

interpretation reference: model_client reference_complete reference_good "\<lambda>e. False"
proof unfold_locales
  fix c messages model params r c'
  assume "reference_good c" "reference_complete messages model params c = (r, c')"
  then show "reference_good c' \<and> outcome_ok (\<lambda>e. False) r"
    by (auto simp: reference_complete_def reference_good_def reply_ok_def Let_def list_all_length split: if_splits)
qed

section \<open>The reference run\<close>

definition action_triple :: "expected_action \<Rightarrow> string \<times> string \<times> pydict" where
  "action_triple a = (ea_service a, ea_operation a, ea_arguments a)"

lemma reference_never_fails: "\<exists>r c'. reference_complete messages model params c = (Reply r, c')"
  by (simp add: reference_complete_def Let_def)

lemma reference_no_retry:
  "complete_with_retries reference_complete rt parent messages version max_retries attempt c t = (Inr r, c', t') \<Longrightarrow>
     reference_complete messages (av_model version) (av_config version) c = (Reply r, c')"
  using reference_never_fails [of messages "av_model version" "av_config version" c]
  by (auto simp: complete_with_retries.simps)

lemma reference_iteration:
  assumes "run_ok reference_good rt st0 eid s" and "phase_run Ready (payloads (rs_trace s)) = Some Ready"
    and c: "rs_client s = \<lparr>rf_actions = actions, rf_step = k\<rparr>" and k: "k \<le> length actions"
  obtains s' where
    "run_iteration reference_complete rt version max_retries s =
      Inr (if k < length actions then None else Some ''Resolved according to policy.'', s')"
    and "run_ok reference_good rt st0 eid s'"
    and "k < length actions \<Longrightarrow> phase_run Ready (payloads (rs_trace s')) = Some Ready"
    and "rs_client s' = \<lparr>rf_actions = actions, rf_step = min (k + 1) (length actions)\<rparr>"
    and "calls_made (payloads (rs_trace s')) =
      calls_made (payloads (rs_trace s)) @ (if k < length actions then [action_triple (actions ! k)] else [])"
proof -
  note it = reference.run_iteration_ok [OF assms(1,2), of version max_retries]
  obtain answer s' where ri: "run_iteration reference_complete rt version max_retries s = Inr (answer, s')"
    using it by (auto split: sum.splits)
  obtain reply parent t1 t2 where reply:
      "complete_with_retries reference_complete rt parent (rs_messages s) version max_retries 1 (rs_client s) t1 =
             (Inr reply, rs_client s', t2)"
      "calls_made (payloads (rs_trace s')) =
             calls_made (payloads (rs_trace s)) @ map request_triple (mr_tool_calls reply)"
      "answer = (if mr_tool_calls reply = [] then Some (answer_text reply) else None)"
    using it ri by auto
  have rep: "reference_complete (rs_messages s) (av_model version) (av_config version) (rs_client s) =
      (Reply reply, rs_client s')"
    using reference_no_retry [OF reply(1)] .
  show thesis
  proof (rule that [of s'])
    show "run_iteration reference_complete rt version max_retries s =
        Inr (if k < length actions then None else Some ''Resolved according to policy.'', s')"
      using ri reply(3) rep c by (auto simp: reference_complete_def Let_def answer_text_def split: if_splits)
    show "rs_client s' = \<lparr>rf_actions = actions, rf_step = min (k + 1) (length actions)\<rparr>"
      using rep c k by (auto simp: reference_complete_def Let_def split: if_splits)
    show "calls_made (payloads (rs_trace s')) =
      calls_made (payloads (rs_trace s)) @ (if k < length actions then [action_triple (actions ! k)] else [])"
      using rep c reply(2)
      by (auto simp: reference_complete_def Let_def request_triple_def action_triple_def split: if_splits)
    show "run_ok reference_good rt st0 eid s'" using it ri by simp
    show "phase_run Ready (payloads (rs_trace s')) = Some Ready" if "k < length actions"
    proof -
      have "answer = None" using reply(3) rep c that by (auto simp: reference_complete_def Let_def)
      then show ?thesis using it ri by simp
    qed
  qed
qed

lemma reference_loop:
  assumes "run_ok reference_good rt st0 eid s" and "phase_run Ready (payloads (rs_trace s)) = Some Ready"
    and "rs_client s = \<lparr>rf_actions = actions, rf_step = k\<rparr>" and "k \<le> length actions"
    and "calls_made (payloads (rs_trace s)) = map action_triple (take k actions)"
  shows "\<exists>answer s'. run_loop reference_complete rt version max_steps max_retries n s =
      Inr (answer, n \<le> length actions - k, s') \<and>
    calls_made (payloads (rs_trace s')) = map action_triple (take (k + n) actions) \<and>
    answer = (if n \<le> length actions - k then None else Some ''Resolved according to policy.'')"
  using assms
proof (induction n arbitrary: s k)
  case 0
  let ?p = "ErrorPayload ''MaxStepsExceeded'' (''exceeded '' @ int_text max_steps @ '' steps without a final answer'')"
  obtain step where "append_step (uuid4 rt) ?p None None (rs_trace s) = Inr (step, push_step step (rs_trace s))"
      "step_payload step = ?p"
    using append_step_total [of None "rs_trace s" None] by (auto simp: non_negative_def)
  then show ?case using 0 by simp
next
  case (Suc n)
  obtain s1 where s1: "run_iteration reference_complete rt version max_retries s =
      Inr (if k < length actions then None else Some ''Resolved according to policy.'', s1)"
    "run_ok reference_good rt st0 eid s1"
    "k < length actions \<Longrightarrow> phase_run Ready (payloads (rs_trace s1)) = Some Ready"
    "rs_client s1 = \<lparr>rf_actions = actions, rf_step = min (k + 1) (length actions)\<rparr>"
    "calls_made (payloads (rs_trace s1)) =
      calls_made (payloads (rs_trace s)) @ (if k < length actions then [action_triple (actions ! k)] else [])"
    using reference_iteration [OF Suc.prems(1,2,3,4)] by blast
  show ?case
  proof (cases "k < length actions")
    case True
    then have "calls_made (payloads (rs_trace s1)) = map action_triple (take (Suc k) actions)"
      using s1(5) Suc.prems(5) by (simp add: take_Suc_conv_app_nth)
    from Suc.IH [OF s1(2) s1(3) [OF True] _ _ this] s1(1,4) True show ?thesis
      by (auto simp: min_def Suc_le_eq)
  next
    case False
    then show ?thesis using s1 Suc.prems(4,5) by auto
  qed
qed

lemma reference_plays:
  assumes "wf_support (from_mapping (bt_initial_state task))"
    and "list_all (\<lambda>a. plain_call (ea_operation a) (ea_arguments a)) actions"
  shows "\<exists>r. run_task reference_complete rt version task \<lparr>rf_actions = actions, rf_step = 0\<rparr> execution_id max_steps max_retries = Inr r \<and>
    calls_made (payloads (rr_trace r)) = map action_triple (take (nat max_steps) actions) \<and>
    (rr_max_steps_exceeded r \<longleftrightarrow> nat max_steps \<le> length actions) \<and>
    rr_final_output r =
      (if nat max_steps \<le> length actions then None else Some ''Resolved according to policy.'') \<and>
    rr_final_state r = snapshot (replay rt (map action_triple (take (nat max_steps) actions))
      (from_mapping (bt_initial_state task)))"
proof -
  let ?c = "\<lparr>rf_actions = actions, rf_step = 0\<rparr>"
  let ?st0 = "from_mapping (bt_initial_state task)"
  let ?eid = "case execution_id of None \<Rightarrow> run_uuid rt | Some u \<Rightarrow> u"
  let ?s = "run_start version task ?eid ?c"
  have good: "reference_good ?c" using assms(2) by (simp add: reference_good_def)
  have "run_ok reference_good rt ?st0 ?eid ?s" "phase_run Ready (payloads (rs_trace ?s)) = Some Ready"
    "rs_client ?s = \<lparr>rf_actions = actions, rf_step = 0\<rparr>"
    "calls_made (payloads (rs_trace ?s)) = map action_triple (take 0 actions)"
    using assms(1) good session_ok_refl by (simp_all add: run_ok_def run_start_def)
  from reference_loop [OF this(1,2,3) _ this(4), of version max_steps max_retries "nat max_steps"]
  obtain r where r: "run_task reference_complete rt version task ?c execution_id max_steps max_retries = Inr r"
    "calls_made (payloads (rr_trace r)) = map action_triple (take (nat max_steps) actions)"
    "rr_max_steps_exceeded r \<longleftrightarrow> nat max_steps \<le> length actions"
    "rr_final_output r = (if nat max_steps \<le> length actions then None else Some ''Resolved according to policy.'')"
    by (auto simp: run_task_def Let_def split: if_splits)
  from reference.run_task_ok [OF good assms(1), where rt = rt and version = version and
      execution_id = execution_id and max_steps = max_steps and max_retries = max_retries] r
  show ?thesis by simp
qed

lemma reference_run:
  assumes "wf_support (from_mapping (bt_initial_state task))"
    and "list_all (\<lambda>a. plain_call (ea_operation a) (ea_arguments a)) (bt_expected_actions task)"
  shows "\<exists>r. run_task reference_complete rt version task (reference_client_for task) execution_id max_steps max_retries = Inr r \<and>
    calls_made (payloads (rr_trace r)) = map action_triple (take (nat max_steps) (bt_expected_actions task)) \<and>
    (rr_max_steps_exceeded r \<longleftrightarrow> nat max_steps \<le> length (bt_expected_actions task)) \<and>
    rr_final_output r =
      (if nat max_steps \<le> length (bt_expected_actions task) then None else Some ''Resolved according to policy.'')"
  unfolding reference_client_for_def using reference_plays [OF assms] by blast

section \<open>The retry budget\<close>

definition retry_payloads :: "int \<Rightarrow> string \<Rightarrow> nat \<Rightarrow> step_payload list" where
  "retry_payloads attempt m n = map (\<lambda>i. RetryPayload (attempt + int i) m) [0..<n]"

lemma retry_payloads_Suc: "retry_payloads a m (Suc n) = RetryPayload a m # retry_payloads (a + 1) m n"
  by (simp add: retry_payloads_def upt_conv_Cons map_Suc_upt [symmetric] del: upt_Suc)

lemma retry_payloads_0 [simp]: "retry_payloads a m 0 = []"
  by (simp add: retry_payloads_def)

lemma scripted_next:
  assumes "drop (sc_calls c) (sc_script c) = item # rest"
  shows "scripted_complete messages model params c =
      (case item of ScriptReply r \<Rightarrow> Reply r | ScriptError m \<Rightarrow> Transient m, c\<lparr>sc_calls := sc_calls c + 1\<rparr>)"
    and "drop (sc_calls c + 1) (sc_script c) = rest"
proof -
  have len: "sc_calls c < length (sc_script c)" using assms by (metis drop_eq_Nil2 leI list.distinct(1))
  then have "sc_script c ! sc_calls c = item" using assms by (metis hd_drop_conv_nth list.sel(1))
  then show "scripted_complete messages model params c =
      (case item of ScriptReply r \<Rightarrow> Reply r | ScriptError m \<Rightarrow> Transient m, c\<lparr>sc_calls := sc_calls c + 1\<rparr>)"
    using len by (simp add: scripted_complete_def)
  show "drop (sc_calls c + 1) (sc_script c) = rest" using assms by (metis drop_Suc list.sel(3) Suc_eq_plus1 tl_drop)
qed

lemma scripted_retries:
  assumes "trace_ok t" and "parent \<in> tr_step_ids t" and "1 \<le> attempt"
    and "drop (sc_calls c) (sc_script c) = replicate n (ScriptError m) @ ScriptReply r # rest"
    and "complete_with_retries scripted_complete rt parent messages version max_retries attempt c t = (out, c', t')"
    and "budget = nat (max_retries + 1 - attempt)"
  shows "if n \<le> budget
    then out = Inr r \<and> sc_calls c' = sc_calls c + n + 1 \<and> payloads t' = payloads t @ retry_payloads attempt m n
    else out = Inl (Raise TransientModelError m) \<and> sc_calls c' = sc_calls c + budget + 1 \<and>
      payloads t' = payloads t @ retry_payloads attempt m budget @ [ErrorPayload ''ModelError'' m]"
  using assms
proof (induction budget arbitrary: n attempt c t)
  case 0
  note unf = complete_with_retries.simps [of scripted_complete rt parent messages version max_retries attempt c t]
  show ?case
  proof (cases n)
    case 0
    then show ?thesis using "0.prems" scripted_next(1) [of c "ScriptReply r" rest] by (auto simp: unf)
  next
    case (Suc k)
    obtain step where "append_step (uuid4 rt) (ErrorPayload ''ModelError'' m) (Some parent) None t = Inr (step, push_step step t)"
        "step_payload step = ErrorPayload ''ModelError'' m"
      using append_step_total [of "Some parent" t None] "0.prems"(2) by (auto simp: non_negative_def)
    then show ?thesis using "0.prems" scripted_next(1) [of c "ScriptError m"] Suc by (auto simp: unf)
  qed
next
  case (Suc budget)
  note unf = complete_with_retries.simps [of scripted_complete rt parent messages version max_retries attempt c t]
  show ?case
  proof (cases n)
    case 0
    then show ?thesis using Suc.prems scripted_next(1) [of c "ScriptReply r" rest] by (auto simp: unf)
  next
    case (Suc k)
    obtain step where step: "append_step (uuid4 rt) (RetryPayload attempt m) (Some parent) None t = Inr (step, push_step step t)"
        "step_payload step = RetryPayload attempt m"
      using append_step_total [of "Some parent" t None] Suc.prems(2) by (auto simp: non_negative_def)
    have t1: "trace_ok (push_step step t)" using append_step_ok(1) [OF step(1)] Suc.prems(1,3) by simp
    have bp: "build_payload (RetryPayload attempt m) = Inr (RetryPayload attempt m)"
      using Suc.prems(3) by (simp add: validated_Inr)
    let ?c = "c\<lparr>sc_calls := sc_calls c + 1\<rparr>"
    have cons: "drop (sc_calls c) (sc_script c) = ScriptError m # replicate k (ScriptError m) @ ScriptReply r # rest"
      using Suc.prems(4) Suc by simp
    note nx = scripted_next [OF cons]
    have rec: "complete_with_retries scripted_complete rt parent messages version max_retries (attempt + 1) ?c
        (push_step step t) = (out, c', t')"
      using Suc.prems(5,6) nx(1) step bp by (simp add: unf del: build_payload.simps split: if_splits)
    have "if k \<le> budget
      then out = Inr r \<and> sc_calls c' = sc_calls ?c + k + 1 \<and>
        payloads t' = payloads (push_step step t) @ retry_payloads (attempt + 1) m k
      else out = Inl (Raise TransientModelError m) \<and> sc_calls c' = sc_calls ?c + budget + 1 \<and>
        payloads t' = payloads (push_step step t) @ retry_payloads (attempt + 1) m budget @ [ErrorPayload ''ModelError'' m]"
      by (rule Suc.IH [OF t1 _ _ _ rec]) (use Suc.prems nx(2) in auto)
    then show ?thesis using Suc step(2) by (simp add: retry_payloads_Suc split: if_splits)
  qed
qed

section \<open>Properties of runs\<close>

text \<open>C2: A run with any client that keeps the client contract, on a task with a well-formed seed,
  returns or raises what the client may raise; when it returns, the trace is well-formed and
  complete: it is requests, retries, responses, every requested tool call in order with its
  outcome, and one last step that is the final answer or the record that the steps ran out, and
  the run made at most \<open>max_steps\<close> requests.\<close>

theorem run_trace_is_complete:
  assumes "model_client ask good may_raise" and "good c"
    and "wf_support (from_mapping (bt_initial_state task))"
  shows "case run_task ask rt version task c execution_id max_steps max_retries of
      Inl e \<Rightarrow> may_raise e
    | Inr r \<Rightarrow>
        trace_ok (rr_trace r) \<and> phase_run Ready (payloads (rr_trace r)) = Some Finished \<and>
        (rr_max_steps_exceeded r \<longleftrightarrow> rr_final_output r = None) \<and>
        requests_in (payloads (rr_trace r)) \<le> nat max_steps \<and>
        last (payloads (rr_trace r)) =
          (case rr_final_output r of
             Some a \<Rightarrow> FinalAnswerPayload a
           | None \<Rightarrow> ErrorPayload ''MaxStepsExceeded'' (''exceeded '' @ int_text max_steps @ '' steps without a final answer''))"
  using model_client.run_task_ok [OF assms, where rt = rt and version = version and execution_id = execution_id and max_steps = max_steps and max_retries = max_retries]
  by (auto split: sum.splits)

text \<open>The totals a run reports are those of its trace: input and output tokens are the sums over
  the response steps, making the recorded calls again on the seed gives the final state, and that
  state is reached from the seed within the policy of the tools.\<close>

theorem run_accounts_for_its_trace:
  assumes "model_client ask good may_raise" and "good c"
    and "wf_support (from_mapping (bt_initial_state task))"
    and "run_task ask rt version task c execution_id max_steps max_retries = Inr r"
  shows "rr_input_tokens r = input_sum (payloads (rr_trace r)) \<and>
    rr_output_tokens r = output_sum (payloads (rr_trace r)) \<and>
    tr_execution_id (rr_trace r) = rr_execution_id r \<and>
    rr_final_state r =
      snapshot (replay rt (calls_made (payloads (rr_trace r))) (from_mapping (bt_initial_state task))) \<and>
    (\<exists>env. session_ok (from_mapping (bt_initial_state task)) env \<and> rr_final_state r = snapshot env)"
  using model_client.run_task_ok [OF assms(1-3), where rt = rt and version = version and execution_id = execution_id and max_steps = max_steps and max_retries = max_retries] assms(4)
  by auto

definition sample_version :: agent_version where
  "sample_version =
     \<lparr>av_name = ''v1'', av_git_sha = ''abcdef0'', av_model = ''m'', av_system_prompt = ''help'',
      av_tool_schema_hash = ''0000000'', av_config = [], av_id = UUID 5, av_content_hash = ''h'', av_created_at = 0\<rparr>"

definition sample_task :: benchmark_task where
  "sample_task =
     \<lparr>bt_task_id = ''t'', bt_input = ''cancel o2'', bt_initial_state = snapshot sample_state,
      bt_expected_actions =
        [\<lparr>ea_service = ''order'', ea_operation = ''cancel_order'',
          ea_arguments = [(''order_id'', PStr ''o2''), (''requesting_customer_id'', PStr ''cust_1'')]\<rparr>],
      bt_forbidden_actions = [], 
      bt_expected_final_state = [(''orders'', PDict [(''o2'', PDict [(''status'', PStr ''cancelled'')])])],
      bt_tags = [], bt_difficulty = EASY\<rparr>"

lemma wf_sample_task: "wf_support (from_mapping (bt_initial_state sample_task))"
  by code_simp

lemma reference_good_sample: "reference_good (reference_client_for sample_task)"
  by code_simp

theorem run_trace_is_complete_witness:
  "is_ok (run_task reference_complete sample_runtime sample_version sample_task
     (reference_client_for sample_task) None 20 2)"
  using run_trace_is_complete [OF reference.model_client_axioms reference_good_sample wf_sample_task,
      where rt = sample_runtime and version = sample_version and execution_id = None and max_steps = 20 and max_retries = 2]
  by (auto simp: is_ok_def split: sum.splits)

theorem run_accounts_for_its_trace_witness:
  "\<exists>r. run_task reference_complete sample_runtime sample_version sample_task
     (reference_client_for sample_task) None 20 2 = Inr r \<and>
     rr_input_tokens r = input_sum (payloads (rr_trace r))"
proof -
  obtain r where r: "run_task reference_complete sample_runtime sample_version sample_task
     (reference_client_for sample_task) None 20 2 = Inr r"
    using reference_run [OF wf_sample_task, of sample_runtime sample_version None 20 2] reference_good_sample
    by (auto simp: reference_good_def reference_client_for_def)
  then show ?thesis
    using run_accounts_for_its_trace [OF reference.model_client_axioms reference_good_sample wf_sample_task r]
    by blast
qed

text \<open>C27: The retry budget: when the model fails transiently \<open>n\<close> times and then replies, the reply
  is returned after \<open>n\<close> recorded retries numbered from 1 if \<open>n\<close> is at most \<open>max_retries\<close>;
  otherwise the run makes \<open>max_retries + 1\<close> attempts, records the error, and raises it.\<close>

theorem retry_budget:
  assumes "trace_ok t" and "parent \<in> tr_step_ids t" and "0 \<le> max_retries"
    and "drop (sc_calls c) (sc_script c) = replicate n (ScriptError m) @ ScriptReply r # rest"
    and "complete_with_retries scripted_complete rt parent messages version max_retries 1 c t = (out, c', t')"
  shows "if int n \<le> max_retries
    then out = Inr r \<and> sc_calls c' = sc_calls c + n + 1 \<and> payloads t' = payloads t @ retry_payloads 1 m n
    else out = Inl (Raise TransientModelError m) \<and> sc_calls c' = sc_calls c + nat max_retries + 1 \<and>
      payloads t' = payloads t @ retry_payloads 1 m (nat max_retries) @ [ErrorPayload ''ModelError'' m]"
  using scripted_retries [OF assms(1,2) _ assms(4,5) refl] assms(3) by (auto split: if_splits)

theorem retry_budget_witness:
  "fst (complete_with_retries scripted_complete sample_runtime (UUID 1) [] sample_version 2 1
     \<lparr>sc_script = replicate 3 (ScriptError ''busy'') @ [ScriptReply \<lparr>mr_finish_reason = ''stop'', mr_content = None,
        mr_tool_calls = [], mr_input_tokens = 0, mr_output_tokens = 0\<rparr>], sc_calls = 0\<rparr> sample_trace) =
   Inl (Raise TransientModelError ''busy'')"
proof -
  let ?c = "\<lparr>sc_script = replicate 3 (ScriptError ''busy'') @ [ScriptReply \<lparr>mr_finish_reason = ''stop'', mr_content = None,
        mr_tool_calls = [], mr_input_tokens = 0, mr_output_tokens = 0\<rparr>], sc_calls = 0\<rparr>"
  obtain out c' t' where eq: "complete_with_retries scripted_complete sample_runtime (UUID 1) [] sample_version 2 1
      ?c sample_trace = (out, c', t')" by (metis prod_cases3)
  have "UUID 1 \<in> tr_step_ids sample_trace" by code_simp
  from retry_budget [OF trace_ok_sample this _ _ eq, of 3 "''busy''" _ "[]"] eq show ?thesis by simp
qed

text \<open>The reference agent always returns: it makes exactly the task's expected calls, in order,
  as far as the steps allow, and answers when there is a step left after them.\<close>

theorem reference_agent_plays_the_contract:
  assumes "wf_support (from_mapping (bt_initial_state task))"
    and "list_all (\<lambda>a. plain_call (ea_operation a) (ea_arguments a)) (bt_expected_actions task)"
  shows "\<exists>r. run_task reference_complete rt version task (reference_client_for task) execution_id max_steps max_retries = Inr r \<and>
    calls_made (payloads (rr_trace r)) = map action_triple (take (nat max_steps) (bt_expected_actions task)) \<and>
    (rr_max_steps_exceeded r \<longleftrightarrow> nat max_steps \<le> length (bt_expected_actions task))"
  using reference_run [OF assms] by blast

theorem reference_agent_plays_the_contract_witness:
  "\<exists>r. run_task reference_complete sample_runtime sample_version sample_task (reference_client_for sample_task)
      None 20 2 = Inr r \<and> length (calls_made (payloads (rr_trace r))) = 1 \<and> \<not> rr_max_steps_exceeded r"
proof -
  have "list_all (\<lambda>a. plain_call (ea_operation a) (ea_arguments a)) (bt_expected_actions sample_task)"
    by code_simp
  from reference_agent_plays_the_contract [OF wf_sample_task this, of sample_runtime sample_version None 20 2]
  show ?thesis by (auto simp: sample_task_def)
qed

end
