(* ===== verification/Contracts.thy ===== *)
theory Contracts
  imports Runner
begin

text \<open>
  \<open>judges/contracts.py\<close> and \<open>backend/app/execution_scoring.py\<close>: the deterministic score of a
  finished run against its task's contract, and the result record the platform stores for it.
\<close>

section \<open>Scoring\<close>

record tool_call =
  tl_service :: string
  tl_operation :: string
  tl_arguments :: pydict

record contract_score =
  cs_passed :: bool
  cs_missing_expected_actions :: "string list"
  cs_forbidden_actions_seen :: "string list"
  cs_final_state_mismatches :: "string list"

text \<open>\<open>expected.items() <= actual.items()\<close>: CPython compares the sizes, then looks each item up.\<close>

definition items_le :: "pydict \<Rightarrow> pydict \<Rightarrow> bool" where
  "items_le d e \<longleftrightarrow> length d \<le> length e \<and>
     list_all (\<lambda>(k, v). case map_of e k of None \<Rightarrow> False | Some u \<Rightarrow> py_eq u v) d"

definition matches :: "string \<Rightarrow> string \<Rightarrow> pydict \<Rightarrow> tool_call \<Rightarrow> bool" where
  "matches service operation arguments call \<longleftrightarrow>
     tl_service call = service \<and> tl_operation call = operation \<and> items_le arguments (tl_arguments call)"

fun diff_final_state :: "pyval \<Rightarrow> pyval \<Rightarrow> string \<Rightarrow> string list" where
  "diff_final_state (PDict expected) actual path =
     (case actual of
        PDict a \<Rightarrow> concat (map (\<lambda>(key, value).
          let child_path = (if path \<noteq> [] then path @ ''.'' @ key else key) in
          case map_of a key of
            None \<Rightarrow> [child_path @ '': missing from final state'']
          | Some w \<Rightarrow> diff_final_state value w child_path) expected)
      | _ \<Rightarrow> [(if path \<noteq> [] then path else ''<root>'') @ '': expected an object, got '' @ py_repr actual])"
| "diff_final_state expected actual path =
     (if \<not> py_eq expected actual
      then [path @ '': expected '' @ py_repr expected @ '', got '' @ py_repr actual]
      else [])"

definition score_actions :: "benchmark_task \<Rightarrow> tool_call list \<Rightarrow> pydict \<Rightarrow> contract_score" where
  "score_actions task tool_calls final_state =
     (let missing =
            map (\<lambda>e. ea_service e @ ''.'' @ ea_operation e)
              (filter (\<lambda>e. \<not> list_ex (matches (ea_service e) (ea_operation e) (ea_arguments e)) tool_calls)
                (bt_expected_actions task));
          forbidden_seen =
            map (\<lambda>f. fa_service f @ ''.'' @ fa_operation f @ '': '' @ fa_reason f)
              (filter (\<lambda>f. list_ex (matches (fa_service f) (fa_operation f) (fa_arguments f)) tool_calls)
                (bt_forbidden_actions task));
          mismatches = diff_final_state (PDict (bt_expected_final_state task)) (PDict final_state) []
      in \<lparr>cs_passed = (missing = [] \<and> forbidden_seen = [] \<and> mismatches = []),
          cs_missing_expected_actions = missing,
          cs_forbidden_actions_seen = forbidden_seen,
          cs_final_state_mismatches = mismatches\<rparr>)"

fun call_of_payload :: "step_payload \<Rightarrow> tool_call list" where
  "call_of_payload (ToolCallPayload call_id service operation arguments) =
     [\<lparr>tl_service = service, tl_operation = operation, tl_arguments = arguments\<rparr>]"
| "call_of_payload p = []"

definition extract_tool_calls :: "trace \<Rightarrow> tool_call list" where
  "extract_tool_calls t = concat (map (\<lambda>step. call_of_payload (step_payload step)) (tr_steps t))"

definition score_run :: "benchmark_task \<Rightarrow> runner_result \<Rightarrow> contract_score" where
  "score_run task result = score_actions task (extract_tool_calls (rr_trace result)) (rr_final_state result)"

section \<open>The stored result\<close>

definition NO_FINAL_ANSWER :: string where
  "NO_FINAL_ANSWER = ''(agent did not produce a final answer)''"

definition score_execution ::
  "benchmark_task \<Rightarrow> runner_result \<Rightarrow> (exc, task_execution_result \<times> contract_score) res" where
  "score_execution task result =
     (let contract_score = score_run task result;
          outcome = (if rr_max_steps_exceeded result then (ERRORED, False)
                     else if cs_passed contract_score then (PASSED, True) else (FAILED, False))
      in bind_res (TaskExecutionResult
           \<lparr>res_status = fst outcome, res_passed = snd outcome,
            res_final_output = (case rr_final_output result of
               None \<Rightarrow> NO_FINAL_ANSWER | Some a \<Rightarrow> if a = [] then NO_FINAL_ANSWER else a),
            res_latency_ms = rr_latency_ms result, res_input_tokens = rr_input_tokens result,
            res_output_tokens = rr_output_tokens result, res_estimated_cost_usd = 0,
            res_missing_expected_actions = cs_missing_expected_actions contract_score,
            res_forbidden_actions_seen = cs_forbidden_actions_seen contract_score,
            res_final_state_mismatches = cs_final_state_mismatches contract_score\<rparr>) (\<lambda>r.
         Inr (r, contract_score)))"

section \<open>What the final-state comparison means\<close>

text \<open>
  \<open>agrees_along expected actual ks\<close>: what \<open>expected\<close> fixes at the path \<open>ks\<close> of keys is in \<open>actual\<close>:
  an object where it fixes an object, an equal value where it fixes another value.
\<close>

fun key_path :: "pyval \<Rightarrow> string list \<Rightarrow> pyval option" where
  "key_path v [] = Some v"
| "key_path (PDict d) (k # ks) = (case map_of d k of None \<Rightarrow> None | Some u \<Rightarrow> key_path u ks)"
| "key_path v (k # ks) = None"

fun fixed_by :: "pyval \<Rightarrow> pyval option \<Rightarrow> bool" where
  "fixed_by (PDict d) a = (case a of Some (PDict e) \<Rightarrow> True | _ \<Rightarrow> False)"
| "fixed_by v a = (case a of Some w \<Rightarrow> py_eq v w | None \<Rightarrow> False)"

definition agrees_along :: "pyval \<Rightarrow> pyval \<Rightarrow> string list \<Rightarrow> bool" where
  "agrees_along expected actual ks =
     (case key_path expected ks of None \<Rightarrow> True | Some v \<Rightarrow> fixed_by v (key_path actual ks))"

lemma diff_final_state_leaf:
  "(\<And>d. v \<noteq> PDict d) \<Longrightarrow> diff_final_state v w path = [] \<longleftrightarrow> py_eq v w"
  by (cases v) auto

lemma agrees_along_Nil: "agrees_along v w [] = fixed_by v (Some w)"
  by (simp add: agrees_along_def)

lemma agrees_along_leaf:
  assumes "\<And>d. v \<noteq> PDict d"
  shows "(\<forall>ks. agrees_along v w ks) \<longleftrightarrow> py_eq v w"
proof -
  have "agrees_along v w (k # ks)" for k ks using assms by (cases v) (auto simp: agrees_along_def)
  moreover have "agrees_along v w [] \<longleftrightarrow> py_eq v w" using assms by (cases v) (auto simp: agrees_along_def)
  ultimately show ?thesis by (metis list.exhaust)
qed

lemma diff_final_state_complete:
  assumes "wf_val expected"
  shows "diff_final_state expected actual path = [] \<longleftrightarrow> (\<forall>ks. agrees_along expected actual ks)"
  using assms
proof (induction expected arbitrary: actual path)
  case (PDict d)
  show ?case
  proof (cases actual)
    case (PDict a)
    have ok: "dict_ok d" using PDict.prems by simp
    have sub: "wf_val v" if "(k, v) \<in> set d" for k v using PDict.prems that by (auto simp: list_all_iff)
    have cons: "agrees_along (PDict d) (PDict a) (k # ks) \<longleftrightarrow>
        (case map_of d k of None \<Rightarrow> True | Some v \<Rightarrow>
          (case map_of a k of None \<Rightarrow> key_path v ks = None | Some w \<Rightarrow> agrees_along v w ks))" for k ks
      by (auto simp: agrees_along_def split: option.splits) (metis fixed_by.elims(2) option.simps(4))+
    have "diff_final_state (PDict d) (PDict a) path = [] \<longleftrightarrow>
        (\<forall>k v. (k, v) \<in> set d \<longrightarrow> (case map_of a k of None \<Rightarrow> False
            | Some w \<Rightarrow> \<forall>ks. agrees_along v w ks))"
      using PDict.IH sub by (fastforce simp: Let_def split: option.splits)
    also have "\<dots> \<longleftrightarrow> (\<forall>k ks. agrees_along (PDict d) (PDict a) (k # ks))"
    proof (intro iffI allI impI)
      fix k ks assume *: "\<forall>k v. (k, v) \<in> set d \<longrightarrow> (case map_of a k of None \<Rightarrow> False
            | Some w \<Rightarrow> \<forall>ks. agrees_along v w ks)"
      show "agrees_along (PDict d) (PDict a) (k # ks)"
      proof (cases "map_of d k")
        case (Some v)
        then have "case map_of a k of None \<Rightarrow> False | Some w \<Rightarrow> \<forall>ks. agrees_along v w ks"
          using * map_of_SomeD by metis
        then show ?thesis unfolding cons using Some by (auto split: option.splits)
      qed (simp add: cons)
    next
      fix k v assume *: "\<forall>k ks. agrees_along (PDict d) (PDict a) (k # ks)" and kv: "(k, v) \<in> set d"
      have "map_of d k = Some v" using kv ok by (simp add: dict_ok_def)
      with * [rule_format, of k] have c: "case map_of a k of None \<Rightarrow> key_path v ks = None | Some w \<Rightarrow> agrees_along v w ks" for ks
        by (simp add: cons)
      show "case map_of a k of None \<Rightarrow> False | Some w \<Rightarrow> \<forall>ks. agrees_along v w ks"
      proof (cases "map_of a k")
        case None
        then show ?thesis using c [of "[]"] by simp
      next
        case (Some w)
        then show ?thesis using c by auto
      qed
    qed
    also have "\<dots> \<longleftrightarrow> (\<forall>ks. agrees_along (PDict d) (PDict a) ks)"
    proof -
      have "agrees_along (PDict d) (PDict a) []" by (simp add: agrees_along_Nil)
      then show ?thesis by (metis list.exhaust)
    qed
    finally show ?thesis using PDict by simp
  next
  qed (auto simp: agrees_along_def intro!: exI [of _ "[]"])
qed (simp_all only: diff_final_state_leaf agrees_along_leaf pyval.distinct not_False_eq_True)

section \<open>Facts about scores\<close>

lemma items_le_refl: "wf_dict d \<Longrightarrow> items_le d d"
proof -
  assume wf: "wf_dict d"
  have "py_eq v v" if "(k, v) \<in> set d" for k v
    using wf that by (auto simp: list_all_iff intro: py_eq_refl)
  then show ?thesis using wf by (auto simp: items_le_def list_all_iff dict_ok_def)
qed

definition call_of_triple :: "string \<times> string \<times> pydict \<Rightarrow> tool_call" where
  "call_of_triple = (\<lambda>(s, p, a). \<lparr>tl_service = s, tl_operation = p, tl_arguments = a\<rparr>)"

lemma extract_tool_calls_made: "extract_tool_calls t = map call_of_triple (calls_made (payloads t))"
proof -
  have "call_of_payload p = map call_of_triple (call_triple p)" for p
    by (cases p) (simp_all add: call_of_triple_def)
  then show ?thesis by (simp add: extract_tool_calls_def calls_made_def map_concat comp_def)
qed

lemma score_actions_simps [simp]:
  "cs_missing_expected_actions (score_actions task calls st) =
     map (\<lambda>e. ea_service e @ ''.'' @ ea_operation e)
       (filter (\<lambda>e. \<not> list_ex (matches (ea_service e) (ea_operation e) (ea_arguments e)) calls) (bt_expected_actions task))"
  "cs_forbidden_actions_seen (score_actions task calls st) =
     map (\<lambda>f. fa_service f @ ''.'' @ fa_operation f @ '': '' @ fa_reason f)
       (filter (\<lambda>f. list_ex (matches (fa_service f) (fa_operation f) (fa_arguments f)) calls) (bt_forbidden_actions task))"
  "cs_final_state_mismatches (score_actions task calls st) =
     diff_final_state (PDict (bt_expected_final_state task)) (PDict st) []"
  by (simp_all add: score_actions_def Let_def)

lemma score_actions_passed:
  "cs_passed (score_actions task calls st) \<longleftrightarrow>
     cs_missing_expected_actions (score_actions task calls st) = [] \<and>
     cs_forbidden_actions_seen (score_actions task calls st) = [] \<and>
     cs_final_state_mismatches (score_actions task calls st) = []"
  by (simp add: score_actions_def Let_def)

lemma token_sums_nonneg: "list_all payload_ok ps \<Longrightarrow> 0 \<le> input_sum ps \<and> 0 \<le> output_sum ps"
proof (induction ps)
  case (Cons p ps)
  have "0 \<le> input_of p" "0 \<le> output_of p"
    using Cons.prems by (cases p; auto simp: non_negative_def split: option.splits elim: input_of.elims)+
  then show ?case using Cons by (simp add: input_sum_def output_sum_def)
qed (simp add: input_sum_def output_sum_def)

lemma trace_ok_payloads: "trace_ok t \<Longrightarrow> list_all payload_ok (payloads t)"
  by (auto simp: trace_ok_def step_ok_def list_all_iff)

section \<open>Properties of scoring\<close>

text \<open>C6: A run passes its contract exactly when every expected action is matched by a call of the
  run, no forbidden action is, and the final state agrees with the expected one along every path
  of keys: an object where an object is expected, an equal value where a value is.\<close>

theorem score_passes_iff:
  assumes "wf_dict (bt_expected_final_state task)"
  shows "cs_passed (score_run task result) \<longleftrightarrow>
    list_all (\<lambda>e. list_ex (matches (ea_service e) (ea_operation e) (ea_arguments e))
        (extract_tool_calls (rr_trace result))) (bt_expected_actions task) \<and>
    list_all (\<lambda>f. \<not> list_ex (matches (fa_service f) (fa_operation f) (fa_arguments f))
        (extract_tool_calls (rr_trace result))) (bt_forbidden_actions task) \<and>
    (\<forall>ks. agrees_along (PDict (bt_expected_final_state task)) (PDict (rr_final_state result)) ks)"
  unfolding score_run_def score_actions_passed score_actions_simps
    diff_final_state_complete [OF assms, of "PDict (rr_final_state result)" "[]", symmetric]
  by (simp add: filter_empty_conv list_all_iff del: diff_final_state.simps)

definition sample_result :: runner_result where
  "sample_result =
     \<lparr>rr_execution_id = UUID 9, rr_trace = sample_trace, rr_final_output = Some ''ok'', rr_latency_ms = 3,
      rr_input_tokens = 0, rr_output_tokens = 0, rr_final_state = snapshot sample_state,
      rr_max_steps_exceeded = False\<rparr>"

theorem score_passes_iff_witness: "\<not> cs_passed (score_run sample_task sample_result)"
proof -
  have "wf_dict (bt_expected_final_state sample_task)" by code_simp
  moreover have "\<not> list_all (\<lambda>e. list_ex (matches (ea_service e) (ea_operation e) (ea_arguments e))
        (extract_tool_calls (rr_trace sample_result))) (bt_expected_actions sample_task)" by code_simp
  ultimately show ?thesis using score_passes_iff [of sample_task sample_result] by simp
qed

text \<open>Scoring is monotone in the calls: what more calls add can only fulfil expected actions and
  hit forbidden ones, never the reverse, and leaves the final-state verdict alone.\<close>

theorem score_is_monotone_in_calls:
  "set (cs_missing_expected_actions (score_actions task (calls @ extra) st))
      \<subseteq> set (cs_missing_expected_actions (score_actions task calls st)) \<and>
   set (cs_forbidden_actions_seen (score_actions task calls st))
      \<subseteq> set (cs_forbidden_actions_seen (score_actions task (calls @ extra) st)) \<and>
   cs_final_state_mismatches (score_actions task (calls @ extra) st) =
      cs_final_state_mismatches (score_actions task calls st)"
  by (auto simp: image_iff)

lemma finished_run_scores:
  assumes "model_client ask good may_raise" and "good c"
    and "wf_support (from_mapping (bt_initial_state task))"
    and "run_task ask rt version task c execution_id max_steps max_retries = Inr result"
  shows "\<exists>res. score_execution task result = Inr (res, score_run task result) \<and>
    terminal_status (res_status res) \<and>
    (res_status res = ERRORED \<longleftrightarrow> rr_final_output result = None) \<and>
    (res_passed res \<longleftrightarrow> rr_final_output result \<noteq> None \<and> cs_passed (score_run task result)) \<and>
    (res_status res = PASSED \<longleftrightarrow> res_passed res) \<and> res_final_output res \<noteq> []"
proof -
  have r: "trace_ok (rr_trace result)" "rr_max_steps_exceeded result \<longleftrightarrow> rr_final_output result = None"
    "rr_input_tokens result = input_sum (payloads (rr_trace result))"
    "rr_output_tokens result = output_sum (payloads (rr_trace result))" "0 \<le> rr_latency_ms result"
    using model_client.run_task_ok [OF assms(1-3), where rt = rt and version = version and
        execution_id = execution_id and max_steps = max_steps and max_retries = max_retries] assms(4)
    by simp_all
  then have "0 \<le> rr_input_tokens result" "0 \<le> rr_output_tokens result"
    using token_sums_nonneg [OF trace_ok_payloads] by simp_all
  with r(2,5) show ?thesis
    by (auto simp: score_execution_def Let_def bind_res_eq_Inr TaskExecutionResult_Inr NO_FINAL_ANSWER_def
        split: option.splits)
qed

text \<open>Every finished run can be stored: scoring the result of a run never fails the result
  model's validation, and the status is errored when the steps ran out, otherwise passed exactly
  when the contract is.\<close>

theorem finished_run_is_storable:
  assumes "model_client ask good may_raise" and "good c"
    and "wf_support (from_mapping (bt_initial_state task))"
    and "run_task ask rt version task c execution_id max_steps max_retries = Inr result"
  shows "\<exists>res. score_execution task result = Inr (res, score_run task result) \<and>
    terminal_status (res_status res) \<and>
    (res_status res = ERRORED \<longleftrightarrow> rr_final_output result = None) \<and>
    (res_passed res \<longleftrightarrow> rr_final_output result \<noteq> None \<and> cs_passed (score_run task result)) \<and>
    (res_status res = PASSED \<longleftrightarrow> res_passed res) \<and> res_final_output res \<noteq> []"
  using finished_run_scores [OF assms] .

theorem finished_run_is_storable_witness:
  "\<exists>r res. run_task reference_complete sample_runtime sample_version sample_task
     (reference_client_for sample_task) None 20 2 = Inr r \<and> score_execution sample_task r = Inr res"
proof -
  obtain r where r: "run_task reference_complete sample_runtime sample_version sample_task
     (reference_client_for sample_task) None 20 2 = Inr r"
    using reference_run [OF wf_sample_task, of sample_runtime sample_version None 20 2] reference_good_sample
    by (auto simp: reference_good_def reference_client_for_def)
  then show ?thesis
    using finished_run_is_storable [OF reference.model_client_axioms reference_good_sample wf_sample_task r]
    by blast
qed

text \<open>Given a step more than the task has expected actions, the reference agent's run misses no
  expected action, whether or not the calls succeeded.\<close>

theorem reference_run_misses_nothing:
  assumes "wf_support (from_mapping (bt_initial_state task))"
    and "list_all (\<lambda>a. plain_call (ea_operation a) (ea_arguments a)) (bt_expected_actions task)"
    and "int (length (bt_expected_actions task)) < max_steps"
  shows "\<exists>r. run_task reference_complete rt version task (reference_client_for task) execution_id max_steps max_retries = Inr r \<and>
    cs_missing_expected_actions (score_run task r) = []"
proof -
  obtain r where r: "run_task reference_complete rt version task (reference_client_for task) execution_id max_steps max_retries = Inr r"
    "calls_made (payloads (rr_trace r)) = map action_triple (bt_expected_actions task)"
    using reference_run [OF assms(1,2), of rt version execution_id max_steps max_retries] assms(3) by auto
  have "list_ex (matches (ea_service e) (ea_operation e) (ea_arguments e)) (extract_tool_calls (rr_trace r))"
    if e: "e \<in> set (bt_expected_actions task)" for e
  proof -
    have "call_of_triple (action_triple e) \<in> set (extract_tool_calls (rr_trace r))"
      using e r(2) by (simp add: extract_tool_calls_made)
    moreover have "matches (ea_service e) (ea_operation e) (ea_arguments e) (call_of_triple (action_triple e))"
      using assms(2) e items_le_refl
      by (auto simp: matches_def call_of_triple_def action_triple_def list_all_iff plain_call_def)
    ultimately show ?thesis by (auto simp: list_ex_iff)
  qed
  then show ?thesis using r(1) by (auto simp: score_run_def filter_empty_conv)
qed

theorem reference_run_misses_nothing_witness:
  "\<exists>r. run_task reference_complete sample_runtime sample_version sample_task (reference_client_for sample_task)
      None 20 2 = Inr r \<and> cs_missing_expected_actions (score_run sample_task r) = []"
proof -
  have "list_all (\<lambda>a. plain_call (ea_operation a) (ea_arguments a)) (bt_expected_actions sample_task)"
    "int (length (bt_expected_actions sample_task)) < 20" by code_simp+
  from reference_run_misses_nothing [OF wf_sample_task this] show ?thesis by blast
qed

end
