(* ===== verification/Json.thy ===== *)
theory Json
  imports PyValue
begin

text \<open>
  Python's \<open>json.dumps\<close> and \<open>json.loads\<close> as the source calls them (content hashes of agent
  versions and suites, task files, queue messages): the separators, the indentation and
  \<open>sort_keys\<close> are the style. Texts are escaped as \<open>ensure_ascii\<close> does. The parser returns
  \<open>None\<close> where \<open>loads\<close> raises, and on numbers and characters outside the values of the model. The
  theorem is the round trip, and with it that two values with one text are equal up to the order
  of their keys.
\<close>

section \<open>Printing\<close>

definition json_char :: "char \<Rightarrow> string" where
  "json_char c =
     (let n = (of_char c :: nat) in
      if c = CHR 0x22 \<or> c = CHR 0x5C then [CHR 0x5C, c]
      else if c = CHR 0x0A then [CHR 0x5C, CHR ''n'']
      else if c = CHR 0x0D then [CHR 0x5C, CHR ''r'']
      else if c = CHR 0x09 then [CHR 0x5C, CHR ''t'']
      else if c = CHR 0x0C then [CHR 0x5C, CHR ''f'']
      else if c = CHR 0x08 then [CHR 0x5C, CHR ''b'']
      else if n < 32 \<or> 126 < n then [CHR 0x5C, CHR ''u'', CHR ''0'', CHR ''0''] @ hex_byte c
      else [c])"

definition json_str :: "string \<Rightarrow> string" where
  "json_str s = [CHR 0x22] @ concat (map json_char s) @ [CHR 0x22]"

record json_style =
  js_item_separator :: string
  js_key_separator :: string
  js_indent :: "nat option"
  js_sort_keys :: bool

text \<open>\<open>dumps(v, sort_keys=True)\<close>, with \<open>separators=(",", ":")\<close>, with \<open>indent=2\<close>.\<close>

definition json_default :: json_style where
  "json_default = \<lparr>js_item_separator = '', '', js_key_separator = '': '', js_indent = None, js_sort_keys = True\<rparr>"

definition json_compact :: json_style where
  "json_compact = \<lparr>js_item_separator = '','', js_key_separator = '':'', js_indent = None, js_sort_keys = True\<rparr>"

definition json_indent2 :: json_style where
  "json_indent2 = \<lparr>js_item_separator = '','', js_key_separator = '': '', js_indent = Some 2, js_sort_keys = True\<rparr>"

definition json_pad :: "json_style \<Rightarrow> nat \<Rightarrow> string" where
  "json_pad st d = (case js_indent st of None \<Rightarrow> [] | Some n \<Rightarrow> CHR 0x0A # replicate (n * d) CHR 0x20)"

definition json_order :: "json_style \<Rightarrow> (string \<times> 'a) list \<Rightarrow> (string \<times> 'a) list" where
  "json_order st d = (if js_sort_keys st then sort_key fst d else d)"

definition json_items :: "json_style \<Rightarrow> nat \<Rightarrow> char \<Rightarrow> char \<Rightarrow> string list \<Rightarrow> string" where
  "json_items st d opening closing texts =
     (if texts = [] then [opening, closing]
      else opening # json_pad st (d + 1) @ join_with (js_item_separator st @ json_pad st (d + 1)) texts
        @ json_pad st d @ [closing])"

fun dumps_at :: "json_style \<Rightarrow> nat \<Rightarrow> pyval \<Rightarrow> string" where
  "dumps_at st d PNone = ''null''"
| "dumps_at st d (PBool b) = (if b then ''true'' else ''false'')"
| "dumps_at st d (PInt i) = int_text i"
| "dumps_at st d (PStr s) = json_str s"
| "dumps_at st d (PList xs) = json_items st d CHR ''['' CHR '']'' (map (dumps_at st (d + 1)) xs)"
| "dumps_at st d (PDict ms) =
     json_items st d CHR ''{'' CHR ''}''
       (map (\<lambda>(k, text). json_str k @ js_key_separator st @ text)
         (json_order st (map (\<lambda>(k, v). (k, dumps_at st (d + 1) v)) ms)))"

definition json_dumps :: "json_style \<Rightarrow> pyval \<Rightarrow> string" where
  "json_dumps st v = dumps_at st 0 v"

section \<open>Parsing\<close>

definition is_ws :: "char \<Rightarrow> bool" where
  "is_ws c \<longleftrightarrow> c = CHR 0x20 \<or> c = CHR 0x0A \<or> c = CHR 0x0D \<or> c = CHR 0x09"

definition skip_ws :: "string \<Rightarrow> string" where
  "skip_ws s = dropWhile is_ws s"

definition hex_val :: "char \<Rightarrow> nat option" where
  "hex_val c =
     (let n = (of_char c :: nat) in
      if 48 \<le> n \<and> n \<le> 57 then Some (n - 48)
      else if 97 \<le> n \<and> n \<le> 102 then Some (n - 87)
      else if 65 \<le> n \<and> n \<le> 70 then Some (n - 55)
      else None)"

definition hex4 :: "char \<Rightarrow> char \<Rightarrow> char \<Rightarrow> char \<Rightarrow> char option" where
  "hex4 a b c d =
     (case (hex_val a, hex_val b, hex_val c, hex_val d) of
        (Some i, Some j, Some k, Some l) \<Rightarrow>
          (let n = ((i * 16 + j) * 16 + k) * 16 + l in if n < 256 then Some (char_of n) else None)
      | _ \<Rightarrow> None)"

definition simple_escape :: "char \<Rightarrow> char option" where
  "simple_escape c =
     (if c = CHR 0x22 \<or> c = CHR 0x5C \<or> c = CHR 0x2F then Some c
      else if c = CHR ''n'' then Some (CHR 0x0A)
      else if c = CHR ''r'' then Some (CHR 0x0D)
      else if c = CHR ''t'' then Some (CHR 0x09)
      else if c = CHR ''f'' then Some (CHR 0x0C)
      else if c = CHR ''b'' then Some (CHR 0x08)
      else None)"

text \<open>The characters of a text after its opening quote; a control character is an error.\<close>

function parse_chars :: "string \<Rightarrow> (string \<times> string) option" where
  "parse_chars s =
     (case s of
        [] \<Rightarrow> None
      | c # r \<Rightarrow>
          if c = CHR 0x22 then Some ([], r)
          else if c = CHR 0x5C then
            (case r of
               [] \<Rightarrow> None
             | e # r1 \<Rightarrow>
                 if e = CHR ''u'' then
                   (case r1 of
                      h1 # h2 # h3 # h4 # r2 \<Rightarrow>
                        (case (hex4 h1 h2 h3 h4, parse_chars r2) of
                           (Some x, Some (xs, rest)) \<Rightarrow> Some (x # xs, rest) | _ \<Rightarrow> None)
                    | _ \<Rightarrow> None)
                 else
                   (case (simple_escape e, parse_chars r1) of
                      (Some x, Some (xs, rest)) \<Rightarrow> Some (x # xs, rest) | _ \<Rightarrow> None))
          else if of_char c < (32 :: nat) then None
          else (case parse_chars r of Some (xs, rest) \<Rightarrow> Some (c # xs, rest) | None \<Rightarrow> None))"
  by pat_completeness auto

termination by (relation "measure length") auto

declare parse_chars.simps [simp del]

definition is_digit :: "char \<Rightarrow> bool" where
  "is_digit c \<longleftrightarrow> 48 \<le> (of_char c :: nat) \<and> (of_char c :: nat) \<le> 57"

definition digits_value :: "string \<Rightarrow> nat" where
  "digits_value ds = foldl (\<lambda>n c. n * 10 + (of_char c - 48)) 0 ds"

text \<open>A natural number without leading zeros; a fraction or exponent after it is a float.\<close>

definition parse_nat :: "string \<Rightarrow> (nat \<times> string) option" where
  "parse_nat s =
     (let ds = takeWhile is_digit s; rest = dropWhile is_digit s in
      if ds = [] \<or> (hd ds = CHR ''0'' \<and> length ds > 1) then None
      else if rest \<noteq> [] \<and> hd rest \<in> {CHR ''.'', CHR ''e'', CHR ''E''} then None
      else Some (digits_value ds, rest))"

definition parse_literal :: "string \<Rightarrow> pyval \<Rightarrow> string \<Rightarrow> (pyval \<times> string) option" where
  "parse_literal word v s = (if take (length word) s = word then Some (v, drop (length word) s) else None)"

definition dict_of_pairs :: "(string \<times> pyval) list \<Rightarrow> pydict" where
  "dict_of_pairs ps = foldl (\<lambda>d (k, v). dict_set k v d) [] ps"

text \<open>
  Values, the elements of an array after \<open>[\<close> and the members of an object after \<open>{\<close>. The number
  bounds the nesting of calls; every call but one in two consumes a character.
\<close>

fun parse_value :: "nat \<Rightarrow> string \<Rightarrow> (pyval \<times> string) option"
  and parse_elems :: "nat \<Rightarrow> string \<Rightarrow> (pyval list \<times> string) option"
  and parse_members :: "nat \<Rightarrow> string \<Rightarrow> ((string \<times> pyval) list \<times> string) option" where
  "parse_value 0 s = None"
| "parse_value (Suc n) s =
     (case s of
        [] \<Rightarrow> None
      | c # r \<Rightarrow>
          if c = CHR 0x22 then map_option (\<lambda>(t, rest). (PStr t, rest)) (parse_chars r)
          else if c = CHR ''['' then
            (case skip_ws r of
               [] \<Rightarrow> None
             | e # r1 \<Rightarrow> if e = CHR '']'' then Some (PList [], r1)
                 else map_option (\<lambda>(xs, rest). (PList xs, rest)) (parse_elems n (e # r1)))
          else if c = CHR ''{'' then
            (case skip_ws r of
               [] \<Rightarrow> None
             | e # r1 \<Rightarrow> if e = CHR ''}'' then Some (PDict [], r1)
                 else map_option (\<lambda>(ms, rest). (PDict (dict_of_pairs ms), rest)) (parse_members n (e # r1)))
          else if c = CHR ''n'' then parse_literal ''null'' PNone s
          else if c = CHR ''t'' then parse_literal ''true'' (PBool True) s
          else if c = CHR ''f'' then parse_literal ''false'' (PBool False) s
          else if c = CHR ''-'' then map_option (\<lambda>(i, rest). (PInt (- int i), rest)) (parse_nat r)
          else map_option (\<lambda>(i, rest). (PInt (int i), rest)) (parse_nat s))"
| "parse_elems 0 s = None"
| "parse_elems (Suc n) s =
     (case parse_value n s of
        None \<Rightarrow> None
      | Some (v, r) \<Rightarrow>
          (case skip_ws r of
             [] \<Rightarrow> None
           | e # r1 \<Rightarrow>
               if e = CHR '']'' then Some ([v], r1)
               else if e = CHR '','' then map_option (\<lambda>(vs, rest). (v # vs, rest)) (parse_elems n (skip_ws r1))
               else None))"
| "parse_members 0 s = None"
| "parse_members (Suc n) s =
     (case s of
        [] \<Rightarrow> None
      | q # r0 \<Rightarrow>
          if q \<noteq> CHR 0x22 then None else
          (case parse_chars r0 of
             None \<Rightarrow> None
           | Some (k, r) \<Rightarrow>
               (case skip_ws r of
                  [] \<Rightarrow> None
                | e # r1 \<Rightarrow>
                    if e \<noteq> CHR '':'' then None else
                    (case parse_value n (skip_ws r1) of
                       None \<Rightarrow> None
                     | Some (v, r2) \<Rightarrow>
                         (case skip_ws r2 of
                            [] \<Rightarrow> None
                          | f # r3 \<Rightarrow>
                              if f = CHR ''}'' then Some ([(k, v)], r3)
                              else if f = CHR '','' then
                                map_option (\<lambda>(ms, rest). ((k, v) # ms, rest)) (parse_members n (skip_ws r3))
                              else None)))))"

definition json_loads :: "string \<Rightarrow> pyval option" where
  "json_loads s =
     (case parse_value (2 * length s + 2) (skip_ws s) of
        None \<Rightarrow> None
      | Some (v, rest) \<Rightarrow> if skip_ws rest = [] then Some v else None)"

section \<open>Texts and numbers parse back\<close>

lemma hex_val_digit: "k < 16 \<Longrightarrow> hex_val (hex_digit k) = Some k"
  by (auto simp: hex_val_def hex_digit_def Let_def)

lemma hex4_byte:
  "hex4 CHR ''0'' CHR ''0'' (hex_digit (of_char c div 16)) (hex_digit (of_char c mod 16)) = Some c"
proof -
  have n: "(of_char c :: nat) < 256" using of_char_mod_256 [of c, where ?'a = nat] by (metis mod_less_divisor zero_less_numeral)
  have "hex_val CHR ''0'' = Some 0" by code_simp
  moreover have "(of_char c div 16 :: nat) < 16" by (rule less_mult_imp_div_less) (use n in linarith)
  ultimately show ?thesis using n
    by (simp add: hex4_def hex_val_digit Let_def)
qed

lemma parse_chars_json_char:
  "parse_chars (json_char c @ r) = map_option (\<lambda>(xs, rest). (c # xs, rest)) (parse_chars r)"
proof (cases "c = CHR 0x22 \<or> c = CHR 0x5C")
  case True
  then show ?thesis
    by (subst parse_chars.simps) (auto simp: json_char_def Let_def simple_escape_def split: option.splits)
next
  case simple: False
  show ?thesis
  proof (cases "c \<in> {CHR 0x0A, CHR 0x0D, CHR 0x09, CHR 0x0C, CHR 0x08}")
    case True
    then show ?thesis
      by (subst parse_chars.simps) (auto simp: json_char_def Let_def simple_escape_def split: option.splits)
  next
    case False
    show ?thesis
    proof (cases "(of_char c :: nat) < 32 \<or> 126 < (of_char c :: nat)")
      case True
      then show ?thesis using simple False
        by (subst parse_chars.simps) (auto simp: json_char_def Let_def hex_byte_def hex4_byte split: option.splits)
    next
      case nf: False
      then show ?thesis using simple False
        by (subst parse_chars.simps) (auto simp: json_char_def Let_def split: option.splits)
    qed
  qed
qed

lemma parse_chars_json_str:
  "parse_chars (concat (map json_char s) @ CHR 0x22 # r) = Some (s, r)"
proof (induction s)
  case Nil
  then show ?case by (subst parse_chars.simps) simp
next
  case (Cons c s)
  have "parse_chars (json_char c @ concat (map json_char s) @ CHR 0x22 # r) = Some (c # s, r)"
    by (simp only: parse_chars_json_char Cons.IH option.map prod.case)
  then show ?case by simp
qed

lemma is_digit_char: "k < 10 \<Longrightarrow> is_digit (digit_char k)"
  by (simp add: is_digit_def digit_char_def)

lemma digits_value_snoc: "k < 10 \<Longrightarrow> digits_value (ds @ [digit_char k]) = digits_value ds * 10 + k"
  by (simp add: digits_value_def digit_char_def)

lemma nat_text_digits: "list_all is_digit (nat_text n)"
  by (induction n rule: nat_text.induct) (subst nat_text.simps, simp add: is_digit_char)

lemma nat_text_value: "digits_value (nat_text n) = n"
proof (induction n rule: nat_text.induct)
  case (1 n)
  show ?case
  proof (cases "n < 10")
    case True
    then show ?thesis using digits_value_snoc [of n "[]"]
      by (subst nat_text.simps) (simp add: digits_value_def)
  next
    case False
    then have "digits_value (nat_text (n div 10) @ [digit_char (n mod 10)]) = n"
      using 1 by (simp add: digits_value_snoc)
    then show ?thesis using False by (subst nat_text.simps) simp
  qed
qed

lemma nat_text_nonempty [simp]: "nat_text n \<noteq> []"
  by (subst nat_text.simps) simp

lemma digit_char_0: "k < 10 \<Longrightarrow> digit_char k = CHR ''0'' \<longleftrightarrow> k = 0"
proof -
  assume "k < 10"
  then have "(of_char (digit_char k) :: nat) = 48 + k" by (simp add: digit_char_def)
  moreover have "(of_char CHR ''0'' :: nat) = 48" by simp
  ultimately show ?thesis by (metis add_cancel_right_right char_of_char digit_char_def)
qed

lemma nat_text_no_leading_zero: "0 < n \<Longrightarrow> hd (nat_text n) \<noteq> CHR ''0''"
proof (induction n rule: nat_text.induct)
  case (1 n)
  show ?case
  proof (cases "n < 10")
    case True
    then show ?thesis using 1 digit_char_0 by (subst nat_text.simps) simp
  next
    case False
    then have "hd (nat_text (n div 10)) \<noteq> CHR ''0''" using 1 by simp
    then show ?thesis using False by (subst nat_text.simps) simp
  qed
qed

text \<open>What may follow a value inside a printed text.\<close>

definition stops :: "string \<Rightarrow> bool" where
  "stops rest \<longleftrightarrow> rest = [] \<or> hd rest \<in> {CHR '','', CHR '']'', CHR ''}'', CHR 0x20, CHR 0x0A}"

lemma stops_Cons [simp]: "stops (c # r) \<longleftrightarrow> c \<in> {CHR '','', CHR '']'', CHR ''}'', CHR 0x20, CHR 0x0A}"
  by (simp add: stops_def)

lemma parse_nat_text:
  assumes "stops rest"
  shows "parse_nat (nat_text n @ rest) = Some (n, rest)"
proof -
  have nd: "\<not> (rest \<noteq> [] \<and> is_digit (hd rest))" and ne: "\<not> (rest \<noteq> [] \<and> hd rest \<in> {CHR ''.'', CHR ''e'', CHR ''E''})"
    using assms by (auto simp: stops_def is_digit_def)
  have tw: "takeWhile is_digit (nat_text n @ rest) = nat_text n" "dropWhile is_digit (nat_text n @ rest) = rest"
    using nat_text_digits [of n] nd by (cases rest; simp add: list_all_iff takeWhile_append dropWhile_append)+
  have lz: "\<not> (hd (nat_text n) = CHR ''0'' \<and> length (nat_text n) > 1)"
  proof (cases "n = 0")
    case True
    have "nat_text 0 = ''0''" by code_simp
    then show ?thesis using True by simp
  qed (simp add: nat_text_no_leading_zero)
  show ?thesis unfolding parse_nat_def tw Let_def using ne lz by (auto simp: nat_text_value)
qed

lemma digit_not_special:
  "is_digit c \<Longrightarrow> c \<notin> {CHR 0x22, CHR ''['', CHR ''{'', CHR ''n'', CHR ''t'', CHR ''f'', CHR ''-''}"
  by (auto simp: is_digit_def)

lemma parse_value_int:
  assumes "stops rest"
  shows "parse_value (Suc n) (int_text i @ rest) = Some (PInt i, rest)"
proof (cases "i < 0")
  case True
  then show ?thesis using parse_nat_text [OF assms, of "nat (- i)"] by (simp add: int_text_def)
next
  case False
  obtain c r where cr: "nat_text (nat i) = c # r" by (cases "nat_text (nat i)") auto
  have "is_digit c" using nat_text_digits [of "nat i"] cr by simp
  from digit_not_special [OF this] show ?thesis
    using parse_nat_text [OF assms, of "nat i"] False cr by (simp add: int_text_def)
qed

section \<open>Round trip\<close>

definition style_ok :: "json_style \<Rightarrow> bool" where
  "style_ok st \<longleftrightarrow>
     (case js_item_separator st of [] \<Rightarrow> False | c # w \<Rightarrow> c = CHR '','' \<and> list_all is_ws w) \<and>
     (case js_key_separator st of [] \<Rightarrow> False | c # w \<Rightarrow> c = CHR '':'' \<and> list_all is_ws w)"

lemma style_ok_styles [simp]: "style_ok json_default" "style_ok json_compact" "style_ok json_indent2"
  by code_simp+

text \<open>What a printed value parses back to: with sorted keys, its keys sorted at every level.\<close>

fun canon :: "json_style \<Rightarrow> pyval \<Rightarrow> pyval" where
  "canon st (PList xs) = PList (map (canon st) xs)"
| "canon st (PDict ms) = PDict (json_order st (map (\<lambda>(k, v). (k, canon st v)) ms))"
| "canon st v = v"

lemma sort_key_fst_map:
  "sort_key fst (map (\<lambda>(k, v). (k, f v)) ms) = map (\<lambda>(k, v). (k, f v)) (sort_key fst ms)"
proof (induction ms)
  case (Cons m ms)
  have "insort_key fst (fst m, f (snd m)) (map (\<lambda>(k, v). (k, f v)) xs) =
      map (\<lambda>(k, v). (k, f v)) (insort_key fst m xs)" for xs
    by (induction xs) (auto split: prod.splits)
  then show ?case using Cons by (auto split: prod.splits)
qed simp

lemma json_order_map:
  "json_order st (map (\<lambda>(k, v). (k, f v)) ms) = map (\<lambda>(k, v). (k, f v)) (json_order st ms)"
  by (simp add: json_order_def sort_key_fst_map)

lemma set_json_order [simp]: "set (json_order st ms) = set ms"
  by (simp add: json_order_def)

lemma dict_ok_json_order: "dict_ok ms \<Longrightarrow> dict_ok (json_order st ms)"
proof -
  assume "dict_ok ms"
  then have "distinct ms" "inj_on fst (set ms)" unfolding dict_ok_def distinct_map by auto
  then show ?thesis unfolding dict_ok_def distinct_map json_order_def by simp
qed

lemma dict_of_pairs_id:
  assumes "dict_ok ms"
  shows "dict_of_pairs ms = ms"
proof -
  have "foldl (\<lambda>d (k, v). dict_set k v d) acc ms = acc @ ms"
    if "set (keys acc) \<inter> set (keys ms) = {}" "dict_ok ms" for acc :: pydict and ms
    using that
  proof (induction ms arbitrary: acc)
    case (Cons m ms)
    have "dict_set (fst m) (snd m) acc = acc @ [m]"
      using Cons.prems by (subst dict_set_fresh) auto
    then show ?case using Cons.IH [of "acc @ [m]"] Cons.prems by (cases m) auto
  qed simp
  then show ?thesis using assms by (simp add: dict_of_pairs_def)
qed

lemma skip_ws_pad: "list_all is_ws w \<Longrightarrow> skip_ws (w @ s) = skip_ws s"
  by (induction w) (auto simp: skip_ws_def)

lemma skip_ws_stop: "\<not> is_ws c \<Longrightarrow> skip_ws (c # s) = c # s"
  by (simp add: skip_ws_def)

lemma ws_pad: "list_all is_ws (json_pad st d)"
  by (auto simp: json_pad_def list_all_iff is_ws_def split: option.splits)

lemma stops_pad: "stops (json_pad st d @ c # r)" if "c \<in> {CHR '']'', CHR ''}''}"
  using that by (auto simp: json_pad_def split: option.splits)

lemma closers_not_ws [simp]:
  "\<not> is_ws CHR '']''" "\<not> is_ws CHR ''}''" "\<not> is_ws CHR '',''" "\<not> is_ws CHR '':''" "\<not> is_ws CHR 0x22"
  "\<not> is_ws CHR ''[''" "\<not> is_ws CHR ''{''"
  by (simp_all add: is_ws_def)

lemma join_with_Cons2: "join_with s (x # y # ys) = x @ s @ join_with s (y # ys)"
  by (simp add: join_with_def)

lemma join_with_single [simp]: "join_with s [x] = x"
  by (simp add: join_with_def)

lemma digit_not_ws: "is_digit c \<Longrightarrow> \<not> is_ws c \<and> c \<noteq> CHR '']''"
  by (auto simp: is_digit_def is_ws_def)

lemma dumps_start: "\<exists>c r. dumps_at st d v = c # r \<and> \<not> is_ws c \<and> c \<noteq> CHR '']''"
proof (cases v)
  case (PInt i)
  have "\<exists>c r. nat_text n = c # r \<and> \<not> is_ws c \<and> c \<noteq> CHR '']''" for n
    using nat_text_digits [of n] digit_not_ws by (cases "nat_text n") auto
  then show ?thesis using PInt by (auto simp: int_text_def is_ws_def)
qed (auto simp: json_str_def json_items_def is_ws_def)

text \<open>A value parses back, given enough calls: stated for the elements of a list as well.\<close>

definition parses_back :: "json_style \<Rightarrow> pyval \<Rightarrow> bool" where
  "parses_back st v \<longleftrightarrow>
     (\<forall>d n rest. stops rest \<longrightarrow> 2 * length (dumps_at st d v) \<le> n \<longrightarrow>
        parse_value n (dumps_at st d v @ rest) = Some (canon st v, rest))"

lemma parse_elems_back:
  assumes st: "style_ok st" and "list_all (parses_back st) xs" and "xs \<noteq> []"
    and "2 * length (join_with (js_item_separator st @ json_pad st d) (map (dumps_at st d) xs)) + 1 \<le> n"
  shows "parse_elems n (join_with (js_item_separator st @ json_pad st d) (map (dumps_at st d) xs)
      @ json_pad st d' @ CHR '']'' # rest) = Some (map (canon st) xs, rest)"
  using assms(2-4)
proof (induction xs arbitrary: n)
  case (Cons x xs)
  obtain m where n: "n = Suc m" using Cons.prems(3) by (cases n) auto
  obtain w where w: "js_item_separator st = CHR '','' # w" "list_all is_ws w"
    using st by (auto simp: style_ok_def split: list.splits)
  have x: "parse_value m (dumps_at st d x @ rest) = Some (canon st x, rest)"
    if "stops rest" "2 * length (dumps_at st d x) \<le> m" for rest
    using Cons.prems(1) that by (simp add: parses_back_def)
  show ?case
  proof (cases xs)
    case Nil
    have "parse_value m (dumps_at st d x @ json_pad st d' @ CHR '']'' # rest) =
        Some (canon st x, json_pad st d' @ CHR '']'' # rest)"
      by (rule x) (use Cons.prems(3) Nil n stops_pad in auto)
    then show ?thesis using Nil n by (simp add: skip_ws_pad ws_pad skip_ws_stop)
  next
    case (Cons y ys)
    let ?J = "join_with (js_item_separator st @ json_pad st d) (map (dumps_at st d) xs)"
    let ?tail = "?J @ json_pad st d' @ CHR '']'' # rest"
    have len: "2 * length (dumps_at st d x) + 2 * length ?J + 3 \<le> n"
      using Cons.prems(3) Cons w by (simp add: join_with_Cons2)
    have pv: "parse_value m (dumps_at st d x @ CHR '','' # w @ json_pad st d @ ?tail) =
        Some (canon st x, CHR '','' # w @ json_pad st d @ ?tail)"
      by (rule x) (use len n in auto)
    obtain c r where c: "dumps_at st d y = c # r" "\<not> is_ws c" using dumps_start by blast
    have sk: "skip_ws (w @ json_pad st d @ ?tail) = ?tail"
      using c Cons by (cases ys) (simp_all add: skip_ws_pad ws_pad w(2) join_with_Cons2 skip_ws_stop)
    have rec: "parse_elems m ?tail = Some (map (canon st) xs, rest)"
      by (rule Cons.IH) (use Cons.prems len n Cons in auto)
    show ?thesis using n pv sk rec Cons w by (simp add: join_with_Cons2 skip_ws_stop)
  qed
qed simp

definition member_text :: "json_style \<Rightarrow> nat \<Rightarrow> string \<times> pyval \<Rightarrow> string" where
  "member_text st d = (\<lambda>(k, v). json_str k @ js_key_separator st @ dumps_at st d v)"

lemma parse_members_back:
  assumes st: "style_ok st" and "list_all (\<lambda>(k, v). parses_back st v) ms" and "ms \<noteq> []"
    and "2 * length (join_with (js_item_separator st @ json_pad st d) (map (member_text st d) ms)) + 1 \<le> n"
  shows "parse_members n (join_with (js_item_separator st @ json_pad st d) (map (member_text st d) ms)
      @ json_pad st d' @ CHR ''}'' # rest) = Some (map (\<lambda>(k, v). (k, canon st v)) ms, rest)"
  using assms(2-4)
proof (induction ms arbitrary: n)
  case (Cons mem ms)
  obtain k x where mem: "mem = (k, x)" by fastforce
  obtain m where n: "n = Suc m" using Cons.prems(3) by (cases n) auto
  obtain w where w: "js_item_separator st = CHR '','' # w" "list_all is_ws w"
    using st by (auto simp: style_ok_def split: list.splits)
  obtain kw where kw: "js_key_separator st = CHR '':'' # kw" "list_all is_ws kw"
    using st by (auto simp: style_ok_def split: list.splits)
  have x: "parse_value m (dumps_at st d x @ rest) = Some (canon st x, rest)"
    if "stops rest" "2 * length (dumps_at st d x) \<le> m" for rest
    using Cons.prems(1) that mem by (simp add: parses_back_def)
  obtain c r where c: "dumps_at st d x = c # r" "\<not> is_ws c" using dumps_start by blast
  have key: "parse_chars (concat (map json_char k) @ CHR 0x22 # s) = Some (k, s)" for s
    by (rule parse_chars_json_str)
  have sk: "skip_ws (kw @ dumps_at st d x @ s) = dumps_at st d x @ s" for s
    using c by (simp add: skip_ws_pad kw(2) skip_ws_stop)
  show ?case
  proof (cases ms)
    case Nil
    have "parse_value m (dumps_at st d x @ json_pad st d' @ CHR ''}'' # rest) =
        Some (canon st x, json_pad st d' @ CHR ''}'' # rest)"
      by (rule x) (use Cons.prems(3) Nil n stops_pad mem in \<open>auto simp: member_text_def\<close>)
    then show ?thesis using Nil n mem key sk kw
      by (simp add: member_text_def json_str_def skip_ws_pad ws_pad skip_ws_stop)
  next
    case (Cons y ys)
    let ?J = "join_with (js_item_separator st @ json_pad st d) (map (member_text st d) ms)"
    let ?tail = "?J @ json_pad st d' @ CHR ''}'' # rest"
    have len: "2 * length (dumps_at st d x) + 2 * length ?J + 3 \<le> n"
      using Cons.prems(3) Cons w mem by (simp add: join_with_Cons2 member_text_def)
    have pv: "parse_value m (dumps_at st d x @ CHR '','' # w @ json_pad st d @ ?tail) =
        Some (canon st x, CHR '','' # w @ json_pad st d @ ?tail)"
      by (rule x) (use len n in auto)
    obtain c r where c: "member_text st d y = c # r" "\<not> is_ws c"
      by (cases y) (simp add: member_text_def json_str_def)
    have sk2: "skip_ws (w @ json_pad st d @ ?tail) = ?tail"
      using c Cons by (cases ys) (simp_all add: skip_ws_pad ws_pad w(2) join_with_Cons2 skip_ws_stop)
    have rec: "parse_members m ?tail = Some (map (\<lambda>(k, v). (k, canon st v)) ms, rest)"
      by (rule Cons.IH) (use Cons.prems len n Cons in auto)
    have shape: "join_with (js_item_separator st @ json_pad st d) (map (member_text st d) (mem # ms))
        @ json_pad st d' @ CHR ''}'' # rest =
      CHR 0x22 # concat (map json_char k) @ CHR 0x22 # CHR '':'' # kw @ dumps_at st d x @ CHR '','' # w @ json_pad st d @ ?tail"
      using Cons mem w kw by (simp add: join_with_Cons2 member_text_def json_str_def)
    show ?thesis unfolding shape n using mem key sk pv sk2 rec by (simp add: skip_ws_stop)
  qed
qed simp

lemma dumps_PDict:
  "dumps_at st d (PDict ms) =
     json_items st d CHR ''{'' CHR ''}'' (map (member_text st (d + 1)) (json_order st ms))"
  unfolding dumps_at.simps json_order_map map_map
  by (simp add: member_text_def comp_def case_prod_beta')

lemma parses_back_val:
  assumes st: "style_ok st" and "wf_val v"
  shows "parses_back st v"
  using assms(2)
proof (induction v)
  case PNone
  then show ?case unfolding parses_back_def
  proof (intro allI impI)
    fix d n rest assume "2 * length (dumps_at st d PNone) \<le> n"
    then obtain m where "n = Suc m" by (cases n) auto
    then show "parse_value n (dumps_at st d PNone @ rest) = Some (canon st PNone, rest)"
      by (simp add: parse_literal_def)
  qed
next
  case (PBool b)
  then show ?case unfolding parses_back_def
  proof (intro allI impI)
    fix d n rest assume "2 * length (dumps_at st d (PBool b)) \<le> n"
    then obtain m where "n = Suc m" by (cases n) (auto split: if_splits)
    then show "parse_value n (dumps_at st d (PBool b) @ rest) = Some (canon st (PBool b), rest)"
      by (simp add: parse_literal_def)
  qed
next
  case (PInt i)
  then show ?case unfolding parses_back_def
  proof (intro allI impI)
    fix d n rest assume s: "stops rest" and "2 * length (dumps_at st d (PInt i)) \<le> n"
    moreover have "int_text i \<noteq> []" by (simp add: int_text_def)
    ultimately obtain m where "n = Suc m" by (cases n) auto
    then show "parse_value n (dumps_at st d (PInt i) @ rest) = Some (canon st (PInt i), rest)"
      using parse_value_int [OF s] by simp
  qed
next
  case (PStr s)
  then show ?case unfolding parses_back_def
  proof (intro allI impI)
    fix d n rest assume "2 * length (dumps_at st d (PStr s)) \<le> n"
    then obtain m where "n = Suc m" by (cases n) (auto simp: json_str_def)
    then show "parse_value n (dumps_at st d (PStr s) @ rest) = Some (canon st (PStr s), rest)"
      by (simp add: json_str_def parse_chars_json_str)
  qed
next
  case (PList xs)
  then have xs: "list_all (parses_back st) xs" by (simp add: list_all_iff)
  show ?case unfolding parses_back_def
  proof (intro allI impI)
    fix d n rest assume n: "2 * length (dumps_at st d (PList xs)) \<le> n"
    then obtain m where m: "n = Suc m" by (cases n) (auto simp: json_items_def split: if_splits)
    show "parse_value n (dumps_at st d (PList xs) @ rest) = Some (canon st (PList xs), rest)"
    proof (cases "xs = []")
      case True
      then show ?thesis using m by (simp add: json_items_def skip_ws_stop)
    next
      case False
      let ?J = "join_with (js_item_separator st @ json_pad st (d + 1)) (map (dumps_at st (d + 1)) xs)"
      have len: "2 * length ?J + 1 \<le> m" using n m False by (simp add: json_items_def)
      have pback: "parse_elems m (?J @ json_pad st d @ CHR '']'' # rest) = Some (map (canon st) xs, rest)"
        by (rule parse_elems_back [OF st xs False len])
      obtain x ys where x: "xs = x # ys" using False by (cases xs) auto
      obtain c r where c: "dumps_at st (d + 1) x = c # r" "\<not> is_ws c" "c \<noteq> CHR '']''" using dumps_start by blast
      obtain r' where J: "?J = c # r'" using c x by (cases ys) (simp_all add: join_with_Cons2)
      have "skip_ws (json_pad st (d + 1) @ ?J @ s) = ?J @ s" for s
        using J c(2) by (simp add: skip_ws_pad ws_pad skip_ws_stop)
      then show ?thesis using m False pback J c(3) by (simp add: json_items_def)
    qed
  qed
next
  case (PDict ms)
  have ms: "list_all (\<lambda>(k, v). parses_back st v) (json_order st ms)"
    using PDict by (fastforce simp: list_all_iff)
  have ok: "dict_ok (map (\<lambda>(k, v). (k, canon st v)) (json_order st ms))"
    using PDict.prems dict_ok_json_order [of ms st] by (simp add: dict_ok_def comp_def case_prod_beta)
  show ?case unfolding parses_back_def
  proof (intro allI impI)
    fix d n rest assume n: "2 * length (dumps_at st d (PDict ms)) \<le> n"
    then obtain m where m: "n = Suc m" by (cases n) (auto simp: json_items_def split: if_splits)
    show "parse_value n (dumps_at st d (PDict ms) @ rest) = Some (canon st (PDict ms), rest)"
    proof (cases "json_order st ms = []")
      case True
      then show ?thesis using m unfolding dumps_PDict by (simp add: json_items_def skip_ws_stop json_order_map)
    next
      case False
      let ?J = "join_with (js_item_separator st @ json_pad st (d + 1)) (map (member_text st (d + 1)) (json_order st ms))"
      have len: "2 * length ?J + 1 \<le> m" using n m False unfolding dumps_PDict by (simp add: json_items_def)
      have pback: "parse_members m (?J @ json_pad st d @ CHR ''}'' # rest) =
          Some (map (\<lambda>(k, v). (k, canon st v)) (json_order st ms), rest)"
        by (rule parse_members_back [OF st ms False len])
      obtain x ys where x: "json_order st ms = x # ys" using False by (cases "json_order st ms") auto
      obtain r' where J: "?J = CHR 0x22 # r'" using x
        by (cases x; cases ys) (simp_all add: join_with_Cons2 member_text_def json_str_def)
      have "skip_ws (json_pad st (d + 1) @ ?J @ s) = ?J @ s" for s
        using J by (simp add: skip_ws_pad ws_pad skip_ws_stop)
      then show ?thesis using m False pback J dict_of_pairs_id [OF ok]
        unfolding dumps_PDict by (simp add: json_items_def json_order_map)
    qed
  qed
qed

lemma json_loads_dumps:
  assumes "style_ok st" and "wf_val v"
  shows "json_loads (json_dumps st v) = Some (canon st v)"
proof -
  obtain c r where c: "dumps_at st 0 v = c # r" "\<not> is_ws c" using dumps_start by blast
  have "parse_value (2 * length (dumps_at st 0 v) + 2) (dumps_at st 0 v @ []) = Some (canon st v, [])"
    using parses_back_val [OF assms, unfolded parses_back_def, rule_format, of "[]"]
    by (simp add: stops_def del: parse_value.simps)
  then show ?thesis using c
    by (simp add: json_loads_def json_dumps_def skip_ws_stop skip_ws_def del: parse_value.simps)
qed

section \<open>One text, one value up to the order of keys\<close>

lemma sort_key_fst_idem: "sort_key fst (sort_key fst ms) = sort_key fst ms"
  by (rule sort_key_id) simp

lemma json_order_idem [simp]: "json_order st (json_order st ms) = json_order st ms"
  by (simp add: json_order_def sort_key_fst_idem)

lemma dumps_canon: "dumps_at st d (canon st v) = dumps_at st d v"
proof (induction v arbitrary: d)
  case (PList xs)
  then show ?case by (simp add: comp_def cong: map_cong)
next
  case (PDict ms)
  have "map (member_text st (d + 1)) (json_order st (map (\<lambda>(k, v). (k, canon st v)) ms)) =
      map (member_text st (d + 1)) (json_order st ms)"
  proof -
    have "member_text st (d + 1) (k, canon st v) = member_text st (d + 1) (k, v)" if "(k, v) \<in> set ms" for k v
      using PDict that by (fastforce simp: member_text_def)
    then show ?thesis by (auto simp: json_order_map)
  qed
  then show ?case unfolding canon.simps dumps_PDict by simp
qed auto

lemma wf_canon: "wf_val v \<Longrightarrow> wf_val (canon st v)"
proof (induction v)
  case (PDict ms)
  have "dict_ok (map (\<lambda>(k, v). (k, canon st v)) ms)"
    using PDict.prems by (simp add: dict_ok_def comp_def case_prod_beta')
  then show ?case using PDict dict_ok_json_order by (fastforce simp: list_all_iff)
qed (auto simp: list_all_iff)

text \<open>Two values print alike exactly when they are the same up to the order of their keys.\<close>

lemma json_dumps_eq_iff:
  assumes "style_ok st" and "wf_val v" and "wf_val w"
  shows "json_dumps st v = json_dumps st w \<longleftrightarrow> canon st v = canon st w"
  using assms json_loads_dumps dumps_canon unfolding json_dumps_def by (metis option.inject)

lemma canon_lookup:
  "dict_ok ms \<Longrightarrow> map_of (json_order st (map (\<lambda>(k, v). (k, canon st v)) ms)) k = map_option (canon st) (map_of ms k)"
proof -
  assume ok: "dict_ok ms"
  then have "dict_ok (map (\<lambda>(k, v). (k, canon st v)) ms)" by (simp add: dict_ok_def comp_def case_prod_beta')
  moreover from this have "dict_ok (json_order st (map (\<lambda>(k, v). (k, canon st v)) ms))"
    by (rule dict_ok_json_order)
  ultimately have "map_of (json_order st (map (\<lambda>(k, v). (k, canon st v)) ms)) =
      map_of (map (\<lambda>(k, v). (k, canon st v)) ms)"
    unfolding dict_ok_def by (subst map_of_inject_set) simp_all
  then show ?thesis by (simp add: map_of_map_value)
qed

lemma py_eq_canon: "wf_val v \<Longrightarrow> py_eq v (canon st v)"
proof (induction v)
  case (PList xs)
  then show ?case unfolding canon.simps py_eq_PList_iff by (simp add: list_all2_map2 list_all_iff list_all2_same)
next
  case (PDict ms)
  have ok: "dict_ok ms" using PDict.prems by simp
  have "dict_ok (map (\<lambda>(k, v). (k, canon st v)) ms)" using ok by (simp add: dict_ok_def comp_def case_prod_beta')
  then have ok': "dict_ok (json_order st (map (\<lambda>(k, v). (k, canon st v)) ms))" by (rule dict_ok_json_order)
  have "py_eq v (canon st v)" if "map_of ms k = Some v" for k v
    using PDict map_of_SomeD [OF that] by (fastforce simp: list_all_iff)
  moreover have "set (keys (json_order st (map (\<lambda>(k, v). (k, canon st v)) ms))) = set (keys ms)"
    by force
  ultimately show ?case unfolding canon.simps py_eq_PDict_iff [OF ok ok']
    using canon_lookup [OF ok] by auto
qed auto

lemma dict_of_pairs_ok: "dict_ok (dict_of_pairs ps)"
proof -
  have "dict_ok d \<Longrightarrow> dict_ok (foldl (\<lambda>d (k, v). dict_set k v d) d ps)" for d
    by (induction ps arbitrary: d) auto
  then show ?thesis by (simp add: dict_of_pairs_def)
qed

lemma dict_of_pairs_wf: "list_all (\<lambda>(k, v). wf_val v) ps \<Longrightarrow> wf_dict (dict_of_pairs ps)"
proof -
  have "wf_dict d \<Longrightarrow> list_all (\<lambda>(k, v). wf_val v) ps \<Longrightarrow> wf_dict (foldl (\<lambda>d (k, v). dict_set k v d) d ps)" for d
  proof (induction ps arbitrary: d)
    case (Cons p ps)
    then show ?case using wf_dict_set by (cases p) (simp del: wf_val.simps)
  qed simp
  then show "list_all (\<lambda>(k, v). wf_val v) ps \<Longrightarrow> ?thesis" by (simp add: dict_of_pairs_def)
qed

text \<open>What \<open>json.loads\<close> builds has each key once.\<close>

lemma parse_wf:
  "parse_value n s = Some (v, r) \<Longrightarrow> wf_val v"
  "parse_elems n s = Some (vs, r) \<Longrightarrow> list_all wf_val vs"
  "parse_members n s = Some (ms, r) \<Longrightarrow> list_all (\<lambda>(k, v). wf_val v) ms"
proof (induction n s and n s and n s arbitrary: v r and vs r and ms r
    rule: parse_value_parse_elems_parse_members.induct)
  case (2 n s)
  have nil: "wf_dict []" by simp
  show ?case using 2
    by (auto simp: nil parse_literal_def dict_of_pairs_wf simp del: wf_val.simps(2) split: list.splits if_splits)
next
  case (4 n s)
  then show ?case by (auto split: option.splits list.splits if_splits)
next
  case (6 n s)
  then show ?case by (auto split: option.splits list.splits if_splits)
qed auto

lemma json_loads_wf: "json_loads s = Some v \<Longrightarrow> wf_val v"
  by (auto simp: json_loads_def dest: parse_wf(1) simp del: parse_value.simps split: option.splits if_splits)

lemma canon_idem: "wf_val v \<Longrightarrow> canon json_default (canon json_default v) = canon json_default v"
  using json_dumps_eq_iff [of json_default "canon json_default v" v] wf_canon [of v json_default]
  by (simp add: json_dumps_def dumps_canon)

lemma canon_dict:
  assumes "dict_ok ms"
  shows "dict_ok (json_order st (map (\<lambda>(k, v). (k, canon st v)) ms))"
    and "set (keys (json_order st (map (\<lambda>(k, v). (k, canon st v)) ms))) = set (keys ms)"
proof -
  have "dict_ok (map (\<lambda>(k, v). (k, canon st v)) ms)" using assms by (simp add: dict_ok_def comp_def case_prod_beta')
  then show "dict_ok (json_order st (map (\<lambda>(k, v). (k, canon st v)) ms))" by (rule dict_ok_json_order)
qed force

lemma canon_scalar: "canon st w = PNone \<longleftrightarrow> w = PNone" "canon st w = PStr s \<longleftrightarrow> w = PStr s" "num_of (canon st w) = num_of w"
  by (cases w; simp)+

lemma py_eq_canon_right: "wf_val v \<Longrightarrow> wf_val w \<Longrightarrow> py_eq v (canon st w) \<longleftrightarrow> py_eq v w"
proof (induction v arbitrary: w)
  case (PList xs)
  show ?case
  proof (cases w)
    case (PList ys)
    have "list_all2 py_eq xs (map (canon st) ys) \<longleftrightarrow> list_all2 py_eq xs ys"
      unfolding list_all2_map2 using PList.IH PList.prems PList
      by (auto intro!: list.rel_cong simp: list_all_iff list_all2_conv_all_nth)
    then show ?thesis using PList by (simp add: py_eq_PList_iff del: py_eq.simps)
  qed (cases xs; simp)+
next
  case (PDict d)
  show ?case
  proof (cases w)
    case (PDict e)
    let ?e = "json_order st (map (\<lambda>(k, v). (k, canon st v)) e)"
    have ok: "dict_ok d" "dict_ok e" "dict_ok ?e" "set (keys ?e) = set (keys e)"
      using PDict.prems PDict canon_dict [of e st] by simp_all
    have eq: "py_eq v (canon st u) \<longleftrightarrow> py_eq v u" if "map_of d k = Some v" "map_of e k = Some u" for k v u
      using PDict.IH PDict.prems PDict map_of_SomeD [OF that(1)] map_of_SomeD [OF that(2)]
      by (fastforce simp: list_all_iff)
    show ?thesis
      unfolding PDict canon.simps py_eq_PDict_iff [OF ok(1,3)] py_eq_PDict_iff [OF ok(1,2)] ok(4)
        canon_lookup [OF ok(2)]
      using eq by auto
  qed auto
qed (auto simp: canon_scalar)

text \<open>Values that print alike are equal in Python.\<close>

lemma canon_eq_imp_py_eq: "wf_val v \<Longrightarrow> wf_val w \<Longrightarrow> canon st v = canon st w \<Longrightarrow> py_eq v w"
  using py_eq_canon [of v st] py_eq_canon_right by metis

end
