(* ===== verification/Versioning.thy ===== *)
theory Versioning
  imports Json
begin

text \<open>
  \<open>backend/app/versioning.py\<close>: the identity of an agent version is the SHA-256 of a canonical
  text of what determines its behaviour. \<open>sha256\<close> (the hex digest of a text) is a parameter.
\<close>

definition version_identity :: "string \<Rightarrow> string \<Rightarrow> string \<Rightarrow> pydict \<Rightarrow> pyval" where
  "version_identity model system_prompt tool_schema_hash config =
     PDict [(''model'', PStr model), (''system_prompt'', PStr system_prompt),
       (''tool_schema_hash'', PStr tool_schema_hash), (''config'', PDict config)]"

definition compute_agent_version_content_hash ::
  "(string \<Rightarrow> string) \<Rightarrow> string \<Rightarrow> string \<Rightarrow> string \<Rightarrow> pydict \<Rightarrow> string" where
  "compute_agent_version_content_hash sha256 model system_prompt tool_schema_hash config =
     sha256 (json_dumps json_compact (version_identity model system_prompt tool_schema_hash config))"

lemma version_identity_canon:
  assumes "wf_dict c" and "wf_dict c'"
  shows "canon json_compact (version_identity m p t c) = canon json_compact (version_identity m' p' t' c') \<longleftrightarrow>
    m = m' \<and> p = p' \<and> t = t' \<and> canon json_compact (PDict c) = canon json_compact (PDict c')"
proof -
  have ok: "dict_ok [(''model'', PStr m), (''system_prompt'', PStr p), (''tool_schema_hash'', PStr t), (''config'', PDict c)]"
    for m p t c by simp
  have look: "map_of (json_order json_compact (map (\<lambda>(k, v). (k, canon json_compact v))
        [(''model'', PStr m), (''system_prompt'', PStr p), (''tool_schema_hash'', PStr t), (''config'', PDict c)])) k =
      map_option (canon json_compact)
        (map_of [(''model'', PStr m), (''system_prompt'', PStr p), (''tool_schema_hash'', PStr t), (''config'', PDict c)] k)"
    for m p t c k by (rule canon_lookup [OF ok])
  show ?thesis
  proof
    assume "canon json_compact (version_identity m p t c) = canon json_compact (version_identity m' p' t' c')"
    then have eq: "map_of (json_order json_compact (map (\<lambda>(k, v). (k, canon json_compact v))
        [(''model'', PStr m), (''system_prompt'', PStr p), (''tool_schema_hash'', PStr t), (''config'', PDict c)])) k =
      map_of (json_order json_compact (map (\<lambda>(k, v). (k, canon json_compact v))
        [(''model'', PStr m'), (''system_prompt'', PStr p'), (''tool_schema_hash'', PStr t'), (''config'', PDict c')])) k" for k
      unfolding version_identity_def canon.simps(2) by (simp only: pyval.inject)
    show "m = m' \<and> p = p' \<and> t = t' \<and> canon json_compact (PDict c) = canon json_compact (PDict c')"
      using eq [of "''model''"] eq [of "''system_prompt''"] eq [of "''tool_schema_hash''"] eq [of "''config''"]
      unfolding look by (simp del: canon.simps(2))
  next
    assume "m = m' \<and> p = p' \<and> t = t' \<and> canon json_compact (PDict c) = canon json_compact (PDict c')"
    then show "canon json_compact (version_identity m p t c) = canon json_compact (version_identity m' p' t' c')"
      unfolding version_identity_def by (subst (1 2) canon.simps(2)) (simp del: canon.simps(2))
  qed
qed

lemma content_hash_eq_iff:
  assumes "wf_dict c" and "wf_dict c'"
    and "sha256 (json_dumps json_compact (version_identity m p t c)) =
         sha256 (json_dumps json_compact (version_identity m' p' t' c')) \<Longrightarrow>
         json_dumps json_compact (version_identity m p t c) = json_dumps json_compact (version_identity m' p' t' c')"
  shows "compute_agent_version_content_hash sha256 m p t c = compute_agent_version_content_hash sha256 m' p' t' c' \<longleftrightarrow>
    m = m' \<and> p = p' \<and> t = t' \<and> canon json_compact (PDict c) = canon json_compact (PDict c')"
proof -
  have wf: "wf_val (version_identity m p t c)" "wf_val (version_identity m' p' t' c')"
    using assms(1,2) by (simp_all add: version_identity_def)
  show ?thesis
    unfolding compute_agent_version_content_hash_def
    using assms(3) json_dumps_eq_iff [OF style_ok_styles(2) wf] version_identity_canon [OF assms(1,2)] by metis
qed

text \<open>C25: The content hash identifies the model, the system prompt, the tool schema and the
  configuration up to the order of its keys, and nothing else, as long as SHA-256 does not collide
  on the two canonical texts.\<close>

theorem content_hash_is_identity:
  assumes "wf_dict c" and "wf_dict c'"
    and "sha256 (json_dumps json_compact (version_identity m p t c)) =
         sha256 (json_dumps json_compact (version_identity m' p' t' c')) \<Longrightarrow>
         json_dumps json_compact (version_identity m p t c) = json_dumps json_compact (version_identity m' p' t' c')"
  shows "compute_agent_version_content_hash sha256 m p t c = compute_agent_version_content_hash sha256 m' p' t' c' \<longleftrightarrow>
    m = m' \<and> p = p' \<and> t = t' \<and> canon json_compact (PDict c) = canon json_compact (PDict c')"
  using assms by (rule content_hash_eq_iff)

theorem content_hash_is_identity_witness:
  "compute_agent_version_content_hash (\<lambda>s. s) ''m'' ''p'' ''t'' [(''a'', PInt 1), (''b'', PNone)] =
     compute_agent_version_content_hash (\<lambda>s. s) ''m'' ''p'' ''t'' [(''b'', PNone), (''a'', PInt 1)]"
proof -
  have wf: "wf_dict [(''a'', PInt 1), (''b'', PNone)]" "wf_dict [(''b'', PNone), (''a'', PInt 1)]" by simp_all
  have "canon json_compact (PDict [(''a'', PInt 1), (''b'', PNone)]) =
      canon json_compact (PDict [(''b'', PNone), (''a'', PInt 1)])" by code_simp
  then show ?thesis using content_hash_is_identity [OF wf, of "\<lambda>s. s" "''m''" "''p''" "''t''"] by simp
qed

end
