(* ===== verification/Store.thy ===== *)
theory Store
  imports Schemas Redaction Trace Versioning
begin

text \<open>
  \<open>backend/app/store.py\<close>: the in-memory platform store. Its dictionaries are insertion-ordered;
  the two \<open>defaultdict(list)\<close>s are functions that give the empty list where no entry is. Every
  operation that draws an identifier or reads the clock takes them as arguments (\<open>new_id\<close>,
  \<open>now\<close>); a failing operation leaves the store as it was.
\<close>

section \<open>State and operations\<close>

record platform_store =
  ps_agent_versions :: "(uuid, agent_version) dict"
  ps_runs :: "(uuid, evaluation_run) dict"
  ps_executions :: "(uuid, task_execution) dict"
  ps_events :: "uuid \<Rightarrow> trace_event list"
  ps_verdicts :: "uuid \<Rightarrow> judge_verdict list"

definition empty_store :: platform_store where
  "empty_store =
     \<lparr>ps_agent_versions = [], ps_runs = [], ps_executions = [], ps_events = (\<lambda>_. []), ps_verdicts = (\<lambda>_. [])\<rparr>"

definition http_error :: "nat \<Rightarrow> string \<Rightarrow> exc" where
  "http_error code detail = Raise (HTTPException code) detail"

definition lookup_or_404 :: "(uuid, 'a) dict \<Rightarrow> uuid \<Rightarrow> string \<Rightarrow> (exc, 'a) res" where
  "lookup_or_404 d k detail = (case map_of d k of None \<Rightarrow> Inl (http_error 404 detail) | Some v \<Rightarrow> Inr v)"

definition create_agent_version ::
  "(string \<Rightarrow> string) \<Rightarrow> uuid \<Rightarrow> datetime \<Rightarrow> agent_version_create \<Rightarrow> platform_store
     \<Rightarrow> (exc, agent_version \<times> platform_store) res" where
  "create_agent_version sha256 new_id now payload st =
     (let content_hash = compute_agent_version_content_hash sha256 (av_model payload)
            (av_system_prompt payload) (av_tool_schema_hash payload) (av_config payload) in
      case List.find (\<lambda>existing. av_content_hash existing = content_hash) (values_of (ps_agent_versions st)) of
        Some existing \<Rightarrow> Inr (existing, st)
      | None \<Rightarrow>
          bind_res (AgentVersionCreate (agent_version_create.extend payload
            \<lparr>av_id = new_id, av_content_hash = content_hash, av_created_at = now\<rparr>)) (\<lambda>version.
          Inr (version, st\<lparr>ps_agent_versions := dict_set (av_id version) version (ps_agent_versions st)\<rparr>)))"

definition get_agent_version :: "uuid \<Rightarrow> platform_store \<Rightarrow> (exc, agent_version) res" where
  "get_agent_version agent_version_id st =
     lookup_or_404 (ps_agent_versions st) agent_version_id ''agent version not found''"

definition create_run ::
  "uuid \<Rightarrow> datetime \<Rightarrow> evaluation_run_create \<Rightarrow> platform_store \<Rightarrow> (exc, evaluation_run \<times> platform_store) res" where
  "create_run new_id now payload st =
     (if run_agent_version_id payload \<notin> set (keys (ps_agent_versions st))
      then Inl (http_error 404 ''agent version not found'')
      else
        bind_res (EvaluationRunCreate (evaluation_run_create.extend payload
          \<lparr>run_id = new_id, run_status_of = RUN_QUEUED, run_created_at = now, run_finished_at = None\<rparr>)) (\<lambda>run.
        Inr (run, st\<lparr>ps_runs := dict_set (run_id run) run (ps_runs st)\<rparr>)))"

definition create_execution ::
  "uuid \<Rightarrow> datetime \<Rightarrow> uuid \<Rightarrow> task_execution_create \<Rightarrow> platform_store
     \<Rightarrow> (exc, task_execution \<times> platform_store) res" where
  "create_execution new_id now run payload st =
     (if run \<notin> set (keys (ps_runs st))
      then Inl (http_error 404 ''evaluation run not found'')
      else
        bind_res (TaskExecutionCreate (task_execution_create.extend payload
          \<lparr>ex_id = new_id, ex_run_id = run, ex_status = PENDING, ex_passed = None, ex_final_output = None,
           ex_latency_ms = None, ex_input_tokens = None, ex_output_tokens = None, ex_estimated_cost_usd = None,
           ex_missing_expected_actions = [], ex_forbidden_actions_seen = [], ex_final_state_mismatches = [],
           ex_created_at = now, ex_finished_at = None\<rparr>)) (\<lambda>execution.
        Inr (execution, st\<lparr>ps_executions := dict_set (ex_id execution) execution (ps_executions st)\<rparr>)))"

definition get_execution :: "uuid \<Rightarrow> platform_store \<Rightarrow> (exc, task_execution) res" where
  "get_execution execution_id st =
     lookup_or_404 (ps_executions st) execution_id ''task execution not found''"

text \<open>\<open>execution.model_copy(update={**payload.model_dump(), "finished_at": utc_now()})\<close>.\<close>

definition finalized :: "datetime \<Rightarrow> task_execution_result \<Rightarrow> task_execution \<Rightarrow> task_execution" where
  "finalized now payload execution =
     execution\<lparr>ex_status := res_status payload, ex_passed := Some (res_passed payload),
       ex_final_output := Some (res_final_output payload), ex_latency_ms := Some (res_latency_ms payload),
       ex_input_tokens := Some (res_input_tokens payload), ex_output_tokens := Some (res_output_tokens payload),
       ex_estimated_cost_usd := Some (res_estimated_cost_usd payload),
       ex_missing_expected_actions := res_missing_expected_actions payload,
       ex_forbidden_actions_seen := res_forbidden_actions_seen payload,
       ex_final_state_mismatches := res_final_state_mismatches payload, ex_finished_at := Some now\<rparr>"

definition record_result ::
  "datetime \<Rightarrow> uuid \<Rightarrow> task_execution_result \<Rightarrow> platform_store \<Rightarrow> (exc, task_execution \<times> platform_store) res" where
  "record_result now execution_id payload st =
     bind_res (get_execution execution_id st) (\<lambda>execution.
       if ex_status execution \<in> {PASSED, FAILED, ERRORED}
       then Inl (http_error 409 ''execution already finalized'')
       else
         let updated = finalized now payload execution in
         Inr (updated, st\<lparr>ps_executions := dict_set execution_id updated (ps_executions st)\<rparr>))"

definition append_trace_event ::
  "datetime \<Rightarrow> uuid \<Rightarrow> trace_event_create \<Rightarrow> platform_store \<Rightarrow> (exc, trace_event \<times> platform_store) res" where
  "append_trace_event now execution_id payload st =
     bind_res (get_execution execution_id st) (\<lambda>_.
       let events = ps_events st execution_id in
       if list_ex (\<lambda>event. ev_sequence_no event = ev_sequence_no payload) events
       then Inl (http_error 409 ''duplicate trace sequence number'')
       else
         let redacted = payload\<lparr>ev_payload := redact_payload (ev_payload payload)\<rparr> in
         bind_res (TraceEventCreate (stored_event execution_id now redacted)) (\<lambda>event.
         Inr (event, st\<lparr>ps_events := (ps_events st)
           (execution_id := sort_key ev_sequence_no (events @ [event]))\<rparr>)))"

definition get_run_executions :: "uuid \<Rightarrow> platform_store \<Rightarrow> (exc, task_execution list) res" where
  "get_run_executions run st =
     (if run \<notin> set (keys (ps_runs st))
      then Inl (http_error 404 ''evaluation run not found'')
      else Inr (filter (\<lambda>item. ex_run_id item = run) (values_of (ps_executions st))))"

definition get_trace :: "uuid \<Rightarrow> platform_store \<Rightarrow> (exc, trace_event list) res" where
  "get_trace execution_id st =
     bind_res (get_execution execution_id st) (\<lambda>_. Inr (ps_events st execution_id))"

definition append_judge_verdict ::
  "uuid \<Rightarrow> datetime \<Rightarrow> uuid \<Rightarrow> judge_verdict_create \<Rightarrow> platform_store
     \<Rightarrow> (exc, judge_verdict \<times> platform_store) res" where
  "append_judge_verdict new_id now execution_id payload st =
     bind_res (get_execution execution_id st) (\<lambda>_.
     bind_res (JudgeVerdictCreate (judge_verdict_create.extend payload
         \<lparr>jv_id = new_id, jv_execution_id = execution_id, jv_created_at = now\<rparr>)) (\<lambda>verdict.
       Inr (verdict, st\<lparr>ps_verdicts := (ps_verdicts st)
         (execution_id := ps_verdicts st execution_id @ [verdict])\<rparr>)))"

definition get_judge_verdicts :: "uuid \<Rightarrow> platform_store \<Rightarrow> (exc, judge_verdict list) res" where
  "get_judge_verdicts execution_id st =
     bind_res (get_execution execution_id st) (\<lambda>_. Inr (ps_verdicts st execution_id))"

section \<open>The invariant of the store\<close>

text \<open>
  Keys are the identifiers of what they hold, every reference resolves, one agent version per
  content hash, events sorted with distinct sequence numbers, redacted and filed under their own
  execution, and an execution has a verdict and an end exactly when its status is terminal.
\<close>

definition keyed_by :: "('a \<Rightarrow> uuid) \<Rightarrow> (uuid, 'a) dict \<Rightarrow> bool" where
  "keyed_by f d \<longleftrightarrow> dict_ok d \<and> list_all (\<lambda>(k, v). f v = k) d"

definition execution_ok :: "task_execution \<Rightarrow> bool" where
  "execution_ok e \<longleftrightarrow>
     (terminal_status (ex_status e) \<longleftrightarrow> ex_finished_at e \<noteq> None) \<and>
     (terminal_status (ex_status e) \<longleftrightarrow> ex_passed e \<noteq> None) \<and>
     (ex_status e = PASSED \<longrightarrow> ex_passed e = Some True) \<and>
     (ex_status e = FAILED \<longrightarrow> ex_passed e = Some False)"

definition events_ok :: "uuid \<Rightarrow> trace_event list \<Rightarrow> bool" where
  "events_ok eid events \<longleftrightarrow>
     sorted (map ev_sequence_no events) \<and> distinct (map ev_sequence_no events) \<and>
     list_all (\<lambda>e. ev_execution_id e = eid \<and> 0 \<le> ev_sequence_no e \<and> no_sensitive (PDict (ev_payload e))) events"

definition hash_ok :: "(string \<Rightarrow> string) \<Rightarrow> agent_version \<Rightarrow> bool" where
  "hash_ok sha256 v \<longleftrightarrow>
     av_content_hash v = compute_agent_version_content_hash sha256 (av_model v) (av_system_prompt v)
       (av_tool_schema_hash v) (av_config v)"

definition store_ok :: "(string \<Rightarrow> string) \<Rightarrow> platform_store \<Rightarrow> bool" where
  "store_ok sha256 st \<longleftrightarrow>
     list_all (hash_ok sha256) (values_of (ps_agent_versions st)) \<and>
     keyed_by av_id (ps_agent_versions st) \<and> keyed_by run_id (ps_runs st) \<and> keyed_by ex_id (ps_executions st) \<and>
     distinct (map av_content_hash (values_of (ps_agent_versions st))) \<and>
     list_all (\<lambda>r. run_agent_version_id r \<in> set (keys (ps_agent_versions st))) (values_of (ps_runs st)) \<and>
     list_all (\<lambda>e. ex_run_id e \<in> set (keys (ps_runs st)) \<and> execution_ok e) (values_of (ps_executions st)) \<and>
     (\<forall>eid. events_ok eid (ps_events st eid)) \<and>
     (\<forall>eid. eid \<notin> set (keys (ps_executions st)) \<longrightarrow> ps_events st eid = [] \<and> ps_verdicts st eid = []) \<and>
     (\<forall>eid. list_all (\<lambda>v. jv_execution_id v = eid) (ps_verdicts st eid))"

section \<open>Every operation keeps the invariant\<close>

text \<open>What a step may do to what is already stored.\<close>

definition extends_dict :: "('k, 'v) dict \<Rightarrow> ('k, 'v) dict \<Rightarrow> bool" where
  "extends_dict d d' \<longleftrightarrow> (\<forall>k v. map_of d k = Some v \<longrightarrow> map_of d' k = Some v)"

definition execution_grows :: "task_execution \<Rightarrow> task_execution \<Rightarrow> bool" where
  "execution_grows e e' \<longleftrightarrow>
     (terminal_status (ex_status e) \<longrightarrow> e' = e) \<and>
     ex_id e' = ex_id e \<and> ex_run_id e' = ex_run_id e \<and> ex_task_id e' = ex_task_id e \<and>
     ex_task_seed e' = ex_task_seed e \<and> ex_created_at e' = ex_created_at e"

definition store_grows :: "platform_store \<Rightarrow> platform_store \<Rightarrow> bool" where
  "store_grows st st' \<longleftrightarrow>
     extends_dict (ps_agent_versions st) (ps_agent_versions st') \<and>
     extends_dict (ps_runs st) (ps_runs st') \<and>
     (\<forall>k e. map_of (ps_executions st) k = Some e \<longrightarrow>
        (\<exists>e'. map_of (ps_executions st') k = Some e' \<and> execution_grows e e')) \<and>
     (\<forall>eid. set (ps_events st eid) \<subseteq> set (ps_events st' eid)) \<and>
     (\<forall>eid. \<exists>new. ps_verdicts st' eid = ps_verdicts st eid @ new)"

lemma execution_grows_refl [simp]: "execution_grows e e"
  by (simp add: execution_grows_def)

lemma execution_grows_trans: "execution_grows a b \<Longrightarrow> execution_grows b c \<Longrightarrow> execution_grows a c"
  by (auto simp: execution_grows_def)

lemma extends_dict_refl [simp]: "extends_dict d d"
  by (simp add: extends_dict_def)

lemma extends_dict_set: "k \<notin> set (keys d) \<Longrightarrow> extends_dict d (dict_set k v d)"
  by (auto simp: extends_dict_def dest: map_of_Some_key)

lemma store_grows_refl [simp]: "store_grows st st"
  by (simp add: store_grows_def)

lemma store_grows_trans:
  assumes "store_grows a b" and "store_grows b c"
  shows "store_grows a c"
proof -
  have "\<exists>e'. map_of (ps_executions c) k = Some e' \<and> execution_grows e e'"
    if ex: "map_of (ps_executions a) k = Some e" for k e
  proof -
    obtain e1 where e1: "map_of (ps_executions b) k = Some e1" "execution_grows e e1"
      using assms(1) ex unfolding store_grows_def by blast
    obtain e2 where "map_of (ps_executions c) k = Some e2" "execution_grows e1 e2"
      using assms(2) e1(1) unfolding store_grows_def by blast
    then show ?thesis using e1(2) execution_grows_trans by blast
  qed
  moreover have "\<exists>new. ps_verdicts c eid = ps_verdicts a eid @ new" for eid
  proof -
    obtain n1 n2 where "ps_verdicts b eid = ps_verdicts a eid @ n1" "ps_verdicts c eid = ps_verdicts b eid @ n2"
      using assms unfolding store_grows_def by blast
    then show ?thesis by simp
  qed
  moreover have "extends_dict (ps_agent_versions a) (ps_agent_versions c)" "extends_dict (ps_runs a) (ps_runs c)"
    using assms unfolding store_grows_def extends_dict_def by blast+
  moreover have "set (ps_events a eid) \<subseteq> set (ps_events c eid)" for eid
    using assms unfolding store_grows_def by blast
  ultimately show ?thesis unfolding store_grows_def by blast
qed

lemma lookup_or_404_Inr [result_elims]: "lookup_or_404 d k detail = Inr v \<longleftrightarrow> map_of d k = Some v"
  by (simp add: lookup_or_404_def split: option.splits)

lemma lookup_or_404_Inl [result_elims]:
  "lookup_or_404 d k detail = Inl e \<longleftrightarrow> map_of d k = None \<and> e = http_error 404 detail"
  by (auto simp: lookup_or_404_def split: option.splits)

lemma keyed_by_set [wf_intros]: "keyed_by f d \<Longrightarrow> f v = k \<Longrightarrow> keyed_by f (dict_set k v d)"
  using set_dict_set_subset [of k v d] by (fastforce simp: keyed_by_def list_all_iff)

lemma keyed_by_lookup: "keyed_by f d \<Longrightarrow> map_of d k = Some v \<Longrightarrow> f v = k"
  by (auto simp: keyed_by_def list_all_iff dest!: map_of_SomeD)

lemma keyed_by_dict_ok: "keyed_by f d \<Longrightarrow> dict_ok d"
  by (simp add: keyed_by_def)

lemma list_all_values_lookup: "list_all P (values_of d) \<Longrightarrow> map_of d k = Some v \<Longrightarrow> P v"
  by (auto simp: list_all_iff dest!: map_of_SomeD)

lemma list_all_values_set:
  "list_all P (values_of d) \<Longrightarrow> P v \<Longrightarrow> list_all P (values_of (dict_set k v d))"
  using set_dict_set_subset [of k v d] by (fastforce simp: list_all_iff)

lemma set_keys_dict_set: "fst ` set (dict_set k v d) = insert k (fst ` set d)"
  using keys_dict_set [of k v d] by (metis (no_types, lifting) insert_absorb list.set(2) list.simps(15) list.set_map rotate1.simps(2) set_rotate1)

lemma find_None_values: "List.find P xs = None \<longleftrightarrow> list_all (\<lambda>x. \<not> P x) xs"
  by (auto simp: find_None_iff list_all_iff)

lemma create_agent_version_ok:
  assumes ok: "store_ok sha256 st" and fresh: "new_id \<notin> set (keys (ps_agent_versions st))"
    and step: "create_agent_version sha256 new_id now payload st = Inr (v, st')"
  shows "store_ok sha256 st' \<and> store_grows st st'"
proof (cases "st' = st")
  case False
  let ?h = "compute_agent_version_content_hash sha256 (av_model payload) (av_system_prompt payload)
    (av_tool_schema_hash payload) (av_config payload)"
  let ?v = "agent_version_create.extend payload \<lparr>av_id = new_id, av_content_hash = ?h, av_created_at = now\<rparr>"
  have none: "list_all (\<lambda>x. av_content_hash x \<noteq> ?h) (values_of (ps_agent_versions st))"
    and st': "st' = st\<lparr>ps_agent_versions := dict_set new_id ?v (ps_agent_versions st)\<rparr>"
    using step False
    by (auto simp: create_agent_version_def Let_def bind_res_eq_Inr AgentVersionCreate_def validated_Inr
        find_None_values agent_version_create.defs split: option.splits)
  have f: "av_id ?v = new_id" "av_content_hash ?v = ?h" "hash_ok sha256 ?v"
    by (simp_all add: agent_version_create.defs hash_ok_def)
  have "distinct (map av_content_hash (values_of (dict_set new_id ?v (ps_agent_versions st))))"
    using ok none f(2) by (auto simp: values_of_dict_set_fresh [OF fresh] store_ok_def list_all_iff simp del: map_map)
  then show ?thesis
    using ok f(1,3) extends_dict_set [OF fresh] keyed_by_set [of av_id "ps_agent_versions st" ?v new_id]
      list_all_values_set [of "hash_ok sha256" "ps_agent_versions st" ?v new_id]
    unfolding st'
    by (simp add: store_ok_def store_grows_def set_keys_dict_set del: map_map) (simp add: list_all_iff del: map_map)
qed (use ok in simp)

lemma create_run_ok:
  assumes ok: "store_ok sha256 st" and fresh: "new_id \<notin> set (keys (ps_runs st))"
    and step: "create_run new_id now payload st = Inr (r, st')"
  shows "store_ok sha256 st' \<and> store_grows st st'"
proof -
  have r: "run_id r = new_id" "run_agent_version_id r \<in> set (keys (ps_agent_versions st))"
    and st': "st' = st\<lparr>ps_runs := dict_set new_id r (ps_runs st)\<rparr>"
    using step by (auto simp: create_run_def bind_res_eq_Inr EvaluationRunCreate_def validated_Inr
        evaluation_run_create.defs rev_image_eqI split: if_splits)
  show ?thesis
    using ok r extends_dict_set [OF fresh] keyed_by_set [of run_id "ps_runs st" r new_id]
      list_all_values_set [of "\<lambda>r. run_agent_version_id r \<in> set (keys (ps_agent_versions st))" "ps_runs st" r new_id]
    unfolding st' by (auto simp: store_ok_def store_grows_def set_keys_dict_set list_all_iff)
qed

lemma create_execution_ok:
  assumes ok: "store_ok sha256 st" and fresh: "new_id \<notin> set (keys (ps_executions st))"
    and step: "create_execution new_id now run payload st = Inr (e, st')"
  shows "store_ok sha256 st' \<and> store_grows st st'"
proof -
  have e: "ex_id e = new_id" "ex_run_id e \<in> set (keys (ps_runs st))" "execution_ok e"
    and st': "st' = st\<lparr>ps_executions := dict_set new_id e (ps_executions st)\<rparr>"
    using step by (auto simp: create_execution_def bind_res_eq_Inr TaskExecutionCreate_def validated_Inr
        task_execution_create.defs execution_ok_def rev_image_eqI split: if_splits)
  have none: "map_of (ps_executions st) new_id = None" using fresh by (simp add: map_of_eq_None_keys)
  show ?thesis
    using ok e none keyed_by_set [of ex_id "ps_executions st" e new_id]
      list_all_values_set [of "\<lambda>e. ex_run_id e \<in> set (keys (ps_runs st)) \<and> execution_ok e" "ps_executions st" e new_id]
    unfolding st' by (auto simp: store_ok_def store_grows_def set_keys_dict_set list_all_iff)
qed

lemma finalized_simps [simp]:
  "ex_id (finalized now p e) = ex_id e" "ex_run_id (finalized now p e) = ex_run_id e"
  "ex_task_id (finalized now p e) = ex_task_id e" "ex_task_seed (finalized now p e) = ex_task_seed e"
  "ex_created_at (finalized now p e) = ex_created_at e" "ex_status (finalized now p e) = res_status p"
  "ex_passed (finalized now p e) = Some (res_passed p)" "ex_finished_at (finalized now p e) = Some now"
  by (simp_all add: finalized_def)

lemma record_result_Inr [result_elims]:
  "record_result now eid p st = Inr (e', st') \<longleftrightarrow>
     (\<exists>e. map_of (ps_executions st) eid = Some e \<and> \<not> terminal_status (ex_status e) \<and>
        e' = finalized now p e \<and> st' = st\<lparr>ps_executions := dict_set eid e' (ps_executions st)\<rparr>)"
  by (auto simp: record_result_def get_execution_def bind_res_eq_Inr lookup_or_404_Inr Let_def terminal_status_def)

lemma record_result_ok:
  assumes ok: "store_ok sha256 st" and valid: "TaskExecutionResult p = Inr p"
    and step: "record_result now eid p st = Inr (e', st')"
  shows "store_ok sha256 st' \<and> store_grows st st'"
proof -
  obtain e where e: "map_of (ps_executions st) eid = Some e" "\<not> terminal_status (ex_status e)"
      "e' = finalized now p e" and st': "st' = st\<lparr>ps_executions := dict_set eid e' (ps_executions st)\<rparr>"
    using step by (auto simp: record_result_Inr)
  have k: "keyed_by ex_id (ps_executions st)" and vals: "list_all (\<lambda>e. ex_run_id e \<in> set (keys (ps_runs st)) \<and> execution_ok e) (values_of (ps_executions st))"
    using ok by (simp_all add: store_ok_def)
  have "ex_id e' = eid" "ex_run_id e' \<in> set (keys (ps_runs st))"
    using e keyed_by_lookup [OF k e(1)] list_all_values_lookup [OF vals e(1)] by simp_all
  moreover have "execution_ok e'" using valid e(3) by (auto simp: TaskExecutionResult_Inr execution_ok_def)
  moreover have "execution_grows e e'" using e by (simp add: execution_grows_def)
  moreover have "eid \<in> set (keys (ps_executions st))" using e(1) by (rule map_of_Some_key)
  ultimately show ?thesis
    using ok e(1) keyed_by_set [OF k, of e' eid] list_all_values_set [OF vals, of e' eid]
    unfolding st' by (auto simp: store_ok_def store_grows_def set_keys_dict_set insert_absorb)
qed

lemma append_trace_event_Inr [result_elims]:
  "append_trace_event now eid p st = Inr (ev, st') \<longleftrightarrow>
     map_of (ps_executions st) eid \<noteq> None \<and>
     ev_sequence_no p \<notin> set (map ev_sequence_no (ps_events st eid)) \<and>
     0 \<le> ev_sequence_no p \<and> non_negative (ev_duration_ms p) \<and>
     ev = stored_event eid now (p\<lparr>ev_payload := redact_payload (ev_payload p)\<rparr>) \<and>
     st' = st\<lparr>ps_events := (ps_events st)(eid := sort_key ev_sequence_no (ps_events st eid @ [ev]))\<rparr>"
  by (auto simp: append_trace_event_def get_execution_def bind_res_eq_Inr lookup_or_404_Inr Let_def list_ex_iff
      TraceEventCreate_def validated_Inr rev_image_eqI)

lemma events_ok_insert:
  assumes "events_ok eid events" and "ev_sequence_no ev \<notin> set (map ev_sequence_no events)"
    and "ev_execution_id ev = eid" and "0 \<le> ev_sequence_no ev" and "no_sensitive (PDict (ev_payload ev))"
  shows "events_ok eid (sort_key ev_sequence_no (events @ [ev]))"
proof -
  have "distinct (map ev_sequence_no (events @ [ev]))" using assms(1,2) by (simp add: events_ok_def)
  then have "distinct (map ev_sequence_no (sort_key ev_sequence_no (events @ [ev])))"
    by (metis distinct_map distinct_sort set_sort)
  then show ?thesis using assms by (auto simp: events_ok_def list_all_iff)
qed

lemma store_ok_events:
  assumes "store_ok sha256 st" and "map_of (ps_executions st) eid \<noteq> None" and "events_ok eid evs"
  shows "store_ok sha256 (st\<lparr>ps_events := (ps_events st)(eid := evs)\<rparr>)"
proof -
  have "eid \<in> set (keys (ps_executions st))" using assms(2) by (simp add: map_of_eq_None_keys)
  then show ?thesis using assms(1,3) unfolding store_ok_def by (simp del: set_map)
qed

lemma store_ok_verdicts:
  assumes "store_ok sha256 st" and "map_of (ps_executions st) eid \<noteq> None"
    and "list_all (\<lambda>v. jv_execution_id v = eid) vs"
  shows "store_ok sha256 (st\<lparr>ps_verdicts := (ps_verdicts st)(eid := vs)\<rparr>)"
proof -
  have "eid \<in> set (keys (ps_executions st))" using assms(2) by (simp add: map_of_eq_None_keys)
  then show ?thesis using assms(1,3) unfolding store_ok_def by (simp del: set_map)
qed

lemma append_trace_event_ok:
  assumes ok: "store_ok sha256 st" and step: "append_trace_event now eid p st = Inr (ev, st')"
  shows "store_ok sha256 st' \<and> store_grows st st'"
proof -
  have p: "map_of (ps_executions st) eid \<noteq> None" "ev_sequence_no p \<notin> set (map ev_sequence_no (ps_events st eid))"
      "0 \<le> ev_sequence_no p"
    and e: "ev = stored_event eid now (p\<lparr>ev_payload := redact_payload (ev_payload p)\<rparr>)"
    and st': "st' = st\<lparr>ps_events := (ps_events st)(eid := sort_key ev_sequence_no (ps_events st eid @ [ev]))\<rparr>"
    using step unfolding append_trace_event_Inr by blast+
  have "events_ok eid (ps_events st eid)" using ok by (simp add: store_ok_def)
  then have "events_ok eid (sort_key ev_sequence_no (ps_events st eid @ [ev]))"
    by (rule events_ok_insert) (use p e redact_payload_no_sensitive in simp_all)
  then have "store_ok sha256 st'" unfolding st' using store_ok_events [OF ok p(1)] by blast
  moreover have "store_grows st st'" unfolding st' by (auto simp: store_grows_def)
  ultimately show ?thesis by blast
qed

lemma append_judge_verdict_Inr [result_elims]:
  "append_judge_verdict new_id now eid p st = Inr (v, st') \<longleftrightarrow>
     map_of (ps_executions st) eid \<noteq> None \<and> JudgeVerdictCreate p = Inr p \<and>
     v = judge_verdict_create.extend p \<lparr>jv_id = new_id, jv_execution_id = eid, jv_created_at = now\<rparr> \<and>
     st' = st\<lparr>ps_verdicts := (ps_verdicts st)(eid := ps_verdicts st eid @ [v])\<rparr>"
  by (auto simp: append_judge_verdict_def get_execution_def bind_res_eq_Inr lookup_or_404_Inr
      JudgeVerdictCreate_def validated_Inr judge_verdict_create.defs)

lemma append_judge_verdict_ok:
  assumes ok: "store_ok sha256 st" and step: "append_judge_verdict new_id now eid p st = Inr (v, st')"
  shows "store_ok sha256 st' \<and> store_grows st st'"
proof -
  have p: "map_of (ps_executions st) eid \<noteq> None" and v: "jv_execution_id v = eid"
    and st': "st' = st\<lparr>ps_verdicts := (ps_verdicts st)(eid := ps_verdicts st eid @ [v])\<rparr>"
    using step unfolding append_judge_verdict_Inr by (simp_all add: judge_verdict_create.defs)
  have "list_all (\<lambda>v. jv_execution_id v = eid) (ps_verdicts st eid @ [v])" using ok v by (simp add: store_ok_def)
  then have "store_ok sha256 st'" unfolding st' using store_ok_verdicts [OF ok p] by blast
  moreover have "store_grows st st'" unfolding st' by (auto simp: store_grows_def)
  ultimately show ?thesis by blast
qed

section \<open>The life of a store\<close>

text \<open>
  A successful write with a fresh identifier (\<open>uuid4\<close>) and, for a result, one that passed the
  validation of its model, as every \<open>TaskExecutionResult\<close> object did when it was built.
\<close>

inductive store_step :: "(string \<Rightarrow> string) \<Rightarrow> platform_store \<Rightarrow> platform_store \<Rightarrow> bool" for sha256 where
  version: "new_id \<notin> set (keys (ps_agent_versions st)) \<Longrightarrow>
    create_agent_version sha256 new_id now v st = Inr (v', st') \<Longrightarrow> store_step sha256 st st'"
| run: "new_id \<notin> set (keys (ps_runs st)) \<Longrightarrow> create_run new_id now r st = Inr (r', st') \<Longrightarrow> store_step sha256 st st'"
| execution: "new_id \<notin> set (keys (ps_executions st)) \<Longrightarrow>
    create_execution new_id now run e st = Inr (e', st') \<Longrightarrow> store_step sha256 st st'"
| result: "TaskExecutionResult p = Inr p \<Longrightarrow> record_result now eid p st = Inr (e', st') \<Longrightarrow> store_step sha256 st st'"
| event: "append_trace_event now eid p st = Inr (ev, st') \<Longrightarrow> store_step sha256 st st'"
| verdict: "append_judge_verdict new_id now eid j st = Inr (j', st') \<Longrightarrow> store_step sha256 st st'"

lemma store_step_ok:
  assumes "store_step sha256 st st'" and ok: "store_ok sha256 st"
  shows "store_ok sha256 st' \<and> store_grows st st'"
  using assms(1)
proof (cases rule: store_step.cases)
  case version
  show ?thesis by (rule create_agent_version_ok [OF ok version])
next
  case run
  show ?thesis by (rule create_run_ok [OF ok run])
next
  case execution
  show ?thesis by (rule create_execution_ok [OF ok execution])
next
  case result
  show ?thesis by (rule record_result_ok [OF ok result])
next
  case event
  show ?thesis by (rule append_trace_event_ok [OF ok event])
next
  case verdict
  show ?thesis by (rule append_judge_verdict_ok [OF ok verdict])
qed

interpretation platform: preserved "store_step sha256" "\<lambda>st. store_ok sha256 st \<and> store_grows st0 st" for sha256 st0
  by unfold_locales (blast dest: store_step_ok intro: store_grows_trans)

lemma store_ok_empty: "store_ok sha256 empty_store"
  by (simp add: store_ok_def empty_store_def keyed_by_def events_ok_def)

section \<open>The interface the clients of a store use\<close>

record 's store_ops =
  so_get_agent_version :: "uuid \<Rightarrow> 's \<Rightarrow> (exc, agent_version) res"
  so_get_execution :: "uuid \<Rightarrow> 's \<Rightarrow> (exc, task_execution) res"
  so_get_run_executions :: "uuid \<Rightarrow> 's \<Rightarrow> (exc, task_execution list) res"
  so_get_trace :: "uuid \<Rightarrow> 's \<Rightarrow> (exc, trace_event list) res"
  so_append_trace_event :: "datetime \<Rightarrow> uuid \<Rightarrow> trace_event_create \<Rightarrow> 's \<Rightarrow> (exc, trace_event \<times> 's) res"
  so_record_result :: "datetime \<Rightarrow> uuid \<Rightarrow> task_execution_result \<Rightarrow> 's \<Rightarrow> (exc, task_execution \<times> 's) res"
  so_append_judge_verdict :: "uuid \<Rightarrow> datetime \<Rightarrow> uuid \<Rightarrow> judge_verdict_create \<Rightarrow> 's \<Rightarrow> (exc, judge_verdict \<times> 's) res"

definition platform_ops :: "platform_store store_ops" where
  "platform_ops =
     \<lparr>so_get_agent_version = get_agent_version, so_get_execution = get_execution,
      so_get_run_executions = get_run_executions, so_get_trace = get_trace,
      so_append_trace_event = append_trace_event, so_record_result = record_result,
      so_append_judge_verdict = append_judge_verdict\<rparr>"

text \<open>
  The contract of \<open>Store\<close> for traces and results. \<open>keep\<close> is what the back end makes of a payload
  it stores (nothing here; a JSON column reorders keys).
\<close>

definition kept_event :: "(pydict \<Rightarrow> pydict) \<Rightarrow> uuid \<Rightarrow> datetime \<Rightarrow> trace_event_create \<Rightarrow> trace_event" where
  "kept_event keep eid now e = stored_event eid now (e\<lparr>ev_payload := keep (redact_payload (ev_payload e))\<rparr>)"

locale evidence_store =
  fixes ops :: "'s store_ops"
    and inv :: "'s \<Rightarrow> bool"
    and keep :: "pydict \<Rightarrow> pydict"
  assumes append_fresh: "inv s \<Longrightarrow> so_get_trace ops eid s = Inr old \<Longrightarrow>
        ev_sequence_no e \<notin> set (map ev_sequence_no old) \<Longrightarrow> TraceEventCreate e = Inr e \<Longrightarrow>
        \<exists>ev s'. so_append_trace_event ops now eid e s = Inr (ev, s') \<and> inv s' \<and>
          so_get_trace ops eid s' = Inr (sort_key ev_sequence_no (old @ [kept_event keep eid now e])) \<and>
          (\<forall>x. x \<noteq> eid \<longrightarrow> so_get_trace ops x s' = so_get_trace ops x s) \<and>
          (\<forall>x. so_get_execution ops x s' = so_get_execution ops x s) \<and>
          (\<forall>x. so_get_agent_version ops x s' = so_get_agent_version ops x s)"
    and append_duplicate: "inv s \<Longrightarrow> so_get_trace ops eid s = Inr old \<Longrightarrow>
        ev_sequence_no e \<in> set (map ev_sequence_no old) \<Longrightarrow>
        so_append_trace_event ops now eid e s = Inl (http_error 409 ''duplicate trace sequence number'')"
    and record_pending: "inv s \<Longrightarrow> so_get_execution ops eid s = Inr x \<Longrightarrow> \<not> terminal_status (ex_status x) \<Longrightarrow>
        TaskExecutionResult r = Inr r \<Longrightarrow>
        \<exists>s'. so_record_result ops now eid r s = Inr (finalized now r x, s') \<and> inv s' \<and>
          so_get_execution ops eid s' = Inr (finalized now r x) \<and>
          (\<forall>y. y \<noteq> eid \<longrightarrow> so_get_execution ops y s' = so_get_execution ops y s) \<and>
          (\<forall>y. so_get_trace ops y s' = so_get_trace ops y s) \<and>
          (\<forall>y. so_get_agent_version ops y s' = so_get_agent_version ops y s)"
    and record_finalized: "inv s \<Longrightarrow> so_get_execution ops eid s = Inr x \<Longrightarrow> terminal_status (ex_status x) \<Longrightarrow>
        so_record_result ops now eid r s = Inl (http_error 409 ''execution already finalized'')"
    and trace_of_known: "inv s \<Longrightarrow> so_get_execution ops eid s = Inr x \<Longrightarrow> \<exists>old. so_get_trace ops eid s = Inr old"

lemma get_trace_Inr: "get_trace eid st = Inr es \<longleftrightarrow> map_of (ps_executions st) eid \<noteq> None \<and> es = ps_events st eid"
  by (auto simp: get_trace_def get_execution_def bind_res_eq_Inr lookup_or_404_Inr)

lemma get_trace_cong:
  "map_of (ps_executions st') eid = None \<longleftrightarrow> map_of (ps_executions st) eid = None \<Longrightarrow>
     ps_events st' eid = ps_events st eid \<Longrightarrow> get_trace eid st' = get_trace eid st"
  by (auto simp: get_trace_def get_execution_def lookup_or_404_def split: option.splits)

interpretation platform_evidence: evidence_store platform_ops "store_ok sha256" "\<lambda>p. p" for sha256
proof unfold_locales
  fix s eid old now and e :: trace_event_create
  assume ok: "store_ok sha256 s" and old: "so_get_trace platform_ops eid s = Inr old"
    and new: "ev_sequence_no e \<notin> set (map ev_sequence_no old)" and v: "TraceEventCreate e = Inr e"
  have g: "map_of (ps_executions s) eid \<noteq> None" "old = ps_events s eid"
    using old by (simp_all add: platform_ops_def get_trace_Inr)
  let ?ev = "kept_event (\<lambda>p. p) eid now e"
  let ?s = "s\<lparr>ps_events := (ps_events s)(eid := sort_key ev_sequence_no (ps_events s eid @ [?ev]))\<rparr>"
  have step: "append_trace_event now eid e s = Inr (?ev, ?s)"
    using g new v by (simp add: append_trace_event_Inr kept_event_def TraceEventCreate_def validated_Inr)
  have "store_ok sha256 ?s" using append_trace_event_ok [OF ok step] by blast
  then show "\<exists>ev s'. so_append_trace_event platform_ops now eid e s = Inr (ev, s') \<and> store_ok sha256 s' \<and>
      so_get_trace platform_ops eid s' = Inr (sort_key ev_sequence_no (old @ [kept_event (\<lambda>p. p) eid now e])) \<and>
      (\<forall>x. x \<noteq> eid \<longrightarrow> so_get_trace platform_ops x s' = so_get_trace platform_ops x s) \<and>
      (\<forall>x. so_get_execution platform_ops x s' = so_get_execution platform_ops x s) \<and>
      (\<forall>x. so_get_agent_version platform_ops x s' = so_get_agent_version platform_ops x s)"
    using step g by (intro exI [of _ ?ev] exI [of _ ?s])
      (auto simp: platform_ops_def get_trace_Inr get_execution_def get_agent_version_def intro: get_trace_cong)
next
  fix s eid old now and e :: trace_event_create
  assume "store_ok sha256 s" and "so_get_trace platform_ops eid s = Inr old"
    and "ev_sequence_no e \<in> set (map ev_sequence_no old)"
  then show "so_append_trace_event platform_ops now eid e s = Inl (http_error 409 ''duplicate trace sequence number'')"
    by (auto simp: platform_ops_def get_trace_Inr append_trace_event_def get_execution_def lookup_or_404_def
        Let_def list_ex_iff)
next
  fix s eid x r now
  assume ok: "store_ok sha256 s" and x: "so_get_execution platform_ops eid s = Inr x"
    and p: "\<not> terminal_status (ex_status x)" and v: "TaskExecutionResult r = Inr r"
  let ?s = "s\<lparr>ps_executions := dict_set eid (finalized now r x) (ps_executions s)\<rparr>"
  have g: "map_of (ps_executions s) eid = Some x"
    using x by (simp add: platform_ops_def get_execution_def lookup_or_404_Inr)
  then have step: "record_result now eid r s = Inr (finalized now r x, ?s)" using p by (simp add: record_result_Inr)
  have tr: "get_trace y ?s = get_trace y s" for y by (rule get_trace_cong) (use g in auto)
  have "store_ok sha256 ?s" using record_result_ok [OF ok v step] by blast
  then show "\<exists>s'. so_record_result platform_ops now eid r s = Inr (finalized now r x, s') \<and> store_ok sha256 s' \<and>
      so_get_execution platform_ops eid s' = Inr (finalized now r x) \<and>
      (\<forall>y. y \<noteq> eid \<longrightarrow> so_get_execution platform_ops y s' = so_get_execution platform_ops y s) \<and>
      (\<forall>y. so_get_trace platform_ops y s' = so_get_trace platform_ops y s) \<and>
      (\<forall>y. so_get_agent_version platform_ops y s' = so_get_agent_version platform_ops y s)"
    using step g tr by (intro exI [of _ ?s])
      (auto simp: platform_ops_def get_execution_def get_agent_version_def lookup_or_404_def)
next
  fix s eid x r now
  assume "store_ok sha256 s" and "so_get_execution platform_ops eid s = Inr x" and "terminal_status (ex_status x)"
  then show "so_record_result platform_ops now eid r s = Inl (http_error 409 ''execution already finalized'')"
    by (simp add: platform_ops_def record_result_def terminal_status_def)
next
  fix s eid x assume "store_ok sha256 s" and "so_get_execution platform_ops eid s = Inr x"
  then show "\<exists>old. so_get_trace platform_ops eid s = Inr old"
    by (simp add: platform_ops_def get_trace_def)
qed

section \<open>Properties of the store\<close>

text \<open>C3: Whatever sequence of operations a store has been through since it was empty, its
  references resolve, no two agent versions share a content hash and each hash is that of its
  version, traces are sorted with distinct sequence numbers and hold no sensitive value, and an
  execution has a verdict and an end time exactly when its status is terminal.\<close>

theorem store_invariant:
  assumes "(store_step sha256)\<^sup>*\<^sup>* empty_store st"
  shows "store_ok sha256 st"
  using platform.reachable [OF assms, of empty_store] store_ok_empty [of sha256] by simp

text \<open>C12: What is stored is never lost or rewritten: along any sequence of operations agent versions
  and runs stay as they are, an execution keeps its identity and, once its status is terminal,
  every field; trace events and verdicts are only added.\<close>

theorem store_history_is_kept:
  assumes "store_ok sha256 st" and "(store_step sha256)\<^sup>*\<^sup>* st st'"
  shows "store_grows st st'"
  using platform.reachable [OF assms(2), of st] assms(1) by simp

definition sample_version_create :: agent_version_create where
  "sample_version_create =
     \<lparr>av_name = ''v1'', av_git_sha = ''abcdef0'', av_model = ''m'', av_system_prompt = ''help'',
      av_tool_schema_hash = ''0000000'', av_config = []\<rparr>"

lemma sample_version_step:
  "\<exists>v st'. create_agent_version (\<lambda>s. s) (UUID 1) 5 sample_version_create empty_store = Inr (v, st') \<and>
     map_of (ps_agent_versions st') (UUID 1) = Some v"
  by (simp add: create_agent_version_def Let_def empty_store_def sample_version_create_def
      AgentVersionCreate_def validated_def length_in_def agent_version_create.defs)

theorem store_invariant_witness:
  "\<exists>v st'. create_agent_version (\<lambda>s. s) (UUID 1) 5 sample_version_create empty_store = Inr (v, st') \<and>
     store_ok (\<lambda>s. s) st'"
proof -
  obtain v st' where v: "create_agent_version (\<lambda>s. s) (UUID 1) 5 sample_version_create empty_store = Inr (v, st')"
    using sample_version_step by blast
  then have "store_step (\<lambda>s. s) empty_store st'"
    by (rule store_step.version [rotated]) (simp add: empty_store_def)
  then show ?thesis using store_invariant [of "\<lambda>s. s" st'] v by blast
qed

theorem store_history_is_kept_witness:
  "\<exists>v st'. create_agent_version (\<lambda>s. s) (UUID 1) 5 sample_version_create empty_store = Inr (v, st') \<and>
     store_grows empty_store st'"
proof -
  obtain v st' where v: "create_agent_version (\<lambda>s. s) (UUID 1) 5 sample_version_create empty_store = Inr (v, st')"
    using sample_version_step by blast
  then have "store_step (\<lambda>s. s) empty_store st'"
    by (rule store_step.version [rotated]) (simp add: empty_store_def)
  then show ?thesis using store_history_is_kept [OF store_ok_empty, of "\<lambda>s. s" st'] v by blast
qed

text \<open>Registering a version is idempotent in its identity: a second registration with the same
  model, prompt, tool schema and configuration returns the version stored first, whatever its name
  and commit, and leaves the store as it is.\<close>

theorem create_agent_version_idempotent:
  assumes "create_agent_version sha256 id1 now1 p st = Inr (v, st')"
    and "av_model q = av_model p" and "av_system_prompt q = av_system_prompt p"
    and "av_tool_schema_hash q = av_tool_schema_hash p" and "av_config q = av_config p"
    and "store_ok sha256 st" and "id1 \<notin> set (keys (ps_agent_versions st))"
  shows "create_agent_version sha256 id2 now2 q st' = Inr (v, st')"
proof -
  let ?h = "compute_agent_version_content_hash sha256 (av_model p) (av_system_prompt p) (av_tool_schema_hash p) (av_config p)"
  have "List.find (\<lambda>x. av_content_hash x = ?h) (values_of (ps_agent_versions st')) = Some v"
  proof (cases "List.find (\<lambda>x. av_content_hash x = ?h) (values_of (ps_agent_versions st))")
    case None
    then have v: "av_content_hash v = ?h" and st': "st' = st\<lparr>ps_agent_versions := dict_set id1 v (ps_agent_versions st)\<rparr>"
      using assms(1) by (auto simp: create_agent_version_def Let_def bind_res_eq_Inr AgentVersionCreate_def
          validated_Inr agent_version_create.defs)
    have "List.find (\<lambda>x. av_content_hash x = ?h) (xs @ [v]) = Some v"
      if "List.find (\<lambda>x. av_content_hash x = ?h) xs = None" for xs
      using that v by (induction xs) (auto split: if_splits)
    then show ?thesis using None unfolding st' by (simp add: values_of_dict_set_fresh [OF assms(7)] del: map_map)
  next
    case (Some x)
    then show ?thesis using assms(1) by (simp add: create_agent_version_def Let_def)
  qed
  then show ?thesis using assms(2-5) by (simp add: create_agent_version_def Let_def)
qed

theorem create_agent_version_idempotent_witness:
  "\<exists>v st'. create_agent_version (\<lambda>s. s) (UUID 1) 5 sample_version_create empty_store = Inr (v, st') \<and>
     create_agent_version (\<lambda>s. s) (UUID 2) 6 (sample_version_create\<lparr>av_name := ''v2''\<rparr>) st' = Inr (v, st')"
proof -
  obtain v st' where v: "create_agent_version (\<lambda>s. s) (UUID 1) 5 sample_version_create empty_store = Inr (v, st')"
    using sample_version_step by blast
  have f: "UUID 1 \<notin> set (keys (ps_agent_versions empty_store))" by (simp add: empty_store_def)
  from create_agent_version_idempotent [OF v _ _ _ _ store_ok_empty f,
      of "sample_version_create\<lparr>av_name := ''v2''\<rparr>" "UUID 2" 6]
  show ?thesis using v by simp
qed

end
