(* ===== verification/Comparison.thy ===== *)
theory Comparison
  imports Store
begin

text \<open>
  \<open>backend/app/comparison.py\<close>: the paired comparison of two runs and the first divergence of the
  traces of a regressed task. The store is the interface \<open>'s store_ops\<close>; \<open>cost_round a b\<close> is the
  floating-point \<open>round(a - b, 8)\<close>.
\<close>

section \<open>Pairing\<close>

definition by_task_step ::
  "task_execution \<Rightarrow> (string, task_execution) dict \<Rightarrow> (exc, (string, task_execution) dict) res" where
  "by_task_step execution result =
     (if ex_task_id execution \<in> set (keys result)
      then Inl (http_error 422 (''run contains multiple executions for task '' @ ex_task_id execution))
      else Inr (dict_set (ex_task_id execution) execution result))"

fun by_task_loop ::
  "task_execution list \<Rightarrow> (string, task_execution) dict \<Rightarrow> (exc, (string, task_execution) dict) res" where
  "by_task_loop [] result = Inr result"
| "by_task_loop (execution # executions) result =
     bind_res (by_task_step execution result) (by_task_loop executions)"

definition by_task :: "task_execution list \<Rightarrow> (exc, (string, task_execution) dict) res" where
  "by_task executions = by_task_loop executions []"

fun disposition :: "bool option \<Rightarrow> bool option \<Rightarrow> regression_disposition" where
  "disposition (Some True) (Some False) = REGRESSION"
| "disposition (Some False) (Some True) = IMPROVEMENT"
| "disposition (Some True) (Some True) = STABLE_PASS"
| "disposition (Some False) (Some False) = STABLE_FAILURE"
| "disposition baseline candidate = INDETERMINATE"

fun delta :: "int option \<Rightarrow> int option \<Rightarrow> int option" where
  "delta (Some candidate) (Some baseline) = Some (candidate - baseline)"
| "delta candidate baseline = None"

fun cost_delta :: "(rat \<Rightarrow> rat \<Rightarrow> rat) \<Rightarrow> rat option \<Rightarrow> rat option \<Rightarrow> rat option" where
  "cost_delta cost_round (Some candidate) (Some baseline) = Some (cost_round candidate baseline)"
| "cost_delta cost_round candidate baseline = None"

section \<open>Divergence\<close>

text \<open>\<open>payload.get(key)\<close>, and \<open>==\<close> on what two of them give.\<close>

definition payload_get :: "trace_event \<Rightarrow> string \<Rightarrow> pyval" where
  "payload_get event k = (case map_of (ev_payload event) k of None \<Rightarrow> PNone | Some v \<Rightarrow> v)"

definition event_divergence :: "trace_event \<Rightarrow> trace_event \<Rightarrow> trace_divergence_type option" where
  "event_divergence left right =
     (let left_errored = (ev_event_type left = ERROR); right_errored = (ev_event_type right = ERROR) in
      if left_errored \<noteq> right_errored then Some TOOL_ERROR
      else if left_errored \<and> right_errored
      then (if py_eq (PDict (ev_payload left)) (PDict (ev_payload right)) then None else Some TOOL_ERROR)
      else if ev_event_type left \<noteq> ev_event_type right then Some WRONG_TOOL
      else if ev_event_type left = TOOL_CALL \<and>
        \<not> (py_eq (payload_get left ''service'') (payload_get right ''service'') \<and>
           py_eq (payload_get left ''operation'') (payload_get right ''operation''))
      then Some WRONG_TOOL
      else if ev_event_type left = TOOL_CALL \<and>
        \<not> py_eq (payload_get left ''arguments'') (payload_get right ''arguments'')
      then Some INVALID_TOOL_ARGUMENT
      else if ev_event_type left = FINAL_ANSWER \<and>
        \<not> py_eq (payload_get left ''content'') (payload_get right ''content'')
      then Some FINAL_ANSWER_MISMATCH
      else None)"

fun first_divergent_pair ::
  "trace_event list \<Rightarrow> trace_event list \<Rightarrow> (trace_event \<times> trace_event \<times> trace_divergence_type) option" where
  "first_divergent_pair (left # ls) (right # rs) =
     (case event_divergence left right of
        Some divergence \<Rightarrow> Some (left, right, divergence)
      | None \<Rightarrow> first_divergent_pair ls rs)"
| "first_divergent_pair ls rs = None"

definition first_divergence ::
  "string \<Rightarrow> task_execution \<Rightarrow> task_execution \<Rightarrow> trace_event list \<Rightarrow> trace_event list
     \<Rightarrow> trace_attribution option" where
  "first_divergence task_id baseline candidate baseline_events candidate_events =
     (case first_divergent_pair baseline_events candidate_events of
        Some (left, right, divergence) \<Rightarrow>
          Some \<lparr>at_task_id = task_id, at_baseline_execution_id = ex_id baseline,
            at_candidate_execution_id = ex_id candidate, at_baseline_event_id = Some (ev_id left),
            at_candidate_event_id = Some (ev_id right), at_divergence_type = divergence,
            at_evidence = [(''baseline'', PDict (ev_payload left)), (''candidate'', PDict (ev_payload right)),
              (''sequence_no'', PInt (ev_sequence_no left))]\<rparr>
      | None \<Rightarrow>
          if length baseline_events \<noteq> length candidate_events
          then
            let missing_from_candidate = length candidate_events < length baseline_events in
            Some \<lparr>at_task_id = task_id, at_baseline_execution_id = ex_id baseline,
              at_candidate_execution_id = ex_id candidate,
              at_baseline_event_id =
                (if missing_from_candidate then Some (ev_id (baseline_events ! length candidate_events)) else None),
              at_candidate_event_id =
                (if \<not> missing_from_candidate then Some (ev_id (candidate_events ! length baseline_events)) else None),
              at_divergence_type = PREMATURE_TERMINATION,
              at_evidence = [(''baseline_event_count'', PInt (int (length baseline_events))),
                (''candidate_event_count'', PInt (int (length candidate_events)))]\<rparr>
          else None)"

section \<open>The comparison\<close>

definition compare_task ::
  "'s store_ops \<Rightarrow> (rat \<Rightarrow> rat \<Rightarrow> rat) \<Rightarrow> 's \<Rightarrow> (string, task_execution) dict \<Rightarrow> (string, task_execution) dict
     \<Rightarrow> string \<Rightarrow> (exc, paired_task_comparison) res" where
  "compare_task ops cost_round st baseline candidate task_id =
     (case (map_of baseline task_id, map_of candidate task_id) of
        (Some left, Some right) \<Rightarrow>
          let disp = disposition (ex_passed left) (ex_passed right) in
          bind_res
            (if disp = REGRESSION
             then bind_res (so_get_trace ops (ex_id left) st) (\<lambda>baseline_events.
                  bind_res (so_get_trace ops (ex_id right) st) (\<lambda>candidate_events.
                    Inr (first_divergence task_id left right baseline_events candidate_events)))
             else Inr None) (\<lambda>attribution.
          Inr \<lparr>pc_task_id = task_id, pc_disposition = disp, pc_baseline_execution_id = ex_id left,
            pc_candidate_execution_id = ex_id right, pc_baseline_passed = ex_passed left,
            pc_candidate_passed = ex_passed right,
            pc_latency_delta_ms = delta (ex_latency_ms right) (ex_latency_ms left),
            pc_cost_delta_usd = cost_delta cost_round (ex_estimated_cost_usd right) (ex_estimated_cost_usd left),
            pc_attribution = attribution\<rparr>)
      | _ \<Rightarrow> Inl (Raise KeyError (repr_str task_id)))"

definition shared_task_ids :: "(string, task_execution) dict \<Rightarrow> (string, task_execution) dict \<Rightarrow> string list" where
  "shared_task_ids baseline candidate =
     sorted_list_of_set (set (keys baseline) \<inter> set (keys candidate))"

definition compare_runs ::
  "'s store_ops \<Rightarrow> (rat \<Rightarrow> rat \<Rightarrow> rat) \<Rightarrow> uuid \<Rightarrow> uuid \<Rightarrow> 's \<Rightarrow> (exc, run_comparison) res" where
  "compare_runs ops cost_round baseline_run_id candidate_run_id st =
     bind_res (so_get_run_executions ops baseline_run_id st) (\<lambda>left_executions.
     bind_res (by_task left_executions) (\<lambda>baseline.
     bind_res (so_get_run_executions ops candidate_run_id st) (\<lambda>right_executions.
     bind_res (by_task right_executions) (\<lambda>candidate.
       if shared_task_ids baseline candidate = []
       then Inl (http_error 422 ''runs have no shared task ids to compare'')
       else
         bind_res (map_res (compare_task ops cost_round st baseline candidate) (shared_task_ids baseline candidate))
           (\<lambda>results.
         Inr \<lparr>rc_baseline_run_id = baseline_run_id, rc_candidate_run_id = candidate_run_id,
           rc_compared_tasks = length results,
           rc_regressions = length (filter (\<lambda>item. pc_disposition item = REGRESSION) results),
           rc_improvements = length (filter (\<lambda>item. pc_disposition item = IMPROVEMENT) results),
           rc_results = results\<rparr>)))))"

section \<open>Pairing and divergence, characterised\<close>

lemma by_task_loop_distinct:
  "dict_ok acc \<Longrightarrow> distinct (keys acc @ map ex_task_id es) \<Longrightarrow>
     by_task_loop es acc = Inr (acc @ map (\<lambda>e. (ex_task_id e, e)) es)"
  by (induction es arbitrary: acc) (auto simp: by_task_step_def dict_set_fresh dict_ok_def)

lemma by_task_loop_duplicate:
  "dict_ok acc \<Longrightarrow> \<not> distinct (keys acc @ map ex_task_id es) \<Longrightarrow>
     \<exists>e. e \<in> set es \<and> by_task_loop es acc =
       Inl (http_error 422 (''run contains multiple executions for task '' @ ex_task_id e))"
proof (induction es arbitrary: acc)
  case (Cons e es)
  show ?case
  proof (cases "ex_task_id e \<in> set (keys acc)")
    case False
    then show ?thesis using Cons.IH [of "acc @ [(ex_task_id e, e)]"] Cons.prems
      by (auto simp: by_task_step_def dict_set_fresh dict_ok_def)
  qed (auto simp: by_task_step_def)
qed (simp add: dict_ok_def)

lemma by_task_Inr:
  "by_task es = Inr d \<longleftrightarrow> distinct (map ex_task_id es) \<and> d = map (\<lambda>e. (ex_task_id e, e)) es"
  using by_task_loop_distinct [of "[]" es] by_task_loop_duplicate [of "[]" es]
  by (cases "distinct (map ex_task_id es)") (auto simp: by_task_def)

lemma by_task_lookup:
  "distinct (map ex_task_id es) \<Longrightarrow>
     map_of (map (\<lambda>e. (ex_task_id e, e)) es) k = Some e \<longleftrightarrow> e \<in> set es \<and> ex_task_id e = k"
  by (subst map_of_eq_Some_iff) (auto simp: comp_def)

lemma first_divergent_pair_None:
  "first_divergent_pair ls rs = None \<longleftrightarrow>
     (\<forall>i < min (length ls) (length rs). event_divergence (ls ! i) (rs ! i) = None)"
proof (induction ls rs rule: first_divergent_pair.induct)
  case (1 l ls r rs)
  show ?case using 1
    by (auto simp: less_Suc_eq_0_disj split: option.splits)
qed auto

lemma first_divergent_pair_Some:
  "first_divergent_pair ls rs = Some (l, r, dv) \<longleftrightarrow>
     (\<exists>i < min (length ls) (length rs). l = ls ! i \<and> r = rs ! i \<and> event_divergence l r = Some dv \<and>
        (\<forall>j < i. event_divergence (ls ! j) (rs ! j) = None))"
proof (induction ls rs rule: first_divergent_pair.induct)
  case (1 x xs y ys)
  show ?case
  proof (cases "event_divergence x y")
    case None
    have "(\<exists>i < min (length (x # xs)) (length (y # ys)). l = (x # xs) ! i \<and> r = (y # ys) ! i \<and>
          event_divergence l r = Some dv \<and> (\<forall>j < i. event_divergence ((x # xs) ! j) ((y # ys) ! j) = None)) \<longleftrightarrow>
        (\<exists>i < min (length xs) (length ys). l = xs ! i \<and> r = ys ! i \<and> event_divergence l r = Some dv \<and>
          (\<forall>j < i. event_divergence (xs ! j) (ys ! j) = None))" (is "?L \<longleftrightarrow> ?R")
    proof
      assume ?L
      then obtain i where i: "i < min (length (x # xs)) (length (y # ys))" "l = (x # xs) ! i" "r = (y # ys) ! i"
        "event_divergence l r = Some dv" "\<forall>j < i. event_divergence ((x # xs) ! j) ((y # ys) ! j) = None" by blast
      then obtain k where k: "i = Suc k" using None by (cases i) auto
      have "\<forall>j < k. event_divergence (xs ! j) (ys ! j) = None"
        using i(5) k by (metis Suc_less_eq nth_Cons_Suc)
      then show ?R using i k by auto
    next
      assume ?R
      then obtain i where i: "i < min (length xs) (length ys)" "l = xs ! i" "r = ys ! i"
        "event_divergence l r = Some dv" "\<forall>j < i. event_divergence (xs ! j) (ys ! j) = None" by blast
      have "\<forall>j < Suc i. event_divergence ((x # xs) ! j) ((y # ys) ! j) = None"
        using i(5) None by (auto simp: less_Suc_eq_0_disj)
      then show ?L using i by (intro exI [of _ "Suc i"]) auto
    qed
    then show ?thesis using 1 None by simp
  next
    case (Some d)
    then show ?thesis by (auto simp: nth_Cons' split: if_splits)
  qed
qed auto

lemma event_divergence_refl: "wf_dict (ev_payload e) \<Longrightarrow> event_divergence e e = None"
proof -
  assume wf: "wf_dict (ev_payload e)"
  have "py_eq (payload_get e k) (payload_get e k)" for k
    using wf_dict_lookup [OF wf] by (auto simp: payload_get_def intro: py_eq_refl split: option.splits)
  then show ?thesis using py_eq_refl [OF wf] by (simp add: event_divergence_def Let_def)
qed

lemma shared_task_ids_props:
  "sorted (shared_task_ids b c)" "distinct (shared_task_ids b c)"
  "set (shared_task_ids b c) = set (keys b) \<inter> set (keys c)"
  by (simp_all add: shared_task_ids_def)

lemma disposition_swap:
  "disposition c b = REGRESSION \<longleftrightarrow> disposition b c = IMPROVEMENT"
  "disposition c b = IMPROVEMENT \<longleftrightarrow> disposition b c = REGRESSION"
  by (cases "(b, c)" rule: disposition.cases; simp)+

lemma disposition_same: "disposition b b \<noteq> REGRESSION" "disposition b b \<noteq> IMPROVEMENT"
  by (cases "(b, b)" rule: disposition.cases; simp)+

text \<open>What a paired comparison says about the two executions it pairs.\<close>

definition pair_ok ::
  "'s store_ops \<Rightarrow> (rat \<Rightarrow> rat \<Rightarrow> rat) \<Rightarrow> 's \<Rightarrow> task_execution list \<Rightarrow> task_execution list \<Rightarrow> string
     \<Rightarrow> paired_task_comparison \<Rightarrow> bool" where
  "pair_ok ops cost_round st lefts rights task_id item \<longleftrightarrow>
     (\<exists>left right. left \<in> set lefts \<and> right \<in> set rights \<and> ex_task_id left = task_id \<and> ex_task_id right = task_id \<and>
        pc_task_id item = task_id \<and> pc_disposition item = disposition (ex_passed left) (ex_passed right) \<and>
        pc_baseline_execution_id item = ex_id left \<and> pc_candidate_execution_id item = ex_id right \<and>
        pc_latency_delta_ms item = delta (ex_latency_ms right) (ex_latency_ms left) \<and>
        pc_cost_delta_usd item = cost_delta cost_round (ex_estimated_cost_usd right) (ex_estimated_cost_usd left) \<and>
        (if pc_disposition item = REGRESSION
         then \<exists>ls rs. so_get_trace ops (ex_id left) st = Inr ls \<and> so_get_trace ops (ex_id right) st = Inr rs \<and>
                pc_attribution item = first_divergence task_id left right ls rs
         else pc_attribution item = None))"

lemma pair_ok_task: "pair_ok ops cost_round st lefts rights k item \<Longrightarrow> pc_task_id item = k"
  by (auto simp: pair_ok_def)

lemma compare_task_Inr:
  assumes "distinct (map ex_task_id lefts)" and "distinct (map ex_task_id rights)"
    and "compare_task ops cost_round st (map (\<lambda>e. (ex_task_id e, e)) lefts) (map (\<lambda>e. (ex_task_id e, e)) rights) k = Inr item"
  shows "pair_ok ops cost_round st lefts rights k item"
proof -
  obtain left right where lr: "map_of (map (\<lambda>e. (ex_task_id e, e)) lefts) k = Some left"
      "map_of (map (\<lambda>e. (ex_task_id e, e)) rights) k = Some right"
    using assms(3) by (auto simp: compare_task_def split: option.splits)
  then have "left \<in> set lefts" "right \<in> set rights" "ex_task_id left = k" "ex_task_id right = k"
    using by_task_lookup assms(1,2) by blast+
  then show ?thesis using assms(3) lr unfolding pair_ok_def
    by (intro exI [of _ left] exI [of _ right]) (auto simp: compare_task_def Let_def bind_res_eq_Inr split: if_splits)
qed

lemma compare_runs_Inr:
  assumes "compare_runs ops cost_round b c st = Inr r"
  obtains lefts rights where "so_get_run_executions ops b st = Inr lefts" "so_get_run_executions ops c st = Inr rights"
    and "distinct (map ex_task_id lefts)" and "distinct (map ex_task_id rights)"
    and "map pc_task_id (rc_results r) = sorted_list_of_set (ex_task_id ` set lefts \<inter> ex_task_id ` set rights)"
    and "rc_results r \<noteq> []"
    and "list_all (\<lambda>item. pair_ok ops cost_round st lefts rights (pc_task_id item) item) (rc_results r)"
    and "rc_compared_tasks r = length (rc_results r)"
    and "rc_regressions r = length (filter (\<lambda>item. pc_disposition item = REGRESSION) (rc_results r))"
    and "rc_improvements r = length (filter (\<lambda>item. pc_disposition item = IMPROVEMENT) (rc_results r))"
proof -
  from assms obtain lefts rights results where
      l: "so_get_run_executions ops b st = Inr lefts" "so_get_run_executions ops c st = Inr rights"
    and d: "distinct (map ex_task_id lefts)" "distinct (map ex_task_id rights)"
    and ne: "shared_task_ids (map (\<lambda>e. (ex_task_id e, e)) lefts) (map (\<lambda>e. (ex_task_id e, e)) rights) \<noteq> []"
    and res: "map_res (compare_task ops cost_round st (map (\<lambda>e. (ex_task_id e, e)) lefts) (map (\<lambda>e. (ex_task_id e, e)) rights))
        (shared_task_ids (map (\<lambda>e. (ex_task_id e, e)) lefts) (map (\<lambda>e. (ex_task_id e, e)) rights)) = Inr results"
    and r: "rc_results r = results" "rc_compared_tasks r = length results"
      "rc_regressions r = length (filter (\<lambda>item. pc_disposition item = REGRESSION) results)"
      "rc_improvements r = length (filter (\<lambda>item. pc_disposition item = IMPROVEMENT) results)"
    by (auto simp: compare_runs_def bind_res_eq_Inr by_task_Inr split: if_splits)
  let ?ids = "shared_task_ids (map (\<lambda>e. (ex_task_id e, e)) lefts) (map (\<lambda>e. (ex_task_id e, e)) rights)"
  have pairs: "list_all2 (\<lambda>k item. pair_ok ops cost_round st lefts rights k item) ?ids results"
    using res unfolding map_res_Inr_iff by (rule list_all2_mono) (rule compare_task_Inr [OF d])
  have ids: "map pc_task_id results = ?ids"
    using pairs by (induction rule: list_all2_induct) (auto dest: pair_ok_task)
  have "list_all (\<lambda>item. pair_ok ops cost_round st lefts rights (pc_task_id item) item) results"
    using pairs by (induction rule: list_all2_induct) (auto dest: pair_ok_task)
  moreover have "?ids = sorted_list_of_set (ex_task_id ` set lefts \<inter> ex_task_id ` set rights)"
    by (simp add: shared_task_ids_def image_image)
  moreover have "results \<noteq> []" using ids ne by auto
  ultimately show thesis using ids r by (intro that [OF l d]) simp_all
qed

lemma distinct_task_unique:
  "distinct (map ex_task_id es) \<Longrightarrow> a \<in> set es \<Longrightarrow> b \<in> set es \<Longrightarrow> ex_task_id a = ex_task_id b \<Longrightarrow> a = b"
  by (metis distinct_map inj_onD)

lemma pair_ok_swap:
  assumes "pair_ok ops cost_round st lefts rights k item" and "pair_ok ops cost_round st rights lefts k item'"
    and "distinct (map ex_task_id lefts)" and "distinct (map ex_task_id rights)"
  shows "pc_disposition item' = REGRESSION \<longleftrightarrow> pc_disposition item = IMPROVEMENT"
    and "pc_disposition item' = IMPROVEMENT \<longleftrightarrow> pc_disposition item = REGRESSION"
    and "pc_latency_delta_ms item' = map_option uminus (pc_latency_delta_ms item)"
proof -
  obtain l r where lr: "l \<in> set lefts" "r \<in> set rights" "ex_task_id l = k" "ex_task_id r = k"
      "pc_disposition item = disposition (ex_passed l) (ex_passed r)"
      "pc_latency_delta_ms item = delta (ex_latency_ms r) (ex_latency_ms l)"
    using assms(1) unfolding pair_ok_def by blast
  obtain l' r' where lr': "l' \<in> set rights" "r' \<in> set lefts" "ex_task_id l' = k" "ex_task_id r' = k"
      "pc_disposition item' = disposition (ex_passed l') (ex_passed r')"
      "pc_latency_delta_ms item' = delta (ex_latency_ms r') (ex_latency_ms l')"
    using assms(2) unfolding pair_ok_def by blast
  have eq: "l' = r" "r' = l" using lr lr' assms(3,4) distinct_task_unique by metis+
  show "pc_disposition item' = REGRESSION \<longleftrightarrow> pc_disposition item = IMPROVEMENT"
    "pc_disposition item' = IMPROVEMENT \<longleftrightarrow> pc_disposition item = REGRESSION"
    using lr(5) lr'(5) eq disposition_swap by simp_all
  show "pc_latency_delta_ms item' = map_option uminus (pc_latency_delta_ms item)"
    using lr(6) lr'(6) eq by (cases "ex_latency_ms l"; cases "ex_latency_ms r") simp_all
qed

lemma filter_length_transfer:
  "list_all2 (\<lambda>a b. P a \<longleftrightarrow> Q b) xs ys \<Longrightarrow> length (filter P xs) = length (filter Q ys)"
  by (induction rule: list_all2_induct) auto

text \<open>In a platform store every execution of a run has a trace, so comparing cannot fail half-way.\<close>

lemma platform_run_executions:
  assumes "store_ok sha256 st" and "so_get_run_executions platform_ops b st = Inr es"
  shows "list_all (\<lambda>e. \<exists>t. so_get_trace platform_ops (ex_id e) st = Inr t) es"
proof -
  have k: "keyed_by ex_id (ps_executions st)" using assms(1) by (simp add: store_ok_def)
  have "\<exists>t. get_trace (ex_id e) st = Inr t" if "e \<in> set es" for e
  proof -
    have "e \<in> snd ` set (ps_executions st)"
      using assms(2) that by (auto simp: platform_ops_def get_run_executions_def split: if_splits)
    then have "(ex_id e, e) \<in> set (ps_executions st)" using k by (auto simp: keyed_by_def list_all_iff)
    then have "map_of (ps_executions st) (ex_id e) = Some e" using k by (simp add: keyed_by_def dict_ok_def)
    then show ?thesis by (simp add: get_trace_Inr)
  qed
  then show ?thesis by (simp add: list_all_iff platform_ops_def)
qed

lemma compare_runs_total:
  assumes "so_get_run_executions ops b st = Inr lefts" and "so_get_run_executions ops c st = Inr rights"
    and "distinct (map ex_task_id lefts)" and "distinct (map ex_task_id rights)"
    and "ex_task_id ` set lefts \<inter> ex_task_id ` set rights \<noteq> {}"
    and "list_all (\<lambda>e. \<exists>t. so_get_trace ops (ex_id e) st = Inr t) lefts"
    and "list_all (\<lambda>e. \<exists>t. so_get_trace ops (ex_id e) st = Inr t) rights"
  shows "\<exists>r. compare_runs ops cost_round b c st = Inr r"
proof -
  let ?L = "map (\<lambda>e. (ex_task_id e, e)) lefts" and ?R = "map (\<lambda>e. (ex_task_id e, e)) rights"
  have ids: "set (shared_task_ids ?L ?R) = ex_task_id ` set lefts \<inter> ex_task_id ` set rights"
    by (simp add: shared_task_ids_def image_image)
  have "\<exists>item. compare_task ops cost_round st ?L ?R k = Inr item" if kin: "k \<in> set (shared_task_ids ?L ?R)" for k
  proof -
    obtain l r where lr: "l \<in> set lefts" "r \<in> set rights" "ex_task_id l = k" "ex_task_id r = k"
      using kin unfolding ids by auto
    then have "map_of ?L k = Some l" "map_of ?R k = Some r" using by_task_lookup assms(3,4) by blast+
    moreover obtain tl tr where "so_get_trace ops (ex_id l) st = Inr tl" "so_get_trace ops (ex_id r) st = Inr tr"
      using lr assms(6,7) unfolding list_all_iff by blast
    ultimately show ?thesis by (simp add: compare_task_def Let_def)
  qed
  then have "\<forall>k \<in> set (shared_task_ids ?L ?R). \<exists>item. compare_task ops cost_round st ?L ?R k = Inr item" by blast
  from bchoice [OF this] obtain f
    where "\<And>k. k \<in> set (shared_task_ids ?L ?R) \<Longrightarrow> compare_task ops cost_round st ?L ?R k = Inr (f k)" by blast
  then have "map_res (compare_task ops cost_round st ?L ?R) (shared_task_ids ?L ?R) = Inr (map f (shared_task_ids ?L ?R))"
    by (rule map_res_all_ok)
  moreover have "shared_task_ids ?L ?R \<noteq> []" using ids assms(5) by force
  moreover have "by_task lefts = Inr ?L" "by_task rights = Inr ?R" using assms(3,4) by (simp_all add: by_task_Inr)
  ultimately show ?thesis using assms(1,2) by (simp add: compare_runs_def)
qed

section \<open>Properties of comparisons\<close>

text \<open>C7: A comparison reports exactly the tasks both runs executed, each once and in order, pairs
  the two executions of the task, takes the disposition from their verdicts, attributes
  regressions and nothing else, and its counts are those of its results.\<close>

theorem comparison_pairs_shared_tasks:
  assumes "compare_runs ops cost_round b c st = Inr r"
  shows "\<exists>lefts rights. so_get_run_executions ops b st = Inr lefts \<and> so_get_run_executions ops c st = Inr rights \<and>
    map pc_task_id (rc_results r) = sorted_list_of_set (ex_task_id ` set lefts \<inter> ex_task_id ` set rights) \<and>
    rc_results r \<noteq> [] \<and>
    list_all (\<lambda>item. pair_ok ops cost_round st lefts rights (pc_task_id item) item) (rc_results r) \<and>
    rc_compared_tasks r = length (rc_results r) \<and>
    rc_regressions r = length (filter (\<lambda>item. pc_disposition item = REGRESSION) (rc_results r)) \<and>
    rc_improvements r = length (filter (\<lambda>item. pc_disposition item = IMPROVEMENT) (rc_results r))"
  using assms by (elim compare_runs_Inr) blast

text \<open>C26: The attribution of a regression is the first divergence: every earlier pair of events agrees;
  it names the first pair that does not, or, when one trace is a prefix of the other in this sense,
  the first event the shorter one lacks; there is none exactly when the traces agree throughout.\<close>

theorem first_divergence_is_first:
  "case first_divergence task_id left right ls rs of
     None \<Rightarrow> length ls = length rs \<and> (\<forall>i < length ls. event_divergence (ls ! i) (rs ! i) = None)
   | Some a \<Rightarrow>
       (\<exists>i < min (length ls) (length rs). at_baseline_event_id a = Some (ev_id (ls ! i)) \<and>
          at_candidate_event_id a = Some (ev_id (rs ! i)) \<and>
          event_divergence (ls ! i) (rs ! i) = Some (at_divergence_type a) \<and>
          (\<forall>j < i. event_divergence (ls ! j) (rs ! j) = None)) \<or>
       (length ls \<noteq> length rs \<and> at_divergence_type a = PREMATURE_TERMINATION \<and>
          (\<forall>i < min (length ls) (length rs). event_divergence (ls ! i) (rs ! i) = None) \<and>
          at_baseline_event_id a = (if length rs < length ls then Some (ev_id (ls ! length rs)) else None) \<and>
          at_candidate_event_id a = (if length ls < length rs then Some (ev_id (rs ! length ls)) else None))"
proof (cases "first_divergent_pair ls rs")
  case None
  then show ?thesis using first_divergent_pair_None [of ls rs]
    by (auto simp: first_divergence_def Let_def)
next
  case (Some x)
  obtain l r dv where x: "x = (l, r, dv)" by (cases x) auto
  then obtain i where "i < min (length ls) (length rs)" "l = ls ! i" "r = rs ! i" "event_divergence l r = Some dv"
      "\<forall>j < i. event_divergence (ls ! j) (rs ! j) = None"
    using first_divergent_pair_Some [of ls rs l r dv] Some by blast
  then show ?thesis using Some x by (auto simp: first_divergence_def)
qed

text \<open>A run compared with itself has no regression, no improvement and no attribution.\<close>

theorem self_comparison_is_clean:
  assumes "compare_runs ops cost_round b b st = Inr r"
  shows "rc_regressions r = 0 \<and> rc_improvements r = 0 \<and> list_all (\<lambda>item. pc_attribution item = None) (rc_results r)"
proof -
  obtain lefts where l: "distinct (map ex_task_id lefts)"
    and items: "list_all (\<lambda>item. pair_ok ops cost_round st lefts lefts (pc_task_id item) item) (rc_results r)"
    and n: "rc_regressions r = length (filter (\<lambda>item. pc_disposition item = REGRESSION) (rc_results r))"
      "rc_improvements r = length (filter (\<lambda>item. pc_disposition item = IMPROVEMENT) (rc_results r))"
    using assms by (elim compare_runs_Inr) (metis sum.inject(2))
  have "pc_disposition item \<noteq> REGRESSION \<and> pc_disposition item \<noteq> IMPROVEMENT \<and> pc_attribution item = None"
    if "item \<in> set (rc_results r)" for item
  proof -
    have "pair_ok ops cost_round st lefts lefts (pc_task_id item) item" using items that by (simp add: list_all_iff)
    then obtain x y where xy: "x \<in> set lefts" "y \<in> set lefts" "ex_task_id x = ex_task_id y"
        "pc_disposition item = disposition (ex_passed x) (ex_passed y)"
      and att: "pc_disposition item \<noteq> REGRESSION \<longrightarrow> pc_attribution item = None"
      unfolding pair_ok_def by (metis (full_types))
    then have "x = y" using distinct_task_unique [OF l] by blast
    then show ?thesis using xy att disposition_same by simp
  qed
  then show ?thesis using n by (simp add: list_all_iff filter_empty_conv)
qed

text \<open>Comparing in the other direction swaps regressions with improvements, task by task, and
  negates the latency deltas; in a store that keeps its invariant it succeeds whenever the
  comparison in the first direction did.\<close>

theorem comparison_is_antisymmetric:
  assumes "store_ok sha256 st" and "compare_runs platform_ops cost_round b c st = Inr r"
  shows "\<exists>r'. compare_runs platform_ops cost_round c b st = Inr r' \<and>
    map pc_task_id (rc_results r') = map pc_task_id (rc_results r) \<and>
    rc_regressions r' = rc_improvements r \<and> rc_improvements r' = rc_regressions r \<and>
    map pc_latency_delta_ms (rc_results r') = map (map_option uminus \<circ> pc_latency_delta_ms) (rc_results r)"
proof -
  obtain lefts rights where l: "so_get_run_executions platform_ops b st = Inr lefts"
      "so_get_run_executions platform_ops c st = Inr rights"
    and d: "distinct (map ex_task_id lefts)" "distinct (map ex_task_id rights)"
    and ids: "map pc_task_id (rc_results r) = sorted_list_of_set (ex_task_id ` set lefts \<inter> ex_task_id ` set rights)"
    and ne: "rc_results r \<noteq> []"
    and items: "list_all (\<lambda>item. pair_ok platform_ops cost_round st lefts rights (pc_task_id item) item) (rc_results r)"
    and n: "rc_regressions r = length (filter (\<lambda>item. pc_disposition item = REGRESSION) (rc_results r))"
      "rc_improvements r = length (filter (\<lambda>item. pc_disposition item = IMPROVEMENT) (rc_results r))"
    using assms(2) by (rule compare_runs_Inr)
  have "ex_task_id ` set rights \<inter> ex_task_id ` set lefts \<noteq> {}" using ids ne by (auto simp: Int_commute)
  then obtain r' where r': "compare_runs platform_ops cost_round c b st = Inr r'"
    using compare_runs_total [OF l(2,1) d(2,1)] platform_run_executions [OF assms(1)] l by blast
  obtain ids': "map pc_task_id (rc_results r') = sorted_list_of_set (ex_task_id ` set rights \<inter> ex_task_id ` set lefts)"
    and items': "list_all (\<lambda>item. pair_ok platform_ops cost_round st rights lefts (pc_task_id item) item) (rc_results r')"
    and n': "rc_regressions r' = length (filter (\<lambda>item. pc_disposition item = REGRESSION) (rc_results r'))"
      "rc_improvements r' = length (filter (\<lambda>item. pc_disposition item = IMPROVEMENT) (rc_results r'))"
    using r' by (rule compare_runs_Inr) (use l in simp)
  have same: "map pc_task_id (rc_results r') = map pc_task_id (rc_results r)"
    unfolding ids ids' by (simp add: Int_commute)
  then have len: "length (rc_results r') = length (rc_results r)" by (metis length_map)
  have both: "list_all2 (\<lambda>i' i. (pc_disposition i' = REGRESSION \<longleftrightarrow> pc_disposition i = IMPROVEMENT) \<and>
      (pc_disposition i' = IMPROVEMENT \<longleftrightarrow> pc_disposition i = REGRESSION) \<and>
      pc_latency_delta_ms i' = map_option uminus (pc_latency_delta_ms i)) (rc_results r') (rc_results r)"
  proof (rule list_all2_all_nthI [OF len])
    fix n assume n: "n < length (rc_results r')"
    have k: "pc_task_id (rc_results r' ! n) = pc_task_id (rc_results r ! n)"
      using same n len by (metis nth_map)
    have p: "pair_ok platform_ops cost_round st lefts rights (pc_task_id (rc_results r ! n)) (rc_results r ! n)"
      using items n len by (simp add: list_all_length)
    have p': "pair_ok platform_ops cost_round st rights lefts (pc_task_id (rc_results r ! n)) (rc_results r' ! n)"
      using items' n unfolding k [symmetric] list_all_length by blast
    show "(pc_disposition (rc_results r' ! n) = REGRESSION \<longleftrightarrow> pc_disposition (rc_results r ! n) = IMPROVEMENT) \<and>
      (pc_disposition (rc_results r' ! n) = IMPROVEMENT \<longleftrightarrow> pc_disposition (rc_results r ! n) = REGRESSION) \<and>
      pc_latency_delta_ms (rc_results r' ! n) = map_option uminus (pc_latency_delta_ms (rc_results r ! n))"
      using pair_ok_swap [OF p p' d] by blast
  qed
  have "map pc_latency_delta_ms (rc_results r') = map (map_option uminus \<circ> pc_latency_delta_ms) (rc_results r)"
    using both by (induction rule: list_all2_induct) auto
  moreover have "rc_regressions r' = rc_improvements r" "rc_improvements r' = rc_regressions r"
    unfolding n n' by (rule filter_length_transfer, rule list_all2_mono [OF both], blast)+
  ultimately show ?thesis using r' same by blast
qed

text \<open>A store with two runs of one task, the second a regression, for the concrete instances.\<close>

definition sample_execution :: "nat \<Rightarrow> nat \<Rightarrow> execution_status \<Rightarrow> bool \<Rightarrow> task_execution" where
  "sample_execution n run s passed =
     \<lparr>ex_task_id = ''t'', ex_task_seed = 0, ex_id = UUID n, ex_run_id = UUID run, ex_status = s,
      ex_passed = Some passed, ex_final_output = Some ''ok'', ex_latency_ms = Some 10, ex_input_tokens = Some 0,
      ex_output_tokens = Some 0, ex_estimated_cost_usd = Some 0, ex_missing_expected_actions = [],
      ex_forbidden_actions_seen = [], ex_final_state_mismatches = [], ex_created_at = 0, ex_finished_at = Some 1\<rparr>"

definition sample_run :: "nat \<Rightarrow> evaluation_run" where
  "sample_run n =
     \<lparr>run_agent_version_id = UUID 1, run_suite_id = ''s'', run_suite_version = ''1'', run_suite_manifest_hash = ''0000000'',
      run_seed = 0, run_id = UUID n, run_status_of = RUN_QUEUED, run_created_at = 0, run_finished_at = None\<rparr>"

definition sample_event :: trace_event where
  "sample_event = stored_event (UUID 20) 3
     \<lparr>ev_id = UUID 30, ev_sequence_no = 0, ev_event_type = FINAL_ANSWER, ev_payload = [(''content'', PStr ''ok'')],
      ev_parent_event_id = None, ev_duration_ms = None\<rparr>"

definition sample_platform :: platform_store where
  "sample_platform =
     \<lparr>ps_agent_versions = [(UUID 1, agent_version_create.extend sample_version_create
        \<lparr>av_id = UUID 1, av_content_hash = compute_agent_version_content_hash (\<lambda>s. s) ''m'' ''help'' ''0000000'' [],
         av_created_at = 0\<rparr>)],
      ps_runs = [(UUID 10, sample_run 10), (UUID 11, sample_run 11)],
      ps_executions = [(UUID 20, sample_execution 20 10 PASSED True), (UUID 21, sample_execution 21 11 FAILED False)],
      ps_events = (\<lambda>u. if u = UUID 20 then [sample_event] else []), ps_verdicts = (\<lambda>u. [])\<rparr>"

lemma store_ok_sample: "store_ok (\<lambda>s. s) sample_platform"
proof -
  have "no_sensitive (PDict (ev_payload sample_event))" by code_simp
  moreover have "ev_execution_id sample_event = UUID 20" "0 \<le> ev_sequence_no sample_event"
    by (simp_all add: sample_event_def)
  ultimately have "events_ok (UUID 20) [sample_event]" by (simp add: events_ok_def del: no_sensitive.simps)
  then show ?thesis
    by (simp add: store_ok_def sample_platform_def keyed_by_def sample_run_def sample_execution_def hash_ok_def
        execution_ok_def sample_version_create_def agent_version_create.defs events_ok_def) blast
qed

definition exact_delta :: "rat \<Rightarrow> rat \<Rightarrow> rat" where
  "exact_delta a b = a - b"

lemma sample_comparison:
  "\<exists>r. compare_runs platform_ops exact_delta (UUID 10) (UUID 11) sample_platform = Inr r"
  "\<exists>r. compare_runs platform_ops exact_delta (UUID 10) (UUID 10) sample_platform = Inr r"
proof -
  let ?l = "[sample_execution 20 10 PASSED True]" and ?r = "[sample_execution 21 11 FAILED False]"
  have l: "so_get_run_executions platform_ops (UUID 10) sample_platform = Inr ?l"
    and r: "so_get_run_executions platform_ops (UUID 11) sample_platform = Inr ?r"
    by (simp_all add: platform_ops_def get_run_executions_def sample_platform_def sample_execution_def)
  note tl = platform_run_executions [OF store_ok_sample l] and tr = platform_run_executions [OF store_ok_sample r]
  show "\<exists>r. compare_runs platform_ops exact_delta (UUID 10) (UUID 11) sample_platform = Inr r"
    by (rule compare_runs_total [OF l r _ _ _ tl tr]) (simp_all add: sample_execution_def)
  show "\<exists>r. compare_runs platform_ops exact_delta (UUID 10) (UUID 10) sample_platform = Inr r"
    by (rule compare_runs_total [OF l l _ _ _ tl tl]) simp_all
qed

theorem comparison_pairs_shared_tasks_witness:
  "\<exists>r. compare_runs platform_ops exact_delta (UUID 10) (UUID 11) sample_platform = Inr r \<and> rc_compared_tasks r = 1"
proof -
  obtain r where r: "compare_runs platform_ops exact_delta (UUID 10) (UUID 11) sample_platform = Inr r"
    using sample_comparison(1) by blast
  have l: "so_get_run_executions platform_ops (UUID 10) sample_platform = Inr [sample_execution 20 10 PASSED True]"
    and rr: "so_get_run_executions platform_ops (UUID 11) sample_platform = Inr [sample_execution 21 11 FAILED False]"
    by (simp_all add: platform_ops_def get_run_executions_def sample_platform_def sample_execution_def)
  have "map pc_task_id (rc_results r) = [''t'']" "rc_compared_tasks r = length (rc_results r)"
    using comparison_pairs_shared_tasks [OF r] l rr by (auto simp: sample_execution_def)
  then show ?thesis using r by (metis length_map length_Cons list.size(3) One_nat_def)
qed

theorem first_divergence_is_first_witness:
  "\<exists>a. first_divergence ''t'' (sample_execution 20 10 PASSED True) (sample_execution 21 11 FAILED False) [sample_event] [] =
     Some a \<and> at_divergence_type a = PREMATURE_TERMINATION \<and> at_baseline_event_id a = Some (UUID 30)"
proof -
  let ?d = "first_divergence ''t'' (sample_execution 20 10 PASSED True) (sample_execution 21 11 FAILED False) [sample_event] []"
  have "ev_id sample_event = UUID 30" by (simp add: sample_event_def)
  then show ?thesis
    using first_divergence_is_first [where task_id = "''t''" and left = "sample_execution 20 10 PASSED True"
        and right = "sample_execution 21 11 FAILED False" and ls = "[sample_event]" and rs = "[]"]
    by (cases ?d) auto
qed

theorem self_comparison_is_clean_witness:
  "\<exists>r. compare_runs platform_ops exact_delta (UUID 10) (UUID 10) sample_platform = Inr r \<and> rc_regressions r = 0"
proof -
  obtain r where r: "compare_runs platform_ops exact_delta (UUID 10) (UUID 10) sample_platform = Inr r"
    using sample_comparison(2) by blast
  then show ?thesis using self_comparison_is_clean [OF r] by blast
qed

theorem comparison_is_antisymmetric_witness:
  "\<exists>r. compare_runs platform_ops exact_delta (UUID 11) (UUID 10) sample_platform = Inr r"
  using sample_comparison(1) comparison_is_antisymmetric [OF store_ok_sample] by blast

end
