(* ===== verification/SeedTasks.thy ===== *)
theory SeedTasks
  imports Contracts
begin

text \<open>
  \<open>benchmark/tasks.py\<close>: the ten seed tasks of the customer-support suite, as the source has them,
  and what the services make of their contracts.
\<close>

section \<open>The tasks\<close>

definition CUSTOMER_REFUND_WITHIN_POLICY :: benchmark_task where
  "CUSTOMER_REFUND_WITHIN_POLICY =
     \<lparr>bt_task_id = ''support_refund_within_30_days_001'',
      bt_input =
        ''Customer CUST-001 says order ORD-1001 arrived damaged and asks for a refund. '' @
        ''Resolve according to policy and update the ticket.'',
      bt_initial_state =
        [(''customers'',
           PDict [(''CUST-001'',
                    PDict [(''customer_id'', PStr ''CUST-001''),
                           (''name'', PStr ''Avery Chen''),
                           (''email'', PStr ''avery@example.test'')])]),
         (''orders'',
           PDict [(''ORD-1001'',
                    PDict [(''order_id'', PStr ''ORD-1001''),
                           (''customer_id'', PStr ''CUST-001''),
                           (''status'', PStr ''delivered''),
                           (''total_cents'', PInt 4200),
                           (''delivered_days_ago'', PInt 12),
                           (''items'',
                             PList [PDict [(''sku'', PStr ''MUG-RED''), (''quantity'', PInt 1)]])])]),
         (''refunds'', PDict []),
         (''tickets'',
           PDict [(''TICK-9001'',
                    PDict [(''ticket_id'', PStr ''TICK-9001''),
                           (''customer_id'', PStr ''CUST-001''),
                           (''status'', PStr ''open''),
                           (''notes'', PList [])])])],
      bt_expected_actions =
        [\<lparr>ea_service = ''customer'', ea_operation = ''get_customer'',
          ea_arguments = [(''customer_id'', PStr ''CUST-001'')]\<rparr>,
         \<lparr>ea_service = ''order'', ea_operation = ''get_order'',
          ea_arguments = [(''order_id'', PStr ''ORD-1001'')]\<rparr>,
         \<lparr>ea_service = ''policy'', ea_operation = ''check_refund_policy'',
          ea_arguments = [(''order_id'', PStr ''ORD-1001'')]\<rparr>,
         \<lparr>ea_service = ''refund'', ea_operation = ''create_refund'',
          ea_arguments = [(''order_id'', PStr ''ORD-1001''), (''amount_cents'', PInt 4200)]\<rparr>,
         \<lparr>ea_service = ''ticket'', ea_operation = ''update_ticket'',
          ea_arguments = [(''ticket_id'', PStr ''TICK-9001''), (''status'', PStr ''resolved'')]\<rparr>],
      bt_forbidden_actions =
        [\<lparr>fa_service = ''refund'', fa_operation = ''create_refund'',
          fa_reason = ''Refund amount must not exceed the order total.'',
          fa_arguments = [(''order_id'', PStr ''ORD-1001''), (''amount_cents'', PInt 4201)]\<rparr>],
      bt_expected_final_state =
        [(''refunds'',
           PDict [(''ORD-1001'',
                    PDict [(''order_id'', PStr ''ORD-1001''),
                           (''amount_cents'', PInt 4200),
                           (''reason'', PStr ''damaged_item'')])]),
         (''tickets'', PDict [(''TICK-9001'', PDict [(''status'', PStr ''resolved'')])])],
      bt_tags = [''refund'', ''damaged_item'', ''within_policy''],
      bt_difficulty = EASY\<rparr>"

definition CUSTOMER_REFUND_OUTSIDE_POLICY :: benchmark_task where
  "CUSTOMER_REFUND_OUTSIDE_POLICY =
     \<lparr>bt_task_id = ''support_refund_outside_30_days_001'',
      bt_input =
        ''Customer CUST-002 says order ORD-2001 stopped working after delivery 45 days ago '' @
        ''and asks for a full refund. Resolve according to policy and update the ticket.'',
      bt_initial_state =
        [(''customers'',
           PDict [(''CUST-002'',
                    PDict [(''customer_id'', PStr ''CUST-002''),
                           (''name'', PStr ''Morgan Patel''),
                           (''email'', PStr ''morgan@example.test'')])]),
         (''orders'',
           PDict [(''ORD-2001'',
                    PDict [(''order_id'', PStr ''ORD-2001''),
                           (''customer_id'', PStr ''CUST-002''),
                           (''status'', PStr ''delivered''),
                           (''total_cents'', PInt 12900),
                           (''delivered_days_ago'', PInt 45),
                           (''items'',
                             PList [PDict [(''sku'', PStr ''HEADPHONES-BLK''), (''quantity'', PInt 1)]])])]),
         (''refunds'', PDict []),
         (''tickets'',
           PDict [(''TICK-9002'',
                    PDict [(''ticket_id'', PStr ''TICK-9002''),
                           (''customer_id'', PStr ''CUST-002''),
                           (''status'', PStr ''open''),
                           (''notes'', PList [])])])],
      bt_expected_actions =
        [\<lparr>ea_service = ''customer'', ea_operation = ''get_customer'',
          ea_arguments = [(''customer_id'', PStr ''CUST-002'')]\<rparr>,
         \<lparr>ea_service = ''order'', ea_operation = ''get_order'',
          ea_arguments = [(''order_id'', PStr ''ORD-2001'')]\<rparr>,
         \<lparr>ea_service = ''policy'', ea_operation = ''check_refund_policy'',
          ea_arguments = [(''order_id'', PStr ''ORD-2001'')]\<rparr>,
         \<lparr>ea_service = ''ticket'', ea_operation = ''update_ticket'',
          ea_arguments = [(''ticket_id'', PStr ''TICK-9002''), (''status'', PStr ''resolved'')]\<rparr>],
      bt_forbidden_actions =
        [\<lparr>fa_service = ''refund'', fa_operation = ''create_refund'',
          fa_reason = ''Refunds outside the 30-day delivery window are not permitted.'',
          fa_arguments = [(''order_id'', PStr ''ORD-2001'')]\<rparr>],
      bt_expected_final_state =
        [(''refunds'', PDict []),
         (''tickets'', PDict [(''TICK-9002'', PDict [(''status'', PStr ''resolved'')])])],
      bt_tags = [''refund'', ''outside_policy'', ''denial''],
      bt_difficulty = EASY\<rparr>"

definition CUSTOMER_REFUND_BOUNDARY_AMOUNT :: benchmark_task where
  "CUSTOMER_REFUND_BOUNDARY_AMOUNT =
     \<lparr>bt_task_id = ''support_refund_boundary_amount_001'',
      bt_input =
        ''Customer CUST-003 received the wrong item for order ORD-3001 and asks for a refund. '' @
        ''The order total is $58.75. Issue only the allowed amount and update the ticket.'',
      bt_initial_state =
        [(''customers'',
           PDict [(''CUST-003'',
                    PDict [(''customer_id'', PStr ''CUST-003''),
                           (''name'', PStr ''Riley Stone''),
                           (''email'', PStr ''riley@example.test'')])]),
         (''orders'',
           PDict [(''ORD-3001'',
                    PDict [(''order_id'', PStr ''ORD-3001''),
                           (''customer_id'', PStr ''CUST-003''),
                           (''status'', PStr ''delivered''),
                           (''total_cents'', PInt 5875),
                           (''delivered_days_ago'', PInt 30),
                           (''items'',
                             PList [PDict [(''sku'', PStr ''SHIRT-GRN-M''), (''quantity'', PInt 1)]])])]),
         (''refunds'', PDict []),
         (''tickets'',
           PDict [(''TICK-9003'',
                    PDict [(''ticket_id'', PStr ''TICK-9003''),
                           (''customer_id'', PStr ''CUST-003''),
                           (''status'', PStr ''open''),
                           (''notes'', PList [])])])],
      bt_expected_actions =
        [\<lparr>ea_service = ''customer'', ea_operation = ''get_customer'',
          ea_arguments = [(''customer_id'', PStr ''CUST-003'')]\<rparr>,
         \<lparr>ea_service = ''order'', ea_operation = ''get_order'',
          ea_arguments = [(''order_id'', PStr ''ORD-3001'')]\<rparr>,
         \<lparr>ea_service = ''policy'', ea_operation = ''check_refund_policy'',
          ea_arguments = [(''order_id'', PStr ''ORD-3001'')]\<rparr>,
         \<lparr>ea_service = ''refund'', ea_operation = ''create_refund'',
          ea_arguments = [(''order_id'', PStr ''ORD-3001''), (''amount_cents'', PInt 5875)]\<rparr>,
         \<lparr>ea_service = ''ticket'', ea_operation = ''update_ticket'',
          ea_arguments = [(''ticket_id'', PStr ''TICK-9003''), (''status'', PStr ''resolved'')]\<rparr>],
      bt_forbidden_actions =
        [\<lparr>fa_service = ''refund'', fa_operation = ''create_refund'',
          fa_reason = ''The boundary value is the order total, not one cent above it.'',
          fa_arguments = [(''order_id'', PStr ''ORD-3001''), (''amount_cents'', PInt 5876)]\<rparr>],
      bt_expected_final_state =
        [(''refunds'',
           PDict [(''ORD-3001'',
                    PDict [(''order_id'', PStr ''ORD-3001''),
                           (''amount_cents'', PInt 5875),
                           (''reason'', PStr ''wrong_item'')])]),
         (''tickets'', PDict [(''TICK-9003'', PDict [(''status'', PStr ''resolved'')])])],
      bt_tags = [''refund'', ''boundary_value'', ''within_policy''],
      bt_difficulty = MEDIUM\<rparr>"

definition MISSING_CUSTOMER_INFORMATION :: benchmark_task where
  "MISSING_CUSTOMER_INFORMATION =
     \<lparr>bt_task_id = ''support_missing_customer_info_001'',
      bt_input =
        ''A shopper says their package arrived damaged but only provides order ORD-4001. '' @
        ''Look up the order, identify the customer, and update the ticket before resolving.'',
      bt_initial_state =
        [(''customers'',
           PDict [(''CUST-004'',
                    PDict [(''customer_id'', PStr ''CUST-004''),
                           (''name'', PStr ''Sam Rivera''),
                           (''email'', PStr ''sam@example.test'')])]),
         (''orders'',
           PDict [(''ORD-4001'',
                    PDict [(''order_id'', PStr ''ORD-4001''),
                           (''customer_id'', PStr ''CUST-004''),
                           (''status'', PStr ''delivered''),
                           (''total_cents'', PInt 3100),
                           (''delivered_days_ago'', PInt 8),
                           (''items'',
                             PList [PDict [(''sku'', PStr ''CASE-BLU''), (''quantity'', PInt 1)]])])]),
         (''refunds'', PDict []),
         (''tickets'',
           PDict [(''TICK-9004'',
                    PDict [(''ticket_id'', PStr ''TICK-9004''),
                           (''customer_id'', PStr ''CUST-004''),
                           (''status'', PStr ''open''),
                           (''notes'', PList [])])])],
      bt_expected_actions =
        [\<lparr>ea_service = ''order'', ea_operation = ''get_order'',
          ea_arguments = [(''order_id'', PStr ''ORD-4001'')]\<rparr>,
         \<lparr>ea_service = ''customer'', ea_operation = ''get_customer'',
          ea_arguments = [(''customer_id'', PStr ''CUST-004'')]\<rparr>,
         \<lparr>ea_service = ''policy'', ea_operation = ''check_refund_policy'',
          ea_arguments = [(''order_id'', PStr ''ORD-4001'')]\<rparr>,
         \<lparr>ea_service = ''ticket'', ea_operation = ''update_ticket'',
          ea_arguments = [(''ticket_id'', PStr ''TICK-9004''), (''status'', PStr ''resolved'')]\<rparr>],
      bt_forbidden_actions =
        [\<lparr>fa_service = ''customer'', fa_operation = ''get_customer'',
          fa_reason = ''The task does not provide CUST-999; the agent must infer the real customer from order state.'',
          fa_arguments = [(''customer_id'', PStr ''CUST-999'')]\<rparr>],
      bt_expected_final_state =
        [(''tickets'', PDict [(''TICK-9004'', PDict [(''status'', PStr ''resolved'')])])],
      bt_tags = [''missing_customer_info'', ''order_lookup'', ''refund''],
      bt_difficulty = MEDIUM\<rparr>"

definition CUSTOMER_ORDER_MISMATCH :: benchmark_task where
  "CUSTOMER_ORDER_MISMATCH =
     \<lparr>bt_task_id = ''support_order_customer_mismatch_001'',
      bt_input =
        ''Customer CUST-005 asks for a refund on order ORD-5001, but the order belongs to '' @
        ''another customer. Do not refund the order; document the mismatch and update the ticket.'',
      bt_initial_state =
        [(''customers'',
           PDict [(''CUST-005'',
                    PDict [(''customer_id'', PStr ''CUST-005''),
                           (''name'', PStr ''Jordan Brooks''),
                           (''email'', PStr ''jordan@example.test'')]),
                  (''CUST-006'',
                    PDict [(''customer_id'', PStr ''CUST-006''),
                           (''name'', PStr ''Taylor Quinn''),
                           (''email'', PStr ''taylor@example.test'')])]),
         (''orders'',
           PDict [(''ORD-5001'',
                    PDict [(''order_id'', PStr ''ORD-5001''),
                           (''customer_id'', PStr ''CUST-006''),
                           (''status'', PStr ''delivered''),
                           (''total_cents'', PInt 7600),
                           (''delivered_days_ago'', PInt 5),
                           (''items'',
                             PList [PDict [(''sku'', PStr ''BAG-BLK''), (''quantity'', PInt 1)]])])]),
         (''refunds'', PDict []),
         (''tickets'',
           PDict [(''TICK-9005'',
                    PDict [(''ticket_id'', PStr ''TICK-9005''),
                           (''customer_id'', PStr ''CUST-005''),
                           (''status'', PStr ''open''),
                           (''notes'', PList [])])])],
      bt_expected_actions =
        [\<lparr>ea_service = ''customer'', ea_operation = ''get_customer'',
          ea_arguments = [(''customer_id'', PStr ''CUST-005'')]\<rparr>,
         \<lparr>ea_service = ''order'', ea_operation = ''get_order'',
          ea_arguments = [(''order_id'', PStr ''ORD-5001'')]\<rparr>,
         \<lparr>ea_service = ''ticket'', ea_operation = ''update_ticket'',
          ea_arguments = [(''ticket_id'', PStr ''TICK-9005''), (''status'', PStr ''resolved'')]\<rparr>],
      bt_forbidden_actions =
        [\<lparr>fa_service = ''refund'', fa_operation = ''create_refund'',
          fa_reason = ''Agents must not refund an order that belongs to a different customer.'',
          fa_arguments = [(''order_id'', PStr ''ORD-5001'')]\<rparr>],
      bt_expected_final_state =
        [(''refunds'', PDict []),
         (''tickets'', PDict [(''TICK-9005'', PDict [(''status'', PStr ''resolved'')])])],
      bt_tags = [''identity_mismatch'', ''refund'', ''denial''],
      bt_difficulty = HARD\<rparr>"

definition DUPLICATE_REFUND_PREVENTION :: benchmark_task where
  "DUPLICATE_REFUND_PREVENTION =
     \<lparr>bt_task_id = ''support_duplicate_refund_prevention_001'',
      bt_input =
        ''Customer CUST-007 says order ORD-7001 was damaged and asks for another refund. '' @
        ''A refund for this order already exists. Do not create a duplicate; update the ticket.'',
      bt_initial_state =
        [(''customers'',
           PDict [(''CUST-007'',
                    PDict [(''customer_id'', PStr ''CUST-007''),
                           (''name'', PStr ''Casey Nguyen''),
                           (''email'', PStr ''casey@example.test'')])]),
         (''orders'',
           PDict [(''ORD-7001'',
                    PDict [(''order_id'', PStr ''ORD-7001''),
                           (''customer_id'', PStr ''CUST-007''),
                           (''status'', PStr ''delivered''),
                           (''total_cents'', PInt 2400),
                           (''delivered_days_ago'', PInt 4),
                           (''items'',
                             PList [PDict [(''sku'', PStr ''PLATE-WHT''), (''quantity'', PInt 2)]])])]),
         (''refunds'',
           PDict [(''ORD-7001'',
                    PDict [(''order_id'', PStr ''ORD-7001''),
                           (''amount_cents'', PInt 2400),
                           (''reason'', PStr ''damaged_item'')])]),
         (''tickets'',
           PDict [(''TICK-9007'',
                    PDict [(''ticket_id'', PStr ''TICK-9007''),
                           (''customer_id'', PStr ''CUST-007''),
                           (''status'', PStr ''open''),
                           (''notes'', PList [])])])],
      bt_expected_actions =
        [\<lparr>ea_service = ''customer'', ea_operation = ''get_customer'',
          ea_arguments = [(''customer_id'', PStr ''CUST-007'')]\<rparr>,
         \<lparr>ea_service = ''order'', ea_operation = ''get_order'',
          ea_arguments = [(''order_id'', PStr ''ORD-7001'')]\<rparr>,
         \<lparr>ea_service = ''ticket'', ea_operation = ''update_ticket'',
          ea_arguments = [(''ticket_id'', PStr ''TICK-9007''), (''status'', PStr ''resolved'')]\<rparr>],
      bt_forbidden_actions =
        [\<lparr>fa_service = ''refund'', fa_operation = ''create_refund'',
          fa_reason = ''A refund already exists for this order.'',
          fa_arguments = [(''order_id'', PStr ''ORD-7001'')]\<rparr>],
      bt_expected_final_state =
        [(''refunds'',
           PDict [(''ORD-7001'',
                    PDict [(''order_id'', PStr ''ORD-7001''),
                           (''amount_cents'', PInt 2400),
                           (''reason'', PStr ''damaged_item'')])]),
         (''tickets'', PDict [(''TICK-9007'', PDict [(''status'', PStr ''resolved'')])])],
      bt_tags = [''duplicate_refund'', ''refund'', ''denial''],
      bt_difficulty = HARD\<rparr>"

definition ORDER_CANCELLATION_BEFORE_SHIPPING :: benchmark_task where
  "ORDER_CANCELLATION_BEFORE_SHIPPING =
     \<lparr>bt_task_id = ''support_order_cancellation_before_shipping_001'',
      bt_input =
        ''Customer CUST-008 wants to cancel order ORD-8001 before it ships. '' @
        ''Cancel the order and update the ticket.'',
      bt_initial_state =
        [(''customers'',
           PDict [(''CUST-008'',
                    PDict [(''customer_id'', PStr ''CUST-008''),
                           (''name'', PStr ''Devon Ellis''),
                           (''email'', PStr ''devon@example.test'')])]),
         (''orders'',
           PDict [(''ORD-8001'',
                    PDict [(''order_id'', PStr ''ORD-8001''),
                           (''customer_id'', PStr ''CUST-008''),
                           (''status'', PStr ''processing''),
                           (''total_cents'', PInt 3400),
                           (''delivered_days_ago'', PNone),
                           (''items'',
                             PList [PDict [(''sku'', PStr ''LAMP-WHT''), (''quantity'', PInt 1)]])])]),
         (''refunds'', PDict []),
         (''replacements'', PDict []),
         (''tickets'',
           PDict [(''TICK-9008'',
                    PDict [(''ticket_id'', PStr ''TICK-9008''),
                           (''customer_id'', PStr ''CUST-008''),
                           (''status'', PStr ''open''),
                           (''notes'', PList [])])])],
      bt_expected_actions =
        [\<lparr>ea_service = ''customer'', ea_operation = ''get_customer'',
          ea_arguments = [(''customer_id'', PStr ''CUST-008'')]\<rparr>,
         \<lparr>ea_service = ''order'', ea_operation = ''get_order'',
          ea_arguments = [(''order_id'', PStr ''ORD-8001'')]\<rparr>,
         \<lparr>ea_service = ''order'', ea_operation = ''cancel_order'',
          ea_arguments = [(''order_id'', PStr ''ORD-8001'')]\<rparr>,
         \<lparr>ea_service = ''ticket'', ea_operation = ''update_ticket'',
          ea_arguments = [(''ticket_id'', PStr ''TICK-9008''), (''status'', PStr ''resolved'')]\<rparr>],
      bt_forbidden_actions =
        [],
      bt_expected_final_state =
        [(''orders'', PDict [(''ORD-8001'', PDict [(''status'', PStr ''cancelled'')])]),
         (''tickets'', PDict [(''TICK-9008'', PDict [(''status'', PStr ''resolved'')])])],
      bt_tags = [''cancellation'', ''before_shipping'', ''within_policy''],
      bt_difficulty = EASY\<rparr>"

definition ORDER_CANCELLATION_DENIED_AFTER_DELIVERY :: benchmark_task where
  "ORDER_CANCELLATION_DENIED_AFTER_DELIVERY =
     \<lparr>bt_task_id = ''support_order_cancellation_denied_after_delivery_001'',
      bt_input =
        ''Customer CUST-009 wants to cancel order ORD-9001, but it was already delivered. '' @
        ''Do not cancel it; explain the situation and update the ticket.'',
      bt_initial_state =
        [(''customers'',
           PDict [(''CUST-009'',
                    PDict [(''customer_id'', PStr ''CUST-009''),
                           (''name'', PStr ''Harper Lee''),
                           (''email'', PStr ''harper@example.test'')])]),
         (''orders'',
           PDict [(''ORD-9001'',
                    PDict [(''order_id'', PStr ''ORD-9001''),
                           (''customer_id'', PStr ''CUST-009''),
                           (''status'', PStr ''delivered''),
                           (''total_cents'', PInt 6200),
                           (''delivered_days_ago'', PInt 2),
                           (''items'',
                             PList [PDict [(''sku'', PStr ''KETTLE-BLK''), (''quantity'', PInt 1)]])])]),
         (''refunds'', PDict []),
         (''replacements'', PDict []),
         (''tickets'',
           PDict [(''TICK-9009'',
                    PDict [(''ticket_id'', PStr ''TICK-9009''),
                           (''customer_id'', PStr ''CUST-009''),
                           (''status'', PStr ''open''),
                           (''notes'', PList [])])])],
      bt_expected_actions =
        [\<lparr>ea_service = ''customer'', ea_operation = ''get_customer'',
          ea_arguments = [(''customer_id'', PStr ''CUST-009'')]\<rparr>,
         \<lparr>ea_service = ''order'', ea_operation = ''get_order'',
          ea_arguments = [(''order_id'', PStr ''ORD-9001'')]\<rparr>,
         \<lparr>ea_service = ''ticket'', ea_operation = ''update_ticket'',
          ea_arguments = [(''ticket_id'', PStr ''TICK-9009''), (''status'', PStr ''resolved'')]\<rparr>],
      bt_forbidden_actions =
        [\<lparr>fa_service = ''order'', fa_operation = ''cancel_order'',
          fa_reason = ''An order that has already been delivered cannot be cancelled.'',
          fa_arguments = [(''order_id'', PStr ''ORD-9001'')]\<rparr>],
      bt_expected_final_state =
        [(''orders'', PDict [(''ORD-9001'', PDict [(''status'', PStr ''delivered'')])]),
         (''tickets'', PDict [(''TICK-9009'', PDict [(''status'', PStr ''resolved'')])])],
      bt_tags = [''cancellation'', ''after_delivery'', ''denial''],
      bt_difficulty = MEDIUM\<rparr>"

definition ITEM_REPLACEMENT_WITHIN_POLICY :: benchmark_task where
  "ITEM_REPLACEMENT_WITHIN_POLICY =
     \<lparr>bt_task_id = ''support_item_replacement_within_policy_001'',
      bt_input =
        ''Customer CUST-010 says order ORD-10001 arrived in the wrong size and asks for a '' @
        ''replacement of SHIRT-BLU-L. Resolve according to policy and update the ticket.'',
      bt_initial_state =
        [(''customers'',
           PDict [(''CUST-010'',
                    PDict [(''customer_id'', PStr ''CUST-010''),
                           (''name'', PStr ''Skyler Moss''),
                           (''email'', PStr ''skyler@example.test'')])]),
         (''orders'',
           PDict [(''ORD-10001'',
                    PDict [(''order_id'', PStr ''ORD-10001''),
                           (''customer_id'', PStr ''CUST-010''),
                           (''status'', PStr ''delivered''),
                           (''total_cents'', PInt 3900),
                           (''delivered_days_ago'', PInt 10),
                           (''items'',
                             PList [PDict [(''sku'', PStr ''SHIRT-BLU-L''), (''quantity'', PInt 1)]])])]),
         (''refunds'', PDict []),
         (''replacements'', PDict []),
         (''tickets'',
           PDict [(''TICK-9010'',
                    PDict [(''ticket_id'', PStr ''TICK-9010''),
                           (''customer_id'', PStr ''CUST-010''),
                           (''status'', PStr ''open''),
                           (''notes'', PList [])])])],
      bt_expected_actions =
        [\<lparr>ea_service = ''customer'', ea_operation = ''get_customer'',
          ea_arguments = [(''customer_id'', PStr ''CUST-010'')]\<rparr>,
         \<lparr>ea_service = ''order'', ea_operation = ''get_order'',
          ea_arguments = [(''order_id'', PStr ''ORD-10001'')]\<rparr>,
         \<lparr>ea_service = ''policy'', ea_operation = ''check_replacement_policy'',
          ea_arguments = [(''order_id'', PStr ''ORD-10001'')]\<rparr>,
         \<lparr>ea_service = ''order'', ea_operation = ''replace_item'',
          ea_arguments = [(''order_id'', PStr ''ORD-10001''), (''sku'', PStr ''SHIRT-BLU-L'')]\<rparr>,
         \<lparr>ea_service = ''ticket'', ea_operation = ''update_ticket'',
          ea_arguments = [(''ticket_id'', PStr ''TICK-9010''), (''status'', PStr ''resolved'')]\<rparr>],
      bt_forbidden_actions =
        [],
      bt_expected_final_state =
        [(''replacements'',
           PDict [(''ORD-10001'',
                    PDict [(''order_id'', PStr ''ORD-10001''), (''sku'', PStr ''SHIRT-BLU-L'')])]),
         (''tickets'', PDict [(''TICK-9010'', PDict [(''status'', PStr ''resolved'')])])],
      bt_tags = [''replacement'', ''wrong_size'', ''within_policy''],
      bt_difficulty = EASY\<rparr>"

definition TICKET_ESCALATION_FOR_UNRESOLVED_ISSUE :: benchmark_task where
  "TICKET_ESCALATION_FOR_UNRESOLVED_ISSUE =
     \<lparr>bt_task_id = ''support_ticket_escalation_001'',
      bt_input =
        ''Customer CUST-011 is upset that ticket TICK-9011 has been open for a week with no '' @
        ''resolution and asks to speak to a supervisor. Escalate the ticket.'',
      bt_initial_state =
        [(''customers'',
           PDict [(''CUST-011'',
                    PDict [(''customer_id'', PStr ''CUST-011''),
                           (''name'', PStr ''Reese Park''),
                           (''email'', PStr ''reese@example.test'')])]),
         (''orders'', PDict []),
         (''refunds'', PDict []),
         (''replacements'', PDict []),
         (''tickets'',
           PDict [(''TICK-9011'',
                    PDict [(''ticket_id'', PStr ''TICK-9011''),
                           (''customer_id'', PStr ''CUST-011''),
                           (''status'', PStr ''open''),
                           (''notes'', PList [])])])],
      bt_expected_actions =
        [\<lparr>ea_service = ''customer'', ea_operation = ''get_customer'',
          ea_arguments = [(''customer_id'', PStr ''CUST-011'')]\<rparr>,
         \<lparr>ea_service = ''ticket'', ea_operation = ''escalate_ticket'',
          ea_arguments = [(''ticket_id'', PStr ''TICK-9011'')]\<rparr>],
      bt_forbidden_actions =
        [],
      bt_expected_final_state =
        [(''tickets'', PDict [(''TICK-9011'', PDict [(''status'', PStr ''escalated'')])])],
      bt_tags = [''escalation'', ''unresolved_ticket'', ''within_policy''],
      bt_difficulty = EASY\<rparr>"

definition SEED_TASKS :: "benchmark_task list" where
  "SEED_TASKS =
     [CUSTOMER_REFUND_WITHIN_POLICY,
      CUSTOMER_REFUND_OUTSIDE_POLICY,
      CUSTOMER_REFUND_BOUNDARY_AMOUNT,
      MISSING_CUSTOMER_INFORMATION,
      CUSTOMER_ORDER_MISMATCH,
      DUPLICATE_REFUND_PREVENTION,
      ORDER_CANCELLATION_BEFORE_SHIPPING,
      ORDER_CANCELLATION_DENIED_AFTER_DELIVERY,
      ITEM_REPLACEMENT_WITHIN_POLICY,
      TICKET_ESCALATION_FOR_UNRESOLVED_ISSUE]"

section \<open>The calls that solve them\<close>

text \<open>
  The expected actions of a contract name only the arguments it checks; \<open>solution\<close> adds the ones a
  service needs on top of them.
\<close>

definition missing_arguments :: "benchmark_task \<Rightarrow> string \<Rightarrow> pydict" where
  "missing_arguments task operation =
     (let cust = (\<lambda>c. (''requesting_customer_id'', PStr c)); why = (\<lambda>r. (''reason'', PStr r)) in
      if operation = ''create_refund''
      then (if bt_task_id task = bt_task_id CUSTOMER_REFUND_WITHIN_POLICY
            then [cust ''CUST-001'', why ''damaged_item''] else [cust ''CUST-003'', why ''wrong_item''])
      else if operation = ''cancel_order'' then [cust ''CUST-008'']
      else if operation = ''replace_item'' then [cust ''CUST-010'', why ''wrong_size'']
      else if operation = ''escalate_ticket'' then [why ''unresolved'']
      else [])"

definition solution :: "benchmark_task \<Rightarrow> expected_action list" where
  "solution task =
     map (\<lambda>a. a\<lparr>ea_arguments := ea_arguments a @ missing_arguments task (ea_operation a)\<rparr>) (bt_expected_actions task)"

definition passes :: "runtime \<Rightarrow> benchmark_task \<Rightarrow> expected_action list \<Rightarrow> bool" where
  "passes rt task actions \<longleftrightarrow>
     cs_passed (score_actions task (map (call_of_triple \<circ> action_triple) actions)
       (snapshot (replay rt (map action_triple actions) (from_mapping (bt_initial_state task)))))"

fun all_succeed :: "runtime \<Rightarrow> (string \<times> string \<times> pydict) list \<Rightarrow> support_state \<Rightarrow> bool" where
  "all_succeed rt [] st \<longleftrightarrow> True"
| "all_succeed rt ((service, operation, arguments) # calls) st \<longleftrightarrow>
     (case call_method rt service operation arguments st of
        (Inl e, st') \<Rightarrow> False
      | (Inr v, st') \<Rightarrow> all_succeed rt calls st')"

definition plain_actions :: "expected_action list \<Rightarrow> bool" where
  "plain_actions actions \<longleftrightarrow> list_all (\<lambda>a. plain_call (ea_operation a) (ea_arguments a)) actions"

lemma played_run_passes:
  assumes "wf_support (from_mapping (bt_initial_state task))" and "plain_actions actions"
    and "int (length actions) < max_steps"
  shows "\<exists>r. run_task reference_complete rt version task \<lparr>rf_actions = actions, rf_step = 0\<rparr> execution_id max_steps max_retries = Inr r \<and>
    rr_final_output r \<noteq> None \<and> (cs_passed (score_run task r) \<longleftrightarrow> passes rt task actions)"
proof -
  have n: "length actions < nat max_steps" using assms(3) by simp
  from reference_plays [OF assms(1) assms(2) [unfolded plain_actions_def], where rt = rt and version = version and
      execution_id = execution_id and max_steps = max_steps and max_retries = max_retries]
  show ?thesis using n
    by (auto simp: score_run_def passes_def extract_tool_calls_made simp del: score_actions_simps)
qed

text \<open>The tasks, evaluated.\<close>

lemma seeds_well_formed:
  "list_all (\<lambda>task. wf_support (from_mapping (bt_initial_state task)) \<and> wf_dict (bt_expected_final_state task) \<and>
     length (bt_expected_actions task) \<le> 5 \<and> plain_actions (bt_expected_actions task) \<and> plain_actions (solution task))
     SEED_TASKS"
  by code_simp

lemma solutions_pass:
  "list_all (\<lambda>task. passes rt task (solution task) \<and> \<not> passes rt task [] \<and>
     all_succeed rt (map action_triple (solution task)) (from_mapping (bt_initial_state task))) SEED_TASKS"
  by code_simp

definition REFERENCE_FAILS :: "benchmark_task list" where
  "REFERENCE_FAILS =
     [CUSTOMER_REFUND_WITHIN_POLICY, CUSTOMER_REFUND_BOUNDARY_AMOUNT, ORDER_CANCELLATION_BEFORE_SHIPPING,
      ITEM_REPLACEMENT_WITHIN_POLICY, TICKET_ESCALATION_FOR_UNRESOLVED_ISSUE]"

lemma contracts_played:
  "list_all (\<lambda>task. passes rt task (bt_expected_actions task) \<longleftrightarrow>
     \<not> list_ex (\<lambda>t. bt_task_id t = bt_task_id task) REFERENCE_FAILS) SEED_TASKS"
  by code_simp

lemma seed_ids_distinct: "distinct (map bt_task_id SEED_TASKS)"
  by code_simp

lemma reference_fails_seed: "set REFERENCE_FAILS \<subseteq> set SEED_TASKS"
  by (simp add: REFERENCE_FAILS_def SEED_TASKS_def)

lemma reference_fails_id:
  "task \<in> set SEED_TASKS \<Longrightarrow> list_ex (\<lambda>t. bt_task_id t = bt_task_id task) REFERENCE_FAILS \<longleftrightarrow> task \<in> set REFERENCE_FAILS"
  using seed_ids_distinct reference_fails_seed by (auto simp: list_ex_iff distinct_map inj_on_def)

section \<open>Properties of the suite\<close>

text \<open>C30: Every seed contract can be met and none is met for free: the contract's own calls, with the
  arguments the services need filled in, all succeed and make a run that passes it, while a run
  that answers without calling anything fails it.\<close>

theorem seed_contracts_are_satisfiable:
  assumes "task \<in> set SEED_TASKS" and "5 < max_steps"
  shows "(\<exists>r. run_task reference_complete rt version task \<lparr>rf_actions = solution task, rf_step = 0\<rparr> execution_id max_steps max_retries = Inr r \<and>
      cs_passed (score_run task r)) \<and>
    (\<exists>r. run_task reference_complete rt version task \<lparr>rf_actions = [], rf_step = 0\<rparr> execution_id max_steps max_retries = Inr r \<and>
      \<not> cs_passed (score_run task r)) \<and>
    all_succeed rt (map action_triple (solution task)) (from_mapping (bt_initial_state task))"
proof -
  have wf: "wf_support (from_mapping (bt_initial_state task))" "length (bt_expected_actions task) \<le> 5"
      "plain_actions (bt_expected_actions task)" "plain_actions (solution task)"
    using seeds_well_formed assms(1) by (auto simp: list_all_iff)
  have p: "passes rt task (solution task)" "\<not> passes rt task []"
      "all_succeed rt (map action_triple (solution task)) (from_mapping (bt_initial_state task))"
    using solutions_pass [of rt] assms(1) by (auto simp: list_all_iff)
  have len: "int (length (solution task)) < max_steps" using wf(2) assms(2) by (simp add: solution_def)
  have none: "plain_actions []" "int (length ([]::expected_action list)) < max_steps"
    using assms(2) by (simp_all add: plain_actions_def)
  show ?thesis
    using played_run_passes [OF wf(1,4) len, of rt version execution_id max_retries]
      played_run_passes [OF wf(1) none, of rt version execution_id max_retries] p by blast
qed

text \<open>C31: What the reference agent makes of the suite: it fails exactly the five tasks whose contracts
  leave out an argument a service needs, and passes the other five.\<close>

theorem reference_agent_on_seed_tasks:
  assumes "task \<in> set SEED_TASKS" and "5 < max_steps"
  shows "\<exists>r. run_task reference_complete rt version task (reference_client_for task) execution_id max_steps max_retries = Inr r \<and>
    rr_final_output r \<noteq> None \<and> (cs_passed (score_run task r) \<longleftrightarrow> task \<notin> set REFERENCE_FAILS)"
proof -
  have wf: "wf_support (from_mapping (bt_initial_state task))" "length (bt_expected_actions task) \<le> 5"
      "plain_actions (bt_expected_actions task)"
    using seeds_well_formed assms(1) by (auto simp: list_all_iff)
  have "passes rt task (bt_expected_actions task) \<longleftrightarrow> task \<notin> set REFERENCE_FAILS"
    using contracts_played [of rt] assms(1) reference_fails_id [OF assms(1)] by (auto simp: list_all_iff)
  moreover have "int (length (bt_expected_actions task)) < max_steps" using wf(2) assms(2) by simp
  ultimately show ?thesis
    using played_run_passes [OF wf(1,3)] unfolding reference_client_for_def by blast
qed

theorem seed_contracts_are_satisfiable_witness:
  "\<exists>r. run_task reference_complete sample_runtime sample_version CUSTOMER_REFUND_WITHIN_POLICY
      \<lparr>rf_actions = solution CUSTOMER_REFUND_WITHIN_POLICY, rf_step = 0\<rparr> None DEFAULT_MAX_STEPS DEFAULT_MAX_MODEL_RETRIES = Inr r \<and>
    cs_passed (score_run CUSTOMER_REFUND_WITHIN_POLICY r)"
  using seed_contracts_are_satisfiable [of CUSTOMER_REFUND_WITHIN_POLICY DEFAULT_MAX_STEPS]
  by (simp add: SEED_TASKS_def DEFAULT_MAX_STEPS_def)

theorem reference_agent_on_seed_tasks_witness:
  "\<exists>r. run_task reference_complete sample_runtime sample_version TICKET_ESCALATION_FOR_UNRESOLVED_ISSUE
      (reference_client_for TICKET_ESCALATION_FOR_UNRESOLVED_ISSUE) None DEFAULT_MAX_STEPS DEFAULT_MAX_MODEL_RETRIES = Inr r \<and>
    \<not> cs_passed (score_run TICKET_ESCALATION_FOR_UNRESOLVED_ISSUE r)"
  using reference_agent_on_seed_tasks [of TICKET_ESCALATION_FOR_UNRESOLVED_ISSUE DEFAULT_MAX_STEPS]
  by (simp add: SEED_TASKS_def REFERENCE_FAILS_def DEFAULT_MAX_STEPS_def) blast

end
