(* ===== verification/Serialization.thy ===== *)
theory Serialization
  imports SeedTasks Json
begin

text \<open>
  \<open>benchmark/serialization.py\<close>: tasks, variants and suites as JSON, and the content hash that
  guards a stored suite. Dataclasses do not check what they are given, so the loaders build objects
  whose attributes are whatever the file holds: \<open>py_task\<close> and \<open>py_variant\<close> are those objects, and
  \<open>py_task_of\<close>, \<open>py_variant_of\<close> embed the tasks and variants of the declared types. A file is its
  text; \<open>sha256\<close> (the hex digest of a text) is a parameter, and \<open>bad_json\<close> is the message of the
  \<open>JSONDecodeError\<close> (a \<open>ValueError\<close>) for a text.
\<close>

section \<open>Objects as the loaders build them\<close>

record py_action =
  pa_service :: pyval
  pa_operation :: pyval
  pa_reason :: pyval
  pa_arguments :: pyval

record py_task =
  pt_task_id :: pyval
  pt_input :: pyval
  pt_initial_state :: pyval
  pt_expected_actions :: "py_action list"
  pt_forbidden_actions :: "py_action list"
  pt_expected_final_state :: pyval
  pt_tags :: "pyval list"
  pt_difficulty :: difficulty

record py_variant =
  pv_task :: py_task
  pv_parent_task_id :: pyval
  pv_mutation_type :: pyval
  pv_random_seed :: pyval
  pv_validator_result :: pyval

text \<open>An expected action has no reason; its place holds \<open>None\<close>.\<close>

definition py_expected :: "expected_action \<Rightarrow> py_action" where
  "py_expected a =
     \<lparr>pa_service = PStr (ea_service a), pa_operation = PStr (ea_operation a), pa_reason = PNone,
      pa_arguments = PDict (ea_arguments a)\<rparr>"

definition py_forbidden :: "forbidden_action \<Rightarrow> py_action" where
  "py_forbidden a =
     \<lparr>pa_service = PStr (fa_service a), pa_operation = PStr (fa_operation a), pa_reason = PStr (fa_reason a),
      pa_arguments = PDict (fa_arguments a)\<rparr>"

definition py_task_of :: "benchmark_task \<Rightarrow> py_task" where
  "py_task_of t =
     \<lparr>pt_task_id = PStr (bt_task_id t), pt_input = PStr (bt_input t), pt_initial_state = PDict (bt_initial_state t),
      pt_expected_actions = map py_expected (bt_expected_actions t),
      pt_forbidden_actions = map py_forbidden (bt_forbidden_actions t),
      pt_expected_final_state = PDict (bt_expected_final_state t),
      pt_tags = map PStr (bt_tags t), pt_difficulty = bt_difficulty t\<rparr>"

definition py_variant_of :: "adversarial_variant \<Rightarrow> py_variant" where
  "py_variant_of v =
     \<lparr>pv_task = py_task_of (va_task v), pv_parent_task_id = PStr (va_parent_task_id v),
      pv_mutation_type = PStr (va_mutation_type v), pv_random_seed = PInt (va_random_seed v),
      pv_validator_result = PBool (va_validator_result v)\<rparr>"

section \<open>To and from dictionaries\<close>

definition expected_action_to_dict :: "py_action \<Rightarrow> pydict" where
  "expected_action_to_dict action =
     [(''service'', pa_service action), (''operation'', pa_operation action), (''arguments'', pa_arguments action)]"

definition forbidden_action_to_dict :: "py_action \<Rightarrow> pydict" where
  "forbidden_action_to_dict action =
     [(''service'', pa_service action), (''operation'', pa_operation action), (''reason'', pa_reason action),
      (''arguments'', pa_arguments action)]"

definition task_to_dict :: "py_task \<Rightarrow> pydict" where
  "task_to_dict task =
     [(''task_id'', pt_task_id task),
      (''input'', pt_input task),
      (''initial_state'', pt_initial_state task),
      (''expected_actions'', PList (map (PDict \<circ> expected_action_to_dict) (pt_expected_actions task))),
      (''forbidden_actions'', PList (map (PDict \<circ> forbidden_action_to_dict) (pt_forbidden_actions task))),
      (''expected_final_state'', pt_expected_final_state task),
      (''tags'', PList (pt_tags task)),
      (''difficulty'', PStr (difficulty_value (pt_difficulty task)))]"

text \<open>\<open>Difficulty(value)\<close> for any value.\<close>

definition difficulty_from :: "pyval \<Rightarrow> (exc, difficulty) res" where
  "difficulty_from v =
     (case (case v of PStr s \<Rightarrow> difficulty_of s | _ \<Rightarrow> None) of
        Some d \<Rightarrow> Inr d
      | None \<Rightarrow> Inl (Raise ValueError (py_repr v @ '' is not a valid Difficulty'')))"

definition expected_from_dict :: "pyval \<Rightarrow> (exc, py_action) res" where
  "expected_from_dict action =
     bind_res (py_getitem action ''service'') (\<lambda>service.
     bind_res (py_getitem action ''operation'') (\<lambda>operation.
     bind_res (py_get action (PStr ''arguments'') (PDict [])) (\<lambda>arguments.
       Inr \<lparr>pa_service = service, pa_operation = operation, pa_reason = PNone, pa_arguments = arguments\<rparr>)))"

definition forbidden_from_dict :: "pyval \<Rightarrow> (exc, py_action) res" where
  "forbidden_from_dict action =
     bind_res (py_getitem action ''service'') (\<lambda>service.
     bind_res (py_getitem action ''operation'') (\<lambda>operation.
     bind_res (py_getitem action ''reason'') (\<lambda>reason.
     bind_res (py_get action (PStr ''arguments'') (PDict [])) (\<lambda>arguments.
       Inr \<lparr>pa_service = service, pa_operation = operation, pa_reason = reason, pa_arguments = arguments\<rparr>))))"

definition task_from_dict :: "pyval \<Rightarrow> (exc, py_task) res" where
  "task_from_dict data =
     bind_res (py_getitem data ''task_id'') (\<lambda>task_id.
     bind_res (py_getitem data ''input'') (\<lambda>input.
     bind_res (py_getitem data ''initial_state'') (\<lambda>initial_state.
     bind_res (bind_res (py_getitem data ''expected_actions'') py_iter) (\<lambda>expected.
     bind_res (map_res expected_from_dict expected) (\<lambda>expected_actions.
     bind_res (bind_res (py_getitem data ''forbidden_actions'') py_iter) (\<lambda>forbidden.
     bind_res (map_res forbidden_from_dict forbidden) (\<lambda>forbidden_actions.
     bind_res (py_getitem data ''expected_final_state'') (\<lambda>expected_final_state.
     bind_res (bind_res (py_getitem data ''tags'') py_iter) (\<lambda>tags.
     bind_res (bind_res (py_getitem data ''difficulty'') difficulty_from) (\<lambda>difficulty.
       Inr \<lparr>pt_task_id = task_id, pt_input = input, pt_initial_state = initial_state,
            pt_expected_actions = expected_actions, pt_forbidden_actions = forbidden_actions,
            pt_expected_final_state = expected_final_state, pt_tags = tags, pt_difficulty = difficulty\<rparr>))))))))))"

definition variant_to_dict :: "py_variant \<Rightarrow> pydict" where
  "variant_to_dict variant =
     [(''task'', PDict (task_to_dict (pv_task variant))),
      (''parent_task_id'', pv_parent_task_id variant),
      (''mutation_type'', pv_mutation_type variant),
      (''random_seed'', pv_random_seed variant),
      (''validator_result'', pv_validator_result variant)]"

definition variant_from_dict :: "pyval \<Rightarrow> (exc, py_variant) res" where
  "variant_from_dict data =
     bind_res (bind_res (py_getitem data ''task'') task_from_dict) (\<lambda>task.
     bind_res (py_getitem data ''parent_task_id'') (\<lambda>parent_task_id.
     bind_res (py_getitem data ''mutation_type'') (\<lambda>mutation_type.
     bind_res (py_getitem data ''random_seed'') (\<lambda>random_seed.
     bind_res (py_getitem data ''validator_result'') (\<lambda>validator_result.
       Inr \<lparr>pv_task = task, pv_parent_task_id = parent_task_id, pv_mutation_type = mutation_type,
            pv_random_seed = random_seed, pv_validator_result = validator_result\<rparr>)))))"

section \<open>Texts and suites\<close>

definition task_to_json :: "py_task \<Rightarrow> string" where
  "task_to_json task = json_dumps json_default (PDict (task_to_dict task))"

definition loads :: "(string \<Rightarrow> string) \<Rightarrow> string \<Rightarrow> (exc, pyval) res" where
  "loads bad_json payload =
     (case json_loads payload of None \<Rightarrow> Inl (Raise ValueError (bad_json payload)) | Some v \<Rightarrow> Inr v)"

definition task_from_json :: "(string \<Rightarrow> string) \<Rightarrow> string \<Rightarrow> (exc, py_task) res" where
  "task_from_json bad_json payload = bind_res (loads bad_json payload) task_from_dict"

record suite_snapshot =
  ss_tasks :: "py_task list"
  ss_content_hash :: pyval

definition suite_value :: "py_task list \<Rightarrow> pyval" where
  "suite_value tasks = PList (map (PDict \<circ> task_to_dict) tasks)"

definition compute_content_hash :: "(string \<Rightarrow> string) \<Rightarrow> py_task list \<Rightarrow> string" where
  "compute_content_hash sha256 tasks = sha256 (json_dumps json_default (suite_value tasks))"

definition snapshot_suite :: "(string \<Rightarrow> string) \<Rightarrow> py_task list \<Rightarrow> suite_snapshot" where
  "snapshot_suite sha256 tasks =
     \<lparr>ss_tasks = tasks, ss_content_hash = PStr (compute_content_hash sha256 tasks)\<rparr>"

text \<open>\<open>save_suite_snapshot\<close>: the text it writes to the file.\<close>

definition save_suite_snapshot :: "suite_snapshot \<Rightarrow> string" where
  "save_suite_snapshot snap =
     json_dumps json_indent2
       (PDict [(''content_hash'', ss_content_hash snap), (''tasks'', suite_value (ss_tasks snap))])"

text \<open>\<open>load_suite_snapshot\<close> of the file \<open>path\<close> that holds the text \<open>content\<close>.\<close>

definition load_suite_snapshot ::
  "(string \<Rightarrow> string) \<Rightarrow> (string \<Rightarrow> string) \<Rightarrow> string \<Rightarrow> string \<Rightarrow> (exc, suite_snapshot) res" where
  "load_suite_snapshot sha256 bad_json path content =
     bind_res (loads bad_json content) (\<lambda>payload.
     bind_res (bind_res (py_getitem payload ''tasks'') py_iter) (\<lambda>task_data.
     bind_res (map_res task_from_dict task_data) (\<lambda>tasks.
     bind_res (py_getitem payload ''content_hash'') (\<lambda>expected_hash.
       let actual_hash = compute_content_hash sha256 tasks in
       if \<not> py_eq (PStr actual_hash) expected_hash
       then Inl (Raise SuiteIntegrityError
         (''Suite snapshot at '' @ path @ '' failed its integrity check: expected '' @ py_str expected_hash
           @ '', computed '' @ actual_hash))
       else Inr \<lparr>ss_tasks = tasks, ss_content_hash = PStr actual_hash\<rparr>))))"

section \<open>Round trips\<close>

definition action_map :: "(pyval \<Rightarrow> pyval) \<Rightarrow> py_action \<Rightarrow> py_action" where
  "action_map f a =
     \<lparr>pa_service = f (pa_service a), pa_operation = f (pa_operation a), pa_reason = f (pa_reason a),
      pa_arguments = f (pa_arguments a)\<rparr>"

definition task_map :: "(pyval \<Rightarrow> pyval) \<Rightarrow> py_task \<Rightarrow> py_task" where
  "task_map f t =
     \<lparr>pt_task_id = f (pt_task_id t), pt_input = f (pt_input t), pt_initial_state = f (pt_initial_state t),
      pt_expected_actions = map (action_map f) (pt_expected_actions t),
      pt_forbidden_actions = map (action_map f) (pt_forbidden_actions t),
      pt_expected_final_state = f (pt_expected_final_state t),
      pt_tags = map f (pt_tags t), pt_difficulty = pt_difficulty t\<rparr>"

definition no_reasons :: "py_task \<Rightarrow> bool" where
  "no_reasons t \<longleftrightarrow> list_all (\<lambda>a. pa_reason a = PNone) (pt_expected_actions t)"

lemma no_reasons_of [simp]: "no_reasons (py_task_of t)"
  by (simp add: no_reasons_def py_task_of_def py_expected_def list_all_iff)

lemma map_res_map: "(\<And>x. x \<in> set xs \<Longrightarrow> f (h x) = Inr (g x)) \<Longrightarrow> map_res f (map h xs) = Inr (map g xs)"
  by (induction xs) auto

lemma getitem_canon:
  "dict_ok ms \<Longrightarrow> py_getitem (canon st (PDict ms)) k =
     (case map_of ms k of None \<Rightarrow> Inl (Raise KeyError (repr_str k)) | Some v \<Rightarrow> Inr (canon st v))"
  by (simp add: canon_lookup split: option.splits)

lemma get_canon:
  "dict_ok ms \<Longrightarrow> py_get (canon st (PDict ms)) (PStr k) dflt =
     Inr (case map_of ms k of None \<Rightarrow> dflt | Some v \<Rightarrow> canon st v)"
  by (simp add: canon_lookup split: option.splits)

lemmas reading = getitem_canon get_canon expected_action_to_dict_def forbidden_action_to_dict_def

lemma expected_from_canon:
  "pa_reason a = PNone \<Longrightarrow>
     expected_from_dict (canon st (PDict (expected_action_to_dict a))) = Inr (action_map (canon st) a)"
  by (simp add: expected_from_dict_def reading action_map_def del: canon.simps py_getitem.simps py_get.simps)
    (simp add: action_map_def)

lemma forbidden_from_canon:
  "forbidden_from_dict (canon st (PDict (forbidden_action_to_dict a))) = Inr (action_map (canon st) a)"
  by (simp add: forbidden_from_dict_def reading action_map_def del: canon.simps py_getitem.simps py_get.simps)

lemma difficulty_from_canon: "difficulty_from (canon st (PStr (difficulty_value d))) = Inr d"
  by (simp add: difficulty_from_def)

lemma task_from_canon:
  assumes "no_reasons t"
  shows "task_from_dict (canon st (PDict (task_to_dict t))) = Inr (task_map (canon st) t)"
proof -
  have ok: "dict_ok (task_to_dict t)" by (simp add: task_to_dict_def)
  have "map_res expected_from_dict (map (canon st) (map (PDict \<circ> expected_action_to_dict) (pt_expected_actions t))) =
      Inr (map (action_map (canon st)) (pt_expected_actions t))"
    using assms expected_from_canon [of _ st]
    by (simp add: map_res_map no_reasons_def list_all_iff del: canon.simps)
  moreover have "map_res forbidden_from_dict (map (canon st) (map (PDict \<circ> forbidden_action_to_dict) (pt_forbidden_actions t))) =
      Inr (map (action_map (canon st)) (pt_forbidden_actions t))"
    using forbidden_from_canon [of st] by (simp add: map_res_map del: canon.simps)
  ultimately show ?thesis
    unfolding task_from_dict_def getitem_canon [OF ok]
    by (simp add: task_to_dict_def task_map_def difficulty_from_def del: canon.simps(2) )
qed

lemma canon_unsorted: "\<not> js_sort_keys st \<Longrightarrow> canon st v = v"
  by (induction v) (auto simp: json_order_def case_prod_unfold intro!: map_idI)

lemma task_map_id: "task_map (\<lambda>v. v) t = t"
proof -
  have "action_map (\<lambda>v. v) = (\<lambda>a. a)" by (rule ext) (simp add: action_map_def)
  then show ?thesis by (simp add: task_map_def)
qed

lemma task_dict_round_trip:
  assumes "no_reasons t"
  shows "task_from_dict (PDict (task_to_dict t)) = Inr t"
proof -
  let ?st = "json_default\<lparr>js_sort_keys := False\<rparr>"
  have "canon ?st = (\<lambda>v. v)" by (rule ext) (simp add: canon_unsorted)
  then show ?thesis using task_from_canon [OF assms, of ?st] by (simp only: task_map_id)
qed

lemma variant_dict_round_trip: "variant_from_dict (PDict (variant_to_dict (py_variant_of v))) = Inr (py_variant_of v)"
  by (simp add: variant_from_dict_def variant_to_dict_def task_dict_round_trip py_variant_of_def)

text \<open>A task whose values have each key once, and two tasks with equal dictionaries.\<close>

definition wf_task_value :: "py_task \<Rightarrow> bool" where
  "wf_task_value t \<longleftrightarrow> wf_dict (task_to_dict t)"

definition same_task :: "py_task \<Rightarrow> py_task \<Rightarrow> bool" where
  "same_task t u \<longleftrightarrow> py_eq (PDict (task_to_dict t)) (PDict (task_to_dict u))"

lemma task_dict_map: "task_to_dict (task_map f t) =
   [(''task_id'', f (pt_task_id t)), (''input'', f (pt_input t)), (''initial_state'', f (pt_initial_state t)),
    (''expected_actions'', PList (map (PDict \<circ> map (\<lambda>(k, v). (k, f v)) \<circ> expected_action_to_dict) (pt_expected_actions t))),
    (''forbidden_actions'', PList (map (PDict \<circ> map (\<lambda>(k, v). (k, f v)) \<circ> forbidden_action_to_dict) (pt_forbidden_actions t))),
    (''expected_final_state'', f (pt_expected_final_state t)), (''tags'', PList (map f (pt_tags t))),
    (''difficulty'', PStr (difficulty_value (pt_difficulty t)))]"
  by (simp add: task_to_dict_def task_map_def action_map_def expected_action_to_dict_def
      forbidden_action_to_dict_def comp_def)

text \<open>Reading a printed task back and printing it again gives the same text.\<close>

lemma canon_twice [simp]: "canon st (canon st v) = canon st v"
proof (induction v)
  case (PDict ms)
  then have "map (\<lambda>(k, v). (k, canon st v)) (map (\<lambda>(k, v). (k, canon st v)) ms) = map (\<lambda>(k, v). (k, canon st v)) ms"
    by auto
  then show ?case by (simp add: json_order_map [symmetric] del: map_map)
qed auto

lemma canon_task_map: "canon st (PDict (task_to_dict (task_map (canon st) t))) = canon st (PDict (task_to_dict t))"
  unfolding task_dict_map task_to_dict_def [of t] by (simp add: comp_def case_prod_unfold)

lemma canon_style: "js_sort_keys st = js_sort_keys st' \<Longrightarrow> canon st v = canon st' v"
proof (induction v)
  case (PDict ms)
  then have "map (\<lambda>(k, v). (k, canon st v)) ms = map (\<lambda>(k, v). (k, canon st' v)) ms" by auto
  then show ?case using PDict.prems by (simp only: canon.simps json_order_def)
qed auto

lemma wf_canon_iff: "wf_val (canon st v) \<longleftrightarrow> wf_val v"
proof (induction v)
  case (PDict ms)
  have "mset (keys (json_order st (map (\<lambda>(k, v). (k, canon st v)) ms))) = mset (keys ms)"
    by (simp add: json_order_def comp_def case_prod_unfold multiset.map_comp)
  then have "dict_ok (json_order st (map (\<lambda>(k, v). (k, canon st v)) ms)) \<longleftrightarrow> dict_ok ms"
    unfolding dict_ok_def by (rule mset_eq_imp_distinct_iff)
  moreover have "list_all (\<lambda>(k, v). wf_val v) (json_order st (map (\<lambda>(k, v). (k, canon st v)) ms)) \<longleftrightarrow>
      list_all (\<lambda>(k, v). wf_val v) ms"
    using PDict by (fastforce simp: list_all_iff)
  ultimately show ?case by simp
qed (auto simp: list_all_iff)

lemma canon_suite: "canon st (suite_value (map (task_map (canon st)) tasks)) = canon st (suite_value tasks)"
  unfolding suite_value_def using canon_task_map [of st] by simp

lemma suite_from_canon:
  assumes "list_all no_reasons tasks"
  shows "map_res task_from_dict (map (canon st) (map (PDict \<circ> task_to_dict) tasks)) = Inr (map (task_map (canon st)) tasks)"
  using assms task_from_canon [of _ st] by (simp add: map_res_map list_all_iff del: canon.simps)

lemma content_hash_canon:
  "compute_content_hash sha256 (map (task_map (canon json_default)) tasks) = compute_content_hash sha256 tasks"
  unfolding compute_content_hash_def json_dumps_def
  by (metis canon_suite dumps_canon)

lemma same_task_canon: "wf_task_value t \<Longrightarrow> same_task t (task_map (canon st) t)"
  unfolding same_task_def wf_task_value_def
  by (metis canon_eq_imp_py_eq canon_task_map wf_canon_iff)

lemma load_saved_suite:
  assumes "list_all no_reasons tasks" and "list_all wf_task_value tasks"
  shows "load_suite_snapshot sha256 bad_json path (save_suite_snapshot (snapshot_suite sha256 tasks)) =
    Inr \<lparr>ss_tasks = map (task_map (canon json_default)) tasks, ss_content_hash = PStr (compute_content_hash sha256 tasks)\<rparr>"
proof -
  let ?h = "PStr (compute_content_hash sha256 tasks)"
  let ?v = "[(''content_hash'', ?h), (''tasks'', suite_value tasks)]"
  have sorted: "canon json_indent2 = canon json_default"
    by (rule ext, rule canon_style) (simp add: json_indent2_def json_default_def)
  have "wf_dict ?v" using assms(2)
    by (simp add: suite_value_def wf_task_value_def list_all_iff)
  then have l: "loads bad_json (save_suite_snapshot (snapshot_suite sha256 tasks)) = Inr (canon json_default (PDict ?v))"
    using json_loads_dumps [of json_indent2 "PDict ?v"] sorted
    by (simp add: loads_def save_suite_snapshot_def snapshot_suite_def del: canon.simps)
  have ok: "dict_ok ?v" by simp
  have t: "canon json_default (suite_value tasks) = PList (map (canon json_default) (map (PDict \<circ> task_to_dict) tasks))"
    by (simp add: suite_value_def del: canon.simps(2))
  show ?thesis
    unfolding load_suite_snapshot_def l bind_res_simps getitem_canon [OF ok]
    using suite_from_canon [OF assms(1), of json_default]
    by (simp add: t content_hash_canon Let_def del: map_map)
qed

text \<open>What a loader builds from a parsed text has each key once.\<close>

lemma getitem_wf: "py_getitem v k = Inr u \<Longrightarrow> wf_val v \<Longrightarrow> wf_val u"
  by (auto simp: py_getitem_eq_Inr dest: wf_dict_lookup)

lemma iter_wf: "py_iter v = Inr xs \<Longrightarrow> wf_val v \<Longrightarrow> list_all wf_val xs"
  by (cases v) (auto simp: list_all_iff)

lemma get_wf: "py_get v k dflt = Inr u \<Longrightarrow> wf_val v \<Longrightarrow> wf_val dflt \<Longrightarrow> wf_val u"
  by (cases v) (auto split: if_splits pyval.splits option.splits dest: wf_dict_lookup simp del: wf_val.simps)

lemma map_res_all: "map_res f xs = Inr ys \<Longrightarrow> (\<And>x y. x \<in> set xs \<Longrightarrow> f x = Inr y \<Longrightarrow> P y) \<Longrightarrow> list_all P ys"
  by (auto simp: map_res_Inr_iff list_all2_conv_all_nth list_all_length) (metis nth_mem)

lemma expected_wf: "expected_from_dict v = Inr a \<Longrightarrow> wf_val v \<Longrightarrow> wf_dict (expected_action_to_dict a)"
  by (auto simp: expected_from_dict_def bind_res_eq_Inr expected_action_to_dict_def dest: getitem_wf get_wf)

lemma forbidden_wf: "forbidden_from_dict v = Inr a \<Longrightarrow> wf_val v \<Longrightarrow> wf_dict (forbidden_action_to_dict a)"
  by (auto simp: forbidden_from_dict_def bind_res_eq_Inr forbidden_action_to_dict_def dest: getitem_wf get_wf)

lemma task_from_dict_wf:
  assumes "task_from_dict v = Inr t" and "wf_val v"
  shows "wf_task_value t"
proof -
  from assms(1) obtain es ev fs fv tv where
    es: "py_getitem v ''expected_actions'' = Inr ev" "py_iter ev = Inr es" "map_res expected_from_dict es = Inr (pt_expected_actions t)"
    and fs: "py_getitem v ''forbidden_actions'' = Inr fv" "py_iter fv = Inr fs" "map_res forbidden_from_dict fs = Inr (pt_forbidden_actions t)"
    and tags: "py_getitem v ''tags'' = Inr tv" "py_iter tv = Inr (pt_tags t)"
    and rest: "py_getitem v ''task_id'' = Inr (pt_task_id t)" "py_getitem v ''input'' = Inr (pt_input t)"
      "py_getitem v ''initial_state'' = Inr (pt_initial_state t)"
      "py_getitem v ''expected_final_state'' = Inr (pt_expected_final_state t)"
    unfolding task_from_dict_def by (auto simp: bind_res_eq_Inr)
  have "list_all wf_val es" "list_all wf_val fs" and t: "list_all wf_val (pt_tags t)"
    using es(1,2) fs(1,2) tags getitem_wf iter_wf assms(2) by blast+
  then have "list_all (\<lambda>a. wf_dict (expected_action_to_dict a)) (pt_expected_actions t)"
    "list_all (\<lambda>a. wf_dict (forbidden_action_to_dict a)) (pt_forbidden_actions t)"
    using map_res_all [OF es(3)] map_res_all [OF fs(3)] expected_wf forbidden_wf
    by (smt (verit) list_all_iff)+
  then show ?thesis using t getitem_wf assms(2) rest
    by (simp add: wf_task_value_def task_to_dict_def list_all_iff)
qed

lemma loaded_suite_wf:
  assumes "load_suite_snapshot sha256 bad_json path content = Inr snap"
  shows "list_all wf_task_value (ss_tasks snap) \<and>
    ss_content_hash snap = PStr (compute_content_hash sha256 (ss_tasks snap))"
proof -
  from assms obtain v data td where v: "loads bad_json content = Inr v"
    and td: "py_getitem v ''tasks'' = Inr td" "py_iter td = Inr data"
      "map_res task_from_dict data = Inr (ss_tasks snap)"
    and h: "ss_content_hash snap = PStr (compute_content_hash sha256 (ss_tasks snap))"
    unfolding load_suite_snapshot_def by (auto simp: bind_res_eq_Inr Let_def split: if_splits)
  have "wf_val v" using v json_loads_wf by (auto simp: loads_def split: option.splits)
  then have "list_all wf_val data" using td getitem_wf iter_wf by blast
  then show ?thesis using map_res_all [OF td(3)] task_from_dict_wf h by (metis list_all_iff)
qed

section \<open>Properties of serialization\<close>

text \<open>C32: A suite that was saved loads: from the file a snapshot writes, with any text the hash
  function gives, the loader returns the same tasks up to the order of keys inside them, in the
  same order, under the same content hash.\<close>

theorem suite_snapshot_round_trip:
  assumes "\<forall>t\<in>set tasks. wf_task_value (py_task_of t)"
  shows "\<exists>snap. load_suite_snapshot sha256 bad_json path
        (save_suite_snapshot (snapshot_suite sha256 (map py_task_of tasks))) = Inr snap \<and>
    ss_content_hash snap = ss_content_hash (snapshot_suite sha256 (map py_task_of tasks)) \<and>
    list_all2 same_task (map py_task_of tasks) (ss_tasks snap)"
proof -
  have "list_all no_reasons (map py_task_of tasks)" "list_all wf_task_value (map py_task_of tasks)"
    using assms by (simp_all add: list_all_iff)
  from load_saved_suite [OF this, of sha256 bad_json path] show ?thesis
    using assms same_task_canon by (simp add: snapshot_suite_def list_all2_map1 list_all2_map2 list_all2_same)
qed

text \<open>One task survives both of its representations: exactly as a dictionary, and up to the order
  of keys inside it as JSON text, whose second printing is the first; a variant survives its
  dictionary too.\<close>

theorem task_and_variant_round_trip:
  assumes "wf_task_value (py_task_of t)"
  shows "task_from_dict (PDict (task_to_dict (py_task_of t))) = Inr (py_task_of t) \<and>
    variant_from_dict (PDict (variant_to_dict (py_variant_of v))) = Inr (py_variant_of v) \<and>
    (\<exists>u. task_from_json bad_json (task_to_json (py_task_of t)) = Inr u \<and>
      same_task (py_task_of t) u \<and> task_to_json u = task_to_json (py_task_of t))"
proof -
  let ?t = "py_task_of t" and ?c = "canon json_default"
  have "task_from_json bad_json (task_to_json ?t) = Inr (task_map ?c ?t)"
    using json_loads_dumps [of json_default "PDict (task_to_dict ?t)"] assms task_from_canon [of ?t json_default]
    by (simp add: task_from_json_def task_to_json_def loads_def wf_task_value_def del: canon.simps wf_val.simps)
  moreover have "task_to_json (task_map ?c ?t) = task_to_json ?t"
    unfolding task_to_json_def json_dumps_def by (metis canon_task_map dumps_canon)
  ultimately show ?thesis
    using task_dict_round_trip variant_dict_round_trip same_task_canon [OF assms] by simp
qed

text \<open>The content hash pins the tasks: whatever two files hold, if both load and carry the same
  hash, and SHA-256 does not collide on their two canonical texts, they hold the same tasks in the
  same order, up to the order of keys. So no edit of the tasks survives the integrity check.\<close>

theorem suite_hash_pins_the_tasks:
  assumes "load_suite_snapshot sha256 bad_json path content = Inr snap"
    and "load_suite_snapshot sha256 bad_json path' content' = Inr snap'"
    and "ss_content_hash snap = ss_content_hash snap'"
    and "compute_content_hash sha256 (ss_tasks snap) = compute_content_hash sha256 (ss_tasks snap') \<Longrightarrow>
         compute_content_hash (\<lambda>s. s) (ss_tasks snap) = compute_content_hash (\<lambda>s. s) (ss_tasks snap')"
  shows "list_all2 same_task (ss_tasks snap) (ss_tasks snap')"
proof -
  have wf: "list_all wf_task_value (ss_tasks s) \<and> ss_content_hash s = PStr (compute_content_hash sha256 (ss_tasks s))"
    if l: "load_suite_snapshot sha256 bad_json p c = Inr s" for p c s
    using loaded_suite_wf [OF l] .
  let ?v = "suite_value (ss_tasks snap)" and ?v' = "suite_value (ss_tasks snap')"
  have val: "wf_val ?v" "wf_val ?v'" using wf [OF assms(1)] wf [OF assms(2)]
    by (simp_all add: suite_value_def wf_task_value_def list_all_iff)
  have "json_dumps json_default ?v = json_dumps json_default ?v'"
    using assms(3,4) wf [OF assms(1)] wf [OF assms(2)] by (simp add: compute_content_hash_def)
  then have "py_eq ?v ?v'"
    using json_dumps_eq_iff [OF style_ok_styles(1) val] canon_eq_imp_py_eq [OF val] by blast
  then show ?thesis
    by (simp add: suite_value_def py_eq_PList_iff list_all2_map1 list_all2_map2 same_task_def [abs_def] del: py_eq.simps)
qed

lemma wf_seed_tasks: "\<forall>t\<in>set SEED_TASKS. wf_task_value (py_task_of t)"
proof -
  have "list_all (wf_task_value \<circ> py_task_of) SEED_TASKS" by code_simp
  then show ?thesis by (simp add: list_all_iff)
qed

theorem suite_snapshot_round_trip_witness:
  "\<exists>snap. load_suite_snapshot (\<lambda>s. s) (\<lambda>s. []) ''suite.json''
        (save_suite_snapshot (snapshot_suite (\<lambda>s. s) (map py_task_of SEED_TASKS))) = Inr snap \<and>
    length (ss_tasks snap) = 10"
proof -
  obtain snap where "load_suite_snapshot (\<lambda>s. s) (\<lambda>s. []) ''suite.json''
        (save_suite_snapshot (snapshot_suite (\<lambda>s. s) (map py_task_of SEED_TASKS))) = Inr snap"
    "list_all2 same_task (map py_task_of SEED_TASKS) (ss_tasks snap)"
    using suite_snapshot_round_trip [OF wf_seed_tasks] by blast
  moreover from this have "length (ss_tasks snap) = 10" by (auto dest: list_all2_lengthD simp: SEED_TASKS_def)
  ultimately show ?thesis by blast
qed

theorem task_and_variant_round_trip_witness:
  "\<exists>u. task_from_json (\<lambda>s. []) (task_to_json (py_task_of CUSTOMER_ORDER_MISMATCH)) = Inr u \<and>
     same_task (py_task_of CUSTOMER_ORDER_MISMATCH) u"
proof -
  have "wf_task_value (py_task_of CUSTOMER_ORDER_MISMATCH)" using wf_seed_tasks by (simp add: SEED_TASKS_def)
  from task_and_variant_round_trip [OF this] show ?thesis by blast
qed

theorem suite_hash_pins_the_tasks_witness:
  "\<exists>snap. load_suite_snapshot (\<lambda>s. s) (\<lambda>s. []) ''a.json''
      (save_suite_snapshot (snapshot_suite (\<lambda>s. s) (map py_task_of SEED_TASKS))) = Inr snap \<and>
    list_all2 same_task (ss_tasks snap) (ss_tasks snap)"
proof -
  have "list_all no_reasons (map py_task_of SEED_TASKS)" "list_all wf_task_value (map py_task_of SEED_TASKS)"
    using wf_seed_tasks by (simp_all add: list_all_iff)
  note l = load_saved_suite [OF this, of "\<lambda>s. s" "\<lambda>s. []"]
  show ?thesis using suite_hash_pins_the_tasks [where path = "''a.json''" and path' = "''b.json''", OF l l] l by auto
qed

end
