(* ===== verification/Validators.thy ===== *)
theory Validators
  imports BenchmarkSchema
begin

text \<open>
  \<open>benchmark/validators.py\<close>: the check of a generated variant against its parent task. The state
  and the arguments of a task are dynamic values, so the membership tests may raise, and a
  forbidden action whose arguments are not hashable makes the signature sets raise.
\<close>

definition VALID_SERVICE_OPERATIONS :: "(string, string list) dict" where
  "VALID_SERVICE_OPERATIONS =
     [(''customer'', [''get_customer'']),
      (''order'', [''get_order'', ''cancel_order'', ''replace_item'']),
      (''policy'', [''check_refund_policy'', ''check_replacement_policy'']),
      (''refund'', [''create_refund'']),
      (''ticket'', [''update_ticket'', ''escalate_ticket''])]"

definition ID_ARGUMENT_TO_STATE_COLLECTION :: "(string, string) dict" where
  "ID_ARGUMENT_TO_STATE_COLLECTION =
     [(''customer_id'', ''customers''), (''order_id'', ''orders''), (''ticket_id'', ''tickets'')]"

definition CONTRACT_PRESERVING_MUTATIONS :: "string list" where
  "CONTRACT_PRESERVING_MUTATIONS =
     [''typo_injection'', ''distractor_information'', ''conflicting_detail'', ''paraphrase'', ''tool_result_noise'']"

text \<open>\<open>allowed_operations is None or action.operation not in allowed_operations\<close>, negated.\<close>

definition operation_allowed :: "string \<Rightarrow> string \<Rightarrow> bool" where
  "operation_allowed service operation =
     (case map_of VALID_SERVICE_OPERATIONS service of None \<Rightarrow> False | Some ops \<Rightarrow> operation \<in> set ops)"

fun ids_exist_in :: "(string, string) dict \<Rightarrow> pydict \<Rightarrow> pydict \<Rightarrow> (exc, bool) res" where
  "ids_exist_in [] arguments initial_state = Inr True"
| "ids_exist_in ((key, collection_name) # rest) arguments initial_state =
     (case map_of arguments key of
        None \<Rightarrow> ids_exist_in rest arguments initial_state
      | Some v \<Rightarrow>
          bind_res (py_in v (case map_of initial_state collection_name of None \<Rightarrow> PDict [] | Some c \<Rightarrow> c))
            (\<lambda>found. if \<not> found then Inr False else ids_exist_in rest arguments initial_state))"

definition referenced_ids_exist :: "pydict \<Rightarrow> pydict \<Rightarrow> (exc, bool) res" where
  "referenced_ids_exist arguments initial_state =
     ids_exist_in ID_ARGUMENT_TO_STATE_COLLECTION arguments initial_state"

text \<open>
  The set of signatures as the list of its elements: adding a signature to the set hashes it. Two
  such sets are equal when each holds an equal of every element of the other.
\<close>

type_synonym signature = "string \<times> string \<times> pydict"

definition forbidden_signatures :: "forbidden_action list \<Rightarrow> (exc, signature list) res" where
  "forbidden_signatures actions =
     map_res (\<lambda>action.
       let items = sort_key fst (fa_arguments action) in
       case List.find (\<lambda>(k, v). \<not> hashable v) items of
         Some (k, v) \<Rightarrow> Inl (unhashable v)
       | None \<Rightarrow> Inr (fa_service action, fa_operation action, items)) actions"

definition signature_eq :: "signature \<Rightarrow> signature \<Rightarrow> bool" where
  "signature_eq = (\<lambda>(s, p, xs) (t, q, ys).
     s = t \<and> p = q \<and> list_all2 (\<lambda>(k, v) (l, w). k = l \<and> py_eq v w) xs ys)"

definition signature_sets_eq :: "signature list \<Rightarrow> signature list \<Rightarrow> bool" where
  "signature_sets_eq xs ys \<longleftrightarrow>
     list_all (\<lambda>x. list_ex (signature_eq x) ys) xs \<and> list_all (\<lambda>y. list_ex (signature_eq y) xs) ys"

definition action_eq :: "expected_action \<Rightarrow> expected_action \<Rightarrow> bool" where
  "action_eq a b \<longleftrightarrow> ea_service a = ea_service b \<and> ea_operation a = ea_operation b \<and>
     py_eq (PDict (ea_arguments a)) (PDict (ea_arguments b))"

text \<open>\<open>text.split("+")\<close>.\<close>

fun split_plus :: "string \<Rightarrow> string list" where
  "split_plus [] = [[]]"
| "split_plus (c # s) =
     (if c = CHR ''+'' then [] # split_plus s
      else case split_plus s of [] \<Rightarrow> [[c]] | w # ws \<Rightarrow> (c # w) # ws)"

fun all_ids_exist :: "expected_action list \<Rightarrow> pydict \<Rightarrow> (exc, bool) res" where
  "all_ids_exist [] initial_state = Inr True"
| "all_ids_exist (expected # rest) initial_state =
     bind_res (referenced_ids_exist (ea_arguments expected) initial_state)
       (\<lambda>ok. if \<not> ok then Inr False else all_ids_exist rest initial_state)"

definition operations_allowed :: "benchmark_task \<Rightarrow> bool" where
  "operations_allowed task \<longleftrightarrow>
     list_all (\<lambda>a. operation_allowed (ea_service a) (ea_operation a)) (bt_expected_actions task) \<and>
     list_all (\<lambda>a. operation_allowed (fa_service a) (fa_operation a)) (bt_forbidden_actions task)"

definition validate_variant ::
  "adversarial_variant \<Rightarrow> (string, benchmark_task) dict \<Rightarrow> string list \<Rightarrow> (exc, bool) res" where
  "validate_variant variant parent_tasks_by_id existing_task_ids =
     (if va_mutation_type variant = [] \<or> va_parent_task_id variant = [] then Inr False
      else case map_of parent_tasks_by_id (va_parent_task_id variant) of
        None \<Rightarrow> Inr False
      | Some parent \<Rightarrow>
          let task = va_task variant in
          if bt_task_id task \<in> set existing_task_ids then Inr False
          else if \<not> operations_allowed task then Inr False
          else
            bind_res (all_ids_exist (bt_expected_actions task) (bt_initial_state task)) (\<lambda>ids_ok.
              if \<not> ids_ok then Inr False
              else if list_all (\<lambda>t. t \<in> set CONTRACT_PRESERVING_MUTATIONS) (split_plus (va_mutation_type variant))
              then
                if \<not> list_all2 action_eq (bt_expected_actions task) (bt_expected_actions parent) then Inr False
                else
                  bind_res (forbidden_signatures (bt_forbidden_actions task)) (\<lambda>ours.
                  bind_res (forbidden_signatures (bt_forbidden_actions parent)) (\<lambda>theirs.
                    Inr (signature_sets_eq ours theirs)))
              else Inr True))"

end
