(* ===== verification/Mutations.thy ===== *)
theory Mutations
  imports Validators SeedTasks Json
begin

text \<open>
  \<open>benchmark/mutations.py\<close>: the seven task mutations, the registry and their composition. The
  generator \<open>random.Random\<close> is a parameter: its state after seeding, and \<open>randint\<close> and \<open>choice\<close>
  (the index of the item drawn) with the state they leave. The objects of a task are values here:
  \<open>action is refund_action\<close> is the position of the first refund action, which is what it means when
  no action object occurs twice in a task.
\<close>

record 'r random_ops =
  rnd_seed :: "int \<Rightarrow> 'r"
  rnd_randint :: "int \<Rightarrow> int \<Rightarrow> 'r \<Rightarrow> int \<times> 'r"
  rnd_choice :: "nat \<Rightarrow> 'r \<Rightarrow> nat \<times> 'r"

text \<open>What the source relies on: \<open>randint(a, b)\<close> is within its bounds and \<open>choice\<close> picks an item.\<close>

definition random_ok :: "'r random_ops \<Rightarrow> bool" where
  "random_ok rnd \<longleftrightarrow>
     (\<forall>a b r. a \<le> b \<longrightarrow> a \<le> fst (rnd_randint rnd a b r) \<and> fst (rnd_randint rnd a b r) \<le> b) \<and>
     (\<forall>n r. 0 < n \<longrightarrow> fst (rnd_choice rnd n r) < n)"

section \<open>Texts\<close>

definition TYPO_REPLACEMENTS :: "(string, string) dict" where
  "TYPO_REPLACEMENTS =
     [(''Customer'', ''Custmer''), (''damaged'', ''damagd''), (''refund'', ''refnd''), (''ticket'', ''tcket'')]"

definition DISTRACTOR_SENTENCES :: "string list" where
  "DISTRACTOR_SENTENCES =
     [''The customer also mentioned they are considering buying a gift card.'',
      ''The customer'' @ [CHR 0x27] @ ''s package was delivered by a regional carrier this time.'',
      ''The customer asked whether the company offers a loyalty program.'',
      ''The customer noted that their cat knocked over the delivery box.'']"

definition PARAPHRASE_REPLACEMENTS :: "(string, string) dict" where
  "PARAPHRASE_REPLACEMENTS =
     [(''asks for a refund'', ''would like a refund''),
      (''asks for a full refund'', ''would like a full refund''),
      (''arrived damaged'', ''was damaged on arrival''),
      (''wants to cancel'', ''would like to cancel''),
      (''stopped working'', ''no longer works'')]"

definition NOISE_FIELDS :: "(string, string) dict" where
  "NOISE_FIELDS =
     [(''loyalty_tier'', ''silver''), (''packaging'', ''eco''), (''warehouse_region'', ''west-2''),
      (''internal_batch_id'', ''BATCH-4471'')]"

text \<open>\<open>text.replace(old, new, 1)\<close> for a text \<open>old\<close> that is not empty.\<close>

fun replace_once :: "string \<Rightarrow> string \<Rightarrow> string \<Rightarrow> string" where
  "replace_once old new [] = []"
| "replace_once old new (c # s) =
     (if take (length old) (c # s) = old then new @ drop (length old) (c # s)
      else c # replace_once old new s)"

text \<open>
  The two patterns at one position: the whole match, and for the dollar amount its groups. After
  the digits comes a character that is no digit, so taking all of them is what the pattern matches.
\<close>

definition dollar_at :: "string \<Rightarrow> (string \<times> string \<times> string) option" where
  "dollar_at s =
     (case s of
        [] \<Rightarrow> None
      | c # r \<Rightarrow>
          let ds = takeWhile is_digit r; rest = dropWhile is_digit r in
          if c = CHR ''$'' \<and> ds \<noteq> [] then
            (case rest of
               p # x # y # _ \<Rightarrow>
                 if p = CHR ''.'' \<and> is_digit x \<and> is_digit y
                 then Some (CHR ''$'' # ds @ [CHR ''.'', x, y], ds, [x, y]) else None
             | _ \<Rightarrow> None)
          else None)"

definition mention_at :: "string \<Rightarrow> string option" where
  "mention_at s =
     (let prefix = ''Customer CUST-''; ds = takeWhile is_digit (drop (length prefix) s) in
      if take (length prefix) s = prefix \<and> ds \<noteq> [] then Some (prefix @ ds) else None)"

fun search :: "(string \<Rightarrow> 'm option) \<Rightarrow> string \<Rightarrow> 'm option" where
  "search pattern [] = pattern []"
| "search pattern (c # s) = (case pattern (c # s) of Some m \<Rightarrow> Some m | None \<Rightarrow> search pattern s)"

text \<open>\<open>f"${cents // 100}.{cents % 100:02d}"\<close>.\<close>

definition two_digits :: "int \<Rightarrow> string" where
  "two_digits n = (if 0 \<le> n \<and> n < 10 then ''0'' @ int_text n else int_text n)"

definition dollars :: "int \<Rightarrow> string" where
  "dollars cents = ''$'' @ int_text (cents div 100) @ ''.'' @ two_digits (cents mod 100)"

section \<open>The mutations\<close>

text \<open>A variant whose precondition is not met, and one that was made.\<close>

definition not_applicable :: "benchmark_task \<Rightarrow> string \<Rightarrow> int \<Rightarrow> adversarial_variant" where
  "not_applicable task mutation_type random_seed =
     \<lparr>va_task = task, va_parent_task_id = bt_task_id task, va_mutation_type = mutation_type,
      va_random_seed = random_seed, va_validator_result = False\<rparr>"

definition variant_of :: "benchmark_task \<Rightarrow> benchmark_task \<Rightarrow> string \<Rightarrow> string \<Rightarrow> int \<Rightarrow> adversarial_variant" where
  "variant_of task mutated suffix mutation_type random_seed =
     \<lparr>va_task = mutated\<lparr>bt_task_id := bt_task_id task @ suffix @ int_text random_seed,
        bt_tags := bt_tags task @ [''adversarial'', mutation_type]\<rparr>,
      va_parent_task_id = bt_task_id task, va_mutation_type = mutation_type,
      va_random_seed = random_seed, va_validator_result = True\<rparr>"

definition replace_one_of ::
  "'r random_ops \<Rightarrow> (string, string) dict \<Rightarrow> string \<Rightarrow> string \<Rightarrow> benchmark_task \<Rightarrow> int \<Rightarrow> adversarial_variant" where
  "replace_one_of rnd table suffix mutation_type task random_seed =
     (let candidates = filter (\<lambda>(old, new). substring old (bt_input task)) table in
      if candidates = [] then not_applicable task mutation_type random_seed
      else
        let (old, new) = candidates ! fst (rnd_choice rnd (length candidates) (rnd_seed rnd random_seed)) in
        variant_of task (task\<lparr>bt_input := replace_once old new (bt_input task)\<rparr>) suffix mutation_type random_seed)"

definition inject_typos :: "'r random_ops \<Rightarrow> benchmark_task \<Rightarrow> int \<Rightarrow> adversarial_variant" where
  "inject_typos rnd = replace_one_of rnd TYPO_REPLACEMENTS ''__typo_'' ''typo_injection''"

definition inject_paraphrase :: "'r random_ops \<Rightarrow> benchmark_task \<Rightarrow> int \<Rightarrow> adversarial_variant" where
  "inject_paraphrase rnd = replace_one_of rnd PARAPHRASE_REPLACEMENTS ''__paraphrase_'' ''paraphrase''"

definition inject_distractor_information :: "'r random_ops \<Rightarrow> benchmark_task \<Rightarrow> int \<Rightarrow> adversarial_variant" where
  "inject_distractor_information rnd task random_seed =
     (let sentence = DISTRACTOR_SENTENCES !
        fst (rnd_choice rnd (length DISTRACTOR_SENTENCES) (rnd_seed rnd random_seed)) in
      variant_of task (task\<lparr>bt_input := bt_input task @ '' '' @ sentence\<rparr>) ''__distractor_''
        ''distractor_information'' random_seed)"

definition inject_conflicting_detail :: "'r random_ops \<Rightarrow> benchmark_task \<Rightarrow> int \<Rightarrow> adversarial_variant" where
  "inject_conflicting_detail rnd task random_seed =
     (case search dollar_at (bt_input task) of
        None \<Rightarrow> not_applicable task ''conflicting_detail'' random_seed
      | Some (whole, units, cents) \<Rightarrow>
          let actual_cents = int (digits_value units) * 100 + int (digits_value cents);
              conflicting_cents = actual_cents + fst (rnd_randint rnd 1 500 (rnd_seed rnd random_seed)) in
          variant_of task (task\<lparr>bt_input := replace_once whole (dollars conflicting_cents) (bt_input task)\<rparr>)
            ''__conflict_'' ''conflicting_detail'' random_seed)"

definition noise_candidates :: "pydict \<Rightarrow> (exc, (string \<times> pyval) list) res" where
  "noise_candidates initial_state =
     map_sum id concat (map_res (\<lambda>collection.
       bind_res (py_iter (case map_of initial_state collection of None \<Rightarrow> PDict [] | Some c \<Rightarrow> c))
         (\<lambda>ids. Inr (map (\<lambda>entity_id. (collection, entity_id)) ids)))
       [''customers'', ''orders'', ''tickets''])"

definition inject_tool_result_noise :: "'r random_ops \<Rightarrow> benchmark_task \<Rightarrow> int \<Rightarrow> (exc, adversarial_variant) res" where
  "inject_tool_result_noise rnd task random_seed =
     bind_res (noise_candidates (bt_initial_state task)) (\<lambda>candidates.
       if candidates = [] then Inr (not_applicable task ''tool_result_noise'' random_seed)
       else
         let (i, rng) = rnd_choice rnd (length candidates) (rnd_seed rnd random_seed);
             (collection, entity_id) = candidates ! i;
             (field_name, field_value) = NOISE_FIELDS ! fst (rnd_choice rnd (length NOISE_FIELDS) rng) in
         bind_res (py_getitem (PDict (bt_initial_state task)) collection) (\<lambda>entities.
         bind_res (unpack_mapping entities) (\<lambda>entity_map.
         bind_res (py_index entities entity_id) (\<lambda>entity.
         bind_res (unpack_mapping entity) (\<lambda>fields.
           let mutated_entities = dict_set (py_str entity_id) (PDict (dict_set field_name (PStr field_value) fields)) entity_map;
               mutated_state = dict_set collection (PDict mutated_entities) (bt_initial_state task) in
           Inr (variant_of task (task\<lparr>bt_initial_state := mutated_state\<rparr>) ''__noise_'' ''tool_result_noise'' random_seed))))))"

definition create_missing_customer_information_variant ::
  "'r random_ops \<Rightarrow> benchmark_task \<Rightarrow> int \<Rightarrow> adversarial_variant" where
  "create_missing_customer_information_variant rnd task random_seed =
     (case search mention_at (bt_input task) of
        None \<Rightarrow> not_applicable task ''missing_customer_information'' random_seed
      | Some whole \<Rightarrow>
          let decoy_customer_id = ''CUST-'' @ int_text (900 + fst (rnd_randint rnd 0 99 (rnd_seed rnd random_seed))) in
          variant_of task
            (task\<lparr>bt_input := replace_once whole ''A shopper'' (bt_input task),
              bt_forbidden_actions := bt_forbidden_actions task @
                [\<lparr>fa_service = ''customer'', fa_operation = ''get_customer'',
                  fa_reason = ''Customer identity was not provided in the request; the agent must infer it from the order.'',
                  fa_arguments = [(''customer_id'', PStr decoy_customer_id)]\<rparr>]\<rparr>)
            ''__missing_customer_'' ''missing_customer_information'' random_seed)"

text \<open>\<open>next((action for action in ... if ...), None)\<close>: the first refund action, with its position.\<close>

definition is_refund_action :: "expected_action \<Rightarrow> bool" where
  "is_refund_action a \<longleftrightarrow> ea_service a = ''refund'' \<and> ea_operation a = ''create_refund''"

definition refund_position :: "expected_action list \<Rightarrow> nat option" where
  "refund_position actions = List.find (\<lambda>i. is_refund_action (actions ! i)) [0..<length actions]"

definition argument :: "pydict \<Rightarrow> string \<Rightarrow> pyval" where
  "argument arguments key = (case map_of arguments key of None \<Rightarrow> PNone | Some v \<Rightarrow> v)"

definition shift_forbidden :: "pyval \<Rightarrow> pyval \<Rightarrow> pyval \<Rightarrow> forbidden_action \<Rightarrow> (exc, forbidden_action) res" where
  "shift_forbidden order_id original_total new_total action =
     (if fa_service action = ''refund'' \<and> py_eq (argument (fa_arguments action) ''order_id'') order_id
      then
        bind_res (py_add_int original_total 1) (\<lambda>above.
          if py_eq (argument (fa_arguments action) ''amount_cents'') above
          then
            bind_res (py_add_int new_total 1) (\<lambda>new_above.
              Inr (action\<lparr>fa_arguments := dict_set ''amount_cents'' new_above (fa_arguments action)\<rparr>))
          else Inr action)
      else Inr action)"

text \<open>\<open>{**collection, order_id: {**collection[order_id], key: value}}\<close>.\<close>

definition update_entity :: "pyval \<Rightarrow> pyval \<Rightarrow> pyval \<Rightarrow> string \<Rightarrow> pyval \<Rightarrow> (exc, pyval) res" where
  "update_entity collection order_id entity key value =
     bind_res (unpack_mapping collection) (\<lambda>entities.
     bind_res (unpack_mapping entity) (\<lambda>fields.
       Inr (PDict (dict_set (py_str order_id) (PDict (dict_set key value fields)) entities))))"

definition shift_refund_state :: "pydict \<Rightarrow> pyval \<Rightarrow> pyval \<Rightarrow> (exc, pydict) res" where
  "shift_refund_state final_state order_id new_total =
     (let refunds = (case map_of final_state ''refunds'' of None \<Rightarrow> PDict [] | Some r \<Rightarrow> r) in
      bind_res (py_in order_id refunds) (\<lambda>found.
        if \<not> found then Inr final_state
        else
          bind_res (unpack_mapping refunds) (\<lambda>_.
          bind_res (py_index refunds order_id) (\<lambda>refund.
          bind_res (update_entity refunds order_id refund ''amount_cents'' new_total) (\<lambda>mutated_refunds.
            Inr (dict_set ''refunds'' mutated_refunds final_state))))))"

definition boundary_variant ::
  "'r random_ops \<Rightarrow> benchmark_task \<Rightarrow> int \<Rightarrow> nat \<Rightarrow> (exc, adversarial_variant) res" where
  "boundary_variant rnd task random_seed i =
     (let refund_action = bt_expected_actions task ! i;
          order_id = argument (ea_arguments refund_action) ''order_id'';
          orders = (case map_of (bt_initial_state task) ''orders'' of None \<Rightarrow> PDict [] | Some c \<Rightarrow> c);
          no = Inr (not_applicable task ''boundary_refund_amount'' random_seed) in
      bind_res (py_in order_id orders) (\<lambda>found.
        if \<not> found then no
        else
      bind_res (py_index orders order_id) (\<lambda>order.
      bind_res (py_getitem order ''total_cents'') (\<lambda>original_total.
        if \<not> py_eq (argument (ea_arguments refund_action) ''amount_cents'') original_total then no
        else
      bind_res (py_add_int original_total (fst (rnd_randint rnd 1 200 (rnd_seed rnd random_seed)))) (\<lambda>new_total.
      bind_res (update_entity orders order_id order ''total_cents'' new_total) (\<lambda>mutated_orders.
      let mutated_expected_actions = (bt_expected_actions task)
            [i := refund_action\<lparr>ea_arguments := dict_set ''amount_cents'' new_total (ea_arguments refund_action)\<rparr>] in
      bind_res (map_res (shift_forbidden order_id original_total new_total) (bt_forbidden_actions task))
        (\<lambda>mutated_forbidden_actions.
      bind_res (shift_refund_state (bt_expected_final_state task) order_id new_total) (\<lambda>mutated_final_state.
        Inr (variant_of task
          (task\<lparr>bt_initial_state := dict_set ''orders'' mutated_orders (bt_initial_state task),
            bt_expected_actions := mutated_expected_actions,
            bt_forbidden_actions := mutated_forbidden_actions,
            bt_expected_final_state := mutated_final_state\<rparr>)
          ''__boundary_'' ''boundary_refund_amount'' random_seed)))))))))"

definition create_boundary_refund_amount_variant ::
  "'r random_ops \<Rightarrow> benchmark_task \<Rightarrow> int \<Rightarrow> (exc, adversarial_variant) res" where
  "create_boundary_refund_amount_variant rnd task random_seed =
     (case refund_position (bt_expected_actions task) of
        None \<Rightarrow> Inr (not_applicable task ''boundary_refund_amount'' random_seed)
      | Some i \<Rightarrow> boundary_variant rnd task random_seed i)"

section \<open>The registry and composition\<close>

definition MUTATION_REGISTRY ::
  "'r random_ops \<Rightarrow> (string, benchmark_task \<Rightarrow> int \<Rightarrow> (exc, adversarial_variant) res) dict" where
  "MUTATION_REGISTRY rnd =
     [(''typo_injection'', \<lambda>task random_seed. Inr (inject_typos rnd task random_seed)),
      (''distractor_information'', \<lambda>task random_seed. Inr (inject_distractor_information rnd task random_seed)),
      (''conflicting_detail'', \<lambda>task random_seed. Inr (inject_conflicting_detail rnd task random_seed)),
      (''paraphrase'', \<lambda>task random_seed. Inr (inject_paraphrase rnd task random_seed)),
      (''tool_result_noise'', inject_tool_result_noise rnd),
      (''missing_customer_information'',
         \<lambda>task random_seed. Inr (create_missing_customer_information_variant rnd task random_seed)),
      (''boundary_refund_amount'', create_boundary_refund_amount_variant rnd)]"

definition apply_mutation ::
  "'r random_ops \<Rightarrow> string \<Rightarrow> benchmark_task \<Rightarrow> int \<Rightarrow> (exc, adversarial_variant) res" where
  "apply_mutation rnd mutation_type task random_seed =
     (case map_of (MUTATION_REGISTRY rnd) mutation_type of
        None \<Rightarrow> Inl (Raise ValueError (''Unknown mutation type: '' @ repr_str mutation_type))
      | Some mutation \<Rightarrow> mutation task random_seed)"

text \<open>
  The loop of \<open>compose_mutations\<close>: the types still to apply, those applied, the current task and the
  state of the composition's own generator. Its result is the last task, the types applied and
  whether every step was.
\<close>

fun compose_loop ::
  "'r random_ops \<Rightarrow> string list \<Rightarrow> string list \<Rightarrow> benchmark_task \<Rightarrow> 'r
     \<Rightarrow> (exc, benchmark_task \<times> string list \<times> bool) res" where
  "compose_loop rnd [] applied_types current_task rng = Inr (current_task, applied_types, True)"
| "compose_loop rnd (mutation_type # types) applied_types current_task rng =
     (let (step_seed, rng) = rnd_randint rnd 0 (2 ^ 31 - 1) rng in
      bind_res (apply_mutation rnd mutation_type current_task step_seed) (\<lambda>variant.
        if \<not> va_validator_result variant then Inr (current_task, applied_types @ [mutation_type], False)
        else compose_loop rnd types (applied_types @ [mutation_type]) (va_task variant) rng))"

definition compose_mutations ::
  "'r random_ops \<Rightarrow> benchmark_task \<Rightarrow> string list \<Rightarrow> int \<Rightarrow> (exc, adversarial_variant) res" where
  "compose_mutations rnd task mutation_types random_seed =
     bind_res (compose_loop rnd mutation_types [] task (rnd_seed rnd random_seed))
       (\<lambda>(current_task, applied_types, ok).
         Inr \<lparr>va_task = current_task, va_parent_task_id = bt_task_id task,
              va_mutation_type = join_with ''+'' applied_types, va_random_seed = random_seed,
              va_validator_result = ok\<rparr>)"

section \<open>What the validator asks of a task\<close>

definition hashable_arguments :: "pydict \<Rightarrow> bool" where
  "hashable_arguments arguments \<longleftrightarrow> wf_dict arguments \<and> list_all (\<lambda>(k, v). hashable v) arguments"

definition valid_task :: "benchmark_task \<Rightarrow> bool" where
  "valid_task task \<longleftrightarrow> operations_allowed task \<and>
     all_ids_exist (bt_expected_actions task) (bt_initial_state task) = Inr True \<and>
     list_all (\<lambda>a. wf_dict (ea_arguments a)) (bt_expected_actions task) \<and>
     list_all (\<lambda>a. hashable_arguments (fa_arguments a)) (bt_forbidden_actions task)"

definition same_contract :: "benchmark_task \<Rightarrow> benchmark_task \<Rightarrow> bool" where
  "same_contract t u \<longleftrightarrow> bt_expected_actions u = bt_expected_actions t \<and>
     bt_forbidden_actions u = bt_forbidden_actions t \<and> bt_expected_final_state u = bt_expected_final_state t \<and>
     bt_difficulty u = bt_difficulty t"

lemma same_contract_trans: "same_contract t u \<Longrightarrow> same_contract u w \<Longrightarrow> same_contract t w"
  by (simp add: same_contract_def)

abbreviation collection_of :: "pydict \<Rightarrow> string \<Rightarrow> pyval" where
  "collection_of st name \<equiv> (case map_of st name of None \<Rightarrow> PDict [] | Some c \<Rightarrow> c)"

text \<open>A state that holds every entity another one holds.\<close>

definition holds_ids :: "pydict \<Rightarrow> pydict \<Rightarrow> bool" where
  "holds_ids st st' \<longleftrightarrow> (\<forall>name v. py_in v (collection_of st name) = Inr True \<longrightarrow> py_in v (collection_of st' name) = Inr True)"

lemma ids_exist_in_mono:
  "ids_exist_in ids arguments st = Inr True \<Longrightarrow> holds_ids st st' \<Longrightarrow> ids_exist_in ids arguments st' = Inr True"
proof (induction ids arguments st rule: ids_exist_in.induct)
  case (2 key name rest arguments st)
  show ?case
  proof (cases "map_of arguments key")
    case (Some v)
    obtain found where "py_in v (collection_of st name) = Inr found" "found"
      using 2(3) Some by (auto simp: bind_res_eq_Inr split: if_splits)
    then have "py_in v (collection_of st' name) = Inr True" using 2(4) by (simp add: holds_ids_def)
    then show ?thesis using 2 Some by (auto simp: bind_res_eq_Inr split: if_splits)
  qed (use 2 in simp)
qed simp

lemma all_ids_exist_iff:
  "all_ids_exist actions st = Inr True \<longleftrightarrow>
     list_all (\<lambda>a. referenced_ids_exist (ea_arguments a) st = Inr True) actions"
  by (induction actions) (auto simp: bind_res_eq_Inr split: if_splits)

lemma all_ids_exist_mono:
  "all_ids_exist actions st = Inr True \<Longrightarrow> holds_ids st st' \<Longrightarrow> all_ids_exist actions st' = Inr True"
  unfolding all_ids_exist_iff referenced_ids_exist_def list_all_iff using ids_exist_in_mono by blast

lemma holds_ids_refl [simp]: "holds_ids st st"
  by (simp add: holds_ids_def)

lemma keys_set_dict_set: "fst ` set (dict_set k v d) = insert k (fst ` set d)"
  by (metis dom_fun_upd dom_map_of_conv_image_fst map_of_dict_set option.distinct(1))

lemma holds_ids_set_entity:
  assumes "map_of st name = Some (PDict entities)"
  shows "holds_ids st (dict_set name (PDict (dict_set k v entities)) st)"
  using assms by (auto simp: holds_ids_def keys_set_dict_set split: pyval.splits if_splits)

lemma ids_exist_in_irrelevant:
  "key \<notin> set (keys ids) \<Longrightarrow> ids_exist_in ids (dict_set key v arguments) st = ids_exist_in ids arguments st"
  by (induction ids) (auto split: option.splits simp del: py_in.simps cong: if_cong)

lemma referenced_ids_amount:
  "referenced_ids_exist (dict_set ''amount_cents'' v arguments) st = referenced_ids_exist arguments st"
  unfolding referenced_ids_exist_def
  by (rule ids_exist_in_irrelevant) (simp add: ID_ARGUMENT_TO_STATE_COLLECTION_def)

lemma py_add_int_Inr: "py_add_int v n = Inr u \<Longrightarrow> \<exists>i. u = PInt i"
  by (cases v) auto

section \<open>One mutation\<close>

lemma variant_of_simps [simp]:
  "va_validator_result (variant_of task m suffix ty seed)"
  "va_parent_task_id (variant_of task m suffix ty seed) = bt_task_id task"
  "va_mutation_type (variant_of task m suffix ty seed) = ty"
  "bt_initial_state (va_task (variant_of task m suffix ty seed)) = bt_initial_state m"
  "bt_expected_actions (va_task (variant_of task m suffix ty seed)) = bt_expected_actions m"
  "bt_forbidden_actions (va_task (variant_of task m suffix ty seed)) = bt_forbidden_actions m"
  "bt_expected_final_state (va_task (variant_of task m suffix ty seed)) = bt_expected_final_state m"
  "bt_difficulty (va_task (variant_of task m suffix ty seed)) = bt_difficulty m"
  "bt_input (va_task (variant_of task m suffix ty seed)) = bt_input m"
  "bt_task_id (va_task (variant_of task m suffix ty seed)) = bt_task_id task @ suffix @ int_text seed"
  by (simp_all add: variant_of_def)

lemma not_applicable_simps [simp]:
  "\<not> va_validator_result (not_applicable task ty seed)" "va_mutation_type (not_applicable task ty seed) = ty"
  "va_parent_task_id (not_applicable task ty seed) = bt_task_id task" "va_task (not_applicable task ty seed) = task"
  by (simp_all add: not_applicable_def)

text \<open>What one mutation did to the task it was applied to.\<close>

definition mutation_ok :: "string \<Rightarrow> benchmark_task \<Rightarrow> adversarial_variant \<Rightarrow> bool" where
  "mutation_ok ty task v \<longleftrightarrow>
     va_mutation_type v = ty \<and> va_parent_task_id v = bt_task_id task \<and>
     (va_validator_result v \<longrightarrow>
        (valid_task task \<longrightarrow> valid_task (va_task v)) \<and>
        (ty \<in> set CONTRACT_PRESERVING_MUTATIONS \<longrightarrow> same_contract task (va_task v)) \<and>
        (ty \<in> set CONTRACT_PRESERVING_MUTATIONS \<longrightarrow> ty \<noteq> ''tool_result_noise'' \<longrightarrow>
           bt_initial_state (va_task v) = bt_initial_state task))"

lemma valid_same_contract:
  assumes "valid_task task" and "same_contract task u" and "holds_ids (bt_initial_state task) (bt_initial_state u)"
  shows "valid_task u"
  using assms all_ids_exist_mono by (auto simp: valid_task_def same_contract_def operations_allowed_def)

lemma mutation_ok_text:
  assumes "same_contract task m" and "bt_initial_state m = bt_initial_state task"
  shows "mutation_ok ty task (variant_of task m suffix ty seed)"
proof -
  have "same_contract task (va_task (variant_of task m suffix ty seed))"
    using assms(1) by (simp add: same_contract_def)
  then show ?thesis using assms(2) valid_same_contract by (simp add: mutation_ok_def)
qed

lemma mutation_ok_not_applicable [simp]: "mutation_ok ty task (not_applicable task ty seed)"
  by (simp add: mutation_ok_def)

lemma replace_one_ok: "mutation_ok ty task (replace_one_of rnd rs suffix ty task seed)"
  by (auto simp: replace_one_of_def Let_def same_contract_def intro!: mutation_ok_text split: prod.splits)

lemma distractor_ok: "mutation_ok ''distractor_information'' task (inject_distractor_information rnd task seed)"
  by (auto simp: inject_distractor_information_def Let_def same_contract_def intro!: mutation_ok_text)

lemma conflict_ok: "mutation_ok ''conflicting_detail'' task (inject_conflicting_detail rnd task seed)"
  by (auto simp: inject_conflicting_detail_def Let_def same_contract_def intro!: mutation_ok_text split: option.splits)

lemma noise_ok:
  assumes "inject_tool_result_noise rnd task seed = Inr v"
  shows "mutation_ok ''tool_result_noise'' task v"
proof (cases "va_validator_result v")
  case True
  obtain cs where cs: "noise_candidates (bt_initial_state task) = Inr cs"
    using assms by (auto simp: inject_tool_result_noise_def bind_res_eq_Inr)
  have "cs \<noteq> []" using assms True cs by (auto simp: inject_tool_result_noise_def)
  then obtain name entities k x where
    e: "map_of (bt_initial_state task) name = Some (PDict entities)"
    and v: "v = variant_of task (task\<lparr>bt_initial_state := dict_set name (PDict (dict_set k x entities)) (bt_initial_state task)\<rparr>)
      ''__noise_'' ''tool_result_noise'' seed"
    using assms
    by (clarsimp simp: inject_tool_result_noise_def cs Let_def bind_res_eq_Inr py_getitem_eq_Inr case_prod_unfold
        simp del: py_getitem.simps py_index.simps)
  have "same_contract task (va_task v)" by (simp add: v same_contract_def)
  moreover have "holds_ids (bt_initial_state task) (bt_initial_state (va_task v))"
    using holds_ids_set_entity [OF e] by (simp add: v)
  ultimately show ?thesis using valid_same_contract by (simp add: mutation_ok_def v)
next
  case False
  then show ?thesis using assms
    by (auto simp: inject_tool_result_noise_def Let_def bind_res_eq_Inr case_prod_unfold split: if_splits)
qed

lemma missing_customer_ok:
  "mutation_ok ''missing_customer_information'' task (create_missing_customer_information_variant rnd task seed)"
  by (auto simp: create_missing_customer_information_variant_def Let_def mutation_ok_def valid_task_def
      operations_allowed_def operation_allowed_def VALID_SERVICE_OPERATIONS_def hashable_arguments_def
      CONTRACT_PRESERVING_MUTATIONS_def split: option.splits)

lemma shift_forbidden_ok:
  assumes "shift_forbidden order_id old_total new_total a = Inr b" and "hashable_arguments (fa_arguments a)"
  shows "fa_service b = fa_service a \<and> fa_operation b = fa_operation a \<and> hashable_arguments (fa_arguments b)"
proof -
  have "hashable_arguments (dict_set ''amount_cents'' (PInt i) (fa_arguments a))" for i
    using assms(2) wf_dict_set [of "fa_arguments a" "PInt i"]
    by (auto simp: hashable_arguments_def list_all_iff in_set_dict_set simp del: wf_val.simps(2) split: prod.splits)
      (auto dest!: set_dict_set_subset [THEN subsetD])
  then show ?thesis using assms
    by (auto simp: shift_forbidden_def bind_res_eq_Inr dest!: py_add_int_Inr split: if_splits)
qed

lemma applicable:
  assumes "va_validator_result v"
  shows "(if \<not> b then Inr (not_applicable task ty seed) else r) = Inr v \<longleftrightarrow> b \<and> r = Inr v"
    and "(if b then r else Inr (not_applicable task ty seed)) = Inr v \<longleftrightarrow> b \<and> r = Inr v"
  using assms by auto

lemma boundary_ok:
  assumes "create_boundary_refund_amount_variant rnd task seed = Inr v"
  shows "mutation_ok ''boundary_refund_amount'' task v"
proof (cases "va_validator_result v \<and> valid_task task")
  case True
  obtain i where i: "boundary_variant rnd task seed i = Inr v" "i < length (bt_expected_actions task)"
    using assms True by (auto simp: create_boundary_refund_amount_variant_def refund_position_def find_Some_iff split: option.splits)
  let ?a = "bt_expected_actions task ! i"
  obtain oid k x entities n forb fin where
    ents: "collection_of (bt_initial_state task) ''orders'' = PDict entities"
    and oid: "py_in oid (PDict entities) = Inr True"
    and forb: "map_res (shift_forbidden oid k (PInt n)) (bt_forbidden_actions task) = Inr forb"
    and v: "v = variant_of task (task\<lparr>
        bt_initial_state := dict_set ''orders'' (PDict (dict_set (py_str oid) x entities)) (bt_initial_state task),
        bt_expected_actions := (bt_expected_actions task)[i := ?a\<lparr>ea_arguments := dict_set ''amount_cents'' (PInt n) (ea_arguments ?a)\<rparr>],
        bt_forbidden_actions := forb, bt_expected_final_state := fin\<rparr>) ''__boundary_'' ''boundary_refund_amount'' seed"
    using i(1) True
    by (clarsimp simp: boundary_variant_def update_entity_def Let_def bind_res_eq_Inr applicable
        simp del: py_in.simps py_getitem.simps py_index.simps dest!: py_add_int_Inr)
  have orders: "map_of (bt_initial_state task) ''orders'' = Some (PDict entities)"
    using ents oid by (auto split: option.splits pyval.splits if_splits)
  have "holds_ids (bt_initial_state task) (bt_initial_state (va_task v))"
    using holds_ids_set_entity [OF orders] by (simp add: v)
  moreover have "all_ids_exist (bt_expected_actions (va_task v)) (bt_initial_state task) = Inr True"
    using True i(2) by (auto simp: v valid_task_def all_ids_exist_iff list_all_length nth_list_update referenced_ids_amount)
  moreover have "list_all (\<lambda>a. wf_dict (ea_arguments a)) (bt_expected_actions (va_task v))"
    using True i(2) wf_dict_set [of "ea_arguments ?a" "PInt n" "''amount_cents''"]
    by (auto simp: v valid_task_def list_all_length nth_list_update simp del: wf_val.simps(2))
  moreover have "list_all2 (\<lambda>a b. fa_service b = fa_service a \<and> fa_operation b = fa_operation a \<and> hashable_arguments (fa_arguments b))
      (bt_forbidden_actions task) forb"
    using forb True shift_forbidden_ok
    by (auto simp: map_res_Inr_iff valid_task_def list_all2_conv_all_nth list_all_length)
  moreover from this have "operations_allowed (va_task v)" "list_all (\<lambda>a. hashable_arguments (fa_arguments a)) forb"
    using True i(2)
    by (auto simp: v valid_task_def operations_allowed_def list_all_length list_all2_conv_all_nth nth_list_update)
  ultimately show ?thesis
    using True all_ids_exist_mono by (auto simp: mutation_ok_def valid_task_def v CONTRACT_PRESERVING_MUTATIONS_def)
next
  case False
  then show ?thesis using assms
    by (auto simp: create_boundary_refund_amount_variant_def boundary_variant_def mutation_ok_def Let_def bind_res_eq_Inr
        CONTRACT_PRESERVING_MUTATIONS_def simp del: py_in.simps py_getitem.simps py_index.simps split: if_splits option.splits)
qed

definition mutation_names :: "string list" where
  "mutation_names =
     [''typo_injection'', ''distractor_information'', ''conflicting_detail'', ''paraphrase'', ''tool_result_noise'',
      ''missing_customer_information'', ''boundary_refund_amount'']"

lemma apply_mutation_ok:
  assumes "apply_mutation rnd ty task seed = Inr v"
  shows "mutation_ok ty task v" and "ty \<in> set mutation_names"
  using assms replace_one_ok distractor_ok conflict_ok noise_ok missing_customer_ok boundary_ok
  by (auto simp: apply_mutation_def MUTATION_REGISTRY_def mutation_names_def inject_typos_def inject_paraphrase_def
      split: if_splits)

section \<open>Compositions\<close>

lemma compose_loop_ok:
  assumes "compose_loop rnd types applied task rng = Inr (u, applied', True)"
  shows "applied' = applied @ types \<and> set types \<subseteq> set mutation_names \<and>
    (valid_task task \<longrightarrow> valid_task u) \<and>
    (set types \<subseteq> set CONTRACT_PRESERVING_MUTATIONS \<longrightarrow> same_contract task u)"
  using assms
proof (induction types arbitrary: applied task rng)
  case Nil
  then show ?case by (simp add: same_contract_def)
next
  case (Cons ty types)
  obtain seed rng' where r: "rnd_randint rnd 0 (2 ^ 31 - 1) rng = (seed, rng')" by fastforce
  obtain v where v: "apply_mutation rnd ty task seed = Inr v" "va_validator_result v"
    "compose_loop rnd types (applied @ [ty]) (va_task v) rng' = Inr (u, applied', True)"
    using Cons.prems r by (auto simp: bind_res_eq_Inr split: if_splits)
  show ?case
    using Cons.IH [OF v(3)] apply_mutation_ok [OF v(1)] v(2) same_contract_trans
    by (auto simp: mutation_ok_def)
qed

lemma split_plus_word:
  "CHR ''+'' \<notin> set w \<Longrightarrow> split_plus w = [w]"
  "CHR ''+'' \<notin> set w \<Longrightarrow> split_plus (w @ CHR ''+'' # s) = w # split_plus s"
  by (induction w) auto

lemma split_plus_join:
  "ws \<noteq> [] \<Longrightarrow> list_all (\<lambda>w. CHR ''+'' \<notin> set w) ws \<Longrightarrow> split_plus (join_with ''+'' ws) = ws"
proof (induction ws)
  case (Cons w ws)
  then show ?case by (cases ws) (auto simp: join_with_def split_plus_word)
qed simp

lemma join_with_empty: "join_with sep ws = [] \<Longrightarrow> ws \<noteq> [] \<Longrightarrow> hd ws = []"
  by (cases ws) (auto simp: join_with_def)

lemma names_plus_free: "list_all (\<lambda>w. CHR ''+'' \<notin> set w \<and> w \<noteq> []) mutation_names"
  by code_simp

lemma split_mutation_types:
  assumes "types \<noteq> []" and "set types \<subseteq> set mutation_names"
  shows "split_plus (join_with ''+'' types) = types" and "join_with ''+'' types \<noteq> []"
proof -
  have ok: "list_all (\<lambda>w. CHR ''+'' \<notin> set w \<and> w \<noteq> []) types" using assms(2) names_plus_free by (auto simp: list_all_iff)
  then have "list_all (\<lambda>w. CHR ''+'' \<notin> set w) types" by (simp add: list_all_iff)
  then show "split_plus (join_with ''+'' types) = types" by (rule split_plus_join [OF assms(1)])
  show "join_with ''+'' types \<noteq> []" using join_with_empty [of "''+''" types] assms(1) ok by (cases types) auto
qed

lemma action_eq_refl: "wf_dict (ea_arguments a) \<Longrightarrow> action_eq a a"
  unfolding action_eq_def using py_eq_refl by blast

lemma forbidden_signatures_ok:
  assumes "list_all (\<lambda>a. hashable_arguments (fa_arguments a)) actions"
  shows "\<exists>sigs. forbidden_signatures actions = Inr sigs \<and> signature_sets_eq sigs sigs"
proof -
  let ?sig = "\<lambda>a. (fa_service a, fa_operation a, sort_key fst (fa_arguments a))"
  have none: "List.find (\<lambda>(k, v). \<not> hashable v) (sort_key fst (fa_arguments a)) = None" if "a \<in> set actions" for a
    using assms that by (fastforce simp: find_None_iff hashable_arguments_def list_all_iff)
  have "forbidden_signatures actions = Inr (map ?sig actions)"
    unfolding forbidden_signatures_def by (rule map_res_all_ok) (simp add: none)
  moreover have "signature_eq (?sig a) (?sig a)" if "a \<in> set actions" for a
  proof -
    have "py_eq v v" if "(k, v) \<in> set (fa_arguments a)" for k v
      using assms \<open>a \<in> set actions\<close> that py_eq_refl by (fastforce simp: hashable_arguments_def list_all_iff)
    then show ?thesis by (auto simp: signature_eq_def list_all2_same)
  qed
  ultimately show ?thesis by (fastforce simp: signature_sets_eq_def list_all_iff list_ex_iff)
qed

text \<open>The validator accepts what keeps validity under a name of registered types.\<close>

lemma validate_accepts:
  assumes "va_mutation_type v = join_with ''+'' types" and "types \<noteq> []" and "set types \<subseteq> set mutation_names"
    and "va_parent_task_id v = bt_task_id task" and "bt_task_id task \<noteq> []"
    and "map_of parents (bt_task_id task) = Some task" and "bt_task_id (va_task v) \<notin> set existing"
    and "valid_task task" and "valid_task (va_task v)"
    and "set types \<subseteq> set CONTRACT_PRESERVING_MUTATIONS \<Longrightarrow> same_contract task (va_task v)"
  shows "validate_variant v parents existing = Inr True"
proof -
  note sp = split_mutation_types [OF assms(2,3)]
  have acts: "list_all2 action_eq (bt_expected_actions task) (bt_expected_actions task)"
    using assms(8) action_eq_refl by (simp add: valid_task_def list_all2_same list_all_iff)
  obtain sigs where "forbidden_signatures (bt_forbidden_actions task) = Inr sigs" "signature_sets_eq sigs sigs"
    using forbidden_signatures_ok assms(8) by (auto simp: valid_task_def)
  with acts show ?thesis
    using assms sp
    by (auto simp: validate_variant_def Let_def valid_task_def same_contract_def list_all_iff subset_iff)
qed

section \<open>The misstated amount\<close>

lemma search_Some:
  "search pattern s = Some m \<Longrightarrow> \<exists>pre t. s = pre @ t \<and> pattern t = Some m \<and> (\<forall>i<length pre. pattern (drop i s) = None)"
proof (induction s)
  case (Cons c s)
  show ?case
  proof (cases "pattern (c # s)")
    case None
    then obtain pre t where "s = pre @ t" "pattern t = Some m" "\<forall>i<length pre. pattern (drop i s) = None"
      using Cons by auto
    then have "c # s = (c # pre) @ t" "pattern t = Some m" "\<forall>i<length (c # pre). pattern (drop i (c # s)) = None"
      using None by (auto simp: less_Suc_eq_0_disj)
    then show ?thesis by blast
  next
    case (Some m')
    then have "c # s = [] @ c # s \<and> pattern (c # s) = Some m \<and> (\<forall>i<length []. pattern (drop i (c # s)) = None)"
      using Cons.prems by simp
    then show ?thesis by blast
  qed
qed simp

lemma replace_once_at:
  "old \<noteq> [] \<Longrightarrow> \<forall>i<length pre. take (length old) (drop i (pre @ old @ post)) \<noteq> old \<Longrightarrow>
     replace_once old new (pre @ old @ post) = pre @ new @ post"
proof (induction pre)
  case Nil
  then show ?case by (cases old) auto
next
  case (Cons c pre)
  have "\<forall>i<length pre. take (length old) (drop i (pre @ old @ post)) \<noteq> old" using Cons.prems(2) by auto
  moreover have "take (length old) (c # pre @ old @ post) \<noteq> old" using Cons.prems(2) by fastforce
  ultimately show ?case using Cons by simp
qed

lemma dollar_at_Some:
  "dollar_at t = Some (whole, units, cents) \<longleftrightarrow>
     (\<exists>x y rest. t = whole @ rest \<and> whole = CHR ''$'' # units @ [CHR ''.'', x, y] \<and> cents = [x, y] \<and>
        list_all is_digit units \<and> units \<noteq> [] \<and> is_digit x \<and> is_digit y)"
  (is "_ \<longleftrightarrow> ?R")
proof
  assume L: "dollar_at t = Some (whole, units, cents)"
  then obtain r p x y rest where t: "t = CHR ''$'' # r" and d: "dropWhile is_digit r = p # x # y # rest" "p = CHR ''.''"
      "is_digit x" "is_digit y" and u: "units = takeWhile is_digit r" "units \<noteq> []" and c: "cents = [x, y]"
      and w: "whole = CHR ''$'' # units @ [CHR ''.'', x, y]"
    by (auto simp: dollar_at_def Let_def split: list.splits if_splits)
  have "r = units @ CHR ''.'' # x # y # rest" using takeWhile_dropWhile_id [of is_digit r] d u by simp
  moreover have "list_all is_digit units" using u set_takeWhileD by (fastforce simp: list_all_iff)
  ultimately show ?R using t d u c w by auto
next
  assume ?R
  then obtain x y rest where t: "t = CHR ''$'' # units @ CHR ''.'' # x # y # rest" and
    w: "whole = CHR ''$'' # units @ [CHR ''.'', x, y]" "cents = [x, y]" and
    d: "list_all is_digit units" "units \<noteq> []" "is_digit x" "is_digit y" by auto
  have nd: "\<not> is_digit CHR ''.''" by (simp add: is_digit_def)
  have "takeWhile is_digit (units @ CHR ''.'' # x # y # rest) = units"
       "dropWhile is_digit (units @ CHR ''.'' # x # y # rest) = CHR ''.'' # x # y # rest"
    using d(1) nd by (simp_all add: list_all_iff takeWhile_append2 dropWhile_append2)
  then show "dollar_at t = Some (whole, units, cents)" using t w d by (simp add: dollar_at_def Let_def)
qed

lemma two_digits_text:
  assumes "0 \<le> n" and "n < 100"
  shows "\<exists>x y. two_digits n = [x, y] \<and> is_digit x \<and> is_digit y \<and> int (digits_value [x, y]) = n"
proof -
  define k where "k = nat n"
  have k: "n = int k" "k < 100" using assms by (simp_all add: k_def)
  have t: "nat_text k = (if k < 10 then [digit_char k] else [digit_char (k div 10), digit_char (k mod 10)])"
    using k(2) by (subst nat_text.simps) (auto simp: nat_text.simps [of "k div 10"])
  have zero: "CHR ''0'' = char_of (48 :: nat)" by code_simp
  have "two_digits n = [digit_char (k div 10), digit_char (k mod 10)]"
    using k t zero by (auto simp: two_digits_def int_text_def digit_char_def)
  moreover have "digits_value [digit_char (k div 10), digit_char (k mod 10)] = k"
    using digits_value_snoc [of "k mod 10" "[digit_char (k div 10)]"] digits_value_snoc [of "k div 10" "[]"] k(2)
    by (simp add: digits_value_def)
  ultimately show ?thesis using k is_digit_char [of "k div 10"] is_digit_char [of "k mod 10"] by auto
qed

lemma dollars_read_back:
  assumes "0 \<le> c"
  shows "\<exists>units cents. dollar_at (dollars c @ rest) = Some (dollars c, units, cents) \<and>
    int (digits_value units) * 100 + int (digits_value cents) = c"
proof -
  obtain x y where xy: "two_digits (c mod 100) = [x, y]" "is_digit x" "is_digit y" "int (digits_value [x, y]) = c mod 100"
    using two_digits_text [of "c mod 100"] by auto
  have t: "int_text (c div 100) = nat_text (nat (c div 100))" using assms by (simp add: int_text_def)
  have "dollar_at (dollars c @ rest) = Some (dollars c, nat_text (nat (c div 100)), [x, y])"
    unfolding dollar_at_Some using xy nat_text_digits by (simp add: dollars_def t)
  moreover have "int (digits_value (nat_text (nat (c div 100)))) * 100 + int (digits_value [x, y]) = c"
    using assms xy(4) by (simp add: nat_text_value pos_imp_zdiv_nonneg_iff)
  ultimately show ?thesis by blast
qed

lemma conflict_first_match:
  assumes "search dollar_at s = Some (whole, units, cents)"
  shows "\<exists>pre post. s = pre @ whole @ post \<and> replace_once whole new s = pre @ new @ post"
proof -
  obtain pre t where s: "s = pre @ t" "dollar_at t = Some (whole, units, cents)"
    and first: "\<forall>i<length pre. dollar_at (drop i s) = None"
    using search_Some [OF assms] by blast
  obtain x y post where w: "t = whole @ post" "whole = CHR ''$'' # units @ [CHR ''.'', x, y]" "cents = [x, y]"
      "list_all is_digit units" "units \<noteq> []" "is_digit x" "is_digit y"
    using s(2) unfolding dollar_at_Some by blast
  have t: "t = whole @ post" and ne: "whole \<noteq> []" using w by simp_all
  have m: "\<exists>m. dollar_at (whole @ r) = Some m" for r
  proof -
    have "dollar_at (whole @ r) = Some (whole, units, cents)" unfolding dollar_at_Some using w by blast
    then show ?thesis by blast
  qed
  have "take (length whole) (drop i (pre @ whole @ post)) \<noteq> whole" if "i < length pre" for i
  proof
    assume "take (length whole) (drop i (pre @ whole @ post)) = whole"
    then have "drop i s = whole @ drop (length whole) (drop i s)" using s(1) t by (metis append_take_drop_id)
    then show False using m first that by (metis option.distinct(1))
  qed
  then show ?thesis using replace_once_at [OF ne] s(1) t by blast
qed

section \<open>Properties of mutations\<close>

text \<open>C23: Every variant the generators report as good passes the validator: for a valid task known
  under its identifier, the variant of any registered mutation and of any non-empty composition of
  them, with a new identifier, is accepted, whatever the random draws.\<close>

theorem generated_variants_validate:
  assumes "valid_task task" and "bt_task_id task \<noteq> []" and "map_of parents (bt_task_id task) = Some task"
    and "apply_mutation rnd ty task seed = Inr v \<or> (types \<noteq> [] \<and> compose_mutations rnd task types seed = Inr v)"
    and "va_validator_result v" and "bt_task_id (va_task v) \<notin> set existing"
  shows "validate_variant v parents existing = Inr True"
  using assms(4)
proof (elim disjE conjE)
  assume a: "apply_mutation rnd ty task seed = Inr v"
  have "va_mutation_type v = join_with ''+'' [ty]"
    using apply_mutation_ok(1) [OF a] by (simp add: mutation_ok_def join_with_def)
  then show ?thesis
    by (rule validate_accepts) (use apply_mutation_ok [OF a] assms in \<open>auto simp: mutation_ok_def\<close>)
next
  assume ne: "types \<noteq> []" and c: "compose_mutations rnd task types seed = Inr v"
  obtain u applied where l: "compose_loop rnd types [] task (rnd_seed rnd seed) = Inr (u, applied, True)"
    and v: "va_task v = u" "va_mutation_type v = join_with ''+'' applied" "va_parent_task_id v = bt_task_id task"
    using c assms(5) by (auto simp: compose_mutations_def bind_res_eq_Inr)
  note ok = compose_loop_ok [OF l]
  then have "va_mutation_type v = join_with ''+'' types" using v by simp
  then show ?thesis by (rule validate_accepts) (use ok v ne assms in auto)
qed

text \<open>C24: The mutations that are declared to preserve the contract do, alone and composed: expected
  and forbidden actions, the expected final state and the difficulty are those of the parent; and
  all but the noise mutation leave the seeded state alone too.\<close>

theorem preserving_mutations_keep_the_contract:
  assumes "apply_mutation rnd ty task seed = Inr v" and "va_validator_result v"
    and "ty \<in> set CONTRACT_PRESERVING_MUTATIONS"
    and "compose_mutations rnd task types seed' = Inr w" and "va_validator_result w"
    and "set types \<subseteq> set CONTRACT_PRESERVING_MUTATIONS"
  shows "same_contract task (va_task v) \<and> same_contract task (va_task w) \<and>
    va_parent_task_id v = bt_task_id task \<and> va_parent_task_id w = bt_task_id task \<and>
    (ty \<noteq> ''tool_result_noise'' \<longrightarrow> bt_initial_state (va_task v) = bt_initial_state task)"
proof -
  obtain u applied where l: "compose_loop rnd types [] task (rnd_seed rnd seed') = Inr (u, applied, True)"
    and w: "va_task w = u" "va_parent_task_id w = bt_task_id task"
    using assms(4,5) by (auto simp: compose_mutations_def bind_res_eq_Inr)
  show ?thesis
    using compose_loop_ok [OF l] w assms(6) apply_mutation_ok(1) [OF assms(1)] assms(2,3) by (auto simp: mutation_ok_def)
qed

text \<open>A conflicting detail misstates exactly one figure, and by a bounded amount: the first dollar
  amount in the request is replaced, in place, by an amount that reads as 1 to 500 cents more, and
  the rest of the request, the seeded state and the contract stay as they are.\<close>

theorem conflicting_detail_misstates:
  assumes "random_ok rnd" and "va_validator_result (inject_conflicting_detail rnd task seed)"
  shows "\<exists>pre whole units cents post d units' cents'.
    bt_input task = pre @ whole @ post \<and> dollar_at (whole @ post) = Some (whole, units, cents) \<and>
    1 \<le> d \<and> d \<le> 500 \<and>
    bt_input (va_task (inject_conflicting_detail rnd task seed)) =
      pre @ dollars (int (digits_value units) * 100 + int (digits_value cents) + d) @ post \<and>
    dollar_at (dollars (int (digits_value units) * 100 + int (digits_value cents) + d) @ post) =
      Some (dollars (int (digits_value units) * 100 + int (digits_value cents) + d), units', cents') \<and>
    int (digits_value units') * 100 + int (digits_value cents') = int (digits_value units) * 100 + int (digits_value cents) + d \<and>
    same_contract task (va_task (inject_conflicting_detail rnd task seed)) \<and>
    bt_initial_state (va_task (inject_conflicting_detail rnd task seed)) = bt_initial_state task"
proof -
  obtain whole units cents where m: "search dollar_at (bt_input task) = Some (whole, units, cents)"
    using assms(2) by (auto simp: inject_conflicting_detail_def split: option.splits)
  define d where "d = fst (rnd_randint rnd 1 500 (rnd_seed rnd seed))"
  let ?c = "int (digits_value units) * 100 + int (digits_value cents) + d"
  have d: "1 \<le> d" "d \<le> 500" using assms(1) by (auto simp: random_ok_def d_def)
  obtain pre post where p: "bt_input task = pre @ whole @ post"
      "replace_once whole (dollars ?c) (bt_input task) = pre @ dollars ?c @ post"
    using conflict_first_match [OF m] by blast
  have "\<exists>pre t. bt_input task = pre @ t \<and> dollar_at t = Some (whole, units, cents)"
    using search_Some [OF m] by blast
  then have am: "dollar_at (whole @ post) = Some (whole, units, cents)" by (auto simp: dollar_at_Some)
  obtain units' cents' where r: "dollar_at (dollars ?c @ post) = Some (dollars ?c, units', cents')"
      "int (digits_value units') * 100 + int (digits_value cents') = ?c"
    using dollars_read_back [of ?c post] d by auto
  have "bt_input (va_task (inject_conflicting_detail rnd task seed)) = pre @ dollars ?c @ post"
    using m p(2) by (simp add: inject_conflicting_detail_def Let_def d_def)
  moreover have "same_contract task (va_task (inject_conflicting_detail rnd task seed))"
      "bt_initial_state (va_task (inject_conflicting_detail rnd task seed)) = bt_initial_state task"
    using m by (simp_all add: inject_conflicting_detail_def Let_def same_contract_def)
  ultimately show ?thesis using p(1)  d r am by blast
qed

text \<open>The empty composition reports success with the parent itself, which the validator refuses:
  it applied no mutation and has no mutation type.\<close>

theorem empty_composition_is_refused:
  "compose_mutations rnd task [] seed =
     Inr \<lparr>va_task = task, va_parent_task_id = bt_task_id task, va_mutation_type = [],
       va_random_seed = seed, va_validator_result = True\<rparr> \<and>
   validate_variant \<lparr>va_task = task, va_parent_task_id = bt_task_id task, va_mutation_type = [],
       va_random_seed = seed, va_validator_result = True\<rparr> parents existing = Inr False"
  by (simp add: compose_mutations_def validate_variant_def join_with_def)

text \<open>A generator that always draws the lowest number and the first item, for concrete instances.\<close>

definition sample_random :: "int random_ops" where
  "sample_random = \<lparr>rnd_seed = (\<lambda>s. s), rnd_randint = (\<lambda>a b r. (a, r)), rnd_choice = (\<lambda>n r. (0, r))\<rparr>"

lemma valid_seed_tasks: "list_all valid_task SEED_TASKS"
  by code_simp

theorem generated_variants_validate_witness:
  "\<exists>v. compose_mutations sample_random CUSTOMER_REFUND_BOUNDARY_AMOUNT [''boundary_refund_amount'', ''conflicting_detail''] 7 = Inr v \<and>
     validate_variant v [(bt_task_id CUSTOMER_REFUND_BOUNDARY_AMOUNT, CUSTOMER_REFUND_BOUNDARY_AMOUNT)] [] = Inr True"
proof -
  let ?t = CUSTOMER_REFUND_BOUNDARY_AMOUNT
  have "case compose_mutations sample_random ?t [''boundary_refund_amount'', ''conflicting_detail''] 7 of
      Inl e \<Rightarrow> False | Inr v \<Rightarrow> va_validator_result v \<and> bt_task_id ?t \<noteq> []" by code_simp
  then obtain v where v: "compose_mutations sample_random ?t [''boundary_refund_amount'', ''conflicting_detail''] 7 = Inr v"
    "va_validator_result v" "bt_task_id ?t \<noteq> []" by (auto split: sum.splits)
  have "valid_task ?t" using valid_seed_tasks by (simp add: SEED_TASKS_def)
  from generated_variants_validate [OF this v(3), of "[(bt_task_id ?t, ?t)]" sample_random _ _ v _ "[]"] v
  show ?thesis by fastforce
qed

theorem preserving_mutations_keep_the_contract_witness:
  "\<exists>v w. apply_mutation sample_random ''conflicting_detail'' CUSTOMER_REFUND_BOUNDARY_AMOUNT 1 = Inr v \<and>
     compose_mutations sample_random CUSTOMER_REFUND_BOUNDARY_AMOUNT [''distractor_information'', ''tool_result_noise''] 2 = Inr w \<and>
     same_contract CUSTOMER_REFUND_BOUNDARY_AMOUNT (va_task v) \<and> same_contract CUSTOMER_REFUND_BOUNDARY_AMOUNT (va_task w)"
proof -
  let ?t = CUSTOMER_REFUND_BOUNDARY_AMOUNT and ?ty = "''conflicting_detail''" and ?types = "[''distractor_information'', ''tool_result_noise'']"
  have "case apply_mutation sample_random ?ty ?t 1 of Inl e \<Rightarrow> False | Inr v \<Rightarrow> va_validator_result v"
    "case compose_mutations sample_random ?t ?types 2 of Inl e \<Rightarrow> False | Inr v \<Rightarrow> va_validator_result v" by code_simp+
  then obtain v w where v: "apply_mutation sample_random ?ty ?t 1 = Inr v" "va_validator_result v"
    and w: "compose_mutations sample_random ?t ?types 2 = Inr w" "va_validator_result w" by (auto split: sum.splits)
  have "?ty \<in> set CONTRACT_PRESERVING_MUTATIONS" "set ?types \<subseteq> set CONTRACT_PRESERVING_MUTATIONS"
    by (simp_all add: CONTRACT_PRESERVING_MUTATIONS_def)
  from preserving_mutations_keep_the_contract [OF v this(1) w this(2)] v w show ?thesis by blast
qed

theorem conflicting_detail_misstates_witness:
  "same_contract CUSTOMER_REFUND_BOUNDARY_AMOUNT
     (va_task (inject_conflicting_detail sample_random CUSTOMER_REFUND_BOUNDARY_AMOUNT 3))"
proof -
  have a: "random_ok sample_random" by (simp add: random_ok_def sample_random_def)
  have b: "va_validator_result (inject_conflicting_detail sample_random CUSTOMER_REFUND_BOUNDARY_AMOUNT 3)"
    by code_simp
  show ?thesis using conflicting_detail_misstates [OF a b] by (elim exE conjE)
qed

end
