(* ===== verification/Judges.thy ===== *)
theory Judges
  imports Contracts
begin

text \<open>
  \<open>judges/llm.py\<close>, \<open>judges/orchestration.py\<close> and \<open>judges/agreement.py\<close>: rubric-driven judges, which
  of them run for an execution, and how the verdicts of several are summarised. The model behind a
  judge is a state and a function from prompts to texts or exceptions. Confidences are doubles:
  their arithmetic (\<open>float\<close> of a decimal, its \<open>repr\<close>, true division) is the parameter \<open>float_ops\<close>
  over rationals. Rubric files are a function from file names to texts.
\<close>

record float_ops =
  fl_of :: "rat \<Rightarrow> rat"
  fl_repr :: "rat \<Rightarrow> string"
  fl_div :: "nat \<Rightarrow> nat \<Rightarrow> rat"

text \<open>
  What the source relies on: conversion is monotone and exact on 0, on 1 and on the largest double
  below 1; division is that of the rationals rounded by it.
\<close>

definition float_ok :: "float_ops \<Rightarrow> bool" where
  "float_ok fl \<longleftrightarrow> (\<forall>x y. x \<le> y \<longrightarrow> fl_of fl x \<le> fl_of fl y) \<and> fl_of fl 0 = 0 \<and> fl_of fl 1 = 1 \<and>
     fl_of fl (1 - 1 / 2 ^ 53) = 1 - 1 / 2 ^ 53 \<and>
     (\<forall>a b. fl_div fl a b = fl_of fl (of_nat a / of_nat b))"

section \<open>Reading a judge's answer\<close>

text \<open>White space and line ends among the characters of the model, and ASCII lower case.\<close>

definition is_space :: "char \<Rightarrow> bool" where
  "is_space c = (let n = (of_char c :: nat) in
     (9 \<le> n \<and> n \<le> 13) \<or> (28 \<le> n \<and> n \<le> 32) \<or> n = 133 \<or> n = 160)"

definition is_line_end :: "char \<Rightarrow> bool" where
  "is_line_end c = (let n = (of_char c :: nat) in (10 \<le> n \<and> n \<le> 13) \<or> (28 \<le> n \<and> n \<le> 30) \<or> n = 133)"

definition digit :: "char \<Rightarrow> bool" where
  "digit c \<longleftrightarrow> 48 \<le> (of_char c :: nat) \<and> (of_char c :: nat) \<le> 57"

definition lower :: "char \<Rightarrow> char" where
  "lower c = (if 65 \<le> (of_char c :: nat) \<and> (of_char c :: nat) \<le> 90 then char_of (of_char c + 32 :: nat) else c)"

definition strip :: "string \<Rightarrow> string" where
  "strip s = rev (dropWhile is_space (rev (dropWhile is_space s)))"

text \<open>A word at the front of a text, whatever its case; what follows it.\<close>

definition after_word :: "string \<Rightarrow> string \<Rightarrow> string option" where
  "after_word word s =
     (if map lower (take (length word) s) = map lower word then Some (drop (length word) s) else None)"

text \<open>\<open>\s*$\<close> in multi-line mode: white space up to the end of the text or of a line.\<close>

definition line_ends :: "string \<Rightarrow> bool" where
  "line_ends s \<longleftrightarrow> dropWhile is_space s = [] \<or> CHR 0x0A \<in> set (takeWhile is_space s)"

text \<open>\<open>search\<close> of a pattern that starts with \<open>^\<close> in multi-line mode.\<close>

fun search_lines :: "(string \<Rightarrow> 'm option) \<Rightarrow> bool \<Rightarrow> string \<Rightarrow> 'm option" where
  "search_lines pattern at_start [] = (if at_start then pattern [] else None)"
| "search_lines pattern at_start (c # s) =
     (case (if at_start then pattern (c # s) else None) of
        Some m \<Rightarrow> Some m
      | None \<Rightarrow> search_lines pattern (c = CHR 0x0A) s)"

definition LABELS :: "string list" where
  "LABELS = [''pass'', ''fail'', ''uncertain'']"

definition label_at :: "string \<Rightarrow> string option" where
  "label_at s =
     (case after_word ''LABEL:'' s of
        None \<Rightarrow> None
      | Some r \<Rightarrow>
          List.find (\<lambda>label. case after_word label (dropWhile is_space r) of None \<Rightarrow> False | Some rest \<Rightarrow> line_ends rest) LABELS)"

text \<open>A number \<open>[01](\.\d+)?\<close>: its digit and the digits after the point.\<close>

definition confidence_at :: "string \<Rightarrow> (string \<times> string) option" where
  "confidence_at s =
     (case after_word ''CONFIDENCE:'' s of
        None \<Rightarrow> None
      | Some r \<Rightarrow>
          (case dropWhile is_space r of
             [] \<Rightarrow> None
           | d # rest \<Rightarrow>
               if d \<noteq> CHR ''0'' \<and> d \<noteq> CHR ''1'' then None
               else if line_ends rest then Some ([d], [])
               else if take 1 rest = ''.'' \<and> takeWhile digit (tl rest) \<noteq> [] \<and> line_ends (dropWhile digit (tl rest))
               then Some ([d], takeWhile digit (tl rest))
               else None))"

text \<open>\<open>RATIONALE:\s*(.+)\<close>: the text after the white space, or its last character when there is no other.\<close>

definition rationale_at :: "string \<Rightarrow> string option" where
  "rationale_at s =
     (case after_word ''RATIONALE:'' s of
        None \<Rightarrow> None
      | Some r \<Rightarrow> if r = [] then None
          else if dropWhile is_space r = [] then Some [last r] else Some (dropWhile is_space r))"

definition decimal :: "string \<Rightarrow> nat" where
  "decimal ds = foldl (\<lambda>n c. n * 10 + (of_char c - 48)) 0 ds"

definition decimal_value :: "string \<times> string \<Rightarrow> rat" where
  "decimal_value = (\<lambda>(units, fraction). of_nat (decimal units) + of_nat (decimal fraction) / 10 ^ length fraction)"

definition parse_judge_response :: "float_ops \<Rightarrow> string \<Rightarrow> (exc, string \<times> rat \<times> string) res" where
  "parse_judge_response fl raw =
     (case (search_lines label_at True raw, search_lines confidence_at True raw, search_lines rationale_at True raw) of
        (Some label, Some number, Some rationale) \<Rightarrow>
          let confidence = fl_of fl (decimal_value number) in
          if \<not> (0 \<le> confidence \<and> confidence \<le> 1)
          then Inl (Raise JudgeResponseError (''Confidence out of range [0, 1]: '' @ fl_repr fl confidence))
          else Inr (label, confidence, strip rationale)
      | _ \<Rightarrow> Inl (Raise JudgeResponseError
          (''Could not parse LABEL/CONFIDENCE/RATIONALE from judge response: '' @ repr_str raw)))"

section \<open>Judges\<close>

record llm_verdict =
  lv_task_id :: string
  lv_judge_name :: string
  lv_rubric_version :: string
  lv_label :: string
  lv_confidence :: rat
  lv_rationale :: string

record judge =
  jd_name :: string
  jd_rubric_path :: string

type_synonym 'm model_caller = "string \<Rightarrow> 'm \<Rightarrow> (exc, string) res \<times> 'm"

definition rubric_version :: "(string \<Rightarrow> string) \<Rightarrow> judge \<Rightarrow> (exc, string) res" where
  "rubric_version read_text j =
     (let rubric = read_text (jd_rubric_path j); first_line = takeWhile (\<lambda>c. \<not> is_line_end c) rubric; prefix = ''version:'' in
      if rubric = [] then Inl (Raise IndexError ''list index out of range'')
      else Inr (strip (if take (length prefix) first_line = prefix then drop (length prefix) first_line else first_line)))"

definition calls_description :: "tool_call list \<Rightarrow> string" where
  "calls_description calls =
     (let text = join_with [CHR 0x0A] (map (\<lambda>call. ''- '' @ tl_service call @ ''.'' @ tl_operation call @ ''('' @
        py_str (PDict (tl_arguments call)) @ '')'') calls)
      in if text = [] then ''(no tool calls)'' else text)"

definition build_prompt ::
  "(string \<Rightarrow> string) \<Rightarrow> judge \<Rightarrow> benchmark_task \<Rightarrow> tool_call list \<Rightarrow> string option \<Rightarrow> string" where
  "build_prompt read_text j task calls final_response =
     (let nl = [CHR 0x0A] in
      read_text (jd_rubric_path j) @ nl @ nl @
      ''## Task'' @ nl @ bt_input task @ nl @ nl @
      ''## Tool calls made'' @ nl @ calls_description calls @ nl @ nl @
      ''## Agent'' @ [CHR 0x27] @ ''s final response to the customer'' @ nl @
      (case final_response of None \<Rightarrow> ''(no final response provided)''
       | Some r \<Rightarrow> if r = [] then ''(no final response provided)'' else r) @ nl @ nl @
      ''Respond in exactly this format:'' @ nl @
      ''LABEL: <pass|fail|uncertain>'' @ nl @
      ''CONFIDENCE: <0.0-1.0>'' @ nl @
      ''RATIONALE: <one or two sentences>'' @ nl)"

definition evaluate ::
  "float_ops \<Rightarrow> (string \<Rightarrow> string) \<Rightarrow> judge \<Rightarrow> benchmark_task \<Rightarrow> tool_call list \<Rightarrow> string option
     \<Rightarrow> 'm model_caller \<Rightarrow> 'm \<Rightarrow> (exc, llm_verdict) res \<times> 'm" where
  "evaluate fl read_text j task calls final_response ask m =
     (case ask (build_prompt read_text j task calls final_response) m of
        (Inl e, m) \<Rightarrow> (Inl e, m)
      | (Inr raw, m) \<Rightarrow>
          (bind_res (parse_judge_response fl raw) (\<lambda>(label, confidence, rationale).
             bind_res (rubric_version read_text j) (\<lambda>version.
               Inr \<lparr>lv_task_id = bt_task_id task, lv_judge_name = jd_name j, lv_rubric_version = version,
                    lv_label = label, lv_confidence = confidence, lv_rationale = rationale\<rparr>)), m))"

definition POLICY_JUDGE :: judge where
  "POLICY_JUDGE = \<lparr>jd_name = ''policy_judge'', jd_rubric_path = ''policy_judge.md''\<rparr>"

definition RESPONSE_QUALITY_JUDGE :: judge where
  "RESPONSE_QUALITY_JUDGE = \<lparr>jd_name = ''response_quality_judge'', jd_rubric_path = ''response_quality_judge.md''\<rparr>"

section \<open>Orchestration\<close>

definition select_judges :: "string option \<Rightarrow> judge list" where
  "select_judges final_response =
     (case final_response of
        None \<Rightarrow> [POLICY_JUDGE]
      | Some r \<Rightarrow> if r = [] then [POLICY_JUDGE] else [POLICY_JUDGE, RESPONSE_QUALITY_JUDGE])"

fun evaluate_all ::
  "float_ops \<Rightarrow> (string \<Rightarrow> string) \<Rightarrow> judge list \<Rightarrow> benchmark_task \<Rightarrow> tool_call list \<Rightarrow> string option
     \<Rightarrow> 'm model_caller \<Rightarrow> 'm \<Rightarrow> (exc, llm_verdict list) res \<times> 'm" where
  "evaluate_all fl read_text [] task calls final_response ask m = (Inr [], m)"
| "evaluate_all fl read_text (j # js) task calls final_response ask m =
     (case evaluate fl read_text j task calls final_response ask m of
        (Inl e, m) \<Rightarrow> (Inl e, m)
      | (Inr verdict, m) \<Rightarrow>
          (case evaluate_all fl read_text js task calls final_response ask m of
             (Inl e, m) \<Rightarrow> (Inl e, m)
           | (Inr verdicts, m) \<Rightarrow> (Inr (verdict # verdicts), m)))"

definition run_judges ::
  "float_ops \<Rightarrow> (string \<Rightarrow> string) \<Rightarrow> benchmark_task \<Rightarrow> runner_result \<Rightarrow> 'm model_caller \<Rightarrow> 'm
     \<Rightarrow> (exc, llm_verdict list) res \<times> 'm" where
  "run_judges fl read_text task result ask m =
     evaluate_all fl read_text (select_judges (rr_final_output result)) task
       (extract_tool_calls (rr_trace result)) (rr_final_output result) ask m"

section \<open>Agreement\<close>

record agreement_report =
  ag_task_id :: string
  ag_verdicts :: "llm_verdict list"
  ag_consensus_label :: "string option"
  ag_agreement_rate :: rat
  ag_disagreement :: bool

text \<open>\<open>Counter\<close> of the labels: each with its count, in order of first occurrence.\<close>

definition label_counts :: "string list \<Rightarrow> (string, nat) dict" where
  "label_counts labels = foldl (\<lambda>d l. dict_set l ((case map_of d l of None \<Rightarrow> 0 | Some n \<Rightarrow> n) + 1) d) [] labels"

definition summarize_agreement ::
  "float_ops \<Rightarrow> string \<Rightarrow> llm_verdict list \<Rightarrow> rat \<Rightarrow> (exc, agreement_report) res" where
  "summarize_agreement fl task_id verdicts disagreement_threshold =
     (if verdicts = [] then Inl (Raise ValueError ''summarize_agreement requires at least one verdict'')
      else
        let counts = label_counts (map lv_label verdicts);
            max_count = Max (set (values_of counts));
            top_labels = map fst (filter (\<lambda>(label, count). count = max_count) counts);
            agreement_rate = fl_div fl max_count (length verdicts) in
        Inr \<lparr>ag_task_id = task_id, ag_verdicts = verdicts,
             ag_consensus_label = (case top_labels of [label] \<Rightarrow> Some label | _ \<Rightarrow> None),
             ag_agreement_rate = agreement_rate, ag_disagreement = (agreement_rate < disagreement_threshold)\<rparr>)"

text \<open>\<open>combinations(xs, 2)\<close>.\<close>

fun pairs_of :: "'a list \<Rightarrow> ('a \<times> 'a) list" where
  "pairs_of [] = []"
| "pairs_of (x # xs) = map (\<lambda>y. (x, y)) xs @ pairs_of xs"

definition pairwise_agreement_rate :: "float_ops \<Rightarrow> llm_verdict list \<Rightarrow> rat" where
  "pairwise_agreement_rate fl verdicts =
     (if length verdicts < 2 then 1
      else
        let pairs = pairs_of verdicts;
            agreeing = length (filter (\<lambda>(first, second). lv_label first = lv_label second) pairs) in
        fl_div fl agreeing (length pairs))"

definition flag_disagreements :: "agreement_report list \<Rightarrow> agreement_report list" where
  "flag_disagreements reports = filter ag_disagreement reports"

section \<open>What a parsed answer is\<close>

lemma strip_ends: "strip s = [] \<or> (\<not> is_space (hd (strip s)) \<and> \<not> is_space (last (strip s)))"
proof -
  let ?t = "rev (dropWhile is_space s)"
  have l: "dropWhile is_space ?t \<noteq> [] \<Longrightarrow> \<not> is_space (hd (dropWhile is_space ?t))" by (rule hd_dropWhile)
  have "\<not> is_space (last (dropWhile is_space ?t))" if "dropWhile is_space ?t \<noteq> []"
  proof -
    have "last (dropWhile is_space ?t) = last ?t" using that
      by (metis last_appendR takeWhile_dropWhile_id)
    moreover have "dropWhile is_space s \<noteq> []" using that by (metis dropWhile.simps(1) rev.simps(1))
    ultimately show ?thesis using hd_dropWhile [of is_space s] by (simp add: last_rev)
  qed
  with l show ?thesis by (auto simp: strip_def hd_rev last_rev)
qed

lemma search_lines_Some: "search_lines pattern b s = Some m \<Longrightarrow> \<exists>t. pattern t = Some m"
  by (induction s arbitrary: b) (auto split: if_splits option.splits)

lemma label_at_in: "label_at s = Some label \<Longrightarrow> label \<in> set LABELS"
  by (auto simp: label_at_def find_Some_iff split: option.splits)

lemma parse_Inr:
  assumes "parse_judge_response fl raw = Inr (label, confidence, rationale)"
  shows "label \<in> set LABELS" and "0 \<le> confidence" and "confidence \<le> 1"
    and "rationale = [] \<or> (\<not> is_space (hd rationale) \<and> \<not> is_space (last rationale))"
  using assms strip_ends label_at_in search_lines_Some
  by (fastforce simp: parse_judge_response_def Let_def split: option.splits if_splits prod.splits)+

lemma parse_Inl: "parse_judge_response fl raw = Inl e \<Longrightarrow> exc_of e = JudgeResponseError"
  by (auto simp: parse_judge_response_def Let_def split: option.splits if_splits prod.splits)

text \<open>A text whose first line is this one: what the search finds there, or after it.\<close>

lemma search_lines_skip:
  assumes "CHR 0x0A \<notin> set line" and "pattern (line @ CHR 0x0A # s) = None"
  shows "search_lines pattern True (line @ CHR 0x0A # s) = search_lines pattern True s"
proof -
  have skip: "search_lines pattern False (line @ CHR 0x0A # s) = search_lines pattern True s"
    using assms(1) by (induction line) auto
  show ?thesis using assms skip by (cases line) auto
qed

lemma search_lines_here: "pattern s = Some m \<Longrightarrow> search_lines pattern True s = Some m"
  by (cases s) auto

definition render_answer :: "string \<Rightarrow> string \<Rightarrow> string \<Rightarrow> string" where
  "render_answer label number rationale =
     ''LABEL: '' @ label @ [CHR 0x0A] @ ''CONFIDENCE: '' @ number @ [CHR 0x0A] @ ''RATIONALE: '' @ rationale"

lemma after_word_self [simp]: "after_word word (word @ r) = Some r"
  by (simp add: after_word_def)

lemma after_word_differs:
  "length other = length word \<Longrightarrow> map lower other \<noteq> map lower word \<Longrightarrow> after_word word (other @ r) = None"
  by (simp add: after_word_def)

lemma spaces: "is_space CHR '' ''" "is_space CHR 0x0A"
  by code_simp+

lemma label_not_space: "label \<in> set LABELS \<Longrightarrow> dropWhile is_space (CHR '' '' # label @ s) = label @ s"
proof -
  have "list_all (\<lambda>l. l \<noteq> [] \<and> \<not> is_space (hd l)) LABELS" by code_simp
  then show "label \<in> set LABELS \<Longrightarrow> ?thesis" using spaces
    by (auto simp: list_all_iff neq_Nil_conv)
qed

lemma find_label:
  assumes "label \<in> set LABELS"
  shows "List.find (\<lambda>l. case after_word l (label @ CHR 0x0A # s) of None \<Rightarrow> False | Some rest \<Rightarrow> line_ends rest) LABELS = Some label"
proof -
  have le: "line_ends (CHR 0x0A # s)" using spaces by (simp add: line_ends_def)
  have pf: "after_word ''pass'' (''fail'' @ r) = None" for r
    by (rule after_word_differs) (simp, code_simp)
  have pu: "after_word ''pass'' (''unce'' @ r) = None" for r
    by (rule after_word_differs) (simp, code_simp)
  have fu: "after_word ''fail'' (''unce'' @ r) = None" for r
    by (rule after_word_differs) (simp, code_simp)
  consider "label = ''pass''" | "label = ''fail''" | "label = ''uncertain''" using assms by (auto simp: LABELS_def)
  then show ?thesis
  proof cases
    case 1
    then show ?thesis using after_word_self [of "''pass''" "CHR 0x0A # s"] le by (simp add: LABELS_def)
  next
    case 2
    then show ?thesis using after_word_self [of "''fail''" "CHR 0x0A # s"] pf [of "CHR 0x0A # s"] le by (simp add: LABELS_def)
  next
    case 3
    then show ?thesis
      using after_word_self [of "''uncertain''" "CHR 0x0A # s"] pu [of "''rtain'' @ CHR 0x0A # s"]
        fu [of "''rtain'' @ CHR 0x0A # s"] le by (simp add: LABELS_def)
  qed
qed

lemma render_label:
  assumes "label \<in> set LABELS"
  shows "search_lines label_at True (render_answer label number rationale) = Some label"
proof (rule search_lines_here)
  let ?s = "''CONFIDENCE: '' @ number @ [CHR 0x0A] @ ''RATIONALE: '' @ rationale"
  have "render_answer label number rationale = ''LABEL:'' @ (CHR '' '' # label @ CHR 0x0A # ?s)"
    by (simp add: render_answer_def)
  then show "label_at (render_answer label number rationale) = Some label"
    using label_not_space [OF assms, of "CHR 0x0A # ?s"] find_label [OF assms, of ?s]
    by (simp only: label_at_def after_word_self option.case)
qed

lemma after_word_hd: "word \<noteq> [] \<Longrightarrow> s = [] \<or> lower (hd s) \<noteq> lower (hd word) \<Longrightarrow> after_word word s = None"
  by (cases s; cases word) (auto simp: after_word_def)

lemma other_headings:
  "lower CHR ''L'' \<noteq> lower CHR ''C''" "lower CHR ''L'' \<noteq> lower CHR ''R''" "lower CHR ''C'' \<noteq> lower CHR ''R''"
  by code_simp+

text \<open>A number as the format asks for it: \<open>0\<close> or \<open>1\<close>, with or without digits after a point.\<close>

definition number_text :: "string \<times> string \<Rightarrow> string" where
  "number_text = (\<lambda>(units, fraction). if fraction = [] then units else units @ ''.'' @ fraction)"

definition number_ok :: "string \<times> string \<Rightarrow> bool" where
  "number_ok = (\<lambda>(units, fraction). units \<in> {''0'', ''1''} \<and> list_all digit fraction)"

lemma number_chars: "\<not> is_space CHR ''0''" "\<not> is_space CHR ''1''" "\<not> digit CHR 0x0A" "\<not> is_space CHR ''.''"
  by code_simp+

lemma confidence_at_render:
  assumes "number_ok number"
  shows "confidence_at (''CONFIDENCE: '' @ number_text number @ CHR 0x0A # s) = Some number"
proof -
  obtain d fraction where n: "number = ([d], fraction)" "d = CHR ''0'' \<or> d = CHR ''1''" "list_all digit fraction"
    using assms by (auto simp: number_ok_def)
  have d: "\<not> is_space d" using n(2) number_chars by auto
  have le: "line_ends (CHR 0x0A # s)" using spaces by (simp add: line_ends_def)
  have t: "''CONFIDENCE: '' @ number_text number @ CHR 0x0A # s = ''CONFIDENCE:'' @ (CHR '' '' # number_text number @ CHR 0x0A # s)"
    by simp
  show ?thesis
  proof (cases "fraction = []")
    case True
    then have "dropWhile is_space (CHR '' '' # number_text number @ CHR 0x0A # s) = d # CHR 0x0A # s"
      using n d spaces by (simp add: number_text_def)
    then show ?thesis unfolding t using n(1,2) True le
      by (auto simp only: confidence_at_def after_word_self option.case list.case if_False if_True simp_thms if_cancel)
  next
    case False
    then have dw: "dropWhile is_space (CHR '' '' # number_text number @ CHR 0x0A # s) = d # CHR ''.'' # fraction @ CHR 0x0A # s"
      using n d spaces by (simp add: number_text_def)
    have tw: "takeWhile digit (fraction @ CHR 0x0A # s) = fraction" "dropWhile digit (fraction @ CHR 0x0A # s) = CHR 0x0A # s"
      using n(3) number_chars by (simp_all add: list_all_iff takeWhile_append2 dropWhile_append2)
    have "\<not> line_ends (CHR ''.'' # fraction @ CHR 0x0A # s)" using number_chars by (simp add: line_ends_def)
    then show ?thesis unfolding t using n(1,2) False le tw dw
      by (auto simp: confidence_at_def after_word_self simp del: append_Cons)
  qed
qed

lemma rationale_at_render: "rationale \<noteq> [] \<Longrightarrow> \<not> is_space (hd rationale) \<Longrightarrow> rationale_at (''RATIONALE: '' @ rationale) = Some rationale"
proof -
  assume r: "rationale \<noteq> []" "\<not> is_space (hd rationale)"
  have "''RATIONALE: '' @ rationale = ''RATIONALE:'' @ (CHR '' '' # rationale)" by simp
  moreover have "dropWhile is_space (CHR '' '' # rationale) = rationale" using r spaces by (cases rationale) auto
  ultimately show ?thesis using r by (simp only: rationale_at_def after_word_self option.case) simp
qed

lemma strip_id: "s \<noteq> [] \<Longrightarrow> \<not> is_space (hd s) \<Longrightarrow> \<not> is_space (last s) \<Longrightarrow> strip s = s"
proof -
  assume s: "s \<noteq> []" "\<not> is_space (hd s)" "\<not> is_space (last s)"
  then have "dropWhile is_space s = s" by (cases s) auto
  moreover have "dropWhile is_space (rev s) = rev s" using s by (cases s rule: rev_cases) auto
  ultimately show ?thesis by (simp add: strip_def)
qed

lemma parse_rendered:
  assumes "label \<in> set LABELS" and "number_ok number" and "rationale \<noteq> []"
    and "\<not> is_space (hd rationale)" and "\<not> is_space (last rationale)"
    and "0 \<le> fl_of fl (decimal_value number)" and "fl_of fl (decimal_value number) \<le> 1"
  shows "parse_judge_response fl (render_answer label (number_text number) rationale) =
    Inr (label, fl_of fl (decimal_value number), rationale)"
proof -
  let ?l = "''LABEL: '' @ label" and ?c = "''CONFIDENCE: '' @ number_text number" and ?r = "''RATIONALE: '' @ rationale"
  have s: "render_answer label (number_text number) rationale = ?l @ CHR 0x0A # ?c @ CHR 0x0A # ?r"
    by (simp add: render_answer_def)
  have nl: "CHR 0x0A \<notin> set ?l"
  proof -
    have "list_all (\<lambda>l. CHR 0x0A \<notin> set l) LABELS" by code_simp
    then show ?thesis using assms(1) by (auto simp: list_all_iff)
  qed
  have nc: "CHR 0x0A \<notin> set ?c" using assms(2) number_chars
    by (auto simp: number_ok_def number_text_def list_all_iff split: if_splits)
  have c: "search_lines confidence_at True (?l @ CHR 0x0A # ?c @ CHR 0x0A # ?r) = Some number"
    using search_lines_skip [of ?l confidence_at "?c @ CHR 0x0A # ?r", OF nl] confidence_at_render [OF assms(2), of ?r]
      search_lines_here [of confidence_at "?c @ CHR 0x0A # ?r" number] after_word_hd [of "''CONFIDENCE:''"] other_headings
    by (simp add: confidence_at_def)
  have r: "search_lines rationale_at True (?l @ CHR 0x0A # ?c @ CHR 0x0A # ?r) = Some rationale"
    using search_lines_skip [of ?l rationale_at "?c @ CHR 0x0A # ?r", OF nl]
      search_lines_skip [of ?c rationale_at ?r, OF nc] rationale_at_render [OF assms(3,4)]
      search_lines_here [of rationale_at ?r rationale] after_word_hd [of "''RATIONALE:''"] other_headings
    by (simp add: rationale_at_def)
  show ?thesis
    using render_label [OF assms(1), of "number_text number" rationale] c r s assms(6,7) strip_id [OF assms(3-5)]
    by (simp add: parse_judge_response_def Let_def)
qed

section \<open>Counting labels\<close>

lemma label_counts_from:
  assumes "dict_ok d"
  shows "dict_ok (foldl (\<lambda>d l. dict_set l ((case map_of d l of None \<Rightarrow> 0 | Some n \<Rightarrow> n) + 1) d) d ls)"
    and "map_of (foldl (\<lambda>d l. dict_set l ((case map_of d l of None \<Rightarrow> 0 | Some n \<Rightarrow> n) + 1) d) d ls) k =
      (if k \<in> set ls then Some ((case map_of d k of None \<Rightarrow> 0 | Some n \<Rightarrow> n) + count_list ls k) else map_of d k)"
  using assms by (induction ls arbitrary: d) auto

lemma label_counts:
  "dict_ok (label_counts ls)"
  "map_of (label_counts ls) k = (if k \<in> set ls then Some (count_list ls k) else None)"
  using label_counts_from [of "[]" ls] by (auto simp: label_counts_def)

lemma label_counts_mem: "(l, n) \<in> set (label_counts ls) \<longleftrightarrow> l \<in> set ls \<and> n = count_list ls l"
proof -
  have "distinct (keys (label_counts ls))" using label_counts(1) by (simp add: dict_ok_def)
  from map_of_eq_Some_iff [OF this, of l n] show ?thesis using label_counts(2) [of ls l] by (auto split: if_splits)
qed

lemma label_counts_values: "set (values_of (label_counts ls)) = count_list ls ` set ls"
proof
  show "set (values_of (label_counts ls)) \<subseteq> count_list ls ` set ls" by (auto simp: label_counts_mem)
  show "count_list ls ` set ls \<subseteq> set (values_of (label_counts ls))"
    using label_counts_mem [of _ "count_list ls _" ls] by (auto intro!: rev_image_eqI)
qed

definition top_count :: "string list \<Rightarrow> nat" where
  "top_count ls = Max (count_list ls ` set ls)"

lemma top_labels:
  fixes ls :: "string list"
  defines "tops \<equiv> map fst (filter (\<lambda>(label, n). n = top_count ls) (label_counts ls))"
  shows "distinct tops" and "set tops = {l \<in> set ls. count_list ls l = top_count ls}"
proof -
  have d: "distinct (keys (label_counts ls))" using label_counts(1) by (simp add: dict_ok_def)
  then show "distinct tops" unfolding tops_def by (rule distinct_map_filter)
  show "set tops = {l \<in> set ls. count_list ls l = top_count ls}"
    by (auto simp: tops_def label_counts_mem intro!: rev_image_eqI)
qed

lemma top_count_bounds:
  assumes "ls \<noteq> []"
  shows "l \<in> set ls \<Longrightarrow> count_list ls l \<le> top_count ls" and "1 \<le> top_count ls" and "top_count ls \<le> length ls"
    and "\<exists>l\<in>set ls. count_list ls l = top_count ls"
proof -
  have fin: "finite (count_list ls ` set ls)" "count_list ls ` set ls \<noteq> {}" using assms by auto
  show le: "count_list ls l \<le> top_count ls" if "l \<in> set ls" for l using fin(1) that by (simp add: top_count_def)
  have "1 \<le> count_list ls (hd ls)" using assms by (cases ls) auto
  then show "1 \<le> top_count ls" using le [of "hd ls"] assms by simp
  show "\<exists>l\<in>set ls. count_list ls l = top_count ls" using Max_in [OF fin] by (auto simp: top_count_def)
  then show "top_count ls \<le> length ls" using count_le_length by metis
qed

lemma count_all: "count_list ls l = length ls \<longleftrightarrow> (\<forall>x\<in>set ls. x = l)"
proof (induction ls)
  case (Cons a ls)
  then show ?case using count_le_length [of ls l] by (auto simp: le_imp_less_Suc less_imp_neq)
qed simp

lemma single_iff: "distinct xs \<Longrightarrow> (case xs of [x] \<Rightarrow> Some x | _ \<Rightarrow> None) = Some l \<longleftrightarrow> set xs = {l}"
  by (cases xs; cases "tl xs") auto

section \<open>Rates\<close>

lemma float_div_bounds:
  assumes "float_ok fl" and "a \<le> b" and "0 < b" and "b \<le> 2 ^ 53"
  shows "0 \<le> fl_div fl a b" and "fl_div fl a b \<le> 1" and "fl_div fl a b < 1 \<longleftrightarrow> a < b"
proof -
  have d: "fl_div fl a b = fl_of fl (of_nat a / of_nat b)" and mono: "\<And>x y. x \<le> y \<Longrightarrow> fl_of fl x \<le> fl_of fl y"
    and e: "fl_of fl 0 = 0" "fl_of fl 1 = 1" "fl_of fl (1 - 1 / 2 ^ 53) = 1 - 1 / 2 ^ 53"
    using assms(1) by (simp_all add: float_ok_def)
  show "0 \<le> fl_div fl a b" using mono [of 0 "of_nat a / of_nat b"] d e by simp
  show "fl_div fl a b \<le> 1" using mono [of "of_nat a / of_nat b" 1] d e assms(2,3) by simp
  show "fl_div fl a b < 1 \<longleftrightarrow> a < b"
  proof
    assume "a < b"
    have b: "(0::rat) < of_nat b" "(of_nat b :: rat) \<le> 2 ^ 53" using assms(3,4) 
      by simp (metis assms(4) of_nat_le_iff of_nat_numeral of_nat_power)
    have "(of_nat a :: rat) \<le> of_nat b - 1" using \<open>a < b\<close> by (metis Suc_leI le_diff_eq of_nat_Suc of_nat_le_iff add.commute)
    then have "(of_nat a :: rat) / of_nat b \<le> 1 - 1 / of_nat b" using b(1) by (simp add: field_simps)
    also have "\<dots> \<le> 1 - 1 / 2 ^ 53" using b by (simp add: frac_le)
    finally show "fl_div fl a b < 1" using mono [of "of_nat a / of_nat b"] d e(3) by fastforce
  next
    assume "fl_div fl a b < 1"
    then show "a < b" using d e(2) assms(2,3) by (cases "a = b") auto
  qed
qed

lemma pairs_of_length: "2 * length (pairs_of xs) + length xs = length xs * length xs"
  by (induction xs) auto

lemma pairs_of_all:
  "(\<forall>(x, y)\<in>set (pairs_of xs). f x = f y) \<longleftrightarrow> (\<forall>x\<in>set xs. \<forall>y\<in>set xs. f x = f y)"
proof (induction xs)
  case (Cons x xs)
  have "(\<forall>(x, y)\<in>set (pairs_of (x # xs)). f x = f y) \<longleftrightarrow> (\<forall>y\<in>set xs. f x = f y) \<and> (\<forall>(x, y)\<in>set (pairs_of xs). f x = f y)"
    by auto
  then show ?case unfolding Cons.IH by (metis list.set_intros(1) list.set_intros(2) set_ConsD)
qed simp

lemma pairwise_below_1:
  assumes "float_ok fl" and "length verdicts \<le> 2 ^ 26"
  shows "pairwise_agreement_rate fl verdicts < 1 \<longleftrightarrow> (\<exists>v\<in>set verdicts. \<exists>w\<in>set verdicts. lv_label v \<noteq> lv_label w)"
proof (cases "length verdicts < 2")
  case True
  then show ?thesis by (cases verdicts; cases "tl verdicts") (auto simp: pairwise_agreement_rate_def)
next
  case False
  let ?ps = "pairs_of verdicts"
  let ?same = "filter (\<lambda>(v, w). lv_label v = lv_label w) ?ps"
  have "length verdicts * length verdicts \<le> 2 ^ 26 * 2 ^ 26" using assms(2) by (intro mult_mono) simp_all
  then have len: "length ?ps \<le> 2 ^ 53" "0 < length ?ps"
    using pairs_of_length [of verdicts] False by (auto simp: not_less)
  have "length ?same < length ?ps \<longleftrightarrow> \<not> (\<forall>(v, w)\<in>set ?ps. lv_label v = lv_label w)"
    using length_filter_less [of _ ?ps "\<lambda>(v, w). lv_label v = lv_label w"]
    by (metis (mono_tags, lifting) filter_True less_irrefl)
  then show ?thesis
    using float_div_bounds(3) [OF assms(1) length_filter_le len(2,1), of "\<lambda>(v, w). lv_label v = lv_label w"]
      pairs_of_all [of verdicts lv_label] False
    by (simp add: pairwise_agreement_rate_def Let_def)
qed

section \<open>Properties of judging\<close>

text \<open>A judge's answer in the format the prompt asks for is read back: the label, the number and
  the rationale are those written, for each of the three labels, any decimal number from 0 to 1 and
  any rationale without white space at its ends, also over several lines.\<close>

theorem judge_answers_read_back:
  assumes "label \<in> set LABELS" and "number_ok number" and "decimal_value number \<le> 1"
    and "rationale \<noteq> []" and "\<not> is_space (hd rationale)" and "\<not> is_space (last rationale)" and "float_ok fl"
  shows "parse_judge_response fl (render_answer label (number_text number) rationale) =
    Inr (label, fl_of fl (decimal_value number), rationale)"
proof -
  have "0 \<le> decimal_value number" by (cases number) (simp add: decimal_value_def)
  then have "fl_of fl 0 \<le> fl_of fl (decimal_value number)" "fl_of fl (decimal_value number) \<le> fl_of fl 1"
    using assms(3,7) unfolding float_ok_def by blast+
  moreover have "fl_of fl 0 = 0" "fl_of fl 1 = 1" using assms(7) unfolding float_ok_def by blast+
  ultimately show ?thesis using parse_rendered [OF assms(1,2,4-6)] by simp
qed

text \<open>C34: Whatever text a model answers, reading it either gives one of the three labels, a confidence
  from 0 to 1 and a rationale stripped of white space, or raises \<open>JudgeResponseError\<close> and nothing else.\<close>

theorem judge_answers_are_checked:
  "case parse_judge_response fl raw of
     Inl e \<Rightarrow> exc_of e = JudgeResponseError
   | Inr (label, confidence, rationale) \<Rightarrow>
       label \<in> set LABELS \<and> 0 \<le> confidence \<and> confidence \<le> 1 \<and>
       (rationale = [] \<or> \<not> is_space (hd rationale) \<and> \<not> is_space (last rationale))"
proof (cases "parse_judge_response fl raw")
  case (Inl e)
  then show ?thesis using parse_Inl by simp
next
  case (Inr r)
  obtain label confidence rationale where r: "r = (label, confidence, rationale)" by (metis prod_cases3)
  then show ?thesis using Inr parse_Inr [of fl raw label confidence rationale] by simp
qed

definition verdict_of :: "(string \<Rightarrow> string) \<Rightarrow> benchmark_task \<Rightarrow> judge \<Rightarrow> llm_verdict \<Rightarrow> bool" where
  "verdict_of read_text task j v \<longleftrightarrow> lv_judge_name v = jd_name j \<and> lv_task_id v = bt_task_id task \<and>
     rubric_version read_text j = Inr (lv_rubric_version v) \<and> lv_label v \<in> set LABELS \<and>
     0 \<le> lv_confidence v \<and> lv_confidence v \<le> 1"

lemma evaluate_all_Inr:
  "fst (evaluate_all fl read_text js task calls final ask m) = Inr verdicts \<Longrightarrow>
     list_all2 (verdict_of read_text task) js verdicts"
proof (induction js arbitrary: m verdicts)
  case (Cons j js)
  obtain v m1 where v: "evaluate fl read_text j task calls final ask m = (Inr v, m1)"
    using Cons.prems by (auto split: prod.splits sum.splits)
  obtain vs where vs: "fst (evaluate_all fl read_text js task calls final ask m1) = Inr vs" "verdicts = v # vs"
    using Cons.prems v by (auto split: prod.splits sum.splits)
  show ?case using Cons.IH [OF vs(1)] v vs(2)
    by (auto simp: verdict_of_def evaluate_def bind_res_eq_Inr dest: parse_Inr split: prod.splits sum.splits)
qed simp

lemma verdict_names: "list_all2 (verdict_of read_text task) js vs \<Longrightarrow> map lv_judge_name vs = map jd_name js"
  by (induction rule: list_all2_induct) (simp_all add: verdict_of_def)

lemma verdict_each: "list_all2 (verdict_of read_text task) js vs \<Longrightarrow> \<forall>v\<in>set vs. \<exists>j\<in>set js. verdict_of read_text task j v"
  by (induction rule: list_all2_induct) auto

text \<open>C33: Running the judges of an execution gives one verdict per judge that applies, in order: the
  policy judge always, the response-quality judge exactly when there is a final response; each is
  about the task, carries its judge's name and rubric version, and is valid.\<close>

theorem judges_of_an_execution:
  assumes "fst (run_judges fl read_text task result ask m) = Inr verdicts"
  shows "map lv_judge_name verdicts =
      (if rr_final_output result \<in> {None, Some []} then [''policy_judge''] else [''policy_judge'', ''response_quality_judge'']) \<and>
    (\<forall>v\<in>set verdicts. lv_task_id v = bt_task_id task \<and> lv_label v \<in> set LABELS \<and>
      0 \<le> lv_confidence v \<and> lv_confidence v \<le> 1 \<and>
      (\<exists>j\<in>set (select_judges (rr_final_output result)). lv_judge_name v = jd_name j \<and>
         rubric_version read_text j = Inr (lv_rubric_version v)))"
proof -
  have v: "list_all2 (verdict_of read_text task) (select_judges (rr_final_output result)) verdicts"
    by (rule evaluate_all_Inr [OF assms [unfolded run_judges_def]])
  have names: "map jd_name (select_judges (rr_final_output result)) =
      (if rr_final_output result \<in> {None, Some []} then [''policy_judge''] else [''policy_judge'', ''response_quality_judge''])"
    by (cases "rr_final_output result") (simp_all add: select_judges_def POLICY_JUDGE_def RESPONSE_QUALITY_JUDGE_def)
  have each: "lv_task_id w = bt_task_id task \<and> lv_label w \<in> set LABELS \<and> 0 \<le> lv_confidence w \<and> lv_confidence w \<le> 1 \<and>
      (\<exists>j\<in>set (select_judges (rr_final_output result)). lv_judge_name w = jd_name j \<and>
         rubric_version read_text j = Inr (lv_rubric_version w))" if "w \<in> set verdicts" for w
  proof -
    obtain j where j: "j \<in> set (select_judges (rr_final_output result))" "verdict_of read_text task j w"
      by (rule bexE [OF bspec [OF verdict_each [OF v] \<open>w \<in> set verdicts\<close>]])
    then show ?thesis by (intro conjI bexI [OF _ j(1)]) (simp_all add: verdict_of_def)
  qed
  show ?thesis by (rule conjI, rule trans [OF verdict_names [OF v] names], rule ballI, rule each)
qed

text \<open>An agreement report is exact: the consensus is the label strictly more verdicts carry than any
  other, none on a tie; the rate is a share from 0 to 1; and the default threshold flags a
  disagreement exactly when two verdicts differ, which is when the pairwise rate is below 1.\<close>

theorem agreement_report_is_exact:
  assumes "float_ok fl" and "verdicts \<noteq> []" and "length verdicts \<le> 2 ^ 26"
  shows "\<exists>r. summarize_agreement fl task_id verdicts 1 = Inr r \<and>
    (\<forall>l. ag_consensus_label r = Some l \<longleftrightarrow>
       l \<in> lv_label ` set verdicts \<and>
       (\<forall>k\<in>lv_label ` set verdicts. k \<noteq> l \<longrightarrow> count_list (map lv_label verdicts) k < count_list (map lv_label verdicts) l)) \<and>
    0 \<le> ag_agreement_rate r \<and> ag_agreement_rate r \<le> 1 \<and>
    (ag_disagreement r \<longleftrightarrow> (\<exists>v\<in>set verdicts. \<exists>w\<in>set verdicts. lv_label v \<noteq> lv_label w)) \<and>
    (ag_disagreement r \<longleftrightarrow> pairwise_agreement_rate fl verdicts < 1)"
proof -
  let ?ls = "map lv_label verdicts"
  let ?tops = "map fst (filter (\<lambda>(label, n). n = top_count ?ls) (label_counts ?ls))"
  have ne: "?ls \<noteq> []" using assms(2) by simp
  note tc = top_count_bounds [OF ne]
  define r where "r = \<lparr>ag_task_id = task_id, ag_verdicts = verdicts,
      ag_consensus_label = (case ?tops of [label] \<Rightarrow> Some label | _ \<Rightarrow> None),
      ag_agreement_rate = fl_div fl (top_count ?ls) (length verdicts),
      ag_disagreement = (fl_div fl (top_count ?ls) (length verdicts) < 1)\<rparr>"
  have r: "summarize_agreement fl task_id verdicts 1 = Inr r"
    using assms(2) label_counts_values [of ?ls]
    by (simp add: summarize_agreement_def Let_def r_def top_count_def del: set_map map_map)
  have len: "0 < length verdicts" "length verdicts \<le> 2 ^ 53" using assms(2,3) by simp_all
  note rate = float_div_bounds [OF assms(1), of "top_count ?ls" "length verdicts", OF _ len]
  have unanimous: "top_count ?ls < length verdicts \<longleftrightarrow> (\<exists>v\<in>set verdicts. \<exists>w\<in>set verdicts. lv_label v \<noteq> lv_label w)"
  proof -
    have "top_count ?ls = length ?ls \<longleftrightarrow> (\<exists>l\<in>set ?ls. count_list ?ls l = length ?ls)"
      using tc by (metis count_le_length le_antisym)
    also have "\<dots> \<longleftrightarrow> (\<forall>x\<in>set ?ls. \<forall>y\<in>set ?ls. x = y)" unfolding count_all using ne by (metis last_in_set)
    finally show ?thesis using tc(3) by (auto simp: order_less_le)
  qed
  have consensus: "ag_consensus_label r = Some l \<longleftrightarrow>
      l \<in> set ?ls \<and> (\<forall>k\<in>set ?ls. k \<noteq> l \<longrightarrow> count_list ?ls k < count_list ?ls l)" for l
  proof -
    have "ag_consensus_label r = Some l \<longleftrightarrow> set ?tops = {l}"
      unfolding r_def using single_iff [OF top_labels(1) [of ?ls], of l] by simp
    also have "\<dots> \<longleftrightarrow> {k \<in> set ?ls. count_list ?ls k = top_count ?ls} = {l}" using top_labels(2) [of ?ls] by simp
    also have "\<dots> \<longleftrightarrow> l \<in> set ?ls \<and> (\<forall>k\<in>set ?ls. k \<noteq> l \<longrightarrow> count_list ?ls k < count_list ?ls l)"
    proof
      assume e: "{k \<in> set ?ls. count_list ?ls k = top_count ?ls} = {l}"
      then have l: "l \<in> set ?ls" "count_list ?ls l = top_count ?ls" by blast+
      have "count_list ?ls k < count_list ?ls l" if "k \<in> set ?ls" "k \<noteq> l" for k
        using tc(1) [OF that(1)] l(2) e that by (metis (mono_tags, lifting) mem_Collect_eq order_less_le singletonD)
      with l(1) show "l \<in> set ?ls \<and> (\<forall>k\<in>set ?ls. k \<noteq> l \<longrightarrow> count_list ?ls k < count_list ?ls l)" by blast
    next
      assume l: "l \<in> set ?ls \<and> (\<forall>k\<in>set ?ls. k \<noteq> l \<longrightarrow> count_list ?ls k < count_list ?ls l)"
      obtain m where m: "m \<in> set ?ls" "count_list ?ls m = top_count ?ls" using tc(4) by blast
      have "m = l" using l m tc(1) [of l] by (metis not_le)
      with l m show "{k \<in> set ?ls. count_list ?ls k = top_count ?ls} = {l}" by (auto simp del: set_map)
    qed
    finally show ?thesis .
  qed
  have pairwise: "pairwise_agreement_rate fl verdicts < 1 \<longleftrightarrow> (\<exists>v\<in>set verdicts. \<exists>w\<in>set verdicts. lv_label v \<noteq> lv_label w)"
    using pairwise_below_1 [OF assms(1,3)] .
  have top: "top_count ?ls \<le> length verdicts" using tc(3) by simp
  have flagged: "ag_disagreement r \<longleftrightarrow> (\<exists>v\<in>set verdicts. \<exists>w\<in>set verdicts. lv_label v \<noteq> lv_label w)"
    using rate(3) [OF top] unanimous by (simp add: r_def)
  have share: "0 \<le> ag_agreement_rate r" "ag_agreement_rate r \<le> 1"
    using rate(1,2) [OF top] by (simp_all add: r_def)
  show ?thesis
    by (rule exI [of _ r], intro conjI allI)
       (rule r, rule consensus [unfolded list.set_map], rule share(1), rule share(2), rule flagged,
        simp only: flagged pairwise)
qed

section \<open>Examples\<close>

definition exact_floats :: float_ops where
  "exact_floats = \<lparr>fl_of = (\<lambda>q. q), fl_repr = (\<lambda>_. ''float''), fl_div = (\<lambda>a b. of_nat a / of_nat b)\<rparr>"

lemma exact_floats_ok: "float_ok exact_floats"
  by (simp add: exact_floats_def float_ok_def)

theorem judge_answers_read_back_witness:
  "parse_judge_response exact_floats (render_answer ''fail'' ''0.75'' ''Refunded too much.'') =
    Inr (''fail'', decimal_value (''0'', ''75''), ''Refunded too much.'')"
proof -
  have "''fail'' \<in> set LABELS" "number_ok (''0'', ''75'')" "decimal_value (''0'', ''75'') \<le> 1"
    "\<not> is_space (hd ''Refunded too much.'')" "\<not> is_space (last ''Refunded too much.'')"
    "number_text (''0'', ''75'') = ''0.75''" by code_simp+
  then show ?thesis
    using judge_answers_read_back [of "''fail''" "(''0'', ''75'')" "''Refunded too much.''", OF _ _ _ _ _ _ exact_floats_ok]
    by (simp add: exact_floats_def)
qed

definition answered_result :: "string option \<Rightarrow> runner_result" where
  "answered_result final = sample_result\<lparr>rr_final_output := final\<rparr>"

definition sample_answer :: "string \<Rightarrow> nat \<Rightarrow> (exc, string) res \<times> nat" where
  "sample_answer prompt n = (Inr (render_answer ''pass'' ''1'' ''Fine.''), n + 1)"

theorem judges_of_an_execution_witness:
  "\<exists>verdicts. fst (run_judges exact_floats (\<lambda>_. ''version: v1'') sample_task (answered_result (Some ''Refunded.'')) sample_answer 0) =
       Inr verdicts \<and>
     map lv_judge_name verdicts = [''policy_judge'', ''response_quality_judge'']"
proof -
  let ?run = "\<lambda>result. run_judges exact_floats (\<lambda>_. ''version: v1'') sample_task result sample_answer 0"
  have parsed: "parse_judge_response exact_floats (render_answer ''pass'' ''1'' ''Fine.'') = Inr (''pass'', 1, ''Fine.'')"
    by code_simp
  obtain verdicts where v: "fst (?run (answered_result (Some ''Refunded.''))) = Inr verdicts"
    by (simp add: run_judges_def select_judges_def answered_result_def evaluate_def sample_answer_def parsed bind_res_def
        rubric_version_def Let_def del: not_None_eq)
  show ?thesis using v judges_of_an_execution [OF v] by (simp add: answered_result_def)
qed

theorem agreement_report_is_exact_witness:
  "\<exists>r. summarize_agreement exact_floats ''t'' (map (\<lambda>l. \<lparr>lv_task_id = ''t'', lv_judge_name = ''j'', lv_rubric_version = ''v1'',
       lv_label = l, lv_confidence = 1, lv_rationale = ''r''\<rparr>) [''pass'', ''fail'', ''pass'']) 1 = Inr r \<and> ag_disagreement r"
proof -
  let ?vs = "map (\<lambda>l. \<lparr>lv_task_id = ''t'', lv_judge_name = ''j'', lv_rubric_version = ''v1'',
       lv_label = l, lv_confidence = 1, lv_rationale = ''r''\<rparr>) [''pass'', ''fail'', ''pass'']"
  have "?vs \<noteq> []" "length ?vs \<le> 2 ^ 26" by simp_all
  from agreement_report_is_exact [OF exact_floats_ok this, of "''t''"]
  obtain r where r: "summarize_agreement exact_floats ''t'' ?vs 1 = Inr r"
    and d: "ag_disagreement r \<longleftrightarrow> (\<exists>v\<in>set ?vs. \<exists>w\<in>set ?vs. lv_label v \<noteq> lv_label w)" by blast
  have "lv_label (?vs ! 0) \<noteq> lv_label (?vs ! 1)" "0 < length ?vs" "1 < length ?vs" by simp_all
  then have "\<exists>v\<in>set ?vs. \<exists>w\<in>set ?vs. lv_label v \<noteq> lv_label w" using nth_mem by metis
  with r d show ?thesis by blast
qed

end
