(* ===== verification/Queue.thy ===== *)
theory Queue
  imports Schemas Trace Json
begin

text \<open>
  \<open>backend/app/queue.py\<close>: the evaluation queue over a Redis stream. Redis is a parameter: a record of
  the commands the code sends, each of which answers or raises, over a state of its own; what they
  do to the queue's two streams and its consumer group is said through a view of that state. The
  text of a job is pydantic's, so printing it and reading identifiers and integers from texts are
  parameters too.
\<close>

section \<open>Jobs\<close>

definition STREAM :: string where
  "STREAM = ''agentproof:evaluation-jobs''"

definition GROUP :: string where
  "GROUP = ''agentproof:workers''"

definition DEAD_LETTER_STREAM :: string where
  "DEAD_LETTER_STREAM = ''agentproof:evaluation-jobs:dead''"

definition DEFAULT_MAX_ATTEMPTS :: int where
  "DEFAULT_MAX_ATTEMPTS = 3"

definition DEFAULT_REDIS_URL :: string where
  "DEFAULT_REDIS_URL = ''redis://localhost:6379/0''"

definition redis_url :: "(string, string) dict \<Rightarrow> string" where
  "redis_url environ = (case map_of environ ''REDIS_URL'' of None \<Rightarrow> DEFAULT_REDIS_URL | Some url \<Rightarrow> url)"

record evaluation_job =
  job_execution_id :: uuid
  job_agent_version_id :: uuid
  job_task_id :: string
  job_attempt :: int

definition EvaluationJob :: "evaluation_job \<Rightarrow> (exc, evaluation_job) res" where
  "EvaluationJob job = validated [(''attempt'', 1 \<le> job_attempt job)] job"

record job_codec =
  jc_dumps :: "pyval \<Rightarrow> string"
  jc_uuid_of :: "string \<Rightarrow> uuid option"
  jc_int_of :: "string \<Rightarrow> int option"
  jc_bad_json :: "string \<Rightarrow> string"

definition job_value :: "evaluation_job \<Rightarrow> pyval" where
  "job_value job = PDict
     [(''execution_id'', PStr (uuid_text (job_execution_id job))),
      (''agent_version_id'', PStr (uuid_text (job_agent_version_id job))),
      (''task_id'', PStr (job_task_id job)), (''attempt'', PInt (job_attempt job))]"

definition model_dump_json :: "job_codec \<Rightarrow> evaluation_job \<Rightarrow> string" where
  "model_dump_json codec job = jc_dumps codec (job_value job)"

fun as_uuid :: "(string \<Rightarrow> uuid option) \<Rightarrow> uuid field_type" where
  "as_uuid uuid_of_text (PStr s) = uuid_of_text s"
| "as_uuid uuid_of_text v = None"

definition model_validate :: "job_codec \<Rightarrow> pyval \<Rightarrow> (exc, evaluation_job) res" where
  "model_validate codec v =
     (case v of
        PDict d \<Rightarrow>
          bind_res (required d ''execution_id'' (as_uuid (jc_uuid_of codec))) (\<lambda>execution_id.
          bind_res (required d ''agent_version_id'' (as_uuid (jc_uuid_of codec))) (\<lambda>agent_version_id.
          bind_res (required d ''task_id'' as_str) (\<lambda>task_id.
          bind_res (defaulted d ''attempt'' 1 (as_int (jc_int_of codec))) (\<lambda>attempt.
            EvaluationJob \<lparr>job_execution_id = execution_id, job_agent_version_id = agent_version_id,
              job_task_id = task_id, job_attempt = attempt\<rparr>))))
      | _ \<Rightarrow> Inl (Raise ValidationError ''EvaluationJob''))"

definition loads_job :: "job_codec \<Rightarrow> string \<Rightarrow> (exc, pyval) res" where
  "loads_job codec payload =
     (case json_loads payload of
        None \<Rightarrow> Inl (Raise ValueError (jc_bad_json codec payload))
      | Some v \<Rightarrow> Inr v)"

section \<open>Redis\<close>

text \<open>
  The commands of the client, as the source calls them: \<open>xgroup_create(stream, group, id="0",
  mkstream=True)\<close>, \<open>xadd(stream, fields)\<close>, \<open>xreadgroup(group, consumer, {stream: ">"}, count=1,
  block=block_ms)\<close>, \<open>xack(stream, group, id)\<close>; and the wait of \<open>asyncio.sleep\<close>, during which the
  world moves on.
\<close>

type_synonym fields = "(string, string) dict"
type_synonym message = "string \<times> fields"

record 'q redis =
  rd_xgroup_create :: "string \<Rightarrow> string \<Rightarrow> 'q \<Rightarrow> (exc, unit) res \<times> 'q"
  rd_xadd :: "string \<Rightarrow> fields \<Rightarrow> 'q \<Rightarrow> (exc, string) res \<times> 'q"
  rd_xreadgroup :: "string \<Rightarrow> string \<Rightarrow> string \<Rightarrow> int \<Rightarrow> 'q \<Rightarrow> (exc, (string \<times> message list) list) res \<times> 'q"
  rd_xack :: "string \<Rightarrow> string \<Rightarrow> string \<Rightarrow> 'q \<Rightarrow> (exc, unit) res \<times> 'q"
  rd_sleep :: "int \<Rightarrow> 'q \<Rightarrow> 'q"

section \<open>The queue\<close>

text \<open>\<open>Redis.from_url\<close> is a parameter.\<close>

definition create_redis_client :: "(string \<Rightarrow> 'q redis) \<Rightarrow> (string, string) dict \<Rightarrow> 'q redis" where
  "create_redis_client from_url environ = from_url (redis_url environ)"

definition ensure_group :: "'q redis \<Rightarrow> 'q \<Rightarrow> (exc, unit) res \<times> 'q" where
  "ensure_group r q =
     (case rd_xgroup_create r STREAM GROUP q of
        (Inr _, q) \<Rightarrow> (Inr (), q)
      | (Inl error, q) \<Rightarrow>
          if exc_of error = ResponseError \<and> substring ''BUSYGROUP'' (exc_text error) then (Inr (), q)
          else (Inl error, q))"

definition enqueue :: "'q redis \<Rightarrow> job_codec \<Rightarrow> evaluation_job \<Rightarrow> 'q \<Rightarrow> (exc, string) res \<times> 'q" where
  "enqueue r codec job q = rd_xadd r STREAM [(''payload'', model_dump_json codec job)] q"

definition read_message :: "job_codec \<Rightarrow> message \<Rightarrow> (exc, string \<times> evaluation_job) res" where
  "read_message codec m =
     bind_res (case map_of (snd m) ''payload'' of None \<Rightarrow> Inl (Raise KeyError (repr_str ''payload'')) | Some p \<Rightarrow> Inr p) (\<lambda>payload.
     bind_res (loads_job codec payload) (\<lambda>v.
     bind_res (model_validate codec v) (\<lambda>job. Inr (fst m, job))))"

definition claim ::
  "'q redis \<Rightarrow> job_codec \<Rightarrow> string \<Rightarrow> int \<Rightarrow> 'q \<Rightarrow> (exc, (string \<times> evaluation_job) option) res \<times> 'q" where
  "claim r codec consumer block_ms q =
     (case rd_xreadgroup r GROUP consumer STREAM block_ms q of
        (Inl e, q) \<Rightarrow> (Inl e, q)
      | (Inr [], q) \<Rightarrow> (Inr None, q)
      | (Inr ((_, messages) # _), q) \<Rightarrow>
          (case messages of
             [] \<Rightarrow> Inl (Raise IndexError ''list index out of range'')
           | m # _ \<Rightarrow> bind_res (read_message codec m) (\<lambda>claimed. Inr (Some claimed)), q))"

definition ack :: "'q redis \<Rightarrow> string \<Rightarrow> 'q \<Rightarrow> (exc, unit) res \<times> 'q" where
  "ack r message_id q = rd_xack r STREAM GROUP message_id q"

text \<open>\<open>min(2 ** (job.attempt - 1), 30)\<close> for an attempt that is at least 1.\<close>

definition retry_delay :: "int \<Rightarrow> int" where
  "retry_delay attempt = min (2 ^ nat (attempt - 1)) 30"

definition dead_fields :: "job_codec \<Rightarrow> evaluation_job \<Rightarrow> string \<Rightarrow> fields" where
  "dead_fields codec job error =
     [(''payload'', model_dump_json codec job), (''error'', error), (''attempts'', int_text (job_attempt job))]"

definition retry_or_deadletter ::
  "'q redis \<Rightarrow> job_codec \<Rightarrow> int \<Rightarrow> string \<Rightarrow> evaluation_job \<Rightarrow> string \<Rightarrow> 'q \<Rightarrow> (exc, bool) res \<times> 'q" where
  "retry_or_deadletter r codec max_attempts message_id job error q =
     (case ack r message_id q of
        (Inl e, q) \<Rightarrow> (Inl e, q)
      | (Inr _, q) \<Rightarrow>
          if max_attempts \<le> job_attempt job
          then
            (case rd_xadd r DEAD_LETTER_STREAM (dead_fields codec job error) q of
               (Inl e, q) \<Rightarrow> (Inl e, q)
             | (Inr _, q) \<Rightarrow> (Inr False, q))
          else
            let q = rd_sleep r (retry_delay (job_attempt job)) q;
                retried = job\<lparr>job_attempt := job_attempt job + 1\<rparr> in
            (case enqueue r codec retried q of
               (Inl e, q) \<Rightarrow> (Inl e, q)
             | (Inr _, q) \<Rightarrow> (Inr True, q)))"

section \<open>What the queue relies on\<close>

text \<open>
  The view of a Redis state: whether the consumer group exists, the entries of the stream it has not
  delivered yet (from the start of the stream, \<open>id="0"\<close>), those delivered and not acknowledged, and
  the entries of the dead-letter stream.
\<close>

record queue_view =
  qv_group :: bool
  qv_new :: "message list"
  qv_pending :: "message list"
  qv_dead :: "fields list"

definition add_ok :: "'q redis \<Rightarrow> ('q \<Rightarrow> queue_view) \<Rightarrow> bool" where
  "add_ok r view \<longleftrightarrow> (\<forall>fields q. \<exists>i q'. rd_xadd r STREAM fields q = (Inr i, q') \<and>
     i \<notin> fst ` set (qv_new (view q) @ qv_pending (view q)) \<and>
     view q' = (view q)\<lparr>qv_new := qv_new (view q) @ [(i, fields)]\<rparr>)"

definition dead_ok :: "'q redis \<Rightarrow> ('q \<Rightarrow> queue_view) \<Rightarrow> bool" where
  "dead_ok r view \<longleftrightarrow> (\<forall>fields q. \<exists>i q'. rd_xadd r DEAD_LETTER_STREAM fields q = (Inr i, q') \<and>
     view q' = (view q)\<lparr>qv_dead := qv_dead (view q) @ [fields]\<rparr>)"

definition read_ok :: "'q redis \<Rightarrow> ('q \<Rightarrow> queue_view) \<Rightarrow> bool" where
  "read_ok r view \<longleftrightarrow> (\<forall>consumer block q. qv_group (view q) \<longrightarrow> (\<exists>q'.
     (case qv_new (view q) of
        [] \<Rightarrow> rd_xreadgroup r GROUP consumer STREAM block q = (Inr [], q') \<and> view q' = view q
      | m # ms \<Rightarrow> rd_xreadgroup r GROUP consumer STREAM block q = (Inr [(STREAM, [m])], q') \<and>
          view q' = (view q)\<lparr>qv_new := ms, qv_pending := qv_pending (view q) @ [m]\<rparr>)))"

definition ack_ok :: "'q redis \<Rightarrow> ('q \<Rightarrow> queue_view) \<Rightarrow> bool" where
  "ack_ok r view \<longleftrightarrow> (\<forall>i q. \<exists>q'. rd_xack r STREAM GROUP i q = (Inr (), q') \<and>
     view q' = (view q)\<lparr>qv_pending := filter (\<lambda>m. fst m \<noteq> i) (qv_pending (view q))\<rparr>)"

definition group_ok :: "'q redis \<Rightarrow> ('q \<Rightarrow> queue_view) \<Rightarrow> bool" where
  "group_ok r view \<longleftrightarrow> (\<forall>q. \<exists>q'.
     (if qv_group (view q)
      then \<exists>text. rd_xgroup_create r STREAM GROUP q = (Inl (Raise ResponseError text), q') \<and>
             substring ''BUSYGROUP'' text \<and> view q' = view q
      else rd_xgroup_create r STREAM GROUP q = (Inr (), q') \<and> view q' = (view q)\<lparr>qv_group := True\<rparr>))"

text \<open>A server that answers and a worker that is alone with it: nothing changes while it waits.\<close>

definition redis_ok :: "'q redis \<Rightarrow> ('q \<Rightarrow> queue_view) \<Rightarrow> bool" where
  "redis_ok r view \<longleftrightarrow> add_ok r view \<and> dead_ok r view \<and> read_ok r view \<and> ack_ok r view \<and> group_ok r view \<and>
     (\<forall>n q. view (rd_sleep r n q) = view q)"

definition codec_ok :: "job_codec \<Rightarrow> bool" where
  "codec_ok codec \<longleftrightarrow> (\<forall>v. wf_val v \<longrightarrow> json_loads (jc_dumps codec v) = Some v)"

definition job_ok :: "job_codec \<Rightarrow> evaluation_job \<Rightarrow> bool" where
  "job_ok codec job \<longleftrightarrow> 1 \<le> job_attempt job \<and>
     jc_uuid_of codec (uuid_text (job_execution_id job)) = Some (job_execution_id job) \<and>
     jc_uuid_of codec (uuid_text (job_agent_version_id job)) = Some (job_agent_version_id job)"

section \<open>The specification of the queue\<close>

text \<open>Jobs that wait in order, jobs that are claimed, by message, and jobs given up with their last error.\<close>

record job_board =
  jb_waiting :: "evaluation_job list"
  jb_claimed :: "(string \<times> evaluation_job) list"
  jb_dead :: "(evaluation_job \<times> string) list"

definition board_enqueue :: "evaluation_job \<Rightarrow> job_board \<Rightarrow> job_board" where
  "board_enqueue job b = b\<lparr>jb_waiting := jb_waiting b @ [job]\<rparr>"

definition board_claim :: "string \<Rightarrow> job_board \<Rightarrow> job_board" where
  "board_claim i b = (case jb_waiting b of [] \<Rightarrow> b
     | job # jobs \<Rightarrow> b\<lparr>jb_waiting := jobs, jb_claimed := jb_claimed b @ [(i, job)]\<rparr>)"

definition board_finish :: "string \<Rightarrow> job_board \<Rightarrow> job_board" where
  "board_finish i b = b\<lparr>jb_claimed := filter (\<lambda>c. fst c \<noteq> i) (jb_claimed b)\<rparr>"

definition again :: "evaluation_job \<Rightarrow> evaluation_job" where
  "again job = job\<lparr>job_attempt := job_attempt job + 1\<rparr>"

definition board_fail :: "int \<Rightarrow> evaluation_job \<Rightarrow> string \<Rightarrow> job_board \<Rightarrow> job_board" where
  "board_fail max_attempts job error b =
     (if max_attempts \<le> job_attempt job then b\<lparr>jb_dead := jb_dead b @ [(job, error)]\<rparr>
      else board_enqueue (again job) b)"

text \<open>When a view of Redis stands for a board.\<close>

definition job_fields :: "job_codec \<Rightarrow> evaluation_job \<Rightarrow> fields" where
  "job_fields codec job = [(''payload'', model_dump_json codec job)]"

definition claimed_messages :: "job_codec \<Rightarrow> (string \<times> evaluation_job) list \<Rightarrow> message list" where
  "claimed_messages codec claims = map (\<lambda>(i, job). (i, job_fields codec job)) claims"

definition stands_for :: "job_codec \<Rightarrow> queue_view \<Rightarrow> job_board \<Rightarrow> bool" where
  "stands_for codec v b \<longleftrightarrow> qv_group v \<and>
     map snd (qv_new v) = map (job_fields codec) (jb_waiting b) \<and>
     qv_pending v = claimed_messages codec (jb_claimed b) \<and>
     qv_dead v = map (\<lambda>(job, error). dead_fields codec job error) (jb_dead b) \<and>
     distinct (keys (qv_new v) @ keys (jb_claimed b)) \<and> list_all (job_ok codec) (jb_waiting b)"

section \<open>The queue implements its specification\<close>

lemma claimed_messages_simps [simp]:
  "claimed_messages codec [] = []"
  "claimed_messages codec (xs @ ys) = claimed_messages codec xs @ claimed_messages codec ys"
  "claimed_messages codec [(i, job)] = [(i, job_fields codec job)]"
  by (simp_all add: claimed_messages_def)

lemma claimed_messages_keys: "keys (claimed_messages codec xs) = keys xs"
  by (auto simp: claimed_messages_def)

lemma claimed_messages_set: "fst ` set (claimed_messages codec xs) = fst ` set xs"
  using claimed_messages_keys [of codec xs] by (metis list.set_map)

lemma claimed_messages_filter:
  "filter (\<lambda>m. fst m \<noteq> i) (claimed_messages codec xs) = claimed_messages codec (filter (\<lambda>c. fst c \<noteq> i) xs)"
  by (induction xs) (auto simp: claimed_messages_def)

lemma read_job_message:
  assumes "codec_ok codec" and "job_ok codec job"
  shows "read_message codec (i, job_fields codec job) = Inr (i, job)"
proof -
  have "wf_val (job_value job)" by (simp add: job_value_def)
  then have "json_loads (model_dump_json codec job) = Some (job_value job)"
    using assms(1) by (simp add: codec_ok_def model_dump_json_def)
  then show ?thesis using assms(2)
    by (simp add: read_message_def job_fields_def loads_job_def job_value_def model_validate_def required_def
        defaulted_def job_ok_def EvaluationJob_def validated_def)
qed

lemma enqueue_implements:
  assumes "redis_ok r view" and "stands_for codec (view q) b" and "job_ok codec job"
  shows "\<exists>i q'. enqueue r codec job q = (Inr i, q') \<and> stands_for codec (view q') (board_enqueue job b)"
proof -
  obtain i q' where "rd_xadd r STREAM (job_fields codec job) q = (Inr i, q')"
      "i \<notin> fst ` set (qv_new (view q) @ qv_pending (view q))"
      "view q' = (view q)\<lparr>qv_new := qv_new (view q) @ [(i, job_fields codec job)]\<rparr>"
    using assms(1) unfolding redis_ok_def add_ok_def by blast
  then show ?thesis using assms(2,3)
    by (simp add: enqueue_def job_fields_def [symmetric] stands_for_def board_enqueue_def image_Un
        claimed_messages_set)
qed

lemma claim_implements:
  assumes "redis_ok r view" and "codec_ok codec" and "stands_for codec (view q) b"
  shows "(jb_waiting b = [] \<longrightarrow> (\<exists>q'. claim r codec consumer block_ms q = (Inr None, q') \<and> stands_for codec (view q') b)) \<and>
    (\<forall>job jobs. jb_waiting b = job # jobs \<longrightarrow> (\<exists>i q'. claim r codec consumer block_ms q = (Inr (Some (i, job)), q') \<and>
       i \<notin> fst ` set (jb_claimed b) \<and> stands_for codec (view q') (board_claim i b)))"
proof -
  have g: "qv_group (view q)" and new: "map snd (qv_new (view q)) = map (job_fields codec) (jb_waiting b)"
    using assms(3) by (simp_all add: stands_for_def)
  obtain q' where rd: "case qv_new (view q) of
        [] \<Rightarrow> rd_xreadgroup r GROUP consumer STREAM block_ms q = (Inr [], q') \<and> view q' = view q
      | m # ms \<Rightarrow> rd_xreadgroup r GROUP consumer STREAM block_ms q = (Inr [(STREAM, [m])], q') \<and>
          view q' = (view q)\<lparr>qv_new := ms, qv_pending := qv_pending (view q) @ [m]\<rparr>"
    using assms(1) g unfolding redis_ok_def read_ok_def by blast
  show ?thesis
  proof (cases "qv_new (view q)")
    case Nil
    then show ?thesis using rd new assms(3) by (auto simp: claim_def)
  next
    case (Cons m ms)
    then obtain job jobs where w: "jb_waiting b = job # jobs" "snd m = job_fields codec job"
        "map snd ms = map (job_fields codec) jobs"
      using new by (cases "jb_waiting b") auto
    have m: "m = (fst m, job_fields codec job)" using w(2) by (metis prod.collapse)
    have ok: "job_ok codec job" using assms(3) w(1) by (simp add: stands_for_def)
    have "read_message codec m = Inr (fst m, job)" using read_job_message [OF assms(2) ok, of "fst m"] m by simp
    then have c: "claim r codec consumer block_ms q = (Inr (Some (fst m, job)), q')"
      using rd Cons by (simp add: claim_def)
    have v: "view q' = (view q)\<lparr>qv_new := ms, qv_pending := qv_pending (view q) @ [(fst m, job_fields codec job)]\<rparr>"
      using rd Cons m by simp
    have keys: "distinct (keys (m # ms) @ keys (jb_claimed b))" using assms(3) Cons by (simp add: stands_for_def)
    have s: "stands_for codec (view q') (board_claim (fst m) b)"
      using assms(3) v w(1,3) keys by (simp add: stands_for_def board_claim_def)
    have "fst m \<notin> fst ` set (jb_claimed b)" using keys by simp
    with c s w(1) show ?thesis by simp
  qed
qed

lemma ack_implements:
  assumes "redis_ok r view" and "stands_for codec (view q) b"
  shows "\<exists>q'. ack r i q = (Inr (), q') \<and> stands_for codec (view q') (board_finish i b)"
proof -
  obtain q' where q': "rd_xack r STREAM GROUP i q = (Inr (), q')"
      "view q' = (view q)\<lparr>qv_pending := filter (\<lambda>m. fst m \<noteq> i) (qv_pending (view q))\<rparr>"
    using assms(1) unfolding redis_ok_def ack_ok_def by blast
  have "keys (filter (\<lambda>c. fst c \<noteq> i) xs) = filter (\<lambda>k. k \<noteq> i) (keys xs)" for xs :: "(string \<times> evaluation_job) list"
    by (induction xs) auto
  moreover have "distinct (filter (\<lambda>k. k \<noteq> i) ks)" if "distinct ks" for ks :: "string list" using that by simp
  ultimately show ?thesis using q' assms(2)
    by (auto simp: ack_def stands_for_def board_finish_def claimed_messages_filter)
qed

lemma retry_implements:
  assumes "redis_ok r view" and "stands_for codec (view q) b" and "job_ok codec job"
  shows "\<exists>q'. retry_or_deadletter r codec max_attempts i job error q = (Inr (job_attempt job < max_attempts), q') \<and>
    stands_for codec (view q') (board_fail max_attempts job error (board_finish i b))"
proof -
  obtain q1 where a: "ack r i q = (Inr (), q1)" "stands_for codec (view q1) (board_finish i b)"
    using ack_implements [OF assms(1,2)] by blast
  show ?thesis
  proof (cases "max_attempts \<le> job_attempt job")
    case True
    obtain k q2 where "rd_xadd r DEAD_LETTER_STREAM (dead_fields codec job error) q1 = (Inr k, q2)"
        "view q2 = (view q1)\<lparr>qv_dead := qv_dead (view q1) @ [dead_fields codec job error]\<rparr>"
      using assms(1) unfolding redis_ok_def dead_ok_def by blast
    then show ?thesis using a True by (simp add: retry_or_deadletter_def board_fail_def stands_for_def)
  next
    case False
    let ?q = "rd_sleep r (retry_delay (job_attempt job)) q1"
    have "stands_for codec (view ?q) (board_finish i b)" using assms(1) a(2) by (simp add: redis_ok_def)
    moreover have "job_ok codec (again job)" using assms(3) by (simp add: job_ok_def again_def)
    ultimately obtain k q2 where "enqueue r codec (again job) ?q = (Inr k, q2)"
        "stands_for codec (view q2) (board_enqueue (again job) (board_finish i b))"
      using enqueue_implements [OF assms(1)] by blast
    then show ?thesis using a(1) False by (simp add: retry_or_deadletter_def board_fail_def again_def Let_def)
  qed
qed

lemma ensure_group_implements:
  assumes "redis_ok r view"
  shows "\<exists>q'. ensure_group r q = (Inr (), q') \<and> view q' = (view q)\<lparr>qv_group := True\<rparr>"
proof -
  obtain q' where "if qv_group (view q)
      then \<exists>text. rd_xgroup_create r STREAM GROUP q = (Inl (Raise ResponseError text), q') \<and>
             substring ''BUSYGROUP'' text \<and> view q' = view q
      else rd_xgroup_create r STREAM GROUP q = (Inr (), q') \<and> view q' = (view q)\<lparr>qv_group := True\<rparr>"
    using assms unfolding redis_ok_def group_ok_def by blast
  then show ?thesis by (cases "qv_group (view q)") (auto simp: ensure_group_def)
qed

section \<open>A server in memory\<close>

record memory =
  mem_group :: bool
  mem_new :: "message list"
  mem_pending :: "message list"
  mem_dead :: "fields list"
  mem_slept :: int

definition memory_view :: "memory \<Rightarrow> queue_view" where
  "memory_view q = \<lparr>qv_group = mem_group q, qv_new = mem_new q, qv_pending = mem_pending q, qv_dead = mem_dead q\<rparr>"

definition fresh_id :: "memory \<Rightarrow> string" where
  "fresh_id q = replicate (Suc (sum_list (map (length \<circ> fst) (mem_new q @ mem_pending q)))) CHR ''0''"

definition memory_redis :: "memory redis" where
  "memory_redis =
     \<lparr>rd_xgroup_create = (\<lambda>stream group q.
        if mem_group q then (Inl (Raise ResponseError ''BUSYGROUP Consumer Group name already exists''), q)
        else (Inr (), q\<lparr>mem_group := True\<rparr>)),
      rd_xadd = (\<lambda>stream fields q.
        if stream = STREAM then (Inr (fresh_id q), q\<lparr>mem_new := mem_new q @ [(fresh_id q, fields)]\<rparr>)
        else (Inr (fresh_id q), q\<lparr>mem_dead := mem_dead q @ [fields]\<rparr>)),
      rd_xreadgroup = (\<lambda>group consumer stream block q.
        if \<not> mem_group q then (Inl (Raise ResponseError ''NOGROUP No such key or consumer group''), q)
        else (case mem_new q of
            [] \<Rightarrow> (Inr [], q)
          | m # ms \<Rightarrow> (Inr [(STREAM, [m])], q\<lparr>mem_new := ms, mem_pending := mem_pending q @ [m]\<rparr>))),
      rd_xack = (\<lambda>stream group i q. (Inr (), q\<lparr>mem_pending := filter (\<lambda>m. fst m \<noteq> i) (mem_pending q)\<rparr>)),
      rd_sleep = (\<lambda>n q. q\<lparr>mem_slept := mem_slept q + n\<rparr>)\<rparr>"

lemma fresh_id_new: "fresh_id q \<notin> fst ` set (mem_new q @ mem_pending q)"
proof
  assume "fresh_id q \<in> fst ` set (mem_new q @ mem_pending q)"
  then have "length (fresh_id q) \<in> set (map (length \<circ> fst) (mem_new q @ mem_pending q))" by force
  from member_le_sum_list [OF this] show False by (simp add: fresh_id_def)
qed

lemma memory_redis_ok: "redis_ok memory_redis memory_view"
proof -
  have d: "DEAD_LETTER_STREAM \<noteq> STREAM" "substring ''BUSYGROUP'' ''BUSYGROUP Consumer Group name already exists''"
    by code_simp+
  have a: "add_ok memory_redis memory_view" "dead_ok memory_redis memory_view" "ack_ok memory_redis memory_view"
    using d(1) fresh_id_new by (auto simp: add_ok_def dead_ok_def ack_ok_def memory_redis_def memory_view_def)
  have rd: "\<exists>q'. case mem_new q of
        [] \<Rightarrow> rd_xreadgroup memory_redis GROUP c STREAM k q = (Inr [], q') \<and> memory_view q' = memory_view q
      | m # ms \<Rightarrow> rd_xreadgroup memory_redis GROUP c STREAM k q = (Inr [(STREAM, [m])], q') \<and>
          memory_view q' = (memory_view q)\<lparr>qv_new := ms, qv_pending := mem_pending q @ [m]\<rparr>" if "mem_group q" for c k q
    using that by (cases "mem_new q") (simp_all add: memory_redis_def memory_view_def)
  have gr: "\<exists>q'. if mem_group q
      then \<exists>text. rd_xgroup_create memory_redis STREAM GROUP q = (Inl (Raise ResponseError text), q') \<and>
             substring ''BUSYGROUP'' text \<and> memory_view q' = memory_view q
      else rd_xgroup_create memory_redis STREAM GROUP q = (Inr (), q') \<and> memory_view q' = (memory_view q)\<lparr>qv_group := True\<rparr>" for q
    using d(2) by (cases "mem_group q") (simp_all add: memory_redis_def memory_view_def)
  have v: "qv_group (memory_view q) = mem_group q" "qv_new (memory_view q) = mem_new q"
    "qv_pending (memory_view q) = mem_pending q" for q by (simp_all add: memory_view_def)
  have w: "memory_view (rd_sleep memory_redis n q) = memory_view q" for n q
    by (simp add: memory_redis_def memory_view_def)
  show ?thesis using a rd gr w unfolding redis_ok_def read_ok_def group_ok_def v by blast
qed

text \<open>A server out of memory refuses to add.\<close>

definition full_redis :: "memory redis" where
  "full_redis = memory_redis\<lparr>rd_xadd := (\<lambda>stream fields q.
     (Inl (Raise ResponseError ''OOM command not allowed when used memory exceeds maxmemory''), q))\<rparr>"

definition empty_memory :: memory where
  "empty_memory = \<lparr>mem_group = True, mem_new = [], mem_pending = [], mem_dead = [], mem_slept = 0\<rparr>"

definition json_fields :: json_style where
  "json_fields = \<lparr>js_item_separator = '','', js_key_separator = '':'', js_indent = None, js_sort_keys = False\<rparr>"

definition hex_uuid :: "string \<Rightarrow> uuid option" where
  "hex_uuid s = (case List.those (map hex_val (filter (\<lambda>c. c \<noteq> CHR ''-'') s)) of
     None \<Rightarrow> None
   | Some ds \<Rightarrow> if length ds = 32 then Some (UUID (foldl (\<lambda>n d. n * 16 + d) 0 ds)) else None)"

definition sample_codec :: job_codec where
  "sample_codec = \<lparr>jc_dumps = json_dumps json_fields, jc_uuid_of = hex_uuid, jc_int_of = (\<lambda>_. None),
     jc_bad_json = (\<lambda>_. ''Expecting value'')\<rparr>"

definition sample_job :: evaluation_job where
  "sample_job = \<lparr>job_execution_id = UUID 7, job_agent_version_id = UUID 3, job_task_id = ''t'', job_attempt = 1\<rparr>"

lemma canon_json_fields: "canon json_fields v = v"
proof (induction v)
  case (PList xs)
  then show ?case by (simp add: map_idI)
next
  case (PDict ms)
  then have "map (\<lambda>(k, v). (k, canon json_fields v)) ms = ms" by (intro map_idI) auto
  then show ?case by (simp add: json_order_def json_fields_def)
qed simp_all

lemma sample_codec_ok: "codec_ok sample_codec"
proof -
  have "style_ok json_fields" by code_simp
  then show ?thesis using json_loads_dumps canon_json_fields by (simp add: codec_ok_def sample_codec_def)
qed

lemma sample_texts:
  "uuid_text (UUID 7) = ''00000000-0000-0000-0000-000000000007''"
  "uuid_text (UUID 3) = ''00000000-0000-0000-0000-000000000003''"
proof -
  have upt: "[0..<32::nat] = [0, 1, 2, 3, 4, 5, 6, 7, 8, 9, 10, 11, 12, 13, 14, 15, 16, 17, 18, 19, 20, 21, 22, 23,
      24, 25, 26, 27, 28, 29, 30, 31]" by (simp add: upt_rec)
  have digits: "char_of (48 :: nat) = CHR ''0''" "char_of (51 :: nat) = CHR ''3''" "char_of (55 :: nat) = CHR ''7''"
    by code_simp+
  show "uuid_text (UUID 7) = ''00000000-0000-0000-0000-000000000007''"
    "uuid_text (UUID 3) = ''00000000-0000-0000-0000-000000000003''"
    using digits by (simp_all add: uuid_text_def hex_digit_def join_with_def upt Let_def)
qed

lemma sample_job_ok: "job_ok sample_codec sample_job"
proof -
  have "hex_uuid ''00000000-0000-0000-0000-000000000007'' = Some (UUID 7)"
    "hex_uuid ''00000000-0000-0000-0000-000000000003'' = Some (UUID 3)" by code_simp+
  then show ?thesis by (simp add: job_ok_def sample_job_def sample_codec_def sample_texts)
qed

lemma empty_stands: "stands_for sample_codec (memory_view empty_memory) \<lparr>jb_waiting = [], jb_claimed = [], jb_dead = []\<rparr>"
  by (simp add: stands_for_def memory_view_def empty_memory_def)

section \<open>Properties of the queue\<close>

text \<open>C8: The queue implements its specification: over any server that answers, enqueueing puts the job
  last, claiming takes the first waiting job, and none exactly when none waits, acknowledging
  forgets the claim, and a failure gives the job up, with its error, at the last attempt and
  otherwise puts it last again with one attempt more.\<close>

theorem queue_implements_board:
  assumes "redis_ok r view" and "codec_ok codec" and "stands_for codec (view q) b" and "job_ok codec job"
  shows "(\<exists>i q'. enqueue r codec job q = (Inr i, q') \<and> stands_for codec (view q') (board_enqueue job b)) \<and>
    (jb_waiting b = [] \<longrightarrow> (\<exists>q'. claim r codec consumer block_ms q = (Inr None, q') \<and> stands_for codec (view q') b)) \<and>
    (\<forall>first rest. jb_waiting b = first # rest \<longrightarrow>
       (\<exists>i q'. claim r codec consumer block_ms q = (Inr (Some (i, first)), q') \<and>
          i \<notin> fst ` set (jb_claimed b) \<and> stands_for codec (view q') (board_claim i b))) \<and>
    (\<exists>q'. ack r i q = (Inr (), q') \<and> stands_for codec (view q') (board_finish i b)) \<and>
    (\<exists>q'. retry_or_deadletter r codec max_attempts i job error q = (Inr (job_attempt job < max_attempts), q') \<and>
       stands_for codec (view q') (board_fail max_attempts job error (board_finish i b)))"
  using enqueue_implements [OF assms(1,3,4)] claim_implements [OF assms(1-3), of consumer block_ms]
    ack_implements [OF assms(1,3), of i] retry_implements [OF assms(1,3,4), of max_attempts i error]
  by (intro conjI) blast+

theorem queue_implements_board_witness:
  "\<exists>i q. enqueue memory_redis sample_codec sample_job empty_memory = (Inr i, q) \<and>
     stands_for sample_codec (memory_view q) \<lparr>jb_waiting = [sample_job], jb_claimed = [], jb_dead = []\<rparr>"
  using queue_implements_board [OF memory_redis_ok sample_codec_ok empty_stands sample_job_ok]
  by (simp add: board_enqueue_def)

text \<open>C37: A retry acknowledges before it enqueues, so a server that takes the acknowledgement and
  refuses the new entry loses the job: the call raises, and the job waits nowhere, is claimed by
  nobody and is not dead-lettered.\<close>

theorem refused_retry_loses_the_job:
  assumes "ack_ok r view" and "\<forall>n q. view (rd_sleep r n q) = view q"
    and "\<forall>fields q. \<exists>e q'. rd_xadd r STREAM fields q = (Inl e, q') \<and> view q' = view q"
    and "job_attempt job < max_attempts"
  shows "\<exists>e q'. retry_or_deadletter r codec max_attempts i job error q = (Inl e, q') \<and>
    view q' = (view q)\<lparr>qv_pending := filter (\<lambda>m. fst m \<noteq> i) (qv_pending (view q))\<rparr>"
proof -
  obtain q1 where a: "ack r i q = (Inr (), q1)"
      "view q1 = (view q)\<lparr>qv_pending := filter (\<lambda>m. fst m \<noteq> i) (qv_pending (view q))\<rparr>"
    using assms(1) unfolding ack_ok_def ack_def by blast
  obtain e q2 where "enqueue r codec (again job) (rd_sleep r (retry_delay (job_attempt job)) q1) = (Inl e, q2)"
      "view q2 = view q1"
    using assms(2,3) unfolding enqueue_def by metis
  then show ?thesis using a assms(4) by (simp add: retry_or_deadletter_def again_def Let_def)
qed

theorem refused_retry_loses_the_job_witness:
  "\<exists>e q. retry_or_deadletter full_redis sample_codec DEFAULT_MAX_ATTEMPTS ''1-0'' sample_job ''boom''
       (empty_memory\<lparr>mem_pending := [(''1-0'', job_fields sample_codec sample_job)]\<rparr>) = (Inl e, q) \<and>
     memory_view q = memory_view empty_memory"
proof -
  have full: "ack_ok full_redis memory_view" "\<forall>n q. memory_view (rd_sleep full_redis n q) = memory_view q"
    "\<forall>fields q. \<exists>e q'. rd_xadd full_redis STREAM fields q = (Inl e, q') \<and> memory_view q' = memory_view q"
    by (auto simp: full_redis_def memory_redis_def ack_ok_def memory_view_def)
  have "job_attempt sample_job < DEFAULT_MAX_ATTEMPTS" by (simp add: sample_job_def DEFAULT_MAX_ATTEMPTS_def)
  from refused_retry_loses_the_job [OF full this, of sample_codec "''1-0''" "''boom''"
      "empty_memory\<lparr>mem_pending := [(''1-0'', job_fields sample_codec sample_job)]\<rparr>"]
  show ?thesis by (simp add: memory_view_def empty_memory_def)
qed

text \<open>A message that is no job is never handled: claiming it raises, it is then neither waiting nor
  dead-lettered but stays delivered, and no later claim gives it again.\<close>

lemma unreadable_message_is_stranded:
  assumes "read_ok r view" and "qv_group (view q)" and "qv_new (view q) = m # ms"
    and "read_message codec m = Inl e" and "fst m \<notin> fst ` set ms"
  shows "\<exists>q'. claim r codec consumer block_ms q = (Inl e, q') \<and>
    m \<in> set (qv_pending (view q')) \<and> m \<notin> set (qv_new (view q')) \<and> qv_dead (view q') = qv_dead (view q)"
proof -
  obtain q' where "rd_xreadgroup r GROUP consumer STREAM block_ms q = (Inr [(STREAM, [m])], q')"
      "view q' = (view q)\<lparr>qv_new := ms, qv_pending := qv_pending (view q) @ [m]\<rparr>"
    using assms(1-3) unfolding read_ok_def by fastforce
  then show ?thesis using assms(4,5) by (auto simp: claim_def)
qed

end
