(* ===== verification/Worker.thy ===== *)
theory Worker
  imports Queue Store Judges
begin

text \<open>
  \<open>runner/worker.py\<close>: claiming a job, running the agent on its task, storing the trace and the scored
  result, and the loop around it. The store is any implementation of the \<open>Store\<close> protocol
  (\<open>store_ops\<close>), the queue that of \<open>Queue\<close>. A worker's world gives each job its runtime, the
  clock readings and the identifiers of its verdicts.
\<close>

section \<open>Processing a job\<close>

type_synonym task_registry = "(string, benchmark_task) dict"

definition task_registry_from :: "benchmark_task list \<Rightarrow> task_registry" where
  "task_registry_from tasks = foldl (\<lambda>d task. dict_set (bt_task_id task) task d) [] tasks"

record job_world =
  jw_runtime :: runtime
  jw_now :: "nat \<Rightarrow> datetime"
  jw_verdict_id :: "nat \<Rightarrow> uuid"

record 'm judging =
  jg_floats :: float_ops
  jg_read_text :: "string \<Rightarrow> string"
  jg_ask :: "'m model_caller"

text \<open>
  \<open>for event in ...: await store.append_trace_event(...)\<close>: the store it leaves is part of the result
  also when an append raises. The clock has been read \<open>k\<close> times before.
\<close>

fun append_events ::
  "'s store_ops \<Rightarrow> (nat \<Rightarrow> datetime) \<Rightarrow> nat \<Rightarrow> uuid \<Rightarrow> trace_event_create list \<Rightarrow> 's \<Rightarrow> (exc, unit) res \<times> 's" where
  "append_events ops now k execution_id [] s = (Inr (), s)"
| "append_events ops now k execution_id (event # events) s =
     (case so_append_trace_event ops (now k) execution_id event s of
        Inl e \<Rightarrow> (Inl e, s)
      | Inr (_, s) \<Rightarrow> append_events ops now (k + 1) execution_id events s)"

definition judge_label_of :: "string \<Rightarrow> judge_label option" where
  "judge_label_of s = List.find (\<lambda>label. judge_label_value label = s) [JUDGE_PASS, JUDGE_FAIL, JUDGE_UNCERTAIN]"

text \<open>\<open>JudgeVerdictCreate(judge_name=verdict.judge_name, ...)\<close>.\<close>

definition verdict_create :: "llm_verdict \<Rightarrow> (exc, judge_verdict_create) res" where
  "verdict_create verdict =
     (case judge_label_of (lv_label verdict) of
        None \<Rightarrow> Inl (Raise ValidationError ''label'')
      | Some label \<Rightarrow>
          JudgeVerdictCreate \<lparr>jv_judge_name = lv_judge_name verdict, jv_rubric_version = lv_rubric_version verdict,
            jv_label = label, jv_confidence = lv_confidence verdict, jv_rationale = lv_rationale verdict\<rparr>)"

fun append_verdicts ::
  "'s store_ops \<Rightarrow> job_world \<Rightarrow> nat \<Rightarrow> uuid \<Rightarrow> llm_verdict list \<Rightarrow> 's \<Rightarrow> (exc, unit) res \<times> 's" where
  "append_verdicts ops world k execution_id [] s = (Inr (), s)"
| "append_verdicts ops world k execution_id (verdict # verdicts) s =
     (case bind_res (verdict_create verdict) (\<lambda>payload.
             so_append_judge_verdict ops (jw_verdict_id world k) (jw_now world k) execution_id payload s) of
        Inl e \<Rightarrow> (Inl e, s)
      | Inr (_, s) \<Rightarrow> append_verdicts ops world (k + 1) execution_id verdicts s)"

text \<open>\<open>model_client or ReferenceAgentModelClient(task)\<close>, and the run with the runner's own limits.\<close>

definition run_job ::
  "'c client \<Rightarrow> 'c option \<Rightarrow> runtime \<Rightarrow> agent_version \<Rightarrow> benchmark_task \<Rightarrow> uuid \<Rightarrow> (exc, runner_result) res" where
  "run_job ask client rt version task execution_id =
     (case client of
        Some c \<Rightarrow> run_task ask rt version task c (Some execution_id) DEFAULT_MAX_STEPS DEFAULT_MAX_MODEL_RETRIES
      | None \<Rightarrow> run_task reference_complete rt version task (reference_client_for task) (Some execution_id)
          DEFAULT_MAX_STEPS DEFAULT_MAX_MODEL_RETRIES)"

definition judge_result ::
  "'s store_ops \<Rightarrow> job_world \<Rightarrow> nat \<Rightarrow> 'm judging option \<Rightarrow> benchmark_task \<Rightarrow> uuid \<Rightarrow> runner_result \<Rightarrow> 's \<times> 'm
     \<Rightarrow> (exc, unit) res \<times> 's \<times> 'm" where
  "judge_result ops world k judging task execution_id result = (\<lambda>(s, m).
     case judging of
       None \<Rightarrow> (Inr (), s, m)
     | Some jg \<Rightarrow>
         (case run_judges (jg_floats jg) (jg_read_text jg) task result (jg_ask jg) m of
            (Inl e, m) \<Rightarrow> (Inl e, s, m)
          | (Inr verdicts, m) \<Rightarrow>
              (case append_verdicts ops world k execution_id verdicts s of (r, s) \<Rightarrow> (r, s, m))))"

definition process_job ::
  "'s store_ops \<Rightarrow> task_registry \<Rightarrow> job_world \<Rightarrow> evaluation_job \<Rightarrow> 'c client \<Rightarrow> 'c option \<Rightarrow> 'm judging option
     \<Rightarrow> 's \<times> 'm \<Rightarrow> (exc, unit) res \<times> 's \<times> 'm" where
  "process_job ops task_registry world job ask client judging = (\<lambda>(s, m).
     let execution_id = job_execution_id job in
     case map_of task_registry (job_task_id job) of
       None \<Rightarrow> (Inl (Raise KeyError (repr_str (job_task_id job))), s, m)
     | Some task \<Rightarrow>
         (case bind_res (so_get_agent_version ops (job_agent_version_id job) s) (\<lambda>version.
               bind_res (run_job ask client (jw_runtime world) version task execution_id) (\<lambda>result.
               bind_res (to_storage (rr_trace result)) (\<lambda>events. Inr (result, events)))) of
            Inl e \<Rightarrow> (Inl e, s, m)
          | Inr (result, events) \<Rightarrow>
              (case append_events ops (jw_now world) 0 execution_id events s of
                 (Inl e, s) \<Rightarrow> (Inl e, s, m)
               | (Inr _, s) \<Rightarrow>
                   (case bind_res (score_execution task result) (\<lambda>(execution_result, _).
                         so_record_result ops (jw_now world (length events)) execution_id execution_result s) of
                      Inl e \<Rightarrow> (Inl e, s, m)
                    | Inr (_, s) \<Rightarrow>
                        judge_result ops world (length events + 1) judging task execution_id result (s, m)))))"

section \<open>The worker\<close>

text \<open>What the worker runs with, and its state: the store, the queue's server, the judges' model.\<close>

record ('s, 'q, 'c, 'm) worker =
  wk_ops :: "'s store_ops"
  wk_redis :: "'q redis"
  wk_codec :: job_codec
  wk_max_attempts :: int
  wk_registry :: task_registry
  wk_consumer :: string
  wk_block_ms :: int
  wk_ask :: "'c client"
  wk_judging :: "'m judging option"

record ('s, 'q, 'm) worker_state =
  ws_store :: 's
  ws_redis :: 'q
  ws_model :: 'm

text \<open>\<open>f"{type(error).__name__}: {error}"\<close>; an \<open>HTTPException\<close> prints its status before its detail.\<close>

definition error_line :: "exc \<Rightarrow> string" where
  "error_line error = class_name (exc_of error) @ '': '' @
     (case exc_of error of HTTPException code \<Rightarrow> nat_text code @ '': '' @ exc_text error | _ \<Rightarrow> exc_text error)"

definition claim_and_process_one ::
  "('s, 'q, 'c, 'm) worker \<Rightarrow> job_world \<Rightarrow> ('s, 'q, 'm) worker_state \<Rightarrow> (exc, bool) res \<times> ('s, 'q, 'm) worker_state" where
  "claim_and_process_one w world st =
     (case claim (wk_redis w) (wk_codec w) (wk_consumer w) (wk_block_ms w) (ws_redis st) of
        (Inl e, q) \<Rightarrow> (Inl e, st\<lparr>ws_redis := q\<rparr>)
      | (Inr None, q) \<Rightarrow> (Inr False, st\<lparr>ws_redis := q\<rparr>)
      | (Inr (Some (message_id, job)), q) \<Rightarrow>
          (case process_job (wk_ops w) (wk_registry w) world job (wk_ask w) None (wk_judging w)
              (ws_store st, ws_model st) of
             (Inl error, s, m) \<Rightarrow>
               (case retry_or_deadletter (wk_redis w) (wk_codec w) (wk_max_attempts w) message_id job (error_line error) q of
                  (Inl e, q) \<Rightarrow> (Inl e, \<lparr>ws_store = s, ws_redis = q, ws_model = m\<rparr>)
                | (Inr _, q) \<Rightarrow> (Inr True, \<lparr>ws_store = s, ws_redis = q, ws_model = m\<rparr>))
           | (Inr _, s, m) \<Rightarrow>
               (case ack (wk_redis w) message_id q of
                  (Inl e, q) \<Rightarrow> (Inl e, \<lparr>ws_store = s, ws_redis = q, ws_model = m\<rparr>)
                | (Inr _, q) \<Rightarrow> (Inr True, \<lparr>ws_store = s, ws_redis = q, ws_model = m\<rparr>))))"

text \<open>
  \<open>run_worker_loop\<close>: the loop may not end, so its value is an option; \<open>worlds\<close> gives the world of
  each iteration. \<open>serve_forever\<close> ends only by an exception, which is its value after \<open>fuel\<close>
  iterations at most.
\<close>

partial_function (option) run_worker_loop ::
  "('s, 'q, 'c, 'm) worker \<Rightarrow> (nat \<Rightarrow> job_world) \<Rightarrow> nat option \<Rightarrow> nat \<Rightarrow> ('s, 'q, 'm) worker_state
     \<Rightarrow> ((exc, nat) res \<times> ('s, 'q, 'm) worker_state) option" where
  "run_worker_loop w worlds stop_after processed st =
     (if \<not> (case stop_after of None \<Rightarrow> True | Some n \<Rightarrow> processed < n) then Some (Inr processed, st)
      else
        (case claim_and_process_one w (worlds processed) st of
           (Inl e, st) \<Rightarrow> Some (Inl e, st)
         | (Inr did_work, st) \<Rightarrow>
             if did_work then run_worker_loop w worlds stop_after (processed + 1) st
             else Some (Inr processed, st)))"

declare run_worker_loop.simps [simp del]

fun serve :: "('s, 'q, 'c, 'm) worker \<Rightarrow> (nat \<Rightarrow> job_world) \<Rightarrow> nat \<Rightarrow> nat \<Rightarrow> ('s, 'q, 'm) worker_state
     \<Rightarrow> (exc, unit) res \<times> ('s, 'q, 'm) worker_state" where
  "serve w worlds k 0 st = (Inr (), st)"
| "serve w worlds k (Suc fuel) st =
     (case claim_and_process_one w (worlds k) st of
        (Inl e, st) \<Rightarrow> (Inl e, st)
      | (Inr _, st) \<Rightarrow> serve w worlds (k + 1) fuel st)"

definition serve_forever ::
  "('s, 'q, 'c, 'm) worker \<Rightarrow> (nat \<Rightarrow> job_world) \<Rightarrow> nat \<Rightarrow> ('s, 'q, 'm) worker_state
     \<Rightarrow> (exc, unit) res \<times> ('s, 'q, 'm) worker_state" where
  "serve_forever w worlds fuel st =
     (case ensure_group (wk_redis w) (ws_redis st) of
        (Inl e, q) \<Rightarrow> (Inl e, st\<lparr>ws_redis := q\<rparr>)
      | (Inr _, q) \<Rightarrow> serve w worlds 0 fuel (st\<lparr>ws_redis := q\<rparr>))"

section \<open>The loop is the specification of its queue\<close>

text \<open>
  What the worker does to a board of jobs: each waiting job in turn is processed, and put back or
  given up when that fails. It keeps the jobs that were finished.
\<close>

record ('s, 'm) progress =
  pg_count :: nat
  pg_finished :: "evaluation_job list"
  pg_board :: job_board
  pg_store :: 's
  pg_model :: 'm

definition attempts_left :: "int \<Rightarrow> evaluation_job \<Rightarrow> nat" where
  "attempts_left max_attempts job = nat (max_attempts - job_attempt job) + 1"

definition work_left :: "int \<Rightarrow> job_board \<Rightarrow> nat" where
  "work_left max_attempts b = sum_list (map (attempts_left max_attempts) (jb_waiting b))"

definition board_take :: "job_board \<Rightarrow> job_board" where
  "board_take b = b\<lparr>jb_waiting := tl (jb_waiting b)\<rparr>"

definition process_of :: "('s, 'q, 'c, 'm) worker \<Rightarrow> job_world \<Rightarrow> evaluation_job \<Rightarrow> 's \<times> 'm \<Rightarrow> (exc, unit) res \<times> 's \<times> 'm" where
  "process_of w world job = process_job (wk_ops w) (wk_registry w) world job (wk_ask w) None (wk_judging w)"

definition progress_step :: "('s, 'q, 'c, 'm) worker \<Rightarrow> job_world \<Rightarrow> evaluation_job \<Rightarrow> ('s, 'm) progress \<Rightarrow> ('s, 'm) progress" where
  "progress_step w world job p =
     (case process_of w world job (pg_store p, pg_model p) of
        (Inr _, s, m) \<Rightarrow> p\<lparr>pg_count := pg_count p + 1, pg_finished := pg_finished p @ [job],
          pg_board := board_take (pg_board p), pg_store := s, pg_model := m\<rparr>
      | (Inl error, s, m) \<Rightarrow> p\<lparr>pg_count := pg_count p + 1,
          pg_board := board_fail (wk_max_attempts w) job (error_line error) (board_take (pg_board p)),
          pg_store := s, pg_model := m\<rparr>)"

lemma work_left_fail:
  assumes "jb_waiting b = job # jobs"
  shows "work_left n (board_fail n job error (board_take b)) < work_left n b" and "work_left n (board_take b) < work_left n b"
  using assms by (simp_all add: work_left_def attempts_left_def board_fail_def board_take_def board_enqueue_def again_def)

lemma progress_step_work:
  "jb_waiting (pg_board p) = job # jobs \<Longrightarrow>
     work_left (wk_max_attempts w) (pg_board (progress_step w world job p)) < work_left (wk_max_attempts w) (pg_board p)"
  using work_left_fail [of "pg_board p" job jobs "wk_max_attempts w"]
  by (auto simp: progress_step_def split: prod.splits sum.splits)

function drain :: "('s, 'q, 'c, 'm) worker \<Rightarrow> (nat \<Rightarrow> job_world) \<Rightarrow> ('s, 'm) progress \<Rightarrow> ('s, 'm) progress" where
  "drain w worlds p =
     (case jb_waiting (pg_board p) of
        [] \<Rightarrow> p
      | job # _ \<Rightarrow> drain w worlds (progress_step w (worlds (pg_count p)) job p))"
  by pat_completeness auto

termination
  by (relation "measure (\<lambda>(w, worlds, p). work_left (wk_max_attempts w) (pg_board p))")
    (auto intro: progress_step_work)

declare drain.simps [simp del]

lemma drain_Nil: "jb_waiting (pg_board p) = [] \<Longrightarrow> drain w worlds p = p"
  by (subst drain.simps) simp

lemma drain_Cons:
  "jb_waiting (pg_board p) = job # jobs \<Longrightarrow> drain w worlds p = drain w worlds (progress_step w (worlds (pg_count p)) job p)"
  by (subst drain.simps) simp

text \<open>Which job it is, whatever its attempt.\<close>

definition identity :: "evaluation_job \<Rightarrow> uuid \<times> uuid \<times> string" where
  "identity job = (job_execution_id job, job_agent_version_id job, job_task_id job)"

definition all_jobs :: "('s, 'm) progress \<Rightarrow> (uuid \<times> uuid \<times> string) multiset" where
  "all_jobs p = mset (map identity (pg_finished p)) + mset (map identity (jb_waiting (pg_board p)))
     + mset (map (identity \<circ> fst) (jb_dead (pg_board p)))"

lemma progress_step_keeps_jobs:
  assumes "jb_waiting (pg_board p) = job # jobs"
  shows "all_jobs (progress_step w world job p) = all_jobs p" and
    "pg_count (progress_step w world job p) = pg_count p + 1" and
    "jb_claimed (pg_board (progress_step w world job p)) = jb_claimed (pg_board p)"
  using assms
  by (auto simp: progress_step_def all_jobs_def board_take_def board_fail_def board_enqueue_def again_def identity_def
      split: prod.splits sum.splits)

lemma drain_result:
  "jb_waiting (pg_board (drain w worlds p)) = [] \<and> all_jobs (drain w worlds p) = all_jobs p \<and>
   pg_count p \<le> pg_count (drain w worlds p) \<and>
   pg_count (drain w worlds p) \<le> pg_count p + work_left (wk_max_attempts w) (pg_board p) \<and>
   jb_claimed (pg_board (drain w worlds p)) = jb_claimed (pg_board p)"
proof (induction w worlds p rule: drain.induct)
  case (1 w worlds p)
  show ?case
  proof (cases "jb_waiting (pg_board p)")
    case Nil
    then show ?thesis by (simp add: drain_Nil)
  next
    case (Cons job jobs)
    let ?p = "progress_step w (worlds (pg_count p)) job p"
    show ?thesis unfolding drain_Cons [OF Cons]
      using 1 [OF Cons] progress_step_keeps_jobs [OF Cons, of w "worlds (pg_count p)"]
        progress_step_work [OF Cons, of w "worlds (pg_count p)"] by simp
  qed
qed

text \<open>One step of the worker is one step of its board.\<close>

lemma board_finish_claim:
  "jb_waiting b = job # jobs \<Longrightarrow> i \<notin> fst ` set (jb_claimed b) \<Longrightarrow> board_finish i (board_claim i b) = board_take b"
proof -
  assume a: "jb_waiting b = job # jobs" "i \<notin> fst ` set (jb_claimed b)"
  have "filter (\<lambda>c. fst c \<noteq> i) (jb_claimed b) = jb_claimed b" using a(2) by (force intro: filter_True)
  then show ?thesis using a(1) by (simp add: board_finish_def board_claim_def board_take_def)
qed

lemma worker_step:
  assumes "redis_ok (wk_redis w) view" and "codec_ok (wk_codec w)" and "stands_for (wk_codec w) (view (ws_redis st)) b"
    and "jb_waiting b = job # jobs" and "process_of w world job (ws_store st, ws_model st) = (r, s, m)"
  shows "\<exists>q. claim_and_process_one w world st = (Inr True, \<lparr>ws_store = s, ws_redis = q, ws_model = m\<rparr>) \<and>
    stands_for (wk_codec w) (view q)
      (case r of Inr _ \<Rightarrow> board_take b | Inl error \<Rightarrow> board_fail (wk_max_attempts w) job (error_line error) (board_take b))"
proof -
  obtain i q where c: "claim (wk_redis w) (wk_codec w) (wk_consumer w) (wk_block_ms w) (ws_redis st) = (Inr (Some (i, job)), q)"
      "i \<notin> fst ` set (jb_claimed b)" "stands_for (wk_codec w) (view q) (board_claim i b)"
    using claim_implements [OF assms(1-3)] assms(4) by blast
  note f = board_finish_claim [OF assms(4) c(2)]
  have ok: "job_ok (wk_codec w) job" using assms(3,4) by (simp add: stands_for_def)
  show ?thesis
  proof (cases r)
    case (Inl error)
    obtain q' where "retry_or_deadletter (wk_redis w) (wk_codec w) (wk_max_attempts w) i job (error_line error) q =
        (Inr (job_attempt job < wk_max_attempts w), q')"
        "stands_for (wk_codec w) (view q') (board_fail (wk_max_attempts w) job (error_line error) (board_take b))"
      using retry_implements [OF assms(1) c(3) ok, where i = i] unfolding f by blast
    then show ?thesis using c(1) assms(5) Inl by (simp add: claim_and_process_one_def process_of_def)
  next
    case (Inr u)
    obtain q' where "ack (wk_redis w) i q = (Inr (), q')" "stands_for (wk_codec w) (view q') (board_take b)"
      using ack_implements [OF assms(1) c(3), of i] unfolding f by blast
    then show ?thesis using c(1) assms(5) Inr by (simp add: claim_and_process_one_def process_of_def)
  qed
qed

lemma worker_idle:
  assumes "redis_ok (wk_redis w) view" and "codec_ok (wk_codec w)" and "stands_for (wk_codec w) (view (ws_redis st)) b"
    and "jb_waiting b = []"
  shows "\<exists>q. claim_and_process_one w world st = (Inr False, st\<lparr>ws_redis := q\<rparr>) \<and> stands_for (wk_codec w) (view q) b"
  using claim_implements [OF assms(1-3), of "wk_consumer w" "wk_block_ms w"] assms(4)
  by (auto simp: claim_and_process_one_def)

text \<open>With a job waiting, one iteration is one step of the specification; the loop and the server repeat it.\<close>

lemma claim_progress:
  assumes "redis_ok (wk_redis w) view" and "codec_ok (wk_codec w)" and "stands_for (wk_codec w) (view (ws_redis st)) (pg_board p)"
    and "ws_store st = pg_store p" and "ws_model st = pg_model p" and "jb_waiting (pg_board p) = job # jobs"
  shows "\<exists>st'. claim_and_process_one w world st = (Inr True, st') \<and>
    stands_for (wk_codec w) (view (ws_redis st')) (pg_board (progress_step w world job p)) \<and>
    ws_store st' = pg_store (progress_step w world job p) \<and> ws_model st' = pg_model (progress_step w world job p)"
proof -
  obtain r s m where pr: "process_of w world job (ws_store st, ws_model st) = (r, s, m)" by (metis prod_cases3)
  obtain q where q: "claim_and_process_one w world st = (Inr True, \<lparr>ws_store = s, ws_redis = q, ws_model = m\<rparr>)"
      "stands_for (wk_codec w) (view q)
        (case r of Inr _ \<Rightarrow> board_take (pg_board p)
         | Inl error \<Rightarrow> board_fail (wk_max_attempts w) job (error_line error) (board_take (pg_board p)))"
    using worker_step [OF assms(1-3,6) pr] by blast
  then show ?thesis using pr assms(4,5) by (auto simp: progress_step_def split: sum.splits)
qed

lemma progress_count: "pg_count (progress_step w world job p) = pg_count p + 1"
  by (simp add: progress_step_def split: prod.splits sum.splits)

lemma loop_drains:
  assumes "redis_ok (wk_redis w) view" and "codec_ok (wk_codec w)" and "stands_for (wk_codec w) (view (ws_redis st)) (pg_board p)"
    and "ws_store st = pg_store p" and "ws_model st = pg_model p"
  shows "\<exists>st'. run_worker_loop w worlds None (pg_count p) st = Some (Inr (pg_count (drain w worlds p)), st') \<and>
    stands_for (wk_codec w) (view (ws_redis st')) (pg_board (drain w worlds p)) \<and>
    ws_store st' = pg_store (drain w worlds p) \<and> ws_model st' = pg_model (drain w worlds p)"
  using assms
proof (induction w worlds p arbitrary: st rule: drain.induct)
  case (1 w worlds p)
  show ?case
  proof (cases "jb_waiting (pg_board p)")
    case Nil
    obtain q where "claim_and_process_one w (worlds (pg_count p)) st = (Inr False, st\<lparr>ws_redis := q\<rparr>)"
        "stands_for (wk_codec w) (view q) (pg_board p)"
      using worker_idle [OF "1.prems"(1-3) Nil] by blast
    then show ?thesis using "1.prems" by (subst run_worker_loop.simps) (simp add: drain_Nil [OF Nil])
  next
    case (Cons job jobs)
    let ?p = "progress_step w (worlds (pg_count p)) job p"
    obtain s1 where s1: "claim_and_process_one w (worlds (pg_count p)) st = (Inr True, s1)"
        "stands_for (wk_codec w) (view (ws_redis s1)) (pg_board ?p)" "ws_store s1 = pg_store ?p" "ws_model s1 = pg_model ?p"
      using claim_progress [OF "1.prems" Cons] by blast
    have "run_worker_loop w worlds None (pg_count p) st = run_worker_loop w worlds None (pg_count ?p) s1"
      using s1(1) by (subst run_worker_loop.simps) (simp add: progress_count)
    then show ?thesis using "1.IH" [OF Cons "1.prems"(1,2) s1(2-4)] drain_Cons [OF Cons, of w worlds] by simp
  qed
qed

lemma serve_idle:
  assumes "redis_ok (wk_redis w) view" and "codec_ok (wk_codec w)" and "stands_for (wk_codec w) (view (ws_redis st)) b"
    and "jb_waiting b = []"
  shows "\<exists>q. serve w worlds k fuel st = (Inr (), st\<lparr>ws_redis := q\<rparr>) \<and> stands_for (wk_codec w) (view q) b"
  using assms(3)
proof (induction fuel arbitrary: k st)
  case 0
  then show ?case by (intro exI [of _ "ws_redis st"]) simp
next
  case (Suc fuel)
  obtain q where q: "claim_and_process_one w (worlds k) st = (Inr False, st\<lparr>ws_redis := q\<rparr>)" "stands_for (wk_codec w) (view q) b"
    using worker_idle [OF assms(1,2) Suc.prems assms(4)] by blast
  have "stands_for (wk_codec w) (view (ws_redis (st\<lparr>ws_redis := q\<rparr>))) b" using q(2) by simp
  from Suc.IH [OF this, of "k + 1"] q(1) show ?case by auto
qed

lemma serve_drains:
  assumes "redis_ok (wk_redis w) view" and "codec_ok (wk_codec w)" and "stands_for (wk_codec w) (view (ws_redis st)) (pg_board p)"
    and "ws_store st = pg_store p" and "ws_model st = pg_model p" and "pg_count (drain w worlds p) \<le> pg_count p + fuel"
  shows "\<exists>st'. serve w worlds (pg_count p) fuel st = (Inr (), st') \<and>
    stands_for (wk_codec w) (view (ws_redis st')) (pg_board (drain w worlds p)) \<and>
    ws_store st' = pg_store (drain w worlds p) \<and> ws_model st' = pg_model (drain w worlds p)"
  using assms
proof (induction w worlds p arbitrary: st fuel rule: drain.induct)
  case (1 w worlds p)
  show ?case
  proof (cases "jb_waiting (pg_board p)")
    case Nil
    from serve_idle [OF "1.prems"(1-3) Nil, of worlds "pg_count p" fuel] "1.prems"(4,5) show ?thesis
      by (auto simp: drain_Nil [OF Nil])
  next
    case (Cons job jobs)
    let ?p = "progress_step w (worlds (pg_count p)) job p"
    obtain s1 where s1: "claim_and_process_one w (worlds (pg_count p)) st = (Inr True, s1)"
        "stands_for (wk_codec w) (view (ws_redis s1)) (pg_board ?p)" "ws_store s1 = pg_store ?p" "ws_model s1 = pg_model ?p"
      using claim_progress [OF "1.prems"(1-5) Cons] by blast
    have "pg_count ?p \<le> pg_count (drain w worlds ?p)" using drain_result by blast
    then have "pg_count p < pg_count (drain w worlds p)" unfolding drain_Cons [OF Cons] by (simp add: progress_count)
    then obtain f where f: "fuel = Suc f" using "1.prems"(6) by (cases fuel) auto
    have "pg_count (drain w worlds ?p) \<le> pg_count ?p + f"
      using "1.prems"(6) unfolding f drain_Cons [OF Cons] by (simp add: progress_count)
    from "1.IH" [OF Cons "1.prems"(1,2) s1(2-4) this] show ?thesis
      using s1(1) unfolding f drain_Cons [OF Cons] by (simp add: progress_count)
  qed
qed

lemma drain_dead:
  "\<exists>given_up. jb_dead (pg_board (drain w worlds p)) = jb_dead (pg_board p) @ given_up \<and>
     list_all (\<lambda>(job, error). wk_max_attempts w \<le> job_attempt job) given_up"
proof (induction w worlds p rule: drain.induct)
  case (1 w worlds p)
  show ?case
  proof (cases "jb_waiting (pg_board p)")
    case Nil
    then show ?thesis by (simp add: drain_Nil)
  next
    case (Cons job jobs)
    let ?p = "progress_step w (worlds (pg_count p)) job p"
    have "\<exists>new. jb_dead (pg_board ?p) = jb_dead (pg_board p) @ new \<and>
        list_all (\<lambda>(job, error). wk_max_attempts w \<le> job_attempt job) new"
      by (auto simp: progress_step_def board_take_def board_fail_def board_enqueue_def split: prod.splits sum.splits)
    then show ?thesis unfolding drain_Cons [OF Cons] using 1 [OF Cons] by (metis append.assoc list_all_append)
  qed
qed

definition start_of :: "job_board \<Rightarrow> ('s, 'q, 'm) worker_state \<Rightarrow> ('s, 'm) progress" where
  "start_of b st = \<lparr>pg_count = 0, pg_finished = [], pg_board = b, pg_store = ws_store st, pg_model = ws_model st\<rparr>"

section \<open>A fresh job is done the first time\<close>

fun kept_events ::
  "(pydict \<Rightarrow> pydict) \<Rightarrow> uuid \<Rightarrow> (nat \<Rightarrow> datetime) \<Rightarrow> nat \<Rightarrow> trace_event_create list \<Rightarrow> trace_event list" where
  "kept_events keep eid now k [] = []"
| "kept_events keep eid now k (e # es) = kept_event keep eid (now k) e # kept_events keep eid now (k + 1) es"

lemma kept_events_nos [simp]: "map ev_sequence_no (kept_events keep eid now k es) = map ev_sequence_no es"
  by (induction es arbitrary: k) (auto simp: kept_event_def)

text \<open>A run of the reference agent on a well-formed task: it returns, and its trace can be stored.\<close>

definition runnable :: "benchmark_task \<Rightarrow> bool" where
  "runnable task \<longleftrightarrow> wf_support (from_mapping (bt_initial_state task)) \<and>
     list_all (\<lambda>a. plain_call (ea_operation a) (ea_arguments a)) (bt_expected_actions task)"

lemma reference_job_runs:
  assumes "runnable task"
  shows "\<exists>result res. run_job ask None rt version task eid = Inr result \<and>
    score_execution task result = Inr (res, score_run task result) \<and> TaskExecutionResult res = Inr res \<and>
    to_storage (rr_trace result) = Inr (map step_to_event (tr_steps (rr_trace result))) \<and>
    trace_ok (rr_trace result) \<and> tr_steps (rr_trace result) \<noteq> []"
proof -
  have wf: "wf_support (from_mapping (bt_initial_state task))" and good: "reference_good (reference_client_for task)"
    using assms by (simp_all add: runnable_def reference_good_def reference_client_for_def)
  note run = reference.run_task_ok [OF good wf, where rt = rt and version = version and execution_id = "Some eid" and
      max_steps = DEFAULT_MAX_STEPS and max_retries = DEFAULT_MAX_MODEL_RETRIES]
  obtain result where r: "run_task reference_complete rt version task (reference_client_for task) (Some eid)
      DEFAULT_MAX_STEPS DEFAULT_MAX_MODEL_RETRIES = Inr result"
    using run by (cases "run_task reference_complete rt version task (reference_client_for task) (Some eid)
      DEFAULT_MAX_STEPS DEFAULT_MAX_MODEL_RETRIES") auto
  have t: "trace_ok (rr_trace result)" "phase_run Ready (payloads (rr_trace result)) = Some Finished"
    using run r by simp_all
  obtain res where res: "score_execution task result = Inr (res, score_run task result)"
    using finished_run_scores [OF reference.model_client_axioms good wf r] by blast
  then have "TaskExecutionResult res = Inr res"
    by (auto simp: score_execution_def Let_def bind_res_eq_Inr TaskExecutionResult_Inr)
  moreover have "tr_steps (rr_trace result) \<noteq> []" using t(2) by auto
  ultimately show ?thesis using r res t(1) to_storage_ok by (auto simp: run_job_def)
qed

lemma storable_events:
  assumes "trace_ok t"
  shows "map ev_sequence_no (map step_to_event (tr_steps t)) = map int [0..<length (tr_steps t)]"
    and "list_all (\<lambda>e. TraceEventCreate e = Inr e) (map step_to_event (tr_steps t))"
proof -
  show "map ev_sequence_no (map step_to_event (tr_steps t)) = map int [0..<length (tr_steps t)]"
    using assms by (simp add: trace_ok_def comp_def)
  have "to_storage t = Inr (map step_to_event (tr_steps t))" by (rule to_storage_ok [OF assms])
  then show "list_all (\<lambda>e. TraceEventCreate e = Inr e) (map step_to_event (tr_steps t))"
    by (auto simp: to_storage_def map_res_Inr_iff list_all2_map2 list_all2_same list_all_iff)
qed

text \<open>What a store says of a job's execution before the job is done, and after.\<close>

definition fresh_job :: "'s store_ops \<Rightarrow> task_registry \<Rightarrow> 's \<Rightarrow> evaluation_job \<Rightarrow> bool" where
  "fresh_job ops registry s job \<longleftrightarrow>
     (\<exists>task version x. map_of registry (job_task_id job) = Some task \<and> runnable task \<and>
        so_get_agent_version ops (job_agent_version_id job) s = Inr version \<and>
        so_get_execution ops (job_execution_id job) s = Inr x \<and> \<not> terminal_status (ex_status x) \<and>
        so_get_trace ops (job_execution_id job) s = Inr [])"

definition done_job ::
  "'s store_ops \<Rightarrow> (pydict \<Rightarrow> pydict) \<Rightarrow> task_registry \<Rightarrow> 'c client \<Rightarrow> job_world \<Rightarrow> 's \<Rightarrow> 's \<Rightarrow> evaluation_job \<Rightarrow> bool" where
  "done_job ops keep registry ask world s s' job \<longleftrightarrow>
     (\<exists>task version x result res.
        map_of registry (job_task_id job) = Some task \<and>
        so_get_agent_version ops (job_agent_version_id job) s = Inr version \<and>
        so_get_execution ops (job_execution_id job) s = Inr x \<and>
        run_job ask None (jw_runtime world) version task (job_execution_id job) = Inr result \<and>
        score_execution task result = Inr (res, score_run task result) \<and>
        so_get_trace ops (job_execution_id job) s' =
          Inr (kept_events keep (job_execution_id job) (jw_now world) 0 (map step_to_event (tr_steps (rr_trace result)))) \<and>
        so_get_execution ops (job_execution_id job) s' =
          Inr (finalized (jw_now world (length (tr_steps (rr_trace result)))) res x))"

definition elsewhere_same :: "'s store_ops \<Rightarrow> uuid \<Rightarrow> 's \<Rightarrow> 's \<Rightarrow> bool" where
  "elsewhere_same ops eid s s' \<longleftrightarrow>
     (\<forall>x. x \<noteq> eid \<longrightarrow> so_get_trace ops x s' = so_get_trace ops x s \<and> so_get_execution ops x s' = so_get_execution ops x s) \<and>
     (\<forall>x. so_get_agent_version ops x s' = so_get_agent_version ops x s)"

lemma fresh_job_elsewhere:
  "elsewhere_same ops eid s s' \<Longrightarrow> job_execution_id job \<noteq> eid \<Longrightarrow> fresh_job ops registry s job \<Longrightarrow> fresh_job ops registry s' job"
  by (simp add: fresh_job_def elsewhere_same_def)

lemma done_job_elsewhere:
  assumes "elsewhere_same ops eid s s1" and "job_execution_id job \<noteq> eid"
  shows "done_job ops keep registry ask world s1 s' job \<Longrightarrow> done_job ops keep registry ask world s s' job"
    and "done_job ops keep registry ask world s0 s job \<Longrightarrow> done_job ops keep registry ask world s0 s1 job"
  using assms by (simp_all add: done_job_def elsewhere_same_def)

context evidence_store
begin

lemma append_events_fresh:
  assumes "inv s" and "so_get_trace ops eid s = Inr old"
    and "distinct (map ev_sequence_no (old @ map (kept_event keep eid 0) es))"
    and "list_all (\<lambda>e. TraceEventCreate e = Inr e) es"
  shows "\<exists>s'. append_events ops now k eid es s = (Inr (), s') \<and> inv s' \<and>
    so_get_trace ops eid s' = Inr (if es = [] then old else sort_key ev_sequence_no (old @ kept_events keep eid now k es)) \<and>
    elsewhere_same ops eid s s' \<and> so_get_execution ops eid s' = so_get_execution ops eid s"
  using assms
proof (induction es arbitrary: s old k)
  case (Cons e es)
  have no: "ev_sequence_no (kept_event keep eid n x) = ev_sequence_no x" for n x by (simp add: kept_event_def)
  obtain ev s1 where s1: "so_append_trace_event ops (now k) eid e s = Inr (ev, s1)" "inv s1"
      "so_get_trace ops eid s1 = Inr (sort_key ev_sequence_no (old @ [kept_event keep eid (now k) e]))"
      "elsewhere_same ops eid s s1" "so_get_execution ops eid s1 = so_get_execution ops eid s"
    using append_fresh [OF Cons.prems(1,2), of e "now k"] Cons.prems(3,4) by (auto simp: elsewhere_same_def no)
  let ?old = "sort_key ev_sequence_no (old @ [kept_event keep eid (now k) e])"
  have "mset (map ev_sequence_no (?old @ map (kept_event keep eid 0) es)) =
      mset (map ev_sequence_no (old @ map (kept_event keep eid 0) (e # es)))" by (simp add: no)
  then have "distinct (map ev_sequence_no (?old @ map (kept_event keep eid 0) es))"
    using Cons.prems(3) by (metis mset_eq_imp_distinct_iff)
  moreover have "list_all (\<lambda>e. TraceEventCreate e = Inr e) es" using Cons.prems(4) by simp
  ultimately obtain s2 where s2: "append_events ops now (k + 1) eid es s1 = (Inr (), s2)" "inv s2"
      "so_get_trace ops eid s2 = Inr (if es = [] then ?old else sort_key ev_sequence_no (?old @ kept_events keep eid now (k + 1) es))"
      "elsewhere_same ops eid s1 s2" "so_get_execution ops eid s2 = so_get_execution ops eid s1"
    using Cons.IH [OF s1(2,3), of "k + 1"] by blast
  have "so_get_trace ops eid s2 = Inr (sort_key ev_sequence_no (old @ kept_events keep eid now k (e # es)))"
    using s2(3) by (cases "es = []") (simp_all add: sort_key_append_sorted)
  moreover have "elsewhere_same ops eid s s2" using s1(4) s2(4) by (simp add: elsewhere_same_def)
  ultimately show ?case using s1(1,5) s2(1,2,5) by simp
qed (simp add: elsewhere_same_def)

lemma process_fresh:
  assumes "inv s" and "fresh_job ops registry s job"
  shows "\<exists>s'. process_job ops registry world job ask None None (s, m) = (Inr (), s', m) \<and> inv s' \<and>
    done_job ops keep registry ask world s s' job \<and> elsewhere_same ops (job_execution_id job) s s'"
proof -
  let ?eid = "job_execution_id job" and ?rt = "jw_runtime world" and ?now = "jw_now world"
  obtain task version x where j: "map_of registry (job_task_id job) = Some task" "runnable task"
      "so_get_agent_version ops (job_agent_version_id job) s = Inr version"
      "so_get_execution ops ?eid s = Inr x" "\<not> terminal_status (ex_status x)" "so_get_trace ops ?eid s = Inr []"
    using assms(2) unfolding fresh_job_def by blast
  obtain result res where r: "run_job ask None ?rt version task ?eid = Inr result"
      "score_execution task result = Inr (res, score_run task result)" "TaskExecutionResult res = Inr res"
      "to_storage (rr_trace result) = Inr (map step_to_event (tr_steps (rr_trace result)))"
      "trace_ok (rr_trace result)" "tr_steps (rr_trace result) \<noteq> []"
    using reference_job_runs [OF j(2)] by blast
  let ?es = "map step_to_event (tr_steps (rr_trace result))"
  note es = storable_events [OF r(5)]
  have d: "distinct (map ev_sequence_no ([] @ map (kept_event keep ?eid 0) ?es))"
    using es(1) by (simp add: kept_event_def comp_def distinct_map)
  have sorted: "sort_key ev_sequence_no (kept_events keep ?eid ?now 0 ?es) = kept_events keep ?eid ?now 0 ?es"
    by (rule sort_key_id) (simp add: es(1) [unfolded map_map] sorted_wrt_map)
  obtain s1 where s1: "append_events ops ?now 0 ?eid ?es s = (Inr (), s1)" "inv s1"
      "so_get_trace ops ?eid s1 = Inr (kept_events keep ?eid ?now 0 ?es)"
      "elsewhere_same ops ?eid s s1" "so_get_execution ops ?eid s1 = Inr x"
    using append_events_fresh [OF assms(1) j(6) d es(2), of ?now 0] r(6) j(4) by (auto simp: sorted)
  obtain s2 where s2: "so_record_result ops (?now (length ?es)) ?eid res s1 = Inr (finalized (?now (length ?es)) res x, s2)"
      "inv s2" "so_get_execution ops ?eid s2 = Inr (finalized (?now (length ?es)) res x)"
      "elsewhere_same ops ?eid s1 s2" "so_get_trace ops ?eid s2 = so_get_trace ops ?eid s1"
    using record_pending [OF s1(2,5) j(5) r(3), of "?now (length ?es)"] by (auto simp: elsewhere_same_def)
  have "process_job ops registry world job ask None None (s, m) = (Inr (), s2, m)"
    using j(1,3) r(1,2,4) s1(1) s2(1) by (simp add: process_job_def judge_result_def)
  moreover have "done_job ops keep registry ask world s s2 job"
    using j(1,3,4) r(1,2) s1(3) s2(3,5) unfolding done_job_def by (intro exI conjI) (auto)
  moreover have "elsewhere_same ops ?eid s s2" using s1(4) s2(4) by (simp add: elsewhere_same_def)
  ultimately show ?thesis using s2(2) by blast
qed

lemma process_again:
  assumes "inv s" and "map_of registry (job_task_id job) = Some task" and "runnable task"
    and "so_get_agent_version ops (job_agent_version_id job) s = Inr version"
    and "so_get_trace ops (job_execution_id job) s = Inr old" and "0 \<in> set (map ev_sequence_no old)"
  shows "process_job ops registry world job ask None judging (s, m) =
    (Inl (http_error 409 ''duplicate trace sequence number''), s, m)"
proof -
  let ?eid = "job_execution_id job"
  obtain result res where r: "run_job ask None (jw_runtime world) version task ?eid = Inr result"
      "to_storage (rr_trace result) = Inr (map step_to_event (tr_steps (rr_trace result)))"
      "trace_ok (rr_trace result)" "tr_steps (rr_trace result) \<noteq> []"
    using reference_job_runs [OF assms(3)] by blast
  obtain t ts where ts: "tr_steps (rr_trace result) = t # ts" using r(4) by (cases "tr_steps (rr_trace result)") auto
  have "ev_sequence_no (step_to_event t) = 0"
    using storable_events(1) [OF r(3)] ts by (simp add: upt_conv_Cons del: upt_Suc)
  then have "so_append_trace_event ops (jw_now world 0) ?eid (step_to_event t) s =
      Inl (http_error 409 ''duplicate trace sequence number'')"
    using append_duplicate [OF assms(1,5)] assms(6) by metis
  then show ?thesis using assms(2,4) r(1,2) ts by (simp add: process_job_def)
qed

lemma drain_fresh:
  assumes "wk_ops w = ops" and "wk_judging w = None" and "inv (pg_store p)"
    and "list_all (fresh_job ops (wk_registry w) (pg_store p)) (jb_waiting (pg_board p))"
    and "distinct (map job_execution_id (jb_waiting (pg_board p)))"
  shows "pg_finished (drain w worlds p) = pg_finished p @ jb_waiting (pg_board p) \<and>
    jb_dead (pg_board (drain w worlds p)) = jb_dead (pg_board p) \<and> inv (pg_store (drain w worlds p)) \<and>
    pg_count (drain w worlds p) = pg_count p + length (jb_waiting (pg_board p)) \<and>
    (\<forall>x. x \<notin> job_execution_id ` set (jb_waiting (pg_board p)) \<longrightarrow>
       so_get_trace ops x (pg_store (drain w worlds p)) = so_get_trace ops x (pg_store p) \<and>
       so_get_execution ops x (pg_store (drain w worlds p)) = so_get_execution ops x (pg_store p)) \<and>
    (\<forall>i<length (jb_waiting (pg_board p)).
       done_job ops keep (wk_registry w) (wk_ask w) (worlds (pg_count p + i)) (pg_store p) (pg_store (drain w worlds p))
         (jb_waiting (pg_board p) ! i))"
  using assms
proof (induction w worlds p rule: drain.induct)
  case (1 w worlds p)
  show ?case
  proof (cases "jb_waiting (pg_board p)")
    case Nil
    then show ?thesis using "1.prems"(3) by (simp add: drain_Nil)
  next
    case (Cons job jobs)
    let ?world = "worlds (pg_count p)"
    let ?p = "progress_step w ?world job p" and ?q = "drain w worlds p"
    have fj: "fresh_job ops (wk_registry w) (pg_store p) job" using "1.prems"(4) Cons by simp
    obtain s1 where s1: "process_of w ?world job (pg_store p, pg_model p) = (Inr (), s1, pg_model p)" "inv s1"
        "done_job ops keep (wk_registry w) (wk_ask w) ?world (pg_store p) s1 job"
        "elsewhere_same ops (job_execution_id job) (pg_store p) s1"
      using process_fresh [OF "1.prems"(3) fj, of ?world "wk_ask w" "pg_model p"] "1.prems"(1,2)
      unfolding process_of_def by auto
    have p: "pg_count ?p = pg_count p + 1" "pg_finished ?p = pg_finished p @ [job]" "pg_store ?p = s1"
        "jb_waiting (pg_board ?p) = jobs" "jb_dead (pg_board ?p) = jb_dead (pg_board p)"
      using s1(1) Cons by (simp_all add: progress_step_def board_take_def)
    have ids: "job_execution_id job \<notin> job_execution_id ` set jobs" "distinct (map job_execution_id jobs)"
      using "1.prems"(5) Cons by simp_all
    have "list_all (fresh_job ops (wk_registry w) s1) jobs"
      unfolding list_all_iff
    proof
      fix j assume j: "j \<in> set jobs"
      then have "job_execution_id j \<noteq> job_execution_id job" using ids(1) by (metis imageI)
      then show "fresh_job ops (wk_registry w) s1 j"
        using fresh_job_elsewhere [OF s1(4)] "1.prems"(4) Cons j by (simp add: list_all_iff)
    qed
    with "1.IH" [OF Cons "1.prems"(1,2)] s1(2) ids(2) p
    have ih: "pg_finished ?q = pg_finished p @ job # jobs" "jb_dead (pg_board ?q) = jb_dead (pg_board p)" "inv (pg_store ?q)"
      "pg_count ?q = pg_count p + length (job # jobs)"
      "\<forall>x. x \<notin> job_execution_id ` set jobs \<longrightarrow> so_get_trace ops x (pg_store ?q) = so_get_trace ops x s1 \<and>
         so_get_execution ops x (pg_store ?q) = so_get_execution ops x s1"
      "\<forall>i<length jobs. done_job ops keep (wk_registry w) (wk_ask w) (worlds (pg_count p + 1 + i)) s1 (pg_store ?q) (jobs ! i)"
      unfolding drain_Cons [OF Cons, of w worlds] by simp_all
    have first: "done_job ops keep (wk_registry w) (wk_ask w) ?world (pg_store p) (pg_store ?q) job"
      using s1(3) ih(5) ids(1) by (simp add: done_job_def)
    have each: "done_job ops keep (wk_registry w) (wk_ask w) (worlds (pg_count p + i)) (pg_store p) (pg_store ?q) ((job # jobs) ! i)"
      if "i < length (job # jobs)" for i
    proof (cases i)
      case 0
      then show ?thesis using first by simp
    next
      case (Suc k)
      have k: "job_execution_id (jobs ! k) \<noteq> job_execution_id job" using ids(1) that Suc by (metis Suc_less_eq imageI length_Cons nth_mem)
      have "done_job ops keep (wk_registry w) (wk_ask w) (worlds (pg_count p + 1 + k)) s1 (pg_store ?q) (jobs ! k)"
        using ih(6) that Suc by simp
      from done_job_elsewhere(1) [OF s1(4) k this] show ?thesis using Suc by simp
    qed
    show ?thesis unfolding Cons using ih(1-5) each s1(4) by (auto simp: elsewhere_same_def)
  qed
qed

end

section \<open>Properties of the worker\<close>

lemma start_of_simps [simp]:
  "pg_count (start_of b st) = 0" "pg_finished (start_of b st) = []" "pg_board (start_of b st) = b"
  "pg_store (start_of b st) = ws_store st" "pg_model (start_of b st) = ws_model st"
  by (simp_all add: start_of_def)

text \<open>C4: The worker loop implements its specification: over any server that answers, with no limit on
  the number of jobs it returns, and the count, the queue, the store and the judges' model it
  leaves are those of draining the board job by job: a processed job is acknowledged, a failed one
  is put back with one attempt more or, at its last attempt, dead-lettered with its error.\<close>

theorem worker_loop_drains_its_board:
  assumes "redis_ok (wk_redis w) view" and "codec_ok (wk_codec w)" and "stands_for (wk_codec w) (view (ws_redis st)) b"
  shows "\<exists>st'. run_worker_loop w worlds None 0 st = Some (Inr (pg_count (drain w worlds (start_of b st))), st') \<and>
    stands_for (wk_codec w) (view (ws_redis st')) (pg_board (drain w worlds (start_of b st))) \<and>
    ws_store st' = pg_store (drain w worlds (start_of b st)) \<and> ws_model st' = pg_model (drain w worlds (start_of b st))"
  using loop_drains [OF assms(1,2), of st "start_of b st" worlds] assms(3) by simp

text \<open>C17: The worker loop ends: whatever the jobs do, it returns after at most as many iterations as the
  waiting jobs have attempts left, and leaves no job waiting.\<close>

theorem worker_loop_terminates:
  assumes "redis_ok (wk_redis w) view" and "codec_ok (wk_codec w)" and "stands_for (wk_codec w) (view (ws_redis st)) b"
  shows "\<exists>n st' b'. run_worker_loop w worlds None 0 st = Some (Inr n, st') \<and>
    n \<le> sum_list (map (\<lambda>job. nat (wk_max_attempts w - job_attempt job) + 1) (jb_waiting b)) \<and>
    stands_for (wk_codec w) (view (ws_redis st')) b' \<and> jb_waiting b' = [] \<and> jb_claimed b' = jb_claimed b"
proof -
  let ?d = "drain w worlds (start_of b st)"
  have "pg_count ?d \<le> work_left (wk_max_attempts w) b" "jb_waiting (pg_board ?d) = []" "jb_claimed (pg_board ?d) = jb_claimed b"
    using drain_result [of w worlds "start_of b st"] by simp_all
  moreover have "work_left (wk_max_attempts w) b =
      sum_list (map (\<lambda>job. nat (wk_max_attempts w - job_attempt job) + 1) (jb_waiting b))"
    by (simp add: work_left_def attempts_left_def [abs_def])
  moreover obtain st' where "run_worker_loop w worlds None 0 st = Some (Inr (pg_count ?d), st')"
      "stands_for (wk_codec w) (view (ws_redis st')) (pg_board ?d)"
    using loop_drains [OF assms(1,2), of st "start_of b st" worlds] assms(3) by auto
  ultimately show ?thesis by (intro exI [of _ "pg_count ?d"] exI [of _ st'] exI [of _ "pg_board ?d"]) simp
qed

text \<open>C16: The worker loses no job: after the loop every job that was waiting is either among those whose
  processing succeeded or dead-lettered, each exactly as often as it was there, and a job is only
  dead-lettered at its last attempt; earlier dead letters stay.\<close>

theorem worker_loses_no_job:
  assumes "redis_ok (wk_redis w) view" and "codec_ok (wk_codec w)" and "stands_for (wk_codec w) (view (ws_redis st)) b"
  shows "\<exists>n st' b' given_up. run_worker_loop w worlds None 0 st = Some (Inr n, st') \<and>
    stands_for (wk_codec w) (view (ws_redis st')) b' \<and> jb_dead b' = jb_dead b @ given_up \<and>
    mset (map identity (pg_finished (drain w worlds (start_of b st)))) + mset (map (identity \<circ> fst) given_up)
      = mset (map identity (jb_waiting b)) \<and>
    list_all (\<lambda>(job, error). wk_max_attempts w \<le> job_attempt job) given_up"
proof -
  let ?d = "drain w worlds (start_of b st)"
  obtain given_up where g: "jb_dead (pg_board ?d) = jb_dead b @ given_up"
      "list_all (\<lambda>(job, error). wk_max_attempts w \<le> job_attempt job) given_up"
    using drain_dead [of w worlds "start_of b st"] by auto
  have "all_jobs ?d = all_jobs (start_of b st)" "jb_waiting (pg_board ?d) = []"
    using drain_result [of w worlds "start_of b st"] by simp_all
  then have "mset (map identity (pg_finished ?d)) + mset (map (identity \<circ> fst) given_up) = mset (map identity (jb_waiting b))"
    using g(1) by (simp add: all_jobs_def)
  moreover obtain st' where "run_worker_loop w worlds None 0 st = Some (Inr (pg_count ?d), st')"
      "stands_for (wk_codec w) (view (ws_redis st')) (pg_board ?d)"
    using loop_drains [OF assms(1,2), of st "start_of b st" worlds] assms(3) by auto
  ultimately show ?thesis using g by blast
qed

lemma fresh_board_is_drained:
  assumes "redis_ok (wk_redis w) view" and "codec_ok (wk_codec w)" and "stands_for (wk_codec w) (view (ws_redis st)) b"
    and "wk_ops w = platform_ops" and "wk_judging w = None" and "store_ok sha256 (ws_store st)"
    and "list_all (fresh_job platform_ops (wk_registry w) (ws_store st)) (jb_waiting b)"
    and "distinct (map job_execution_id (jb_waiting b))"
  shows "\<exists>n st' b'. run_worker_loop w worlds None 0 st = Some (Inr n, st') \<and>
    stands_for (wk_codec w) (view (ws_redis st')) b' \<and> jb_waiting b' = [] \<and> jb_dead b' = jb_dead b \<and>
    store_ok sha256 (ws_store st') \<and>
    (\<forall>i<length (jb_waiting b). done_job platform_ops (\<lambda>p. p) (wk_registry w) (wk_ask w) (worlds i)
       (ws_store st) (ws_store st') (jb_waiting b ! i))"
proof -
  let ?p = "start_of b st" and ?d = "drain w worlds (start_of b st)"
  have d: "jb_dead (pg_board ?d) = jb_dead b" "store_ok sha256 (pg_store ?d)"
      "\<forall>i<length (jb_waiting b). done_job platform_ops (\<lambda>p. p) (wk_registry w) (wk_ask w) (worlds i)
        (ws_store st) (pg_store ?d) (jb_waiting b ! i)"
    using platform_evidence.drain_fresh [of w sha256 ?p worlds] assms(4-8) by simp_all
  have "jb_waiting (pg_board ?d) = []" using drain_result [of w worlds ?p] by blast
  moreover obtain st' where "run_worker_loop w worlds None 0 st = Some (Inr (pg_count ?d), st')"
      "stands_for (wk_codec w) (view (ws_redis st')) (pg_board ?d)" "ws_store st' = pg_store ?d"
    using loop_drains [OF assms(1,2), of st ?p worlds] assms(3) by auto
  ultimately show ?thesis using d by (intro exI [of _ "pg_count ?d"] exI [of _ st'] exI [of _ "pg_board ?d"]) simp
qed

lemma fresh_board_is_served:
  assumes "redis_ok (wk_redis w) view" and "codec_ok (wk_codec w)"
    and "stands_for (wk_codec w) ((view (ws_redis st))\<lparr>qv_group := True\<rparr>) b"
    and "wk_ops w = platform_ops" and "wk_judging w = None" and "store_ok sha256 (ws_store st)"
    and "list_all (fresh_job platform_ops (wk_registry w) (ws_store st)) (jb_waiting b)"
    and "distinct (map job_execution_id (jb_waiting b))" and "length (jb_waiting b) \<le> fuel"
  shows "\<exists>st' b'. serve_forever w worlds fuel st = (Inr (), st') \<and>
    stands_for (wk_codec w) (view (ws_redis st')) b' \<and> jb_waiting b' = [] \<and> jb_dead b' = jb_dead b \<and>
    store_ok sha256 (ws_store st') \<and>
    (\<forall>i<length (jb_waiting b). done_job platform_ops (\<lambda>p. p) (wk_registry w) (wk_ask w) (worlds i)
       (ws_store st) (ws_store st') (jb_waiting b ! i))"
proof -
  obtain q where q: "ensure_group (wk_redis w) (ws_redis st) = (Inr (), q)" "view q = (view (ws_redis st))\<lparr>qv_group := True\<rparr>"
    using ensure_group_implements [OF assms(1)] by blast
  let ?st = "st\<lparr>ws_redis := q\<rparr>"
  let ?p = "start_of b ?st" and ?d = "drain w worlds (start_of b ?st)"
  have d: "jb_dead (pg_board ?d) = jb_dead b" "store_ok sha256 (pg_store ?d)" "pg_count ?d = length (jb_waiting b)"
      "\<forall>i<length (jb_waiting b). done_job platform_ops (\<lambda>p. p) (wk_registry w) (wk_ask w) (worlds i)
        (ws_store st) (pg_store ?d) (jb_waiting b ! i)"
    using platform_evidence.drain_fresh [of w sha256 ?p worlds] assms(4-8) by simp_all
  have "jb_waiting (pg_board ?d) = []" using drain_result [of w worlds ?p] by blast
  moreover obtain st' where "serve w worlds 0 fuel ?st = (Inr (), st')"
      "stands_for (wk_codec w) (view (ws_redis st')) (pg_board ?d)" "ws_store st' = pg_store ?d"
    using serve_drains [OF assms(1,2), of ?st ?p worlds fuel] assms(3,9) q(2) d(3) by auto
  ultimately show ?thesis using d(1,2,4) q(1) by (intro exI [of _ st'] exI [of _ "pg_board ?d"]) (simp add: serve_forever_def)
qed

text \<open>Work gets done: when each waiting job is for an execution of its own that exists in the
  platform's store, has no trace and is not finished, with its task and agent version known, the
  loop takes each job once, dead-letters none, and leaves every execution with the complete
  redacted trace of its run and the result the contract scored.\<close>

theorem fresh_jobs_are_done:
  assumes "redis_ok (wk_redis w) view" and "codec_ok (wk_codec w)" and "stands_for (wk_codec w) (view (ws_redis st)) b"
    and "wk_ops w = platform_ops" and "wk_judging w = None" and "store_ok sha256 (ws_store st)"
    and "list_all (fresh_job platform_ops (wk_registry w) (ws_store st)) (jb_waiting b)"
    and "distinct (map job_execution_id (jb_waiting b))"
  shows "\<exists>n st' b'. run_worker_loop w worlds None 0 st = Some (Inr n, st') \<and>
    stands_for (wk_codec w) (view (ws_redis st')) b' \<and> jb_waiting b' = [] \<and> jb_dead b' = jb_dead b \<and>
    store_ok sha256 (ws_store st') \<and>
    (\<forall>i<length (jb_waiting b). done_job platform_ops (\<lambda>p. p) (wk_registry w) (wk_ask w) (worlds i)
       (ws_store st) (ws_store st') (jb_waiting b ! i))"
  by (rule fresh_board_is_drained [OF assms])

text \<open>C38: A job whose execution already holds the start of a trace can never be processed: the worker
  re-runs the agent, storing its first event conflicts with the one there, and nothing is stored.
  So a job that failed after its trace was stored fails in the same way at each further attempt.\<close>

theorem redelivered_job_always_conflicts:
  assumes "store_ok sha256 s" and "map_of registry (job_task_id job) = Some task" and "runnable task"
    and "get_agent_version (job_agent_version_id job) s = Inr version"
    and "get_trace (job_execution_id job) s = Inr old" and "0 \<in> set (map ev_sequence_no old)"
  shows "process_job platform_ops registry world job ask None judging (s, m) =
    (Inl (http_error 409 ''duplicate trace sequence number''), s, m)"
proof -
  have "so_get_agent_version platform_ops (job_agent_version_id job) s = Inr version"
    "so_get_trace platform_ops (job_execution_id job) s = Inr old"
    using assms(4,5) by (simp_all add: platform_ops_def)
  from platform_evidence.process_again [OF assms(1-3) this assms(6)] show ?thesis .
qed

text \<open>A message that is no job stops the worker: the exception of \<open>claim\<close> is raised outside the
  handler of job failures and ends \<open>serve_forever\<close>; no job behind it is processed, and the message
  itself stays delivered without being dead-lettered.\<close>

theorem unreadable_message_stops_the_worker:
  assumes "redis_ok (wk_redis w) view" and "qv_new (view (ws_redis st)) = msg # ms"
    and "read_message (wk_codec w) msg = Inl e" and "fst msg \<notin> fst ` set ms"
  shows "\<exists>st'. serve_forever w worlds (Suc fuel) st = (Inl e, st') \<and> ws_store st' = ws_store st \<and>
    msg \<in> set (qv_pending (view (ws_redis st'))) \<and> msg \<notin> set (qv_new (view (ws_redis st'))) \<and>
    qv_dead (view (ws_redis st')) = qv_dead (view (ws_redis st))"
proof -
  obtain q where q: "ensure_group (wk_redis w) (ws_redis st) = (Inr (), q)"
      "view q = (view (ws_redis st))\<lparr>qv_group := True\<rparr>"
    using ensure_group_implements [OF assms(1)] by blast
  have rd: "read_ok (wk_redis w) view" using assms(1) by (simp add: redis_ok_def)
  obtain q' where "claim (wk_redis w) (wk_codec w) (wk_consumer w) (wk_block_ms w) q = (Inl e, q')"
      "msg \<in> set (qv_pending (view q'))" "msg \<notin> set (qv_new (view q'))" "qv_dead (view q') = qv_dead (view (ws_redis st))"
    using unreadable_message_is_stranded [OF rd, of q msg ms "wk_codec w" e "wk_consumer w" "wk_block_ms w"] q(2) assms(2-4)
    by auto
  then show ?thesis using q(1) by (simp add: serve_forever_def claim_and_process_one_def)
qed

section \<open>Examples\<close>

definition job_store :: platform_store where
  "job_store =
     \<lparr>ps_agent_versions = [(UUID 3, agent_version_create.extend sample_version_create
        \<lparr>av_id = UUID 3, av_content_hash = compute_agent_version_content_hash (\<lambda>s. s) ''m'' ''help'' ''0000000'' [],
         av_created_at = 0\<rparr>)],
      ps_runs = [(UUID 10, \<lparr>run_agent_version_id = UUID 3, run_suite_id = ''s'', run_suite_version = ''1'',
        run_suite_manifest_hash = ''0000000'', run_seed = 0, run_id = UUID 10, run_status_of = RUN_QUEUED,
        run_created_at = 0, run_finished_at = None\<rparr>)],
      ps_executions = [(UUID 7, \<lparr>ex_task_id = ''t'', ex_task_seed = 0, ex_id = UUID 7, ex_run_id = UUID 10,
        ex_status = PENDING, ex_passed = None, ex_final_output = None, ex_latency_ms = None, ex_input_tokens = None,
        ex_output_tokens = None, ex_estimated_cost_usd = None, ex_missing_expected_actions = [],
        ex_forbidden_actions_seen = [], ex_final_state_mismatches = [], ex_created_at = 0, ex_finished_at = None\<rparr>)],
      ps_events = (\<lambda>u. []), ps_verdicts = (\<lambda>u. [])\<rparr>"

lemma job_store_ok: "store_ok (\<lambda>s. s) job_store"
  by (simp add: store_ok_def job_store_def keyed_by_def hash_ok_def execution_ok_def sample_version_create_def
      agent_version_create.defs events_ok_def)

definition sample_worker :: "(platform_store, memory, reference_client, unit) worker" where
  "sample_worker =
     \<lparr>wk_ops = platform_ops, wk_redis = memory_redis, wk_codec = sample_codec, wk_max_attempts = DEFAULT_MAX_ATTEMPTS,
      wk_registry = task_registry_from [sample_task], wk_consumer = ''w'', wk_block_ms = 1000,
      wk_ask = reference_complete, wk_judging = None\<rparr>"

definition sample_world :: job_world where
  "sample_world = \<lparr>jw_runtime = sample_runtime, jw_now = int, jw_verdict_id = UUID\<rparr>"

definition one_job :: "(platform_store, memory, unit) worker_state" where
  "one_job = \<lparr>ws_store = job_store,
     ws_redis = empty_memory\<lparr>mem_new := [(''1-0'', job_fields sample_codec sample_job)]\<rparr>, ws_model = ()\<rparr>"

definition one_waiting :: job_board where
  "one_waiting = \<lparr>jb_waiting = [sample_job], jb_claimed = [], jb_dead = []\<rparr>"

lemma one_job_stands:
  "redis_ok (wk_redis sample_worker) memory_view" "codec_ok (wk_codec sample_worker)"
  "stands_for (wk_codec sample_worker) (memory_view (ws_redis one_job)) one_waiting"
  using memory_redis_ok sample_codec_ok sample_job_ok
  by (simp_all add: sample_worker_def one_job_def one_waiting_def stands_for_def memory_view_def empty_memory_def)

lemma runnable_sample: "runnable sample_task"
  by code_simp

lemma sample_job_fresh:
  "list_all (fresh_job platform_ops (wk_registry sample_worker) (ws_store one_job)) (jb_waiting one_waiting)"
proof -
  have "map_of (wk_registry sample_worker) (job_task_id sample_job) = Some sample_task"
    by (simp add: sample_worker_def task_registry_from_def sample_task_def sample_job_def)
  then show ?thesis using runnable_sample
    by (simp add: one_waiting_def one_job_def fresh_job_def sample_job_def platform_ops_def get_agent_version_def
        get_execution_def get_trace_def lookup_or_404_def job_store_def)
qed

theorem worker_loop_drains_its_board_witness:
  "\<exists>st'. run_worker_loop sample_worker (\<lambda>_. sample_world) None 0 one_job =
     Some (Inr (pg_count (drain sample_worker (\<lambda>_. sample_world) (start_of one_waiting one_job))), st')"
  using worker_loop_drains_its_board [OF one_job_stands, of "\<lambda>_. sample_world"] by blast

theorem worker_loop_terminates_witness:
  "\<exists>n st'. run_worker_loop sample_worker (\<lambda>_. sample_world) None 0 one_job = Some (Inr n, st') \<and> n \<le> 3"
proof -
  have "sum_list (map (\<lambda>job. nat (wk_max_attempts sample_worker - job_attempt job) + 1) (jb_waiting one_waiting)) = 3"
    by (simp add: sample_worker_def one_waiting_def sample_job_def DEFAULT_MAX_ATTEMPTS_def)
  then show ?thesis using worker_loop_terminates [OF one_job_stands, of "\<lambda>_. sample_world"] by auto
qed

theorem worker_loses_no_job_witness:
  "\<exists>n st'. run_worker_loop sample_worker (\<lambda>_. sample_world) None 0 one_job = Some (Inr n, st')"
  using worker_loses_no_job [OF one_job_stands, of "\<lambda>_. sample_world"] by blast

theorem fresh_jobs_are_done_witness:
  "\<exists>n st' b'. run_worker_loop sample_worker (\<lambda>_. sample_world) None 0 one_job = Some (Inr n, st') \<and>
     stands_for sample_codec (memory_view (ws_redis st')) b' \<and> jb_waiting b' = [] \<and> jb_dead b' = [] \<and>
     done_job platform_ops (\<lambda>p. p) (wk_registry sample_worker) reference_complete sample_world job_store (ws_store st') sample_job"
proof -
  have w: "wk_ops sample_worker = platform_ops" "wk_judging sample_worker = None" "wk_codec sample_worker = sample_codec"
    "wk_ask sample_worker = reference_complete" by (simp_all add: sample_worker_def)
  have s: "ws_store one_job = job_store" "store_ok (\<lambda>s. s) (ws_store one_job)" using job_store_ok by (simp_all add: one_job_def)
  have b: "jb_waiting one_waiting = [sample_job]" "jb_dead one_waiting = []" by (simp_all add: one_waiting_def)
  have d: "distinct (map job_execution_id (jb_waiting one_waiting))" by (simp add: b)
  from fresh_jobs_are_done [OF one_job_stands w(1,2) s(2) sample_job_fresh d, of "\<lambda>_. sample_world"]
  show ?thesis unfolding w s(1) b by auto
qed


definition first_event :: trace_event where
  "first_event = stored_event (UUID 7) 3
     \<lparr>ev_id = UUID 30, ev_sequence_no = 0, ev_event_type = FINAL_ANSWER, ev_payload = [(''content'', PStr ''ok'')],
      ev_parent_event_id = None, ev_duration_ms = None\<rparr>"

definition started_store :: platform_store where
  "started_store = job_store\<lparr>ps_events := (\<lambda>u. if u = UUID 7 then [first_event] else [])\<rparr>"

lemma started_store_ok: "store_ok (\<lambda>s. s) started_store"
proof -
  have "no_sensitive (PDict (ev_payload first_event))" by code_simp
  moreover have "ev_execution_id first_event = UUID 7" "0 \<le> ev_sequence_no first_event" by (simp_all add: first_event_def)
  ultimately have "events_ok (UUID 7) [first_event]" by (simp add: events_ok_def del: no_sensitive.simps)
  then show ?thesis using job_store_ok
    by (auto simp: store_ok_def started_store_def job_store_def keyed_by_def)
qed

theorem redelivered_job_always_conflicts_witness:
  "process_job platform_ops (task_registry_from [sample_task]) sample_world sample_job reference_complete None
     (None :: unit judging option) (started_store, ()) =
   (Inl (http_error 409 ''duplicate trace sequence number''), started_store, ())"
proof -
  have a: "map_of (task_registry_from [sample_task]) (job_task_id sample_job) = Some sample_task"
    by (simp add: task_registry_from_def sample_task_def sample_job_def)
  obtain version where b: "get_agent_version (job_agent_version_id sample_job) started_store = Inr version"
    by (simp add: get_agent_version_def lookup_or_404_def started_store_def job_store_def sample_job_def)
  have c: "get_trace (job_execution_id sample_job) started_store = Inr [first_event]"
    by (simp add: get_trace_def get_execution_def lookup_or_404_def started_store_def job_store_def sample_job_def)
  have d: "0 \<in> set (map ev_sequence_no [first_event])" by (simp add: first_event_def)
  show ?thesis by (rule redelivered_job_always_conflicts [OF started_store_ok a runnable_sample b c d])
qed

theorem unreadable_message_stops_the_worker_witness:
  "\<exists>e st'. serve_forever sample_worker (\<lambda>_. sample_world) 5
      (one_job\<lparr>ws_redis := empty_memory\<lparr>mem_new := [(''1-0'', [(''payload'', ''{'')]), (''2-0'', job_fields sample_codec sample_job)]\<rparr>\<rparr>)
     = (Inl e, st') \<and> ws_store st' = job_store"
proof -
  let ?m = "(''1-0'', [(''payload'', ''{'')])" and ?ms = "[(''2-0'', job_fields sample_codec sample_job)]"
  let ?st = "one_job\<lparr>ws_redis := empty_memory\<lparr>mem_new := ?m # ?ms\<rparr>\<rparr>"
  have bad: "read_message (wk_codec sample_worker) ?m = Inl (Raise ValueError ''Expecting value'')"
    by (simp add: sample_worker_def) code_simp
  have new: "qv_new (memory_view (ws_redis ?st)) = ?m # ?ms" by (simp add: memory_view_def)
  have "fst ?m \<notin> fst ` set ?ms" by simp
  from unreadable_message_stops_the_worker [OF one_job_stands(1) new bad this, of "\<lambda>_. sample_world" 4]
  show ?thesis by (simp add: one_job_def) blast
qed

end
