(* ===== verification/PostgresStore.thy ===== *)
theory PostgresStore
  imports Store
begin

text \<open>
  \<open>backend/app/postgres_store.py\<close> over the tables and constraints of \<open>backend/app/models.py\<close>: one
  session per operation. A table is its rows in physical order. The database is a parameter: what
  a commit does to the tables or raises, the order \<open>JSONB\<close> gives the keys of an object, and the
  order of rows where a query has no \<open>ORDER BY\<close>; that commits enforce the declared columns and
  constraints is the named hypothesis \<open>commits_ok\<close>. Other sessions act between the reads of an
  operation and its commit: that is the argument \<open>meanwhile\<close> of the two operations that read before
  they write.
\<close>

section \<open>The database\<close>

record database =
  db_versions :: "agent_version list"
  db_runs :: "evaluation_run list"
  db_executions :: "task_execution list"
  db_events :: "trace_event list"
  db_verdicts :: "judge_verdict list"

record pg =
  pg_jsonb :: "pydict \<Rightarrow> pydict"
  pg_scan_executions :: "task_execution list \<Rightarrow> task_execution list"
  pg_scan_verdicts :: "judge_verdict list \<Rightarrow> judge_verdict list"
  pg_commit_version :: "agent_version \<Rightarrow> database \<Rightarrow> (exc, database) res"
  pg_commit_run :: "evaluation_run \<Rightarrow> database \<Rightarrow> (exc, database) res"
  pg_commit_execution :: "task_execution \<Rightarrow> database \<Rightarrow> (exc, database) res"
  pg_commit_update :: "task_execution \<Rightarrow> task_execution \<Rightarrow> database \<Rightarrow> (exc, database) res"
  pg_commit_event :: "trace_event \<Rightarrow> database \<Rightarrow> (exc, database) res"
  pg_commit_verdict :: "judge_verdict \<Rightarrow> database \<Rightarrow> (exc, database) res"

text \<open>An \<open>INTEGER\<close> column holds 32 bits; the driver raises on a number outside them.\<close>

definition int4 :: "int \<Rightarrow> bool" where
  "int4 i \<longleftrightarrow> - (2 ^ 31) \<le> i \<and> i < 2 ^ 31"

definition int4_option :: "int option \<Rightarrow> bool" where
  "int4_option v = (case v of None \<Rightarrow> True | Some i \<Rightarrow> int4 i)"

definition out_of_range :: exc where
  "out_of_range = Raise DBAPIError ''value out of int32 range''"

definition violates :: "string \<Rightarrow> exc" where
  "violates constraint = Raise IntegrityError constraint"

text \<open>
  What the commit of a new row does under the declared columns, keys and constraints: one is violated
  or the table has the row.
\<close>

definition insert_version :: "pg \<Rightarrow> agent_version \<Rightarrow> database \<Rightarrow> (exc, database) res" where
  "insert_version pg row db =
     (if list_ex (\<lambda>r. av_id r = av_id row) (db_versions db) then Inl (violates ''agent_versions_pkey'')
      else if list_ex (\<lambda>r. av_content_hash r = av_content_hash row) (db_versions db)
      then Inl (violates ''uq_agent_versions_content_hash'')
      else Inr (db\<lparr>db_versions := db_versions db @ [row\<lparr>av_config := pg_jsonb pg (av_config row)\<rparr>]\<rparr>))"

definition insert_run :: "evaluation_run \<Rightarrow> database \<Rightarrow> (exc, database) res" where
  "insert_run row db =
     (if \<not> int4 (run_seed row) then Inl out_of_range
      else if list_ex (\<lambda>r. run_id r = run_id row) (db_runs db) then Inl (violates ''evaluation_runs_pkey'')
      else if \<not> list_ex (\<lambda>r. av_id r = run_agent_version_id row) (db_versions db)
      then Inl (violates ''evaluation_runs_agent_version_id_fkey'')
      else Inr (db\<lparr>db_runs := db_runs db @ [row]\<rparr>))"

definition insert_execution :: "task_execution \<Rightarrow> database \<Rightarrow> (exc, database) res" where
  "insert_execution row db =
     (if \<not> int4 (ex_task_seed row) then Inl out_of_range
      else if list_ex (\<lambda>r. ex_id r = ex_id row) (db_executions db) then Inl (violates ''task_executions_pkey'')
      else if \<not> list_ex (\<lambda>r. run_id r = ex_run_id row) (db_runs db)
      then Inl (violates ''task_executions_run_id_fkey'')
      else Inr (db\<lparr>db_executions := db_executions db @ [row]\<rparr>))"

definition insert_event :: "pg \<Rightarrow> trace_event \<Rightarrow> database \<Rightarrow> (exc, database) res" where
  "insert_event pg row db =
     (if \<not> int4 (ev_sequence_no row) \<or> \<not> int4_option (ev_duration_ms row) then Inl out_of_range
      else if list_ex (\<lambda>r. ev_id r = ev_id row) (db_events db) then Inl (violates ''trace_events_pkey'')
      else if list_ex (\<lambda>r. ev_execution_id r = ev_execution_id row \<and> ev_sequence_no r = ev_sequence_no row) (db_events db)
      then Inl (violates ''uq_trace_events_execution_sequence'')
      else if \<not> list_ex (\<lambda>r. ex_id r = ev_execution_id row) (db_executions db)
      then Inl (violates ''trace_events_execution_id_fkey'')
      else Inr (db\<lparr>db_events := db_events db @ [row\<lparr>ev_payload := pg_jsonb pg (ev_payload row)\<rparr>]\<rparr>))"

definition insert_verdict :: "judge_verdict \<Rightarrow> database \<Rightarrow> (exc, database) res" where
  "insert_verdict row db =
     (if list_ex (\<lambda>r. jv_id r = jv_id row) (db_verdicts db) then Inl (violates ''judge_verdicts_pkey'')
      else if \<not> list_ex (\<lambda>r. ex_id r = jv_execution_id row) (db_executions db)
      then Inl (violates ''judge_verdicts_execution_id_fkey'')
      else Inr (db\<lparr>db_verdicts := db_verdicts db @ [row]\<rparr>))"

text \<open>
  The commit of a changed row writes the columns whose value differs from the one that was read;
  the others keep what the table has by then.
\<close>

definition column :: "'a \<Rightarrow> 'a \<Rightarrow> 'a \<Rightarrow> 'a" where
  "column loaded new current = (if new = loaded then current else new)"

definition write_columns :: "task_execution \<Rightarrow> task_execution \<Rightarrow> task_execution \<Rightarrow> task_execution" where
  "write_columns loaded new current =
     current\<lparr>ex_status := column (ex_status loaded) (ex_status new) (ex_status current),
       ex_passed := column (ex_passed loaded) (ex_passed new) (ex_passed current),
       ex_final_output := column (ex_final_output loaded) (ex_final_output new) (ex_final_output current),
       ex_latency_ms := column (ex_latency_ms loaded) (ex_latency_ms new) (ex_latency_ms current),
       ex_input_tokens := column (ex_input_tokens loaded) (ex_input_tokens new) (ex_input_tokens current),
       ex_output_tokens := column (ex_output_tokens loaded) (ex_output_tokens new) (ex_output_tokens current),
       ex_estimated_cost_usd := column (ex_estimated_cost_usd loaded) (ex_estimated_cost_usd new) (ex_estimated_cost_usd current),
       ex_missing_expected_actions := column (ex_missing_expected_actions loaded) (ex_missing_expected_actions new) (ex_missing_expected_actions current),
       ex_forbidden_actions_seen := column (ex_forbidden_actions_seen loaded) (ex_forbidden_actions_seen new) (ex_forbidden_actions_seen current),
       ex_final_state_mismatches := column (ex_final_state_mismatches loaded) (ex_final_state_mismatches new) (ex_final_state_mismatches current),
       ex_finished_at := column (ex_finished_at loaded) (ex_finished_at new) (ex_finished_at current)\<rparr>"

definition update_execution :: "task_execution \<Rightarrow> task_execution \<Rightarrow> database \<Rightarrow> (exc, database) res" where
  "update_execution loaded new db =
     (if \<not> int4_option (ex_latency_ms new) \<or> \<not> int4_option (ex_input_tokens new) \<or> \<not> int4_option (ex_output_tokens new)
      then Inl out_of_range
      else Inr (db\<lparr>db_executions := map (\<lambda>r. if ex_id r = ex_id loaded then write_columns loaded new r else r) (db_executions db)\<rparr>))"

definition commits_ok :: "pg \<Rightarrow> bool" where
  "commits_ok pg \<longleftrightarrow>
     pg_commit_version pg = insert_version pg \<and> pg_commit_run pg = insert_run \<and>
     pg_commit_execution pg = insert_execution \<and> pg_commit_update pg = update_execution \<and>
     pg_commit_event pg = insert_event pg \<and> pg_commit_verdict pg = insert_verdict"

lemma commits:
  assumes "commits_ok pg"
  shows "pg_commit_version pg = insert_version pg" "pg_commit_run pg = insert_run"
    "pg_commit_execution pg = insert_execution" "pg_commit_update pg = update_execution"
    "pg_commit_event pg = insert_event pg" "pg_commit_verdict pg = insert_verdict"
  using assms by (simp_all add: commits_ok_def)

text \<open>\<open>session.add(row); await session.commit(); return Model.model_validate(row)\<close>.\<close>

definition commit_new :: "(exc, database) res \<Rightarrow> (exc, 'a) res \<Rightarrow> database \<Rightarrow> (exc, 'a) res \<times> database" where
  "commit_new commit validated_row db = (case commit of Inl e \<Rightarrow> (Inl e, db) | Inr db \<Rightarrow> (validated_row, db))"

definition row_or_404 :: "('a \<Rightarrow> bool) \<Rightarrow> 'a list \<Rightarrow> string \<Rightarrow> (exc, 'a) res" where
  "row_or_404 matches rows detail = (case List.find matches rows of None \<Rightarrow> Inl (http_error 404 detail) | Some row \<Rightarrow> Inr row)"

section \<open>The operations\<close>

definition pg_create_agent_version ::
  "pg \<Rightarrow> (string \<Rightarrow> string) \<Rightarrow> uuid \<Rightarrow> datetime \<Rightarrow> (database \<Rightarrow> database) \<Rightarrow> agent_version_create \<Rightarrow> database
     \<Rightarrow> (exc, agent_version) res \<times> database" where
  "pg_create_agent_version pg sha256 new_id now meanwhile payload db =
     (let content_hash = compute_agent_version_content_hash sha256 (av_model payload)
            (av_system_prompt payload) (av_tool_schema_hash payload) (av_config payload);
          same = (\<lambda>row. av_content_hash row = content_hash) in
      case List.find same (db_versions db) of
        Some existing_row \<Rightarrow> (AgentVersionCreate existing_row, db)
      | None \<Rightarrow>
          let db = meanwhile db;
              row = agent_version_create.extend payload \<lparr>av_id = new_id, av_content_hash = content_hash, av_created_at = now\<rparr> in
          (case pg_commit_version pg row db of
             Inl e \<Rightarrow>
               if exc_of e = IntegrityError
               then
                 (case List.find same (db_versions db) of
                    None \<Rightarrow> (Inl (Raise NoResultFound ''No row was found when one was required''), db)
                  | Some result \<Rightarrow> (AgentVersionCreate result, db))
               else (Inl e, db)
           | Inr db \<Rightarrow> (AgentVersionCreate row, db)))"

definition pg_get_agent_version :: "uuid \<Rightarrow> database \<Rightarrow> (exc, agent_version) res" where
  "pg_get_agent_version agent_version_id db =
     bind_res (row_or_404 (\<lambda>r. av_id r = agent_version_id) (db_versions db) ''agent version not found'') AgentVersionCreate"

definition pg_create_run ::
  "pg \<Rightarrow> uuid \<Rightarrow> datetime \<Rightarrow> evaluation_run_create \<Rightarrow> database \<Rightarrow> (exc, evaluation_run) res \<times> database" where
  "pg_create_run pg new_id now payload db =
     (case row_or_404 (\<lambda>r. av_id r = run_agent_version_id payload) (db_versions db) ''agent version not found'' of
        Inl e \<Rightarrow> (Inl e, db)
      | Inr _ \<Rightarrow>
          let row = evaluation_run_create.extend payload
            \<lparr>run_id = new_id, run_status_of = RUN_QUEUED, run_created_at = now, run_finished_at = None\<rparr> in
          commit_new (pg_commit_run pg row db) (EvaluationRunCreate row) db)"

definition pg_create_execution ::
  "pg \<Rightarrow> uuid \<Rightarrow> datetime \<Rightarrow> uuid \<Rightarrow> task_execution_create \<Rightarrow> database \<Rightarrow> (exc, task_execution) res \<times> database" where
  "pg_create_execution pg new_id now run payload db =
     (case row_or_404 (\<lambda>r. run_id r = run) (db_runs db) ''evaluation run not found'' of
        Inl e \<Rightarrow> (Inl e, db)
      | Inr _ \<Rightarrow>
          let row = task_execution_create.extend payload
            \<lparr>ex_id = new_id, ex_run_id = run, ex_status = PENDING, ex_passed = None, ex_final_output = None,
             ex_latency_ms = None, ex_input_tokens = None, ex_output_tokens = None, ex_estimated_cost_usd = None,
             ex_missing_expected_actions = [], ex_forbidden_actions_seen = [], ex_final_state_mismatches = [],
             ex_created_at = now, ex_finished_at = None\<rparr> in
          commit_new (pg_commit_execution pg row db) (TaskExecutionCreate row) db)"

definition execution_row :: "uuid \<Rightarrow> database \<Rightarrow> (exc, task_execution) res" where
  "execution_row execution_id db = row_or_404 (\<lambda>r. ex_id r = execution_id) (db_executions db) ''task execution not found''"

definition pg_record_result ::
  "pg \<Rightarrow> datetime \<Rightarrow> (database \<Rightarrow> database) \<Rightarrow> uuid \<Rightarrow> task_execution_result \<Rightarrow> database
     \<Rightarrow> (exc, task_execution) res \<times> database" where
  "pg_record_result pg now meanwhile execution_id payload db =
     (case execution_row execution_id db of
        Inl e \<Rightarrow> (Inl e, db)
      | Inr row \<Rightarrow>
          if ex_status row \<in> {PASSED, FAILED, ERRORED}
          then (Inl (http_error 409 ''execution already finalized''), db)
          else
            let db = meanwhile db in
            commit_new (pg_commit_update pg row (finalized now payload row) db)
              (TaskExecutionCreate (finalized now payload row)) db)"

definition pg_append_trace_event ::
  "pg \<Rightarrow> datetime \<Rightarrow> uuid \<Rightarrow> trace_event_create \<Rightarrow> database \<Rightarrow> (exc, trace_event) res \<times> database" where
  "pg_append_trace_event pg now execution_id payload db =
     (case execution_row execution_id db of
        Inl e \<Rightarrow> (Inl e, db)
      | Inr _ \<Rightarrow>
          let redacted = payload\<lparr>ev_payload := redact_payload (ev_payload payload)\<rparr>;
              row = stored_event execution_id now redacted in
          (case pg_commit_event pg row db of
             Inl e \<Rightarrow>
               if exc_of e = IntegrityError then (Inl (http_error 409 ''duplicate trace sequence number''), db)
               else (Inl e, db)
           | Inr db \<Rightarrow> (TraceEventCreate row, db)))"

definition pg_get_execution :: "uuid \<Rightarrow> database \<Rightarrow> (exc, task_execution) res" where
  "pg_get_execution execution_id db = bind_res (execution_row execution_id db) TaskExecutionCreate"

definition pg_get_run_executions :: "pg \<Rightarrow> uuid \<Rightarrow> database \<Rightarrow> (exc, task_execution list) res" where
  "pg_get_run_executions pg run db =
     bind_res (row_or_404 (\<lambda>r. run_id r = run) (db_runs db) ''evaluation run not found'') (\<lambda>_.
       map_res TaskExecutionCreate (pg_scan_executions pg (filter (\<lambda>r. ex_run_id r = run) (db_executions db))))"

definition pg_get_trace :: "uuid \<Rightarrow> database \<Rightarrow> (exc, trace_event list) res" where
  "pg_get_trace execution_id db =
     bind_res (execution_row execution_id db) (\<lambda>_.
       map_res TraceEventCreate (sort_key ev_sequence_no (filter (\<lambda>r. ev_execution_id r = execution_id) (db_events db))))"

definition pg_append_judge_verdict ::
  "pg \<Rightarrow> uuid \<Rightarrow> datetime \<Rightarrow> uuid \<Rightarrow> judge_verdict_create \<Rightarrow> database \<Rightarrow> (exc, judge_verdict) res \<times> database" where
  "pg_append_judge_verdict pg new_id now execution_id payload db =
     (case execution_row execution_id db of
        Inl e \<Rightarrow> (Inl e, db)
      | Inr _ \<Rightarrow>
          let row = judge_verdict_create.extend payload
            \<lparr>jv_id = new_id, jv_execution_id = execution_id, jv_created_at = now\<rparr> in
          commit_new (pg_commit_verdict pg row db) (JudgeVerdictCreate row) db)"

definition pg_get_judge_verdicts :: "pg \<Rightarrow> uuid \<Rightarrow> database \<Rightarrow> (exc, judge_verdict list) res" where
  "pg_get_judge_verdicts pg execution_id db =
     bind_res (execution_row execution_id db) (\<lambda>_.
       map_res JudgeVerdictCreate (pg_scan_verdicts pg (filter (\<lambda>r. jv_execution_id r = execution_id) (db_verdicts db))))"

section \<open>Requests that write\<close>

datatype request =
    RegisterVersion uuid datetime agent_version_create
  | StartRun uuid datetime evaluation_run_create
  | StartExecution uuid datetime uuid task_execution_create
  | RecordResult datetime uuid task_execution_result
  | AppendEvent datetime uuid trace_event_create
  | AppendVerdict uuid datetime uuid judge_verdict_create

datatype response =
    Version agent_version | Run evaluation_run | Execution task_execution | Event trace_event | Verdict judge_verdict

definition lift_res :: "('a \<Rightarrow> response) \<Rightarrow> 's \<Rightarrow> (exc, 'a \<times> 's) res \<Rightarrow> (exc, response) res \<times> 's" where
  "lift_res wrap st r = (case r of Inl e \<Rightarrow> (Inl e, st) | Inr (x, st') \<Rightarrow> (Inr (wrap x), st'))"

fun serve_platform :: "(string \<Rightarrow> string) \<Rightarrow> request \<Rightarrow> platform_store \<Rightarrow> (exc, response) res \<times> platform_store" where
  "serve_platform sha256 (RegisterVersion new_id now p) st = lift_res Version st (create_agent_version sha256 new_id now p st)"
| "serve_platform sha256 (StartRun new_id now p) st = lift_res Run st (create_run new_id now p st)"
| "serve_platform sha256 (StartExecution new_id now run p) st = lift_res Execution st (create_execution new_id now run p st)"
| "serve_platform sha256 (RecordResult now eid p) st = lift_res Execution st (record_result now eid p st)"
| "serve_platform sha256 (AppendEvent now eid p) st = lift_res Event st (append_trace_event now eid p st)"
| "serve_platform sha256 (AppendVerdict new_id now eid p) st = lift_res Verdict st (append_judge_verdict new_id now eid p st)"

definition wrap_res :: "('a \<Rightarrow> response) \<Rightarrow> (exc, 'a) res \<times> 's \<Rightarrow> (exc, response) res \<times> 's" where
  "wrap_res wrap = (\<lambda>(r, s). (map_sum id wrap r, s))"

fun serve_postgres :: "pg \<Rightarrow> (string \<Rightarrow> string) \<Rightarrow> request \<Rightarrow> database \<Rightarrow> (exc, response) res \<times> database" where
  "serve_postgres pg sha256 (RegisterVersion new_id now p) db =
     wrap_res Version (pg_create_agent_version pg sha256 new_id now (\<lambda>db. db) p db)"
| "serve_postgres pg sha256 (StartRun new_id now p) db = wrap_res Run (pg_create_run pg new_id now p db)"
| "serve_postgres pg sha256 (StartExecution new_id now run p) db = wrap_res Execution (pg_create_execution pg new_id now run p db)"
| "serve_postgres pg sha256 (RecordResult now eid p) db = wrap_res Execution (pg_record_result pg now (\<lambda>db. db) eid p db)"
| "serve_postgres pg sha256 (AppendEvent now eid p) db = wrap_res Event (pg_append_trace_event pg now eid p db)"
| "serve_postgres pg sha256 (AppendVerdict new_id now eid p) db = wrap_res Verdict (pg_append_judge_verdict pg new_id now eid p db)"

text \<open>
  What a handler passes on: a validated payload, with numbers the columns hold and identifiers no
  row has yet.
\<close>

fun admissible :: "request \<Rightarrow> platform_store \<Rightarrow> bool" where
  "admissible (RegisterVersion new_id now p) st \<longleftrightarrow> AgentVersionCreate p = Inr p \<and> new_id \<notin> set (keys (ps_agent_versions st))"
| "admissible (StartRun new_id now p) st \<longleftrightarrow>
     EvaluationRunCreate p = Inr p \<and> new_id \<notin> set (keys (ps_runs st)) \<and> int4 (run_seed p)"
| "admissible (StartExecution new_id now run p) st \<longleftrightarrow>
     TaskExecutionCreate p = Inr p \<and> new_id \<notin> set (keys (ps_executions st)) \<and> int4 (ex_task_seed p)"
| "admissible (RecordResult now eid p) st \<longleftrightarrow>
     TaskExecutionResult p = Inr p \<and> int4 (res_latency_ms p) \<and> int4 (res_input_tokens p) \<and> int4 (res_output_tokens p)"
| "admissible (AppendEvent now eid p) st \<longleftrightarrow>
     TraceEventCreate p = Inr p \<and> int4 (ev_sequence_no p) \<and> int4_option (ev_duration_ms p) \<and>
     (\<forall>x. ev_id p \<notin> ev_id ` set (ps_events st x))"
| "admissible (AppendVerdict new_id now eid p) st \<longleftrightarrow>
     JudgeVerdictCreate p = Inr p \<and> (\<forall>x. new_id \<notin> jv_id ` set (ps_verdicts st x))"

section \<open>The database mirrors a platform store\<close>

definition stored_version :: "pg \<Rightarrow> agent_version \<Rightarrow> agent_version" where
  "stored_version pg v = v\<lparr>av_config := pg_jsonb pg (av_config v)\<rparr>"

definition stored_trace_event :: "pg \<Rightarrow> trace_event \<Rightarrow> trace_event" where
  "stored_trace_event pg e = e\<lparr>ev_payload := pg_jsonb pg (ev_payload e)\<rparr>"

definition rows_valid :: "platform_store \<Rightarrow> bool" where
  "rows_valid st \<longleftrightarrow>
     list_all (\<lambda>v. AgentVersionCreate v = Inr v) (values_of (ps_agent_versions st)) \<and>
     list_all (\<lambda>e. TaskExecutionCreate e = Inr e) (values_of (ps_executions st)) \<and>
     (\<forall>x. list_all (\<lambda>e. TraceEventCreate e = Inr e) (ps_events st x)) \<and>
     (\<forall>x. list_all (\<lambda>j. JudgeVerdictCreate j = Inr j) (ps_verdicts st x))"

definition mirrors :: "pg \<Rightarrow> database \<Rightarrow> platform_store \<Rightarrow> bool" where
  "mirrors pg db st \<longleftrightarrow>
     db_versions db = map (stored_version pg) (values_of (ps_agent_versions st)) \<and>
     db_runs db = values_of (ps_runs st) \<and> db_executions db = values_of (ps_executions st) \<and>
     (\<forall>x. sort_key ev_sequence_no (filter (\<lambda>r. ev_execution_id r = x) (db_events db)) =
        map (stored_trace_event pg) (ps_events st x)) \<and>
     (\<forall>x. filter (\<lambda>r. jv_execution_id r = x) (db_verdicts db) = ps_verdicts st x) \<and> rows_valid st"

lemma stored_version_simps [simp]:
  "av_id (stored_version pg v) = av_id v" "av_content_hash (stored_version pg v) = av_content_hash v"
  by (simp_all add: stored_version_def)

lemma stored_version_valid: "AgentVersionCreate (stored_version pg v) = Inr (stored_version pg v) \<longleftrightarrow> AgentVersionCreate v = Inr v"
  by (simp add: stored_version_def AgentVersionCreate_def validated_Inr)

lemma stored_trace_event_simps [simp]:
  "ev_id (stored_trace_event pg e) = ev_id e" "ev_sequence_no (stored_trace_event pg e) = ev_sequence_no e"
  "ev_execution_id (stored_trace_event pg e) = ev_execution_id e"
  by (simp_all add: stored_trace_event_def)

lemma stored_trace_event_valid [simp]:
  "TraceEventCreate (stored_trace_event pg e) = Inr (stored_trace_event pg e) \<longleftrightarrow> TraceEventCreate e = Inr e"
  by (simp add: stored_trace_event_def TraceEventCreate_def validated_Inr)

lemma list_all_sort_key [simp]: "list_all P (sort_key f xs) \<longleftrightarrow> list_all P xs"
  by (simp add: list_all_iff)

lemma find_values: "keyed_by f d \<Longrightarrow> List.find (\<lambda>r. f r = k) (values_of d) = map_of d k"
  by (induction d) (auto simp: keyed_by_def map_of_eq_None_keys)

lemma find_map: "List.find P (map g xs) = map_option g (List.find (\<lambda>x. P (g x)) xs)"
  by (induction xs) auto

lemma ex_values: "keyed_by f d \<Longrightarrow> list_ex (\<lambda>r. f r = k) (values_of d) \<longleftrightarrow> k \<in> set (keys d)"
  by (force simp: keyed_by_def list_ex_iff list_all_iff)

lemma values_of_dict_set_known:
  "keyed_by f d \<Longrightarrow> map_of d k = Some w \<Longrightarrow> f v = k \<Longrightarrow>
     values_of (dict_set k v d) = map (\<lambda>r. if f r = k then v else r) (values_of d)"
proof (induction d)
  case (Cons p d)
  obtain j u where p: "p = (j, u)" by (cases p)
  have ju: "f u = j" "keyed_by f d" "j \<notin> set (keys d)" using Cons.prems(1) p by (auto simp: keyed_by_def)
  show ?case
  proof (cases "j = k")
    case True
    have "map (\<lambda>r. if f r = k then v else r) (values_of d) = values_of d"
      using ju(2,3) True by (intro map_idI) (auto simp: keyed_by_def list_all_iff rev_image_eqI)
    then show ?thesis using p ju True by simp
  next
    case False
    then show ?thesis using p ju Cons by simp
  qed
qed (simp add: keyed_by_def)

lemma mirrored_version:
  assumes "store_ok sha256 st" and "mirrors pg db st"
  shows "row_or_404 (\<lambda>r. av_id r = k) (db_versions db) detail = map_sum id (stored_version pg) (lookup_or_404 (ps_agent_versions st) k detail)"
    and "list_ex (\<lambda>r. av_id r = k) (db_versions db) \<longleftrightarrow> k \<in> set (keys (ps_agent_versions st))"
proof -
  have k: "keyed_by av_id (ps_agent_versions st)" and d: "db_versions db = map (stored_version pg) (values_of (ps_agent_versions st))"
    using assms by (simp_all add: store_ok_def mirrors_def)
  show "row_or_404 (\<lambda>r. av_id r = k) (db_versions db) detail = map_sum id (stored_version pg) (lookup_or_404 (ps_agent_versions st) k detail)"
    using find_values [OF k, of k] unfolding d
    by (simp add: row_or_404_def lookup_or_404_def find_map del: map_map split: option.splits)
  show "list_ex (\<lambda>r. av_id r = k) (db_versions db) \<longleftrightarrow> k \<in> set (keys (ps_agent_versions st))"
    using ex_values [OF k, of k] unfolding d by (simp add: list_ex_iff)
qed

lemma mirrored_run:
  assumes "store_ok sha256 st" and "mirrors pg db st"
  shows "row_or_404 (\<lambda>r. run_id r = k) (db_runs db) detail = lookup_or_404 (ps_runs st) k detail"
    and "list_ex (\<lambda>r. run_id r = k) (db_runs db) \<longleftrightarrow> k \<in> set (keys (ps_runs st))"
proof -
  have k: "keyed_by run_id (ps_runs st)" and d: "db_runs db = values_of (ps_runs st)"
    using assms by (simp_all add: store_ok_def mirrors_def)
  show "row_or_404 (\<lambda>r. run_id r = k) (db_runs db) detail = lookup_or_404 (ps_runs st) k detail"
    using find_values [OF k, of k] unfolding d by (simp add: row_or_404_def lookup_or_404_def)
  show "list_ex (\<lambda>r. run_id r = k) (db_runs db) \<longleftrightarrow> k \<in> set (keys (ps_runs st))"
    using ex_values [OF k, of k] unfolding d .
qed

lemma mirrored_execution:
  assumes "store_ok sha256 st" and "mirrors pg db st"
  shows "execution_row k db = get_execution k st"
    and "list_ex (\<lambda>r. ex_id r = k) (db_executions db) \<longleftrightarrow> k \<in> set (keys (ps_executions st))"
proof -
  have k: "keyed_by ex_id (ps_executions st)" and d: "db_executions db = values_of (ps_executions st)"
    using assms by (simp_all add: store_ok_def mirrors_def)
  show "execution_row k db = get_execution k st"
    using find_values [OF k, of k] unfolding d execution_row_def by (simp add: row_or_404_def get_execution_def lookup_or_404_def d)
  show "list_ex (\<lambda>r. ex_id r = k) (db_executions db) \<longleftrightarrow> k \<in> set (keys (ps_executions st))"
    using ex_values [OF k, of k] unfolding d .
qed

section \<open>Each request is served alike\<close>

text \<open>The responses agree: the same error, or the same object up to the key order of a stored configuration.\<close>

fun same_response :: "pg \<Rightarrow> (exc, response) res \<Rightarrow> (exc, response) res \<Rightarrow> bool" where
  "same_response pg (Inr (Version v)) (Inr (Version w)) \<longleftrightarrow> w = v \<or> w = stored_version pg v"
| "same_response pg r s \<longleftrightarrow> r = s"

lemma same_response_refl [simp]: "same_response pg r r"
  by (cases "(pg, r, r)" rule: same_response.cases) auto

definition alike :: "pg \<Rightarrow> (exc, response) res \<times> platform_store \<Rightarrow> (exc, response) res \<times> database \<Rightarrow> bool" where
  "alike pg p q \<longleftrightarrow> same_response pg (fst p) (fst q) \<and> mirrors pg (snd q) (snd p)"

lemma serve_version:
  assumes c: "commits_ok pg" and ok: "store_ok sha256 st" and m: "mirrors pg db st"
    and p: "AgentVersionCreate p = Inr p" and fresh: "new_id \<notin> set (keys (ps_agent_versions st))"
  shows "alike pg (serve_platform sha256 (RegisterVersion new_id now p) st) (serve_postgres pg sha256 (RegisterVersion new_id now p) db)"
proof -
  let ?h = "compute_agent_version_content_hash sha256 (av_model p) (av_system_prompt p) (av_tool_schema_hash p) (av_config p)"
  let ?vs = "values_of (ps_agent_versions st)"
  let ?v = "agent_version_create.extend p \<lparr>av_id = new_id, av_content_hash = ?h, av_created_at = now\<rparr>"
  have f: "List.find (\<lambda>r. av_content_hash r = ?h) (db_versions db) =
      map_option (stored_version pg) (List.find (\<lambda>r. av_content_hash r = ?h) ?vs)"
    using m by (simp add: mirrors_def find_map del: map_map)
  show ?thesis
  proof (cases "List.find (\<lambda>r. av_content_hash r = ?h) ?vs")
    case None
    have v: "AgentVersionCreate ?v = Inr ?v" "av_id ?v = new_id" "av_content_hash ?v = ?h"
      using p by (simp_all add: AgentVersionCreate_def validated_Inr agent_version_create.defs)
    have "\<not> list_ex (\<lambda>r. av_content_hash r = ?h) (db_versions db)"
      using f None by (simp add: list_ex_iff find_None_iff)
    then have "insert_version pg ?v db = Inr (db\<lparr>db_versions := db_versions db @ [stored_version pg ?v]\<rparr>)"
      using mirrored_version(2) [OF ok m, of new_id] fresh v(2,3) by (simp add: insert_version_def stored_version_def)
    then have q: "serve_postgres pg sha256 (RegisterVersion new_id now p) db =
        (Inr (Version ?v), db\<lparr>db_versions := db_versions db @ [stored_version pg ?v]\<rparr>)"
      using f None v(1) by (simp add: pg_create_agent_version_def commits [OF c] Let_def wrap_res_def)
    have "serve_platform sha256 (RegisterVersion new_id now p) st =
        (Inr (Version ?v), st\<lparr>ps_agent_versions := dict_set new_id ?v (ps_agent_versions st)\<rparr>)"
      using None v(1,2) by (simp add: create_agent_version_def Let_def lift_res_def)
    then show ?thesis using m v(1) unfolding q alike_def
      by (simp add: mirrors_def rows_valid_def values_of_dict_set_fresh [OF fresh] del: map_map)
  next
    case (Some v)
    have "v \<in> set ?vs" using Some by (metis find_Some_iff nth_mem)
    then have "AgentVersionCreate v = Inr v" using m by (auto simp: mirrors_def rows_valid_def list_all_iff)
    then have "AgentVersionCreate (stored_version pg v) = Inr (stored_version pg v)" by (simp only: stored_version_valid)
    then show ?thesis using f Some m
      by (simp add: create_agent_version_def pg_create_agent_version_def commits [OF c] Let_def lift_res_def wrap_res_def alike_def)
  qed
qed

lemma serve_run:
  assumes c: "commits_ok pg" and ok: "store_ok sha256 st" and m: "mirrors pg db st"
    and p: "EvaluationRunCreate p = Inr p" and fresh: "new_id \<notin> set (keys (ps_runs st))" and i: "int4 (run_seed p)"
  shows "alike pg (serve_platform sha256 (StartRun new_id now p) st) (serve_postgres pg sha256 (StartRun new_id now p) db)"
proof (cases "map_of (ps_agent_versions st) (run_agent_version_id p)")
  case None
  then have "run_agent_version_id p \<notin> set (keys (ps_agent_versions st))" by (simp add: map_of_eq_None_keys)
  then show ?thesis using None m mirrored_version(1) [OF ok m, of "run_agent_version_id p" "''agent version not found''"]
    by (simp add: create_run_def pg_create_run_def commits [OF c] lift_res_def wrap_res_def alike_def lookup_or_404_def)
next
  case (Some v)
  let ?r = "evaluation_run_create.extend p \<lparr>run_id = new_id, run_status_of = RUN_QUEUED, run_created_at = now, run_finished_at = None\<rparr>"
  have r: "EvaluationRunCreate ?r = Inr ?r" "run_id ?r = new_id" "run_seed ?r = run_seed p"
      "run_agent_version_id ?r = run_agent_version_id p"
    using p by (simp_all add: EvaluationRunCreate_def validated_Inr evaluation_run_create.defs)
  have k: "run_agent_version_id p \<in> set (keys (ps_agent_versions st))" using Some map_of_Some_key by metis
  have "insert_run ?r db = Inr (db\<lparr>db_runs := db_runs db @ [?r]\<rparr>)"
    using mirrored_version(2) [OF ok m] mirrored_run(2) [OF ok m] k fresh r(2-4) i by (simp add: insert_run_def)
  then have q: "serve_postgres pg sha256 (StartRun new_id now p) db = (Inr (Run ?r), db\<lparr>db_runs := db_runs db @ [?r]\<rparr>)"
    using Some r(1) mirrored_version(1) [OF ok m, of "run_agent_version_id p" "''agent version not found''"]
    by (simp add: pg_create_run_def commits [OF c] wrap_res_def commit_new_def lookup_or_404_def Let_def)
  have "serve_platform sha256 (StartRun new_id now p) st = (Inr (Run ?r), st\<lparr>ps_runs := dict_set new_id ?r (ps_runs st)\<rparr>)"
    using k r(1,2) by (simp add: create_run_def lift_res_def)
  then show ?thesis using m unfolding q alike_def
    by (simp add: mirrors_def rows_valid_def values_of_dict_set_fresh [OF fresh] del: map_map)
qed

lemma serve_execution:
  assumes c: "commits_ok pg" and ok: "store_ok sha256 st" and m: "mirrors pg db st"
    and p: "TaskExecutionCreate p = Inr p" and fresh: "new_id \<notin> set (keys (ps_executions st))" and i: "int4 (ex_task_seed p)"
  shows "alike pg (serve_platform sha256 (StartExecution new_id now run p) st) (serve_postgres pg sha256 (StartExecution new_id now run p) db)"
proof (cases "map_of (ps_runs st) run")
  case None
  then have "run \<notin> set (keys (ps_runs st))" by (simp add: map_of_eq_None_keys)
  then show ?thesis using None m mirrored_run(1) [OF ok m, of run "''evaluation run not found''"]
    by (simp add: create_execution_def pg_create_execution_def commits [OF c] lift_res_def wrap_res_def alike_def lookup_or_404_def)
next
  case (Some v)
  let ?e = "task_execution_create.extend p
    \<lparr>ex_id = new_id, ex_run_id = run, ex_status = PENDING, ex_passed = None, ex_final_output = None,
     ex_latency_ms = None, ex_input_tokens = None, ex_output_tokens = None, ex_estimated_cost_usd = None,
     ex_missing_expected_actions = [], ex_forbidden_actions_seen = [], ex_final_state_mismatches = [],
     ex_created_at = now, ex_finished_at = None\<rparr>"
  have e: "TaskExecutionCreate ?e = Inr ?e" "ex_id ?e = new_id" "ex_task_seed ?e = ex_task_seed p" "ex_run_id ?e = run"
    using p by (simp_all add: TaskExecutionCreate_def validated_Inr task_execution_create.defs)
  have k: "run \<in> set (keys (ps_runs st))" using Some map_of_Some_key by metis
  have "insert_execution ?e db = Inr (db\<lparr>db_executions := db_executions db @ [?e]\<rparr>)"
    using mirrored_run(2) [OF ok m] mirrored_execution(2) [OF ok m] k fresh e(2-4) i by (simp add: insert_execution_def)
  then have q: "serve_postgres pg sha256 (StartExecution new_id now run p) db =
      (Inr (Execution ?e), db\<lparr>db_executions := db_executions db @ [?e]\<rparr>)"
    using Some e(1) mirrored_run(1) [OF ok m, of run "''evaluation run not found''"]
    by (simp add: pg_create_execution_def commits [OF c] wrap_res_def commit_new_def lookup_or_404_def Let_def)
  have "serve_platform sha256 (StartExecution new_id now run p) st =
      (Inr (Execution ?e), st\<lparr>ps_executions := dict_set new_id ?e (ps_executions st)\<rparr>)"
    using k e(1,2) by (simp add: create_execution_def lift_res_def)
  then show ?thesis using m e(1) unfolding q alike_def
    by (simp add: mirrors_def rows_valid_def values_of_dict_set_fresh [OF fresh] del: map_map)
qed

lemma write_columns_same: "write_columns row (finalized now p row) row = finalized now p row"
  by (simp add: write_columns_def column_def finalized_def)

lemma serve_result:
  assumes c: "commits_ok pg" and ok: "store_ok sha256 st" and m: "mirrors pg db st" and p: "TaskExecutionResult p = Inr p"
    and i: "int4 (res_latency_ms p)" "int4 (res_input_tokens p)" "int4 (res_output_tokens p)"
  shows "alike pg (serve_platform sha256 (RecordResult now eid p) st) (serve_postgres pg sha256 (RecordResult now eid p) db)"
proof (cases "map_of (ps_executions st) eid")
  case None
  then show ?thesis using m mirrored_execution(1) [OF ok m, of eid]
    by (simp add: record_result_def pg_record_result_def commits [OF c] lift_res_def wrap_res_def alike_def get_execution_def lookup_or_404_def)
next
  case (Some e)
  have g: "get_execution eid st = Inr e" using Some by (simp add: get_execution_def lookup_or_404_def)
  have k: "keyed_by ex_id (ps_executions st)" using ok by (simp add: store_ok_def)
  show ?thesis
  proof (cases "ex_status e \<in> {PASSED, FAILED, ERRORED}")
    case True
    then show ?thesis using m g mirrored_execution(1) [OF ok m, of eid]
      by (simp add: record_result_def pg_record_result_def commits [OF c] lift_res_def wrap_res_def alike_def)
  next
    case False
    let ?f = "finalized now p e"
    have id: "ex_id e = eid" using keyed_by_lookup [OF k Some] .
    have "list_all (\<lambda>e. TaskExecutionCreate e = Inr e) (values_of (ps_executions st))"
      using m by (simp add: mirrors_def rows_valid_def)
    from list_all_values_lookup [OF this Some] have "TaskExecutionCreate e = Inr e" .
    then have v: "TaskExecutionCreate ?f = Inr ?f" by (simp add: TaskExecutionCreate_def validated_Inr)
    have only: "r = e" if r: "r \<in> set (values_of (ps_executions st))" "ex_id r = eid" for r
    proof -
      obtain q where q: "q \<in> set (ps_executions st)" "r = snd q" using r(1) unfolding set_map image_iff by blast
      then have "fst q = eid" using k r(2) by (cases q) (auto simp: keyed_by_def list_all_iff)
      then have "map_of (ps_executions st) eid = Some r"
        using q keyed_by_dict_ok [OF k] by (cases q) (simp add: dict_ok_def)
      then show ?thesis using Some by simp
    qed
    have cols: "map (\<lambda>r. if ex_id r = ex_id e then write_columns e ?f r else r) (values_of (ps_executions st)) =
        values_of (dict_set eid ?f (ps_executions st))"
    proof -
      have "(if ex_id r = ex_id e then write_columns e ?f r else r) = (if ex_id r = eid then ?f else r)"
        if "r \<in> set (values_of (ps_executions st))" for r
        using only [OF that] write_columns_same [of e now p] unfolding id by (cases "ex_id r = eid") simp_all
      then have "map (\<lambda>r. if ex_id r = ex_id e then write_columns e ?f r else r) (values_of (ps_executions st)) =
          map (\<lambda>r. if ex_id r = eid then ?f else r) (values_of (ps_executions st))" by (rule map_cong [OF refl])
      also have "\<dots> = values_of (dict_set eid ?f (ps_executions st))"
        by (rule values_of_dict_set_known [OF k Some, symmetric]) (simp add: id)
      finally show ?thesis .
    qed
    have u: "update_execution e ?f db = Inr (db\<lparr>db_executions := values_of (dict_set eid ?f (ps_executions st))\<rparr>)"
    proof -
      have "ex_latency_ms ?f = Some (res_latency_ms p)" "ex_input_tokens ?f = Some (res_input_tokens p)"
        "ex_output_tokens ?f = Some (res_output_tokens p)" by (simp_all add: finalized_def)
      moreover have "db_executions db = values_of (ps_executions st)" using m by (simp add: mirrors_def)
      ultimately show ?thesis using i cols
        by (simp add: update_execution_def int4_option_def del: map_map)
    qed
    have q: "serve_postgres pg sha256 (RecordResult now eid p) db =
        (Inr (Execution ?f), db\<lparr>db_executions := values_of (dict_set eid ?f (ps_executions st))\<rparr>)"
      using g mirrored_execution(1) [OF ok m, of eid] False u v
      by (simp add: pg_record_result_def commits [OF c] wrap_res_def commit_new_def)
    have "serve_platform sha256 (RecordResult now eid p) st =
        (Inr (Execution ?f), st\<lparr>ps_executions := dict_set eid ?f (ps_executions st)\<rparr>)"
      using g False by (simp add: record_result_def lift_res_def Let_def)
    then show ?thesis using m v unfolding q alike_def
      by (simp add: mirrors_def rows_valid_def list_all_values_set del: map_map)
  qed
qed

lemma mirrored_events:
  assumes "mirrors pg db st"
  shows "list_ex (\<lambda>r. ev_id r = i) (db_events db) \<longleftrightarrow> (\<exists>x. i \<in> ev_id ` set (ps_events st x))"
    and "list_ex (\<lambda>r. ev_execution_id r = x \<and> ev_sequence_no r = n) (db_events db) \<longleftrightarrow>
      list_ex (\<lambda>e. ev_sequence_no e = n) (ps_events st x)"
proof -
  have s: "set (filter (\<lambda>r. ev_execution_id r = x) (db_events db)) = stored_trace_event pg ` set (ps_events st x)" for x
  proof -
    have "sort_key ev_sequence_no (filter (\<lambda>r. ev_execution_id r = x) (db_events db)) = map (stored_trace_event pg) (ps_events st x)"
      using assms by (simp add: mirrors_def)
    from arg_cong [OF this, of set] show ?thesis by simp
  qed
  have "list_ex (\<lambda>r. ev_id r = i) (db_events db) \<longleftrightarrow> (\<exists>x. i \<in> ev_id ` set (filter (\<lambda>r. ev_execution_id r = x) (db_events db)))"
    by (auto simp: list_ex_iff)
  then show "list_ex (\<lambda>r. ev_id r = i) (db_events db) \<longleftrightarrow> (\<exists>x. i \<in> ev_id ` set (ps_events st x))"
    unfolding s by (simp add: image_image)
  have "list_ex (\<lambda>r. ev_execution_id r = x \<and> ev_sequence_no r = n) (db_events db) \<longleftrightarrow>
      (\<exists>r\<in>set (filter (\<lambda>r. ev_execution_id r = x) (db_events db)). ev_sequence_no r = n)"
    by (auto simp: list_ex_iff)
  then show "list_ex (\<lambda>r. ev_execution_id r = x \<and> ev_sequence_no r = n) (db_events db) \<longleftrightarrow>
      list_ex (\<lambda>e. ev_sequence_no e = n) (ps_events st x)"
    unfolding s by (simp add: list_ex_iff)
qed

lemma serve_event:
  assumes c: "commits_ok pg" and ok: "store_ok sha256 st" and m: "mirrors pg db st" and p: "TraceEventCreate p = Inr p"
    and i: "int4 (ev_sequence_no p)" "int4_option (ev_duration_ms p)" and fresh: "\<forall>x. ev_id p \<notin> ev_id ` set (ps_events st x)"
  shows "alike pg (serve_platform sha256 (AppendEvent now eid p) st) (serve_postgres pg sha256 (AppendEvent now eid p) db)"
proof (cases "map_of (ps_executions st) eid")
  case None
  then show ?thesis using m mirrored_execution(1) [OF ok m, of eid]
    by (simp add: append_trace_event_def pg_append_trace_event_def commits [OF c] lift_res_def wrap_res_def alike_def get_execution_def lookup_or_404_def)
next
  case (Some e)
  have g: "get_execution eid st = Inr e" using Some by (simp add: get_execution_def lookup_or_404_def)
  have k: "eid \<in> set (keys (ps_executions st))" using Some map_of_Some_key by metis
  let ?r = "stored_event eid now (p\<lparr>ev_payload := redact_payload (ev_payload p)\<rparr>)"
  have r: "ev_id ?r = ev_id p" "ev_sequence_no ?r = ev_sequence_no p" "ev_duration_ms ?r = ev_duration_ms p"
      "ev_execution_id ?r = eid" "TraceEventCreate ?r = Inr ?r"
    using p by (simp_all add: TraceEventCreate_def validated_Inr)
  have id: "\<not> list_ex (\<lambda>x. ev_id x = ev_id p) (db_events db)" using mirrored_events(1) [OF m] fresh by blast
  show ?thesis
  proof (cases "list_ex (\<lambda>x. ev_sequence_no x = ev_sequence_no p) (ps_events st eid)")
    case True
    then have "insert_event pg ?r db = Inl (violates ''uq_trace_events_execution_sequence'')"
      using mirrored_events(2) [OF m, of eid "ev_sequence_no p"] id i by (simp only: insert_event_def r simp_thms if_False if_True)
    then show ?thesis using g True m mirrored_execution(1) [OF ok m, of eid]
      by (simp add: append_trace_event_def pg_append_trace_event_def commits [OF c] lift_res_def wrap_res_def alike_def Let_def violates_def)
  next
    case False
    then have "insert_event pg ?r db = Inr (db\<lparr>db_events := db_events db @ [stored_trace_event pg ?r]\<rparr>)"
      using mirrored_events(2) [OF m, of eid "ev_sequence_no p"] id i mirrored_execution(2) [OF ok m, of eid] k
      by (simp only: insert_event_def r simp_thms if_False if_True stored_trace_event_def)
    then have q: "serve_postgres pg sha256 (AppendEvent now eid p) db =
        (Inr (Event ?r), db\<lparr>db_events := db_events db @ [stored_trace_event pg ?r]\<rparr>)"
      using g r(5) mirrored_execution(1) [OF ok m, of eid] by (simp add: pg_append_trace_event_def commits [OF c] wrap_res_def Let_def)
    have s: "serve_platform sha256 (AppendEvent now eid p) st = (Inr (Event ?r), st\<lparr>ps_events := (ps_events st)
        (eid := sort_key ev_sequence_no (ps_events st eid @ [?r]))\<rparr>)"
      using g False r(5) by (simp add: append_trace_event_def lift_res_def Let_def)
    have "sort_key ev_sequence_no (filter (\<lambda>x. ev_execution_id x = eid) (db_events db) @ [stored_trace_event pg ?r]) =
        map (stored_trace_event pg) (sort_key ev_sequence_no (ps_events st eid @ [?r]))"
    proof -
      let ?f = "filter (\<lambda>x. ev_execution_id x = eid) (db_events db)"
      have "sort_key ev_sequence_no (?f @ [stored_trace_event pg ?r]) =
          sort_key ev_sequence_no (sort_key ev_sequence_no ?f @ [stored_trace_event pg ?r])"
        by (simp only: sort_key_append_sorted)
      also have "\<dots> = sort_key ev_sequence_no (map (stored_trace_event pg) (ps_events st eid @ [?r]))"
        using m by (simp add: mirrors_def)
      also have "\<dots> = map (stored_trace_event pg) (sort_key ev_sequence_no (ps_events st eid @ [?r]))"
        by (simp only: sort_key_map stored_trace_event_simps)
      finally show ?thesis .
    qed
    then show ?thesis using m r(4,5) unfolding q s alike_def
      by (simp add: mirrors_def rows_valid_def)
  qed
qed

lemma serve_verdict:
  assumes c: "commits_ok pg" and ok: "store_ok sha256 st" and m: "mirrors pg db st" and p: "JudgeVerdictCreate p = Inr p"
    and fresh: "\<forall>x. new_id \<notin> jv_id ` set (ps_verdicts st x)"
  shows "alike pg (serve_platform sha256 (AppendVerdict new_id now eid p) st) (serve_postgres pg sha256 (AppendVerdict new_id now eid p) db)"
proof (cases "map_of (ps_executions st) eid")
  case None
  then show ?thesis using m mirrored_execution(1) [OF ok m, of eid]
    by (simp add: append_judge_verdict_def pg_append_judge_verdict_def commits [OF c] lift_res_def wrap_res_def alike_def get_execution_def lookup_or_404_def)
next
  case (Some e)
  have g: "get_execution eid st = Inr e" using Some by (simp add: get_execution_def lookup_or_404_def)
  have k: "eid \<in> set (keys (ps_executions st))" using Some map_of_Some_key by metis
  let ?r = "judge_verdict_create.extend p \<lparr>jv_id = new_id, jv_execution_id = eid, jv_created_at = now\<rparr>"
  have r: "JudgeVerdictCreate ?r = Inr ?r" "jv_id ?r = new_id" "jv_execution_id ?r = eid"
    using p by (simp_all add: JudgeVerdictCreate_def validated_Inr judge_verdict_create.defs)
  have v: "filter (\<lambda>r. jv_execution_id r = x) (db_verdicts db) = ps_verdicts st x" for x using m by (simp add: mirrors_def)
  have "r \<in> set (ps_verdicts st (jv_execution_id r))" if "r \<in> set (db_verdicts db)" for r
  proof -
    have "r \<in> set (filter (\<lambda>s. jv_execution_id s = jv_execution_id r) (db_verdicts db))" using that by simp
    then show ?thesis unfolding v .
  qed
  then have "\<not> list_ex (\<lambda>r. jv_id r = new_id) (db_verdicts db)" using fresh by (force simp: list_ex_iff)
  then have "insert_verdict ?r db = Inr (db\<lparr>db_verdicts := db_verdicts db @ [?r]\<rparr>)"
    using mirrored_execution(2) [OF ok m, of eid] k r(2,3) by (simp add: insert_verdict_def)
  then have q: "serve_postgres pg sha256 (AppendVerdict new_id now eid p) db =
      (Inr (Verdict ?r), db\<lparr>db_verdicts := db_verdicts db @ [?r]\<rparr>)"
    using g r(1) mirrored_execution(1) [OF ok m, of eid]
    by (simp add: pg_append_judge_verdict_def commits [OF c] wrap_res_def commit_new_def Let_def)
  have s: "serve_platform sha256 (AppendVerdict new_id now eid p) st =
      (Inr (Verdict ?r), st\<lparr>ps_verdicts := (ps_verdicts st)(eid := ps_verdicts st eid @ [?r])\<rparr>)"
    using g r(1) by (simp add: append_judge_verdict_def lift_res_def)
  show ?thesis using m r(1,3) unfolding q s alike_def by (simp add: mirrors_def rows_valid_def)
qed

section \<open>Histories and reads\<close>

lemma serve_alike:
  assumes c: "commits_ok pg" and "store_ok sha256 st" and "mirrors pg db st" and "admissible request st"
  shows "alike pg (serve_platform sha256 request st) (serve_postgres pg sha256 request db)"
  using assms(2-4) serve_version [OF c] serve_run [OF c] serve_execution [OF c] serve_result [OF c] serve_event [OF c]
    serve_verdict [OF c] by (cases request) auto

lemma serve_platform_ok:
  assumes ok: "store_ok sha256 st" and a: "admissible request st"
  shows "store_ok sha256 (snd (serve_platform sha256 request st))"
proof -
  have "store_ok sha256 st'" if "store_step sha256 st st'" for st' using store_step_ok [OF that ok] by blast
  then show ?thesis using ok a
    by (cases request) (auto simp: lift_res_def simp del: set_map list.set_map intro: store_step.intros split: sum.splits)
qed

fun platform_replies :: "(string \<Rightarrow> string) \<Rightarrow> request list \<Rightarrow> platform_store \<Rightarrow> (exc, response) res list \<times> platform_store" where
  "platform_replies sha256 [] st = ([], st)"
| "platform_replies sha256 (r # rs) st =
     (let (x, st) = serve_platform sha256 r st; (xs, st) = platform_replies sha256 rs st in (x # xs, st))"

fun postgres_replies :: "pg \<Rightarrow> (string \<Rightarrow> string) \<Rightarrow> request list \<Rightarrow> database \<Rightarrow> (exc, response) res list \<times> database" where
  "postgres_replies pg sha256 [] db = ([], db)"
| "postgres_replies pg sha256 (r # rs) db =
     (let (x, db) = serve_postgres pg sha256 r db; (xs, db) = postgres_replies pg sha256 rs db in (x # xs, db))"

fun admissible_history :: "(string \<Rightarrow> string) \<Rightarrow> request list \<Rightarrow> platform_store \<Rightarrow> bool" where
  "admissible_history sha256 [] st \<longleftrightarrow> True"
| "admissible_history sha256 (r # rs) st \<longleftrightarrow>
     admissible r st \<and> admissible_history sha256 rs (snd (serve_platform sha256 r st))"

lemma histories_alike:
  assumes c: "commits_ok pg" and "store_ok sha256 st" and "mirrors pg db st" and "admissible_history sha256 rs st"
  shows "list_all2 (same_response pg) (fst (platform_replies sha256 rs st)) (fst (postgres_replies pg sha256 rs db)) \<and>
    mirrors pg (snd (postgres_replies pg sha256 rs db)) (snd (platform_replies sha256 rs st)) \<and>
    store_ok sha256 (snd (platform_replies sha256 rs st))"
  using assms(2-4)
proof (induction rs arbitrary: st db)
  case (Cons r rs)
  obtain x st1 where p: "serve_platform sha256 r st = (x, st1)" by fastforce
  obtain y db1 where q: "serve_postgres pg sha256 r db = (y, db1)" by fastforce
  have s: "same_response pg x y" "mirrors pg db1 st1"
    using serve_alike [OF c Cons.prems(1,2), of r] Cons.prems(3) p q by (simp_all add: alike_def)
  have "store_ok sha256 st1" using serve_platform_ok [OF Cons.prems(1), of r] Cons.prems(3) p by simp
  from Cons.IH [OF this s(2)] Cons.prems(3) s(1) p q show ?case by (simp add: split_beta Let_def)
qed simp

definition empty_database :: database where
  "empty_database = \<lparr>db_versions = [], db_runs = [], db_executions = [], db_events = [], db_verdicts = []\<rparr>"

lemma empty_mirrors: "mirrors pg empty_database empty_store"
  by (simp add: mirrors_def empty_database_def empty_store_def rows_valid_def)

text \<open>The same rows, in any order.\<close>

definition same_rows :: "(exc, 'a list) res \<Rightarrow> (exc, 'a list) res \<Rightarrow> bool" where
  "same_rows r s \<longleftrightarrow> (case (r, s) of (Inl e, Inl f) \<Rightarrow> e = f | (Inr xs, Inr ys) \<Rightarrow> mset xs = mset ys | _ \<Rightarrow> False)"

definition scans_ok :: "pg \<Rightarrow> bool" where
  "scans_ok pg \<longleftrightarrow> (\<forall>rows. mset (pg_scan_executions pg rows) = mset rows) \<and> (\<forall>rows. mset (pg_scan_verdicts pg rows) = mset rows)"

lemma map_res_valid: "list_all (\<lambda>x. f x = Inr x) xs \<Longrightarrow> map_res f xs = Inr xs"
  by (induction xs) auto

lemma list_all_mset: "mset xs = mset ys \<Longrightarrow> list_all P ys \<Longrightarrow> list_all P xs"
  by (metis list_all_iff mset_eq_setD)

definition reads_alike :: "pg \<Rightarrow> database \<Rightarrow> platform_store \<Rightarrow> bool" where
  "reads_alike pg db st \<longleftrightarrow>
     (\<forall>k. pg_get_agent_version k db = map_sum id (stored_version pg) (get_agent_version k st)) \<and>
     (\<forall>k. pg_get_execution k db = get_execution k st) \<and>
     (\<forall>k. pg_get_trace k db = map_sum id (map (stored_trace_event pg)) (get_trace k st)) \<and>
     (\<forall>k. same_rows (pg_get_run_executions pg k db) (get_run_executions k st)) \<and>
     (\<forall>k. same_rows (pg_get_judge_verdicts pg k db) (get_judge_verdicts k st))"

lemma mirrors_reads:
  assumes ok: "store_ok sha256 st" and m: "mirrors pg db st" and scans: "scans_ok pg"
  shows "reads_alike pg db st"
proof -
  have rows: "list_all (\<lambda>v. AgentVersionCreate v = Inr v) (values_of (ps_agent_versions st))"
    "list_all (\<lambda>e. TaskExecutionCreate e = Inr e) (values_of (ps_executions st))"
    "list_all (\<lambda>e. TraceEventCreate e = Inr e) (ps_events st x)" "list_all (\<lambda>j. JudgeVerdictCreate j = Inr j) (ps_verdicts st x)" for x
    using m by (simp_all add: mirrors_def rows_valid_def)
  have version: "pg_get_agent_version k db = map_sum id (stored_version pg) (get_agent_version k st)" for k
  proof (cases "map_of (ps_agent_versions st) k")
    case None
    then show ?thesis using mirrored_version(1) [OF ok m, of k]
      by (simp add: pg_get_agent_version_def get_agent_version_def lookup_or_404_def)
  next
    case (Some v)
    have "AgentVersionCreate (stored_version pg v) = Inr (stored_version pg v)"
      unfolding stored_version_valid by (rule list_all_values_lookup [OF rows(1) Some])
    then show ?thesis using Some mirrored_version(1) [OF ok m, of k]
      by (simp add: pg_get_agent_version_def get_agent_version_def lookup_or_404_def)
  qed
  have execution: "pg_get_execution k db = get_execution k st" for k
  proof (cases "map_of (ps_executions st) k")
    case (Some e)
    have "TaskExecutionCreate e = Inr e" by (rule list_all_values_lookup [OF rows(2) Some])
    then show ?thesis using Some mirrored_execution(1) [OF ok m, of k]
      by (simp add: pg_get_execution_def get_execution_def lookup_or_404_def)
  qed (use mirrored_execution(1) [OF ok m, of k] in \<open>simp add: pg_get_execution_def get_execution_def lookup_or_404_def\<close>)
  have trace: "pg_get_trace k db = map_sum id (map (stored_trace_event pg)) (get_trace k st)" for k
  proof -
    have "map_res TraceEventCreate (map (stored_trace_event pg) (ps_events st k)) = Inr (map (stored_trace_event pg) (ps_events st k))"
      using rows(3) [of k] by (intro map_res_valid) (simp add: list_all_iff)
    moreover have "sort_key ev_sequence_no (filter (\<lambda>r. ev_execution_id r = k) (db_events db)) = map (stored_trace_event pg) (ps_events st k)"
      using m by (simp add: mirrors_def)
    ultimately show ?thesis using mirrored_execution(1) [OF ok m, of k]
      by (cases "get_execution k st") (simp_all add: pg_get_trace_def get_trace_def)
  qed
  have executions: "same_rows (pg_get_run_executions pg k db) (get_run_executions k st)" for k
  proof -
    let ?rows = "filter (\<lambda>r. ex_run_id r = k) (values_of (ps_executions st))"
    have valid: "list_all (\<lambda>e. TaskExecutionCreate e = Inr e) ?rows"
      using rows(2) unfolding list_all_iff by (metis filter_is_subset subsetD)
    have "mset (pg_scan_executions pg ?rows) = mset ?rows" using scans by (simp add: scans_ok_def)
    moreover from this have "map_res TaskExecutionCreate (pg_scan_executions pg ?rows) = Inr (pg_scan_executions pg ?rows)"
      using valid by (intro map_res_valid, elim list_all_mset)
    moreover have "db_executions db = values_of (ps_executions st)" using m by (simp add: mirrors_def)
    ultimately show ?thesis using mirrored_run(1) [OF ok m, of k "''evaluation run not found''"]
      by (cases "map_of (ps_runs st) k")
        (auto simp: pg_get_run_executions_def get_run_executions_def same_rows_def lookup_or_404_def
          map_of_eq_None_keys dest: map_of_Some_key simp del: filter_map)
  qed
  have verdicts: "same_rows (pg_get_judge_verdicts pg k db) (get_judge_verdicts k st)" for k
  proof -
    let ?rows = "ps_verdicts st k"
    have "mset (pg_scan_verdicts pg ?rows) = mset ?rows" using scans by (simp add: scans_ok_def)
    moreover from this have "map_res JudgeVerdictCreate (pg_scan_verdicts pg ?rows) = Inr (pg_scan_verdicts pg ?rows)"
      using rows(4) [of k] by (intro map_res_valid, elim list_all_mset)
    moreover have "filter (\<lambda>r. jv_execution_id r = k) (db_verdicts db) = ?rows" using m by (simp add: mirrors_def)
    ultimately show ?thesis using mirrored_execution(1) [OF ok m, of k]
      by (cases "get_execution k st") (simp_all add: pg_get_judge_verdicts_def get_judge_verdicts_def same_rows_def)
  qed
  show ?thesis unfolding reads_alike_def using version execution trace executions verdicts by blast
qed

section \<open>Properties of the Postgres store\<close>

text \<open>C5: The Postgres store implements the in-memory one: over any history of requests with validated
  payloads, new identifiers and numbers its columns hold, both give the same response to every
  request, errors included, and afterwards every read agrees, up to the order of keys in JSON
  columns and of rows where no order is asked for.\<close>

theorem postgres_refines_platform:
  assumes "commits_ok pg" and "scans_ok pg" and "admissible_history sha256 requests empty_store"
  shows "list_all2 (same_response pg) (fst (platform_replies sha256 requests empty_store))
      (fst (postgres_replies pg sha256 requests empty_database)) \<and>
    reads_alike pg (snd (postgres_replies pg sha256 requests empty_database)) (snd (platform_replies sha256 requests empty_store))"
  using histories_alike [OF assms(1) store_ok_empty empty_mirrors assms(3)] mirrors_reads [OF _ _ assms(2)] by blast

text \<open>C35: Registering a version survives a race: when another session registers the same identity
  between the look-up and the insert, the insert violates the unique hash, and the call returns the
  version of that session and leaves the database as that session left it.\<close>

theorem registration_survives_a_race:
  assumes c: "commits_ok pg" and "AgentVersionCreate q = Inr q"
    and "av_model q = av_model p" and "av_system_prompt q = av_system_prompt p"
    and "av_tool_schema_hash q = av_tool_schema_hash p" and "av_config q = av_config p"
    and "\<not> list_ex (\<lambda>r. av_content_hash r = compute_agent_version_content_hash sha256 (av_model p)
        (av_system_prompt p) (av_tool_schema_hash p) (av_config p)) (db_versions db)"
    and "\<not> list_ex (\<lambda>r. av_id r = other_id) (db_versions db)"
    and "meanwhile = (\<lambda>d. snd (pg_create_agent_version pg sha256 other_id now' (\<lambda>d. d) q d))"
  shows "\<exists>w. fst (pg_create_agent_version pg sha256 other_id now' (\<lambda>d. d) q db) = Inr w \<and> av_id w = other_id \<and>
    pg_create_agent_version pg sha256 new_id now meanwhile p db = (Inr (stored_version pg w), meanwhile db) \<and>
    length (db_versions (meanwhile db)) = length (db_versions db) + 1"
proof -
  let ?h = "compute_agent_version_content_hash sha256 (av_model p) (av_system_prompt p) (av_tool_schema_hash p) (av_config p)"
  let ?w = "agent_version_create.extend q \<lparr>av_id = other_id, av_content_hash = ?h, av_created_at = now'\<rparr>"
  let ?v = "agent_version_create.extend p \<lparr>av_id = new_id, av_content_hash = ?h, av_created_at = now\<rparr>"
  let ?db = "db\<lparr>db_versions := db_versions db @ [stored_version pg ?w]\<rparr>"
  have w: "AgentVersionCreate ?w = Inr ?w" "av_id ?w = other_id" "av_content_hash ?w = ?h" "av_content_hash ?v = ?h"
    using assms(2) by (simp_all add: AgentVersionCreate_def validated_Inr agent_version_create.defs)
  then have ws: "AgentVersionCreate (stored_version pg ?w) = Inr (stored_version pg ?w)" by (simp only: stored_version_valid)
  have none: "List.find (\<lambda>r. av_content_hash r = ?h) (db_versions db) = None"
    using assms(7) by (simp add: find_None_iff list_ex_iff)
  have "insert_version pg ?w db = Inr ?db"
    using assms(7,8) w(2,3) by (simp add: insert_version_def stored_version_def)
  then have other: "pg_create_agent_version pg sha256 other_id now' (\<lambda>d. d) q db = (Inr ?w, ?db)"
    using none w(1) assms(3-6) by (simp add: pg_create_agent_version_def commits [OF c] Let_def)
  have found: "List.find (\<lambda>r. av_content_hash r = ?h) (rows @ [stored_version pg ?w]) = Some (stored_version pg ?w)"
    if "List.find (\<lambda>r. av_content_hash r = ?h) rows = None" for rows
    using that w(3) by (induction rows) (auto split: if_splits)
  have m: "meanwhile db = ?db" using other assms(9) by simp
  have "\<exists>c. insert_version pg ?v ?db = Inl (violates c)"
    using w(3,4) by (auto simp: insert_version_def list_ex_iff)
  then obtain k where k: "insert_version pg ?v ?db = Inl (violates k)" by blast
  have "pg_create_agent_version pg sha256 new_id now meanwhile p db = (Inr (stored_version pg ?w), ?db)"
    using none m k ws found [OF none] by (simp add: pg_create_agent_version_def commits [OF c] Let_def violates_def)
  then show ?thesis using other w(2) m by (intro exI [of _ ?w]) simp
qed

text \<open>C36: Recording a result is not atomic: when another session records its result between the check
  and the commit, both calls succeed and the second verdict replaces the first, although a
  finalized execution is to be refused.\<close>

theorem concurrent_results_overwrite:
  assumes c: "commits_ok pg" and "execution_row eid db = Inr row" and "ex_status row \<in> {PENDING, RUNNING}" and "ex_passed row = None"
    and "TaskExecutionCreate row = Inr row" and "TaskExecutionResult p = Inr p" and "TaskExecutionResult q = Inr q"
    and "int4 (res_latency_ms p) \<and> int4 (res_input_tokens p) \<and> int4 (res_output_tokens p)"
    and "int4 (res_latency_ms q) \<and> int4 (res_input_tokens q) \<and> int4 (res_output_tokens q)"
    and "meanwhile = (\<lambda>d. snd (pg_record_result pg now' (\<lambda>d. d) eid q d))"
  shows "fst (pg_record_result pg now' (\<lambda>d. d) eid q db) = Inr (finalized now' q row) \<and>
    (\<exists>final. execution_row eid (meanwhile db) = Inr (finalized now' q row) \<and>
       fst (pg_record_result pg now meanwhile eid p db) = Inr (finalized now p row) \<and>
       execution_row eid (snd (pg_record_result pg now meanwhile eid p db)) = Inr final \<and>
       ex_status final = res_status p \<and> ex_passed final = Some (res_passed p))"
proof -
  have open_status: "ex_status row \<notin> {PASSED, FAILED, ERRORED}" using assms(3) by auto
  have id: "ex_id row = eid"
    using assms(2) by (auto simp: execution_row_def row_or_404_def find_Some_iff split: option.splits)
  have valid: "TaskExecutionCreate (finalized n r row) = Inr (finalized n r row)" for n r
    using assms(5) by (simp add: TaskExecutionCreate_def validated_Inr)
  have fits: "int4_option (ex_latency_ms (finalized n r row)) \<and> int4_option (ex_input_tokens (finalized n r row)) \<and>
      int4_option (ex_output_tokens (finalized n r row))"
    if "int4 (res_latency_ms r) \<and> int4 (res_input_tokens r) \<and> int4 (res_output_tokens r)" for n r
    using that by (simp add: finalized_def int4_option_def)
  define change where "change n r = map (\<lambda>x. if ex_id x = eid then write_columns row (finalized n r row) x else x)" for n r
  have rec: "pg_record_result pg n mean eid r db = (Inr (finalized n r row), (mean db)\<lparr>db_executions := change n r (db_executions (mean db))\<rparr>)"
    if "int4 (res_latency_ms r) \<and> int4 (res_input_tokens r) \<and> int4 (res_output_tokens r)" for n mean r
    using assms(2) open_status valid [of n r] fits [OF that, of n] id
    by (simp add: pg_record_result_def commits [OF c] update_execution_def commit_new_def change_def Let_def)
  have found: "execution_row eid (d\<lparr>db_executions := change n r (db_executions d)\<rparr>) = Inr (write_columns row (finalized n r row) x)"
    if "execution_row eid d = Inr x" for d n r x
  proof -
    have e: "ex_id (write_columns row (finalized n r row) y) = ex_id y" for y by (simp add: write_columns_def)
    have "List.find (\<lambda>x. ex_id x = eid) rows = Some x \<Longrightarrow>
        List.find (\<lambda>x. ex_id x = eid) (change n r rows) = Some (write_columns row (finalized n r row) x)" for rows
      by (induction rows) (auto simp: change_def e)
    then show ?thesis using that by (auto simp: execution_row_def row_or_404_def split: option.splits)
  qed
  have m: "meanwhile db = db\<lparr>db_executions := change now' q (db_executions db)\<rparr>"
    using rec [OF assms(9), of now' "\<lambda>d. d"] assms(10) by simp
  have first: "execution_row eid (meanwhile db) = Inr (finalized now' q row)"
    using found [OF assms(2), of now' q] m by (simp add: write_columns_same)
  let ?final = "write_columns row (finalized now p row) (finalized now' q row)"
  have "ex_status ?final = res_status p"
  proof -
    have "res_status p \<noteq> ex_status row" using assms(3,6) by (auto simp: TaskExecutionResult_Inr)
    then show ?thesis by (simp add: write_columns_def column_def)
  qed
  moreover have "ex_passed ?final = Some (res_passed p)" using assms(4) by (simp add: write_columns_def column_def)
  moreover have "execution_row eid (snd (pg_record_result pg now meanwhile eid p db)) = Inr ?final"
    using rec [OF assms(8), of now meanwhile] found [OF first] by simp
  ultimately show ?thesis
    using rec [OF assms(8), of now meanwhile] rec [OF assms(9), of now' "\<lambda>d. d"] first by simp
qed

text \<open>Appending a trace event to a known execution conflicts exactly when its sequence number is taken
  in that execution or its identifier in any; in both cases the answer is that the sequence number
  is a duplicate, also when only the identifier is, and the database is left as it was.\<close>

theorem event_conflict_exact:
  assumes c: "commits_ok pg" and "execution_row eid db = Inr row" and "TraceEventCreate p = Inr p"
    and "int4 (ev_sequence_no p)" and "int4_option (ev_duration_ms p)"
  shows "pg_append_trace_event pg now eid p db =
    (if list_ex (\<lambda>r. ev_id r = ev_id p \<or> ev_execution_id r = eid \<and> ev_sequence_no r = ev_sequence_no p) (db_events db)
     then (Inl (http_error 409 ''duplicate trace sequence number''), db)
     else (Inr (stored_event eid now (p\<lparr>ev_payload := redact_payload (ev_payload p)\<rparr>)),
       db\<lparr>db_events := db_events db @ [stored_trace_event pg (stored_event eid now (p\<lparr>ev_payload := redact_payload (ev_payload p)\<rparr>))]\<rparr>))"
proof -
  let ?r = "stored_event eid now (p\<lparr>ev_payload := redact_payload (ev_payload p)\<rparr>)"
  have r: "ev_id ?r = ev_id p" "ev_sequence_no ?r = ev_sequence_no p" "ev_duration_ms ?r = ev_duration_ms p"
      "ev_execution_id ?r = eid" "TraceEventCreate ?r = Inr ?r"
    using assms(3) by (simp_all add: TraceEventCreate_def validated_Inr)
  have known: "list_ex (\<lambda>r. ex_id r = eid) (db_executions db)"
    using assms(2) by (auto simp: execution_row_def row_or_404_def find_Some_iff list_ex_length split: option.splits)
  let ?taken = "list_ex (\<lambda>r. ev_id r = ev_id p) (db_events db)"
    and ?dup = "list_ex (\<lambda>r. ev_execution_id r = eid \<and> ev_sequence_no r = ev_sequence_no p) (db_events db)"
  have split: "list_ex (\<lambda>r. ev_id r = ev_id p \<or> ev_execution_id r = eid \<and> ev_sequence_no r = ev_sequence_no p) (db_events db) \<longleftrightarrow>
      ?taken \<or> ?dup" by (auto simp: list_ex_iff)
  consider "?taken" | "\<not> ?taken" "?dup" | "\<not> ?taken" "\<not> ?dup" by blast
  then show ?thesis
  proof cases
    case 1
    then have "insert_event pg ?r db = Inl (violates ''trace_events_pkey'')"
      using assms(4,5) by (simp only: insert_event_def r simp_thms if_True if_False)
    then show ?thesis using assms(2) 1 split by (simp add: pg_append_trace_event_def commits [OF c] violates_def Let_def)
  next
    case 2
    then have "insert_event pg ?r db = Inl (violates ''uq_trace_events_execution_sequence'')"
      using assms(4,5) by (simp only: insert_event_def r simp_thms if_True if_False)
    then show ?thesis using assms(2) 2 split by (simp add: pg_append_trace_event_def commits [OF c] violates_def Let_def)
  next
    case 3
    then have "insert_event pg ?r db = Inr (db\<lparr>db_events := db_events db @ [stored_trace_event pg ?r]\<rparr>)"
      using assms(4,5) known by (simp only: insert_event_def r simp_thms if_True if_False stored_trace_event_def)
    then show ?thesis using assms(2) 3 split r(5) by (simp add: pg_append_trace_event_def commits [OF c] Let_def)
  qed
qed

text \<open>C39: The seed of a run is bounded by its column only: a payload the model accepts starts a run in
  the in-memory store whatever its seed, and in Postgres exactly when the seed is below \<open>2^31\<close>;
  from there on the driver's error escapes.\<close>

theorem run_seed_bound:
  assumes c: "commits_ok pg" and "store_ok sha256 st" and "mirrors pg db st" and "EvaluationRunCreate p = Inr p"
    and "new_id \<notin> set (keys (ps_runs st))" and "run_agent_version_id p \<in> set (keys (ps_agent_versions st))"
  shows "is_ok (create_run new_id now p st) \<and>
    (is_ok (fst (pg_create_run pg new_id now p db)) \<longleftrightarrow> run_seed p < 2 ^ 31) \<and>
    (2 ^ 31 \<le> run_seed p \<longrightarrow> pg_create_run pg new_id now p db = (Inl out_of_range, db))"
proof -
  have seed: "0 \<le> run_seed p" using assms(4) by (simp add: EvaluationRunCreate_def validated_Inr)
  have plat: "is_ok (create_run new_id now p st)"
    using assms(4,6) by (auto simp: create_run_def is_ok_iff bind_res_eq_Inr EvaluationRunCreate_def validated_Inr evaluation_run_create.defs)
  obtain v where v: "map_of (ps_agent_versions st) (run_agent_version_id p) = Some v"
    using assms(6) by (metis map_of_eq_None_keys not_None_eq)
  show ?thesis
  proof (cases "int4 (run_seed p)")
    case True
    then have "alike pg (serve_platform sha256 (StartRun new_id now p) st) (serve_postgres pg sha256 (StartRun new_id now p) db)"
      using serve_run [OF c assms(2-5)] by blast
    then have "is_ok (fst (pg_create_run pg new_id now p db))" using plat
      by (cases "create_run new_id now p st"; cases "pg_create_run pg new_id now p db"; cases "fst (pg_create_run pg new_id now p db)")
        (auto simp: alike_def lift_res_def wrap_res_def is_ok_iff)
    then show ?thesis using True plat by (simp add: int4_def)
  next
    case False
    then have "2 ^ 31 \<le> run_seed p" using seed by (simp add: int4_def)
    moreover have "pg_create_run pg new_id now p db = (Inl out_of_range, db)"
      using False v mirrored_version(1) [OF assms(2,3), of "run_agent_version_id p" "''agent version not found''"]
      by (simp add: pg_create_run_def commits [OF c] lookup_or_404_def insert_run_def commit_new_def evaluation_run_create.defs)
    ultimately show ?thesis using plat by simp
  qed
qed

section \<open>Examples\<close>

definition reversing_pg :: pg where
  "reversing_pg = \<lparr>pg_jsonb = (\<lambda>d. sort_key fst d), pg_scan_executions = rev, pg_scan_verdicts = rev,
     pg_commit_version = (\<lambda>row db.
       if list_ex (\<lambda>r. av_id r = av_id row) (db_versions db) then Inl (violates ''agent_versions_pkey'')
       else if list_ex (\<lambda>r. av_content_hash r = av_content_hash row) (db_versions db)
       then Inl (violates ''uq_agent_versions_content_hash'')
       else Inr (db\<lparr>db_versions := db_versions db @ [row\<lparr>av_config := sort_key fst (av_config row)\<rparr>]\<rparr>)),
     pg_commit_run = insert_run, pg_commit_execution = insert_execution, pg_commit_update = update_execution,
     pg_commit_event = (\<lambda>row db.
       if \<not> int4 (ev_sequence_no row) \<or> \<not> int4_option (ev_duration_ms row) then Inl out_of_range
       else if list_ex (\<lambda>r. ev_id r = ev_id row) (db_events db) then Inl (violates ''trace_events_pkey'')
       else if list_ex (\<lambda>r. ev_execution_id r = ev_execution_id row \<and> ev_sequence_no r = ev_sequence_no row) (db_events db)
       then Inl (violates ''uq_trace_events_execution_sequence'')
       else if \<not> list_ex (\<lambda>r. ex_id r = ev_execution_id row) (db_executions db)
       then Inl (violates ''trace_events_execution_id_fkey'')
       else Inr (db\<lparr>db_events := db_events db @ [row\<lparr>ev_payload := sort_key fst (ev_payload row)\<rparr>]\<rparr>)),
     pg_commit_verdict = insert_verdict\<rparr>"

lemma reversing_commits: "commits_ok reversing_pg"
  by (auto simp: commits_ok_def reversing_pg_def insert_version_def insert_event_def fun_eq_iff)

definition sample_requests :: "request list" where
  "sample_requests =
     [RegisterVersion (UUID 1) 5 sample_version_create,
      StartRun (UUID 2) 6 \<lparr>run_agent_version_id = UUID 1, run_suite_id = ''s'', run_suite_version = ''1'',
        run_suite_manifest_hash = ''0000000'', run_seed = 4\<rparr>]"

lemma sample_create_valid: "AgentVersionCreate sample_version_create = Inr sample_version_create"
  by (simp add: sample_version_create_def AgentVersionCreate_def validated_def length_in_def)

lemma sample_requests_admissible: "admissible_history (\<lambda>s. s) sample_requests empty_store"
  using sample_create_valid
  by (simp add: sample_requests_def lift_res_def create_agent_version_def empty_store_def Let_def AgentVersionCreate_def
      validated_def sample_version_create_def length_in_def agent_version_create.defs EvaluationRunCreate_def int4_def)

theorem postgres_refines_platform_witness:
  "reads_alike reversing_pg (snd (postgres_replies reversing_pg (\<lambda>s. s) sample_requests empty_database))
     (snd (platform_replies (\<lambda>s. s) sample_requests empty_store))"
proof -
  have "scans_ok reversing_pg" by (simp add: scans_ok_def reversing_pg_def)
  from postgres_refines_platform [OF reversing_commits this sample_requests_admissible] show ?thesis by blast
qed

theorem registration_survives_a_race_witness:
  "\<exists>w. pg_create_agent_version reversing_pg (\<lambda>s. s) (UUID 8) 6
      (\<lambda>d. snd (pg_create_agent_version reversing_pg (\<lambda>s. s) (UUID 9) 5 (\<lambda>d. d) sample_version_create d))
      (sample_version_create\<lparr>av_name := ''v2''\<rparr>) empty_database =
    (Inr w, snd (pg_create_agent_version reversing_pg (\<lambda>s. s) (UUID 9) 5 (\<lambda>d. d) sample_version_create empty_database))"
proof -
  have "\<not> list_ex P (db_versions empty_database)" for P by (simp add: empty_database_def)
  from registration_survives_a_race [OF reversing_commits sample_create_valid _ _ _ _ this this refl,
      of "sample_version_create\<lparr>av_name := ''v2''\<rparr>" "\<lambda>s. s" "UUID 9" 5 "UUID 8" 6]
  show ?thesis by auto
qed

definition pending_row :: task_execution where
  "pending_row = \<lparr>ex_task_id = ''t'', ex_task_seed = 0, ex_id = UUID 7, ex_run_id = UUID 10,
     ex_status = PENDING, ex_passed = None, ex_final_output = None, ex_latency_ms = None, ex_input_tokens = None,
     ex_output_tokens = None, ex_estimated_cost_usd = None, ex_missing_expected_actions = [],
     ex_forbidden_actions_seen = [], ex_final_state_mismatches = [], ex_created_at = 0, ex_finished_at = None\<rparr>"

definition pending_database :: database where
  "pending_database = empty_database\<lparr>db_executions := [pending_row]\<rparr>"

definition sample_outcome :: "execution_status \<Rightarrow> bool \<Rightarrow> task_execution_result" where
  "sample_outcome status passed = \<lparr>res_status = status, res_passed = passed, res_final_output = ''ok'', res_latency_ms = 1,
     res_input_tokens = 0, res_output_tokens = 0, res_estimated_cost_usd = 0, res_missing_expected_actions = [],
     res_forbidden_actions_seen = [], res_final_state_mismatches = []\<rparr>"

theorem concurrent_results_overwrite_witness:
  "\<exists>final. execution_row (UUID 7) (snd (pg_record_result reversing_pg 9
      (\<lambda>d. snd (pg_record_result reversing_pg 8 (\<lambda>d. d) (UUID 7) (sample_outcome FAILED False) d)) (UUID 7) (sample_outcome PASSED True)
      pending_database)) = Inr final \<and> ex_status final = PASSED \<and>
    fst (pg_record_result reversing_pg 8 (\<lambda>d. d) (UUID 7) (sample_outcome FAILED False) pending_database) =
      Inr (finalized 8 (sample_outcome FAILED False) pending_row)"
proof -
  have row: "execution_row (UUID 7) pending_database = Inr pending_row"
    by (simp add: execution_row_def row_or_404_def pending_database_def pending_row_def)
  have st: "ex_status pending_row \<in> {PENDING, RUNNING}" "ex_passed pending_row = None"
    "TaskExecutionCreate pending_row = Inr pending_row"
    by (simp_all add: pending_row_def TaskExecutionCreate_def validated_def length_in_def)
  have res: "TaskExecutionResult (sample_outcome PASSED True) = Inr (sample_outcome PASSED True)"
    "TaskExecutionResult (sample_outcome FAILED False) = Inr (sample_outcome FAILED False)"
    by (simp_all add: TaskExecutionResult_Inr sample_outcome_def)
  have fit: "int4 (res_latency_ms (sample_outcome s b)) \<and> int4 (res_input_tokens (sample_outcome s b)) \<and>
      int4 (res_output_tokens (sample_outcome s b))" for s b by (simp add: sample_outcome_def int4_def)
  from concurrent_results_overwrite [OF reversing_commits row st res fit fit refl, of 8 9] show ?thesis by (simp add: sample_outcome_def) blast
qed

theorem event_conflict_exact_witness:
  "fst (pg_append_trace_event reversing_pg 5 (UUID 7) \<lparr>ev_id = UUID 30, ev_sequence_no = 1, ev_event_type = FINAL_ANSWER,
       ev_payload = [], ev_parent_event_id = None, ev_duration_ms = None\<rparr>
     (pending_database\<lparr>db_events := [stored_event (UUID 6) 3 \<lparr>ev_id = UUID 30, ev_sequence_no = 0, ev_event_type = FINAL_ANSWER,
       ev_payload = [], ev_parent_event_id = None, ev_duration_ms = None\<rparr>]\<rparr>)) =
   Inl (http_error 409 ''duplicate trace sequence number'')"
proof -
  let ?p = "\<lparr>ev_id = UUID 30, ev_sequence_no = 1, ev_event_type = FINAL_ANSWER, ev_payload = [],
    ev_parent_event_id = None, ev_duration_ms = None\<rparr>"
  let ?db = "pending_database\<lparr>db_events := [stored_event (UUID 6) 3 \<lparr>ev_id = UUID 30, ev_sequence_no = 0, ev_event_type = FINAL_ANSWER,
       ev_payload = [], ev_parent_event_id = None, ev_duration_ms = None\<rparr>]\<rparr>"
  have "execution_row (UUID 7) ?db = Inr pending_row"
    by (simp add: execution_row_def row_or_404_def pending_database_def pending_row_def)
  moreover have "TraceEventCreate ?p = Inr ?p" by (simp add: TraceEventCreate_def validated_def non_negative_def)
  moreover have "int4 (ev_sequence_no ?p)" "int4_option (ev_duration_ms ?p)" by (simp_all add: int4_def int4_option_def)
  ultimately have e: "pg_append_trace_event reversing_pg 5 (UUID 7) ?p ?db = (if list_ex (\<lambda>r. ev_id r = ev_id ?p \<or>
      ev_execution_id r = UUID 7 \<and> ev_sequence_no r = ev_sequence_no ?p) (db_events ?db)
     then (Inl (http_error 409 ''duplicate trace sequence number''), ?db)
     else (Inr (stored_event (UUID 7) 5 (?p\<lparr>ev_payload := redact_payload (ev_payload ?p)\<rparr>)),
       ?db\<lparr>db_events := db_events ?db @ [stored_trace_event reversing_pg (stored_event (UUID 7) 5
         (?p\<lparr>ev_payload := redact_payload (ev_payload ?p)\<rparr>))]\<rparr>))" by (rule event_conflict_exact [OF reversing_commits])
  show ?thesis unfolding e by simp
qed

theorem run_seed_bound_witness:
  "pg_create_run reversing_pg (UUID 20) 5 \<lparr>run_agent_version_id = UUID 1, run_suite_id = ''s'', run_suite_version = ''1'',
        run_suite_manifest_hash = ''0000000'', run_seed = 2 ^ 31\<rparr>
     (snd (postgres_replies reversing_pg (\<lambda>s. s) sample_requests empty_database)) =
   (Inl out_of_range, snd (postgres_replies reversing_pg (\<lambda>s. s) sample_requests empty_database))"
proof -
  let ?st = "snd (platform_replies (\<lambda>s. s) sample_requests empty_store)"
  let ?p = "\<lparr>run_agent_version_id = UUID 1, run_suite_id = ''s'', run_suite_version = ''1'',
        run_suite_manifest_hash = ''0000000'', run_seed = 2 ^ 31\<rparr>"
  have h: "mirrors reversing_pg (snd (postgres_replies reversing_pg (\<lambda>s. s) sample_requests empty_database)) ?st"
    "store_ok (\<lambda>s. s) ?st"
    using histories_alike [OF reversing_commits store_ok_empty empty_mirrors sample_requests_admissible] by blast+
  have k: "keys (ps_agent_versions ?st) = [UUID 1]" "keys (ps_runs ?st) = [UUID 2]"
    using sample_create_valid
    by (simp_all add: sample_requests_def lift_res_def create_agent_version_def empty_store_def Let_def AgentVersionCreate_def
      validated_def sample_version_create_def length_in_def agent_version_create.defs EvaluationRunCreate_def create_run_def
      evaluation_run_create.defs)
  have "EvaluationRunCreate ?p = Inr ?p" by (simp add: EvaluationRunCreate_def validated_def length_in_def)
  from run_seed_bound [OF reversing_commits h(2,1) this, of "UUID 20" 5] k show ?thesis by simp
qed

end
