(* ===== verification/Api.thy ===== *)
theory Api
  imports PostgresStore Comparison Serialization
begin

text \<open>
  \<open>backend/app/main.py\<close> and the read-only contracts of \<open>schemas.py\<close>: the HTTP handlers over a store.
  A request is its parsed parameters; a response its status code and body. What FastAPI does is
  written out: a body or query parameter that fails its declared constraints is answered with 422
  before the handler runs, an \<open>HTTPException\<close> with its status code, any other exception with 500.
  Error texts of 422 only name the field.
\<close>

section \<open>Task contracts\<close>

text \<open>\<open>TaskContract\<close> with its nested \<open>ExpectedActionContract\<close> and \<open>ForbiddenActionContract\<close>, whose
  fields are those of the actions of a task.\<close>

record task_contract =
  tc_task_id :: string
  tc_input :: string
  tc_initial_state :: pydict
  tc_expected_actions :: "expected_action list"
  tc_forbidden_actions :: "forbidden_action list"
  tc_expected_final_state :: pydict
  tc_tags :: "string list"
  tc_difficulty :: string

fun str_value :: "string \<Rightarrow> pyval \<Rightarrow> (exc, string) res" where
  "str_value name (PStr s) = Inr s"
| "str_value name v = Inl (Raise ValidationError name)"

fun dict_value :: "string \<Rightarrow> pyval \<Rightarrow> (exc, pydict) res" where
  "dict_value name (PDict d) = Inr d"
| "dict_value name v = Inl (Raise ValidationError name)"

fun list_value :: "string \<Rightarrow> (pyval \<Rightarrow> (exc, 'a) res) \<Rightarrow> pyval \<Rightarrow> (exc, 'a list) res" where
  "list_value name item (PList vs) = map_res item vs"
| "list_value name item v = Inl (Raise ValidationError name)"

text \<open>A field of a model: one it requires, or one with the default of an empty dictionary.\<close>

definition model_field :: "(string \<Rightarrow> pyval \<Rightarrow> (exc, 'a) res) \<Rightarrow> string \<Rightarrow> pydict \<Rightarrow> (exc, 'a) res" where
  "model_field check name data =
     (case map_of data name of None \<Rightarrow> Inl (Raise ValidationError name) | Some v \<Rightarrow> check name v)"

definition dict_or_empty :: "string \<Rightarrow> pydict \<Rightarrow> (exc, pydict) res" where
  "dict_or_empty name data = (case map_of data name of None \<Rightarrow> Inr [] | Some v \<Rightarrow> dict_value name v)"

definition ExpectedActionContract :: "pydict \<Rightarrow> (exc, expected_action) res" where
  "ExpectedActionContract data =
     bind_res (model_field str_value ''service'' data) (\<lambda>service.
     bind_res (model_field str_value ''operation'' data) (\<lambda>operation.
     bind_res (dict_or_empty ''arguments'' data) (\<lambda>arguments.
       Inr \<lparr>ea_service = service, ea_operation = operation, ea_arguments = arguments\<rparr>)))"

definition ForbiddenActionContract :: "pydict \<Rightarrow> (exc, forbidden_action) res" where
  "ForbiddenActionContract data =
     bind_res (model_field str_value ''service'' data) (\<lambda>service.
     bind_res (model_field str_value ''operation'' data) (\<lambda>operation.
     bind_res (model_field str_value ''reason'' data) (\<lambda>reason.
     bind_res (dict_or_empty ''arguments'' data) (\<lambda>arguments.
       Inr \<lparr>fa_service = service, fa_operation = operation, fa_reason = reason, fa_arguments = arguments\<rparr>))))"

definition model_item :: "(pydict \<Rightarrow> (exc, 'a) res) \<Rightarrow> string \<Rightarrow> pyval \<Rightarrow> (exc, 'a list) res" where
  "model_item model name = list_value name (\<lambda>v. bind_res (dict_value name v) model)"

definition TaskContract :: "pydict \<Rightarrow> (exc, task_contract) res" where
  "TaskContract data =
     bind_res (model_field str_value ''task_id'' data) (\<lambda>task_id.
     bind_res (model_field str_value ''input'' data) (\<lambda>input.
     bind_res (model_field dict_value ''initial_state'' data) (\<lambda>initial_state.
     bind_res (model_field (model_item ExpectedActionContract) ''expected_actions'' data) (\<lambda>expected_actions.
     bind_res (model_field (model_item ForbiddenActionContract) ''forbidden_actions'' data) (\<lambda>forbidden_actions.
     bind_res (model_field dict_value ''expected_final_state'' data) (\<lambda>expected_final_state.
     bind_res (model_field (\<lambda>name. list_value name (str_value name)) ''tags'' data) (\<lambda>tags.
     bind_res (model_field str_value ''difficulty'' data) (\<lambda>difficulty.
       Inr \<lparr>tc_task_id = task_id, tc_input = input, tc_initial_state = initial_state,
         tc_expected_actions = expected_actions, tc_forbidden_actions = forbidden_actions,
         tc_expected_final_state = expected_final_state, tc_tags = tags, tc_difficulty = difficulty\<rparr>))))))))"

definition TASK_CONTRACTS :: "(string, pydict) dict" where
  "TASK_CONTRACTS =
     foldl (\<lambda>contracts task. dict_set (bt_task_id task) (task_to_dict (py_task_of task)) contracts) [] SEED_TASKS"

definition list_task_contracts :: "(exc, task_contract list) res" where
  "list_task_contracts = map_res TaskContract (values_of TASK_CONTRACTS)"

definition get_task_contract :: "string \<Rightarrow> (exc, task_contract) res" where
  "get_task_contract task_id =
     (case map_of TASK_CONTRACTS task_id of
        None \<Rightarrow> Inl (http_error 404 ''task not found'')
      | Some data \<Rightarrow> TaskContract data)"

section \<open>Handlers that read\<close>

definition list_run_executions ::
  "'s store_ops \<Rightarrow> uuid \<Rightarrow> string option \<Rightarrow> bool option \<Rightarrow> 's \<Rightarrow> (exc, task_execution list) res" where
  "list_run_executions ops run task_id passed st =
     bind_res (so_get_run_executions ops run st) (\<lambda>executions.
     let executions = (case task_id of
           None \<Rightarrow> executions
         | Some t \<Rightarrow> filter (\<lambda>execution. ex_task_id execution = t) executions);
       executions = (case passed of
           None \<Rightarrow> executions
         | Some p \<Rightarrow> filter (\<lambda>execution. ex_passed execution = Some p) executions)
     in Inr executions)"

text \<open>The page of a trace, with the value of its header \<open>X-Total-Count\<close>.\<close>

definition trace_page ::
  "'s store_ops \<Rightarrow> uuid \<Rightarrow> int option \<Rightarrow> int option \<Rightarrow> 's \<Rightarrow> (exc, string \<times> trace_event list) res" where
  "trace_page ops execution_id limit_param offset_param st =
     (let limit = (case limit_param of None \<Rightarrow> 200 | Some l \<Rightarrow> l);
          offset = (case offset_param of None \<Rightarrow> 0 | Some k \<Rightarrow> k) in
      if \<not> (1 \<le> limit \<and> limit \<le> 1000) then Inl (http_error 422 ''limit'')
      else if \<not> 0 \<le> offset then Inl (http_error 422 ''offset'')
      else
        bind_res (so_get_trace ops execution_id st) (\<lambda>events.
          Inr (int_text (int (length events)), take (nat limit) (drop (nat offset) events))))"

definition filtered_comparison ::
  "'s store_ops \<Rightarrow> (rat \<Rightarrow> rat \<Rightarrow> rat) \<Rightarrow> uuid \<Rightarrow> uuid \<Rightarrow> string option \<Rightarrow> regression_disposition option
     \<Rightarrow> trace_divergence_type option \<Rightarrow> 's \<Rightarrow> (exc, run_comparison) res" where
  "filtered_comparison ops cost_round baseline_run_id candidate_run_id task_id disp divergence_type st =
     bind_res (compare_runs ops cost_round baseline_run_id candidate_run_id st) (\<lambda>comparison.
     let results = rc_results comparison;
       results = (case task_id of
           None \<Rightarrow> results | Some t \<Rightarrow> filter (\<lambda>result. pc_task_id result = t) results);
       results = (case disp of
           None \<Rightarrow> results | Some d \<Rightarrow> filter (\<lambda>result. pc_disposition result = d) results);
       results = (case divergence_type of
           None \<Rightarrow> results
         | Some d \<Rightarrow> filter (\<lambda>result. case pc_attribution result of
               None \<Rightarrow> False | Some attribution \<Rightarrow> at_divergence_type attribution = d) results)
     in Inr (comparison\<lparr>rc_results := results\<rparr>))"

section \<open>The application\<close>

text \<open>The store \<open>create_app\<close> is given: what its operations are.\<close>

record 's app =
  app_ops :: "'s store_ops"
  app_write :: "request \<Rightarrow> 's \<Rightarrow> (exc, response) res \<times> 's"
  app_get_judge_verdicts :: "uuid \<Rightarrow> 's \<Rightarrow> (exc, judge_verdict list) res"

definition platform_app :: "(string \<Rightarrow> string) \<Rightarrow> platform_store app" where
  "platform_app sha256 =
     \<lparr>app_ops = platform_ops, app_write = serve_platform sha256, app_get_judge_verdicts = get_judge_verdicts\<rparr>"

datatype api_request =
    GetHealth
  | GetTasks
  | GetTask string
  | Post request
  | GetAgentVersion uuid
  | GetRunExecutions uuid "string option" "bool option"
  | GetExecution uuid
  | GetTrace uuid "int option" "int option"
  | GetVerdicts uuid
  | GetComparison uuid uuid "string option" "regression_disposition option" "trace_divergence_type option"

datatype api_body =
    HealthBody "(string, string) dict"
  | TasksBody "task_contract list"
  | TaskBody task_contract
  | StoredBody response
  | AgentVersionBody agent_version
  | ExecutionsBody "task_execution list"
  | ExecutionBody task_execution
  | TraceBody string "trace_event list"
  | VerdictsBody "judge_verdict list"
  | ComparisonBody run_comparison
  | ErrorBody string

text \<open>The model of the body, checked before the handler sees it.\<close>

fun check_body :: "request \<Rightarrow> (exc, unit) res" where
  "check_body (RegisterVersion new_id now p) = bind_res (AgentVersionCreate p) (\<lambda>_. Inr ())"
| "check_body (StartRun new_id now p) = bind_res (EvaluationRunCreate p) (\<lambda>_. Inr ())"
| "check_body (StartExecution new_id now run p) = bind_res (TaskExecutionCreate p) (\<lambda>_. Inr ())"
| "check_body (RecordResult now eid p) = bind_res (TaskExecutionResult p) (\<lambda>_. Inr ())"
| "check_body (AppendEvent now eid p) = bind_res (TraceEventCreate p) (\<lambda>_. Inr ())"
| "check_body (AppendVerdict new_id now eid p) = bind_res (JudgeVerdictCreate p) (\<lambda>_. Inr ())"

text \<open>\<open>status_code=201\<close> where the handler creates something; recording a result answers 200.\<close>

fun created_status :: "request \<Rightarrow> nat" where
  "created_status (RecordResult now eid p) = 200"
| "created_status r = 201"

definition status_of :: "exc \<Rightarrow> nat" where
  "status_of e = (case exc_of e of HTTPException n \<Rightarrow> n | _ \<Rightarrow> 500)"

definition detail_of :: "exc \<Rightarrow> string" where
  "detail_of e = (case exc_of e of HTTPException n \<Rightarrow> exc_text e | _ \<Rightarrow> ''Internal Server Error'')"

definition reply :: "nat \<Rightarrow> ('a \<Rightarrow> api_body) \<Rightarrow> (exc, 'a) res \<Rightarrow> nat \<times> api_body" where
  "reply code wrap r =
     (case r of Inr x \<Rightarrow> (code, wrap x) | Inl e \<Rightarrow> (status_of e, ErrorBody (detail_of e)))"

fun handle :: "'s app \<Rightarrow> (rat \<Rightarrow> rat \<Rightarrow> rat) \<Rightarrow> api_request \<Rightarrow> 's \<Rightarrow> (nat \<times> api_body) \<times> 's" where
  "handle app cost_round GetHealth st = (reply 200 HealthBody (Inr [(''status'', ''ok'')]), st)"
| "handle app cost_round GetTasks st = (reply 200 TasksBody list_task_contracts, st)"
| "handle app cost_round (GetTask task_id) st = (reply 200 TaskBody (get_task_contract task_id), st)"
| "handle app cost_round (Post r) st =
     (case check_body r of
        Inl e \<Rightarrow> ((422, ErrorBody (exc_text e)), st)
      | Inr _ \<Rightarrow> map_prod (reply (created_status r) StoredBody) id (app_write app r st))"
| "handle app cost_round (GetAgentVersion vid) st =
     (reply 200 AgentVersionBody (so_get_agent_version (app_ops app) vid st), st)"
| "handle app cost_round (GetRunExecutions run task_id passed) st =
     (reply 200 ExecutionsBody (list_run_executions (app_ops app) run task_id passed st), st)"
| "handle app cost_round (GetExecution eid) st =
     (reply 200 ExecutionBody (so_get_execution (app_ops app) eid st), st)"
| "handle app cost_round (GetTrace eid limit offset) st =
     (reply 200 (case_prod TraceBody) (trace_page (app_ops app) eid limit offset st), st)"
| "handle app cost_round (GetVerdicts eid) st =
     (reply 200 VerdictsBody (app_get_judge_verdicts app eid st), st)"
| "handle app cost_round (GetComparison b c task_id disp divergence_type) st =
     (reply 200 ComparisonBody (filtered_comparison (app_ops app) cost_round b c task_id disp divergence_type st), st)"

fun handle_all ::
  "'s app \<Rightarrow> (rat \<Rightarrow> rat \<Rightarrow> rat) \<Rightarrow> api_request list \<Rightarrow> 's \<Rightarrow> (nat \<times> api_body) list \<times> 's" where
  "handle_all app cost_round [] st = ([], st)"
| "handle_all app cost_round (r # rs) st =
     (case handle app cost_round r st of (answer, st') \<Rightarrow>
        case handle_all app cost_round rs st' of (answers, st'') \<Rightarrow> (answer # answers, st''))"

section \<open>The contracts served\<close>

definition contract_of :: "benchmark_task \<Rightarrow> task_contract" where
  "contract_of t =
     \<lparr>tc_task_id = bt_task_id t, tc_input = bt_input t, tc_initial_state = bt_initial_state t,
      tc_expected_actions = bt_expected_actions t, tc_forbidden_actions = bt_forbidden_actions t,
      tc_expected_final_state = bt_expected_final_state t, tc_tags = bt_tags t,
      tc_difficulty = difficulty_value (bt_difficulty t)\<rparr>"

lemma ExpectedActionContract_dict: "ExpectedActionContract (expected_action_to_dict (py_expected a)) = Inr a"
  by (simp add: ExpectedActionContract_def expected_action_to_dict_def py_expected_def model_field_def dict_or_empty_def)

lemma ForbiddenActionContract_dict: "ForbiddenActionContract (forbidden_action_to_dict (py_forbidden a)) = Inr a"
  by (simp add: ForbiddenActionContract_def forbidden_action_to_dict_def py_forbidden_def model_field_def dict_or_empty_def)

lemma action_lists:
  "map_res (\<lambda>v. bind_res (dict_value name v) ExpectedActionContract)
     (map (\<lambda>a. PDict (expected_action_to_dict (py_expected a))) expected) = Inr expected"
  "map_res (\<lambda>v. bind_res (dict_value name v) ForbiddenActionContract)
     (map (\<lambda>a. PDict (forbidden_action_to_dict (py_forbidden a))) forbidden) = Inr forbidden"
  "map_res (str_value name) (map PStr tags) = Inr tags"
  by (induction expected, simp_all add: ExpectedActionContract_dict)
    (induction forbidden, simp_all add: ForbiddenActionContract_dict, induction tags, simp_all)

lemma TaskContract_dict: "TaskContract (task_to_dict (py_task_of t)) = Inr (contract_of t)"
  by (simp add: TaskContract_def task_to_dict_def py_task_of_def model_field_def contract_of_def model_item_def
      comp_def action_lists)

lemma foldl_dict_set:
  "distinct (map f xs) \<Longrightarrow> f ` set xs \<inter> set (keys d) = {} \<Longrightarrow>
     foldl (\<lambda>d x. dict_set (f x) (g x) d) d xs = d @ map (\<lambda>x. (f x, g x)) xs"
proof (induction xs arbitrary: d)
  case (Cons x xs)
  then have "dict_set (f x) (g x) d = d @ [(f x, g x)]" by (simp add: dict_set_fresh)
  then show ?case using Cons.IH [of "d @ [(f x, g x)]"] Cons.prems by auto
qed simp

lemma distinct_task_ids: "distinct (map bt_task_id SEED_TASKS)"
  by code_simp

lemma TASK_CONTRACTS_eq: "TASK_CONTRACTS = map (\<lambda>t. (bt_task_id t, task_to_dict (py_task_of t))) SEED_TASKS"
  unfolding TASK_CONTRACTS_def by (subst foldl_dict_set [OF distinct_task_ids]) simp_all

lemma list_task_contracts_eq: "list_task_contracts = Inr (map contract_of SEED_TASKS)"
proof -
  have "map_res TaskContract (map (\<lambda>t. task_to_dict (py_task_of t)) ts) = Inr (map contract_of ts)" for ts
    by (induction ts) (simp_all add: TaskContract_dict)
  then show ?thesis by (simp add: list_task_contracts_def TASK_CONTRACTS_eq comp_def)
qed

lemma get_task_contract_eq:
  "get_task_contract task_id = (case List.find (\<lambda>t. bt_task_id t = task_id) SEED_TASKS of
     Some t \<Rightarrow> Inr (contract_of t) | None \<Rightarrow> Inl (http_error 404 ''task not found''))"
proof -
  have "map_of (map (\<lambda>t. (bt_task_id t, task_to_dict (py_task_of t))) ts) task_id =
      map_option (\<lambda>t. task_to_dict (py_task_of t)) (List.find (\<lambda>t. bt_task_id t = task_id) ts)" for ts
    by (induction ts) auto
  then show ?thesis by (simp add: get_task_contract_def TASK_CONTRACTS_eq TaskContract_dict split: option.split)
qed

text \<open>The task endpoints serve the seed suite: the listing is the ten contracts in order, a task
  is found under its identifier exactly when the suite has it, and any other identifier is a 404.\<close>

theorem served_tasks_are_the_suite:
  "list_task_contracts = Inr (map contract_of SEED_TASKS) \<and> length SEED_TASKS = 10 \<and>
   get_task_contract task_id = (case List.find (\<lambda>t. bt_task_id t = task_id) SEED_TASKS of
     Some t \<Rightarrow> Inr (contract_of t) | None \<Rightarrow> Inl (http_error 404 ''task not found''))"
  by (simp add: list_task_contracts_eq get_task_contract_eq SEED_TASKS_def del: list.map find.simps)

section \<open>Pages and filters\<close>

lemma concat_pages: "length xs \<le> n * l \<Longrightarrow> concat (map (\<lambda>i. take l (drop (i * l) xs)) [0..<n]) = xs"
proof (induction n arbitrary: xs)
  case (Suc n)
  have "concat (map (\<lambda>i. take l (drop (i * l) xs)) [0..<Suc n]) =
      take l xs @ concat (map (\<lambda>i. take l (drop (i * l) (drop l xs))) [0..<n])"
    by (simp add: upt_conv_Cons del: upt_Suc flip: map_Suc_upt) (simp add: comp_def add.commute)
  also have "\<dots> = xs" using Suc.IH [of "drop l xs"] Suc.prems by (simp add: add.commute)
  finally show ?case .
qed simp

text \<open>Reading a trace page by page loses and repeats nothing: for any admitted page size the
  consecutive pages, concatenated, are the whole trace, and each carries its total length.\<close>

theorem trace_pages_are_the_trace:
  assumes "so_get_trace ops eid st = Inr events" and "1 \<le> l" and "l \<le> 1000" and "length events \<le> n * l"
  shows "\<exists>pages. map_res (\<lambda>i. trace_page ops eid (Some (int l)) (Some (int (i * l))) st) [0..<n] = Inr pages \<and>
    concat (map snd pages) = events \<and> (\<forall>p \<in> set pages. fst p = int_text (int (length events)) \<and> length (snd p) \<le> l)"
proof -
  let ?page = "\<lambda>i. (int_text (int (length events)), take l (drop (i * l) events))"
  have "trace_page ops eid (Some (int l)) (Some (int (i * l))) st = Inr (?page i)" for i
    using assms(1-3) by (simp add: trace_page_def nat_mult_distrib del: of_nat_mult)
  then have "map_res (\<lambda>i. trace_page ops eid (Some (int l)) (Some (int (i * l))) st) [0..<n] = Inr (map ?page [0..<n])"
    by (intro map_res_all_ok)
  then show ?thesis using concat_pages [OF assms(4)] by (auto simp: comp_def)
qed

text \<open>The filters of a comparison select its results and nothing else: the answer is the
  comparison with only the results that meet every filter, in order, under the counts of the
  unfiltered comparison.\<close>

theorem comparison_filters_select:
  "filtered_comparison ops cost_round b c task_id disp kind st =
     bind_res (compare_runs ops cost_round b c st) (\<lambda>full. Inr (full\<lparr>rc_results :=
       filter (\<lambda>r. (task_id = None \<or> task_id = Some (pc_task_id r)) \<and> (disp = None \<or> disp = Some (pc_disposition r)) \<and>
         (kind = None \<or> (\<exists>a. pc_attribution r = Some a \<and> kind = Some (at_divergence_type a)))) (rc_results full)\<rparr>))"
proof -
  have att: "(case pc_attribution r of None \<Rightarrow> False | Some a \<Rightarrow> at_divergence_type a = d) \<longleftrightarrow>
      (\<exists>a. pc_attribution r = Some a \<and> d = at_divergence_type a)" for r d by (auto split: option.splits)
  show ?thesis
    unfolding filtered_comparison_def Let_def
    by (rule arg_cong [where f = "bind_res _"])
      (auto simp: fun_eq_iff att filter_filter conj_ac eq_commute split: option.splits intro!: filter_cong)
qed

section \<open>The application on the in-memory store\<close>

lemma reply_ok [simp]: "reply code wrap (Inr x) = (code, wrap x)"
  by (simp add: reply_def)

text \<open>The errors the store answers with.\<close>

definition answered :: "(exc, 'a) res \<Rightarrow> bool" where
  "answered r \<longleftrightarrow> (\<forall>e. r = Inl e \<longrightarrow> status_of e \<in> {404, 409, 422})"

lemma answered_Inr [simp]: "answered (Inr x)"
  by (simp add: answered_def)

lemma answered_http [simp]: "code \<in> {404, 409, 422} \<Longrightarrow> answered (Inl (http_error code detail))"
  by (simp add: answered_def http_error_def status_of_def)

lemma answered_bind: "answered r \<Longrightarrow> (\<And>x. r = Inr x \<Longrightarrow> answered (f x)) \<Longrightarrow> answered (bind_res r f)"
  by (cases r) (auto simp: answered_def)

lemma answered_lookup: "answered (lookup_or_404 d k detail)"
  by (simp add: lookup_or_404_def split: option.split)

lemma answered_reads:
  "answered (get_agent_version k st)" "answered (get_execution k st)" "answered (get_run_executions k st)"
  "answered (get_trace k st)" "answered (get_judge_verdicts k st)"
  by (auto simp: get_agent_version_def get_execution_def get_run_executions_def get_trace_def get_judge_verdicts_def
      intro: answered_lookup answered_bind)

lemma reply_answered:
  "answered r \<Longrightarrow> fst (reply code wrap r) \<in> {code, 404, 409, 422}"
  by (auto simp: answered_def reply_def split: sum.splits)

definition read_status :: "nat \<Rightarrow> bool" where
  "read_status code \<longleftrightarrow> code \<in> {200, 404, 409, 422}"

lemma get_reply: "reply 200 wrap r = (code, body) \<Longrightarrow> answered r \<Longrightarrow> read_status code"
  using reply_answered [of r 200 wrap] by (simp add: read_status_def)

lemma answered_tasks: "answered list_task_contracts" "answered (get_task_contract task_id)"
  by (simp_all add: list_task_contracts_eq get_task_contract_eq split: option.split)

lemma by_task_loop_answered: "answered (by_task_loop es d)"
  by (induction es arbitrary: d) (auto simp: by_task_step_def intro: answered_bind)

text \<open>On the in-memory store comparing two runs fails only with the errors it declares.\<close>

lemma answered_compare:
  assumes ok: "store_ok sha256 st"
  shows "answered (compare_runs platform_ops cost_round b c st)"
  unfolding compare_runs_def
proof (intro answered_bind)
  show "answered (so_get_run_executions platform_ops b st)" by (simp add: platform_ops_def answered_reads)
  show "answered (so_get_run_executions platform_ops c st)" by (simp add: platform_ops_def answered_reads)
next
  fix lefts baseline rights candidate
  assume l: "so_get_run_executions platform_ops b st = Inr lefts" "by_task lefts = Inr baseline"
    and r: "so_get_run_executions platform_ops c st = Inr rights" "by_task rights = Inr candidate"
  show "answered (if shared_task_ids baseline candidate = [] then Inl (http_error 422 ''runs have no shared task ids to compare'')
     else bind_res (map_res (compare_task platform_ops cost_round st baseline candidate) (shared_task_ids baseline candidate))
           (\<lambda>results. Inr \<lparr>rc_baseline_run_id = b, rc_candidate_run_id = c, rc_compared_tasks = length results,
             rc_regressions = length (filter (\<lambda>item. pc_disposition item = REGRESSION) results),
             rc_improvements = length (filter (\<lambda>item. pc_disposition item = IMPROVEMENT) results),
             rc_results = results\<rparr>))" (is "answered ?r")
  proof (cases "shared_task_ids baseline candidate = []")
    case False
    have "distinct (map ex_task_id lefts)" "distinct (map ex_task_id rights)"
      using l(2) r(2) by (simp_all add: by_task_Inr)
    moreover have "ex_task_id ` set lefts \<inter> ex_task_id ` set rights \<noteq> {}"
      using False l(2) r(2) by (auto simp: by_task_Inr shared_task_ids_def image_image)
    ultimately obtain full where "compare_runs platform_ops cost_round b c st = Inr full"
      using compare_runs_total [OF l(1) r(1)] platform_run_executions [OF ok l(1)] platform_run_executions [OF ok r(1)]
      by blast
    then have "?r = Inr full" using l r by (simp add: compare_runs_def)
    then show ?thesis by simp
  qed simp
qed (simp_all add: by_task_def by_task_loop_answered)

lemma answered_handlers:
  assumes "store_ok sha256 st"
  shows "answered (list_run_executions platform_ops run task_id passed st)"
    "answered (trace_page platform_ops eid limit offset st)"
    "answered (filtered_comparison platform_ops cost_round b c task_id disp kind st)"
  using answered_compare [OF assms]
  by (auto simp: list_run_executions_def trace_page_def filtered_comparison_def Let_def platform_ops_def
      intro!: answered_bind answered_reads)

text \<open>Identifiers drawn for a request that no row has yet.\<close>

fun fresh_ids :: "api_request \<Rightarrow> platform_store \<Rightarrow> bool" where
  "fresh_ids (Post (RegisterVersion new_id now p)) st \<longleftrightarrow> new_id \<notin> set (keys (ps_agent_versions st))"
| "fresh_ids (Post (StartRun new_id now p)) st \<longleftrightarrow> new_id \<notin> set (keys (ps_runs st))"
| "fresh_ids (Post (StartExecution new_id now run p)) st \<longleftrightarrow> new_id \<notin> set (keys (ps_executions st))"
| "fresh_ids r st \<longleftrightarrow> True"

lemma valid_extensions:
  "AgentVersionCreate p = Inr p \<Longrightarrow> AgentVersionCreate (agent_version_create.extend p a) = Inr (agent_version_create.extend p a)"
  "EvaluationRunCreate r = Inr r \<Longrightarrow> EvaluationRunCreate (evaluation_run_create.extend r b) = Inr (evaluation_run_create.extend r b)"
  "TaskExecutionCreate e = Inr e \<Longrightarrow> TaskExecutionCreate (task_execution_create.extend e c) = Inr (task_execution_create.extend e c)"
  "JudgeVerdictCreate v = Inr v \<Longrightarrow> JudgeVerdictCreate (judge_verdict_create.extend v d) = Inr (judge_verdict_create.extend v d)"
  by (simp_all add: AgentVersionCreate_def EvaluationRunCreate_def TaskExecutionCreate_def JudgeVerdictCreate_def
      validated_Inr agent_version_create.defs evaluation_run_create.defs task_execution_create.defs judge_verdict_create.defs)

lemma answered_writes:
  "AgentVersionCreate p = Inr p \<Longrightarrow> answered (create_agent_version sha256 new_id now p st)"
  "EvaluationRunCreate r = Inr r \<Longrightarrow> answered (create_run new_id now r st)"
  "TaskExecutionCreate e = Inr e \<Longrightarrow> answered (create_execution new_id now run e st)"
  "answered (record_result now eid o' st)"
  "TraceEventCreate ev = Inr ev \<Longrightarrow> answered (append_trace_event now eid ev st)"
  "JudgeVerdictCreate v = Inr v \<Longrightarrow> answered (append_judge_verdict new_id now eid v st)"
  by (auto simp: create_agent_version_def create_run_def create_execution_def record_result_def append_trace_event_def
      append_judge_verdict_def Let_def valid_extensions TraceEventCreate_def validated_Inr validated_total
      stored_event_def trace_event_create.defs
      intro!: answered_bind answered_reads split: option.split)

text \<open>A write of the in-memory store behind a checked body: the step it is, or the error it answers.\<close>

lemma lift_step:
  assumes "answered r" and "\<And>x s. r = Inr (x, s) \<Longrightarrow> P s" and "lift_res wrap st r = (answer, st')"
  shows "answered answer \<and> (if is_ok answer then P st' else st' = st)"
  using assms by (auto simp: lift_res_def answered_def split: sum.splits prod.splits)

lemma check_body_valid:
  "check_body (RegisterVersion i n p1) = Inr u \<Longrightarrow> AgentVersionCreate p1 = Inr p1"
  "check_body (StartRun i n p2) = Inr u \<Longrightarrow> EvaluationRunCreate p2 = Inr p2"
  "check_body (StartExecution i n run p3) = Inr u \<Longrightarrow> TaskExecutionCreate p3 = Inr p3"
  "check_body (RecordResult n eid p4) = Inr u \<Longrightarrow> TaskExecutionResult p4 = Inr p4"
  "check_body (AppendEvent n eid p5) = Inr u \<Longrightarrow> TraceEventCreate p5 = Inr p5"
  "check_body (AppendVerdict i n eid p6) = Inr u \<Longrightarrow> JudgeVerdictCreate p6 = Inr p6"
  by (auto simp: bind_res_eq_Inr AgentVersionCreate_def EvaluationRunCreate_def TaskExecutionCreate_def
      TaskExecutionResult_Inr TraceEventCreate_def JudgeVerdictCreate_def validated_Inr)

lemma write_step:
  assumes "check_body r = Inr u" and "fresh_ids (Post r) st" and "serve_platform sha256 r st = (answer, st')"
  shows "answered answer \<and> (if is_ok answer then store_step sha256 st st' else st' = st)"
proof (cases r)
  case (RegisterVersion new_id now p)
  with assms check_body_valid(1) store_step.version show ?thesis
    by (intro lift_step [OF answered_writes(1)]) auto
next
  case (StartRun new_id now p)
  with assms check_body_valid(2) store_step.run show ?thesis
    by (intro lift_step [OF answered_writes(2)]) auto
next
  case (StartExecution new_id now run p)
  with assms check_body_valid(3) store_step.execution show ?thesis
    by (intro lift_step [OF answered_writes(3)]) auto
next
  case (RecordResult now eid p)
  have "TaskExecutionResult p = Inr p" using assms(1) unfolding RecordResult by (rule check_body_valid(4))
  with assms RecordResult store_step.result show ?thesis
    by (intro lift_step [OF answered_writes(4)]) auto
next
  case (AppendEvent now eid p)
  with assms check_body_valid(5) store_step.event show ?thesis
    by (intro lift_step [OF answered_writes(5)]) auto
next
  case (AppendVerdict new_id now eid p)
  with assms check_body_valid(6) store_step.verdict show ?thesis
    by (intro lift_step [OF answered_writes(6)]) auto
qed

lemma handle_step:
  assumes ok: "store_ok sha256 st" and fresh: "fresh_ids r st"
    and h: "handle (platform_app sha256) cost_round r st = ((code, body), st')"
  shows "code \<in> {200, 201, 404, 409, 422} \<and> store_ok sha256 st' \<and> store_grows st st' \<and> (code \<notin> {200, 201} \<longrightarrow> st' = st)"
proof (cases "\<exists>w. r = Post w")
  case True
  then obtain w where r: "r = Post w" by blast
  show ?thesis
  proof (cases "check_body w")
    case (Inl e)
    then show ?thesis using h ok r by simp
  next
    case (Inr u)
    obtain answer where w: "serve_platform sha256 w st = (answer, st')" "(code, body) = reply (created_status w) StoredBody answer"
      using h r Inr by (cases "serve_platform sha256 w st") (auto simp: platform_app_def)
    have step: "answered answer" "if is_ok answer then store_step sha256 st st' else st' = st"
      using write_step [OF Inr _ w(1)] fresh r by blast+
    have "created_status w \<in> {200, 201}" by (cases w) simp_all
    then have "code \<in> {200, 201, 404, 409, 422} \<and> (code \<notin> {200, 201} \<longrightarrow> \<not> is_ok answer)"
      using reply_answered [OF step(1), of "created_status w" StoredBody] w(2) by (cases answer) (auto simp: reply_def)
    moreover have "store_ok sha256 st' \<and> store_grows st st'"
      using step(2) store_step_ok ok by (auto split: if_splits)
    ultimately show ?thesis using step(2) by (auto split: if_splits)
  qed
next
  case False
  have app: "app_ops (platform_app sha256) = platform_ops" "app_get_judge_verdicts (platform_app sha256) = get_judge_verdicts"
    by (simp_all add: platform_app_def)
  have "answered (so_get_agent_version platform_ops k st)" "answered (so_get_execution platform_ops k st)" for k
    by (simp_all add: platform_ops_def answered_reads)
  then have "st' = st \<and> read_status code"
    using h False answered_tasks answered_handlers [OF ok] answered_reads(5) answered_Inr
    by (cases r) (auto simp: app simp del: reply_ok intro: get_reply)
  then show ?thesis using ok by (auto simp: read_status_def)
qed

fun fresh_history :: "(string \<Rightarrow> string) \<Rightarrow> (rat \<Rightarrow> rat \<Rightarrow> rat) \<Rightarrow> api_request list \<Rightarrow> platform_store \<Rightarrow> bool" where
  "fresh_history sha256 cost_round [] st \<longleftrightarrow> True"
| "fresh_history sha256 cost_round (r # rs) st \<longleftrightarrow>
     fresh_ids r st \<and> fresh_history sha256 cost_round rs (snd (handle (platform_app sha256) cost_round r st))"

lemma handle_all_step:
  "store_ok sha256 st \<Longrightarrow> fresh_history sha256 cost_round rs st \<Longrightarrow>
     handle_all (platform_app sha256) cost_round rs st = (answers, st') \<Longrightarrow>
     fst ` set answers \<subseteq> {200, 201, 404, 409, 422} \<and> store_ok sha256 st' \<and> store_grows st st' \<and>
     (fst ` set answers \<inter> {200, 201} = {} \<longrightarrow> st' = st)"
proof (induction rs arbitrary: st st' answers)
  case (Cons r rs)
  obtain code body s1 where h: "handle (platform_app sha256) cost_round r st = ((code, body), s1)"
    by (metis surj_pair)
  obtain as s2 where t: "handle_all (platform_app sha256) cost_round rs s1 = (as, s2)" by fastforce
  have a: "answers = (code, body) # as" "st' = s2" using Cons.prems(3) h t by simp_all
  have fresh: "fresh_ids r st" "fresh_history sha256 cost_round rs s1" using Cons.prems(2) h by simp_all
  note step = handle_step [OF Cons.prems(1) fresh(1) h]
  then have ok1: "store_ok sha256 s1" by blast
  note rest = Cons.IH [OF ok1 fresh(2) t]
  have "store_grows st s2" using step rest store_grows_trans by blast
  moreover have "fst ` set answers \<inter> {200, 201} = {} \<longrightarrow> s2 = st" using step rest a by auto
  ultimately show ?case using step rest a by auto
qed simp

text \<open>C9: Whatever requests the API gets on the in-memory store, in any order, it answers each with a
  success or one of the errors it declares - never with an internal error -, the store keeps its
  invariant, nothing stored is lost, and a request that is answered with an error changes nothing.\<close>

theorem api_never_fails_internally:
  assumes "fresh_history sha256 cost_round (requests @ [r]) empty_store"
    and "handle_all (platform_app sha256) cost_round requests empty_store = (answers, st)"
    and "handle (platform_app sha256) cost_round r st = ((code, body), st')"
  shows "fst ` set answers \<subseteq> {200, 201, 404, 409, 422} \<and> code \<in> {200, 201, 404, 409, 422} \<and>
    store_ok sha256 st' \<and> store_grows st st' \<and> (code \<notin> {200, 201} \<longrightarrow> st' = st)"
proof -
  have split: "fresh_history sha256 cost_round (rs @ [r]) s \<longleftrightarrow> fresh_history sha256 cost_round rs s \<and>
      fresh_ids r (snd (handle_all (platform_app sha256) cost_round rs s))" for rs s
    by (induction rs arbitrary: s) (auto split: prod.splits)
  then have "fresh_history sha256 cost_round requests empty_store" "fresh_ids r st" using assms(1,2) by simp_all
  then show ?thesis
    using handle_all_step [OF store_ok_empty _ assms(2)] handle_step [OF _ _ assms(3)] by blast
qed

text \<open>A deployment registered, a run started for it, and reads of what is there and what is not.\<close>

definition sample_api_history :: "api_request list" where
  "sample_api_history =
     [Post (RegisterVersion (UUID 1) 0 sample_version_create), GetHealth, GetExecution (UUID 9),
      GetTrace (UUID 9) (Some 0) None]"

lemma sample_api_history_facts:
  "fresh_history (\<lambda>s. s) (-) (sample_api_history @ [GetAgentVersion (UUID 1)]) empty_store"
  by (simp add: sample_api_history_def empty_store_def)

theorem api_never_fails_internally_witness:
  "\<exists>answers st body. handle_all (platform_app (\<lambda>s. s)) (-) sample_api_history empty_store = (answers, st) \<and>
    fst ` set answers \<subseteq> {200, 201, 404, 409, 422} \<and> map fst answers = [201, 200, 404, 422] \<and>
    handle (platform_app (\<lambda>s. s)) (-) (GetAgentVersion (UUID 1)) st = ((200, body), st) \<and> store_ok (\<lambda>s. s) st"
proof -
  let ?run = "handle_all (platform_app (\<lambda>s. s)) (-) sample_api_history empty_store"
  let ?read = "\<lambda>st. handle (platform_app (\<lambda>s. s)) (-) (GetAgentVersion (UUID 1)) st"
  obtain answers st where run: "?run = (answers, st)" by (metis surj_pair)
  have "map fst (fst ?run) = [201, 200, 404, 422]" "fst (fst (?read (snd ?run))) = 200" by code_simp+
  then have codes: "map fst answers = [201, 200, 404, 422]" "fst (fst (?read st)) = 200"
    by (simp_all only: run fst_conv snd_conv)
  moreover have "snd (?read st) = st" by simp
  ultimately have last: "?read st = ((200, snd (fst (?read st))), st)" by (metis prod.collapse)
  note facts = api_never_fails_internally [OF sample_api_history_facts run last]
  show ?thesis
    by (rule exI [of _ answers], rule exI [of _ st], rule exI [of _ "snd (fst (?read st))"], intro conjI)
      (use facts run codes(1) last in simp_all)
qed

definition three_events :: "trace_event list" where
  "three_events = map (\<lambda>n. sample_event\<lparr>ev_sequence_no := n\<rparr>) [0, 1, 2]"

theorem trace_pages_are_the_trace_witness:
  "\<exists>pages. map_res (\<lambda>i. trace_page platform_ops (UUID 20) (Some (int 2)) (Some (int (i * 2)))
      (sample_platform\<lparr>ps_events := (\<lambda>_. three_events)\<rparr>)) [0..<2] = Inr pages \<and> concat (map snd pages) = three_events"
proof -
  have "so_get_trace platform_ops (UUID 20) (sample_platform\<lparr>ps_events := (\<lambda>_. three_events)\<rparr>) = Inr three_events"
    by (simp add: platform_ops_def get_trace_def get_execution_def lookup_or_404_def sample_platform_def)
  from trace_pages_are_the_trace [OF this, of 2 2] show ?thesis by (auto simp: three_events_def)
qed

end
