(* ===== verification/Gold.thy ===== *)
theory Gold
  imports Serialization Judges
begin

text \<open>
  \<open>judges/gold.py\<close>: human labels for tasks, their file, and how often a judge agrees with them. Like
  the loaders of suites, the loader of labels builds objects whose attributes are whatever the file
  holds (\<open>declared\<close> are those of the annotated types). \<open>isoformat\<close> and \<open>fromisoformat\<close> are the
  parameters \<open>isofmt\<close> and \<open>from_iso\<close> (\<open>None\<close>: it raises \<open>ValueError\<close>).
\<close>

section \<open>Labels and their file\<close>

record gold_label =
  gl_task_id :: pyval
  gl_label :: pyval
  gl_rationale :: pyval
  gl_labeler :: pyval
  gl_labeled_at :: datetime

definition gold_label_to_dict :: "(datetime \<Rightarrow> string) \<Rightarrow> gold_label \<Rightarrow> pydict" where
  "gold_label_to_dict isofmt gold =
     [(''task_id'', gl_task_id gold), (''label'', gl_label gold), (''rationale'', gl_rationale gold),
      (''labeler'', gl_labeler gold), (''labeled_at'', PStr (isofmt (gl_labeled_at gold)))]"

definition fromisoformat :: "(string \<Rightarrow> datetime option) \<Rightarrow> pyval \<Rightarrow> (exc, datetime) res" where
  "fromisoformat from_iso v =
     (case v of
        PStr s \<Rightarrow> (case from_iso s of
            None \<Rightarrow> Inl (Raise ValueError (''Invalid isoformat string: '' @ repr_str s)) | Some d \<Rightarrow> Inr d)
      | _ \<Rightarrow> Inl (Raise TypeError ''fromisoformat: argument must be str''))"

definition gold_label_from_dict :: "(string \<Rightarrow> datetime option) \<Rightarrow> pyval \<Rightarrow> (exc, gold_label) res" where
  "gold_label_from_dict from_iso data =
     bind_res (py_getitem data ''task_id'') (\<lambda>task_id.
     bind_res (py_getitem data ''label'') (\<lambda>label.
     bind_res (py_getitem data ''rationale'') (\<lambda>rationale.
     bind_res (py_getitem data ''labeler'') (\<lambda>labeler.
     bind_res (bind_res (py_getitem data ''labeled_at'') (fromisoformat from_iso)) (\<lambda>labeled_at.
       Inr \<lparr>gl_task_id = task_id, gl_label = label, gl_rationale = rationale, gl_labeler = labeler,
         gl_labeled_at = labeled_at\<rparr>)))))"

text \<open>\<open>_index_by_task_id\<close>: a dictionary whose keys are any hashable values.\<close>

type_synonym gold_index = "(pyval \<times> gold_label) list"

definition index_get :: "gold_index \<Rightarrow> pyval \<Rightarrow> gold_label option" where
  "index_get index k = map_option snd (List.find (\<lambda>(key, gold). py_eq key k) index)"

definition duplicate_label :: "string \<Rightarrow> exc" where
  "duplicate_label task_id = Raise DuplicateGoldLabelError (''Duplicate gold label for task: '' @ task_id)"

fun index_loop :: "gold_label list \<Rightarrow> gold_index \<Rightarrow> (exc, gold_index) res" where
  "index_loop [] index = Inr index"
| "index_loop (label # labels) index =
     (if \<not> hashable (gl_task_id label) then Inl (unhashable (gl_task_id label))
      else if index_get index (gl_task_id label) \<noteq> None
      then Inl (duplicate_label (py_str (gl_task_id label)))
      else index_loop labels (index @ [(gl_task_id label, label)]))"

definition index_by_task_id :: "gold_label list \<Rightarrow> (exc, gold_index) res" where
  "index_by_task_id labels = index_loop labels []"

text \<open>\<open>save_gold_labels\<close>: the text it writes, when it gets that far.\<close>

definition save_gold_labels :: "(datetime \<Rightarrow> string) \<Rightarrow> gold_label list \<Rightarrow> (exc, string) res" where
  "save_gold_labels isofmt labels =
     bind_res (index_by_task_id labels) (\<lambda>_.
       Inr (json_dumps json_indent2 (PList (map (PDict \<circ> gold_label_to_dict isofmt) labels))))"

definition load_gold_labels ::
  "(string \<Rightarrow> datetime option) \<Rightarrow> (string \<Rightarrow> string) \<Rightarrow> string \<Rightarrow> (exc, gold_label list) res" where
  "load_gold_labels from_iso bad_json content =
     bind_res (loads bad_json content) (\<lambda>payload.
     bind_res (py_iter payload) (\<lambda>items.
     bind_res (map_res (gold_label_from_dict from_iso) items) (\<lambda>labels.
     bind_res (index_by_task_id labels) (\<lambda>_. Inr labels))))"

section \<open>Comparing a judge with the labels\<close>

record gold_comparison =
  gc_task_id :: string
  gc_judge_name :: string
  gc_judge_label :: string
  gc_gold_label :: pyval
  gc_agrees :: bool

fun compare_loop :: "gold_index \<Rightarrow> llm_verdict list \<Rightarrow> gold_comparison list" where
  "compare_loop gold_by_task_id [] = []"
| "compare_loop gold_by_task_id (verdict # verdicts) =
     (case index_get gold_by_task_id (PStr (lv_task_id verdict)) of
        None \<Rightarrow> compare_loop gold_by_task_id verdicts
      | Some gold \<Rightarrow>
          \<lparr>gc_task_id = lv_task_id verdict, gc_judge_name = lv_judge_name verdict, gc_judge_label = lv_label verdict,
           gc_gold_label = gl_label gold, gc_agrees = py_eq (PStr (lv_label verdict)) (gl_label gold)\<rparr>
            # compare_loop gold_by_task_id verdicts)"

definition compare_verdicts_to_gold :: "llm_verdict list \<Rightarrow> gold_label list \<Rightarrow> (exc, gold_comparison list) res" where
  "compare_verdicts_to_gold verdicts gold_labels =
     bind_res (index_by_task_id gold_labels) (\<lambda>gold_by_task_id. Inr (compare_loop gold_by_task_id verdicts))"

record gold_agreement_report =
  gr_judge_name :: string
  gr_comparisons :: "gold_comparison list"
  gr_agreement_rate :: rat

definition summarize_gold_agreement ::
  "float_ops \<Rightarrow> string \<Rightarrow> gold_comparison list \<Rightarrow> (exc, gold_agreement_report) res" where
  "summarize_gold_agreement fl judge_name comparisons =
     (let relevant = filter (\<lambda>comparison. gc_judge_name comparison = judge_name) comparisons in
      if relevant = [] then Inl (Raise ValueError (''No gold comparisons found for judge: '' @ judge_name))
      else Inr \<lparr>gr_judge_name = judge_name, gr_comparisons = relevant,
        gr_agreement_rate = fl_div fl (length (filter gc_agrees relevant)) (length relevant)\<rparr>)"

section \<open>Labels survive their file\<close>

text \<open>A label whose attributes have the annotated types.\<close>

definition declared_label :: "string \<Rightarrow> string \<Rightarrow> string \<Rightarrow> string \<Rightarrow> datetime \<Rightarrow> gold_label" where
  "declared_label task_id label rationale labeler labeled_at =
     \<lparr>gl_task_id = PStr task_id, gl_label = PStr label, gl_rationale = PStr rationale, gl_labeler = PStr labeler,
      gl_labeled_at = labeled_at\<rparr>"

definition declared :: "gold_label \<Rightarrow> bool" where
  "declared g \<longleftrightarrow> (\<exists>t l r b d. g = declared_label t l r b d)"

definition iso_ok :: "(datetime \<Rightarrow> string) \<Rightarrow> (string \<Rightarrow> datetime option) \<Rightarrow> bool" where
  "iso_ok isofmt from_iso \<longleftrightarrow> (\<forall>d. from_iso (isofmt d) = Some d)"

definition the_str :: "pyval \<Rightarrow> string" where
  "the_str v = (case v of PStr s \<Rightarrow> s | _ \<Rightarrow> [])"

abbreviation gold_id :: "gold_label \<Rightarrow> string" where
  "gold_id g \<equiv> the_str (gl_task_id g)"

lemma declared_label_simps [simp]:
  "gl_task_id (declared_label t l r b d) = PStr t" "gl_label (declared_label t l r b d) = PStr l"
  by (simp_all add: declared_label_def)

lemma declared_declared_label [simp]: "declared (declared_label t l r b d)"
  unfolding declared_def by blast

lemma declared_id: "declared g \<Longrightarrow> gl_task_id g = PStr (gold_id g) \<and> gl_label g = PStr (the_str (gl_label g))"
  by (auto simp: declared_def the_str_def)

text \<open>Over declared labels the index is an association by task identifier.\<close>

definition indexed :: "gold_label list \<Rightarrow> gold_index" where
  "indexed labels = map (\<lambda>g. (PStr (gold_id g), g)) labels"

lemma index_get_indexed:
  "index_get (indexed labels) (PStr k) = List.find (\<lambda>g. gold_id g = k) labels"
  by (induction labels) (auto simp: index_get_def indexed_def)

lemma indexed_snoc: "indexed (seen @ [g]) = indexed seen @ [(PStr (gold_id g), g)]"
  by (simp add: indexed_def)

lemma index_loop_declared:
  assumes "list_all declared labels" and "distinct (map gold_id seen)"
  shows "if distinct (map gold_id (seen @ labels)) then index_loop labels (indexed seen) = Inr (indexed (seen @ labels))
    else \<exists>g \<in> set labels. index_loop labels (indexed seen) =
      Inl (duplicate_label (gold_id g))"
  using assms
proof (induction labels arbitrary: seen)
  case (Cons g labels)
  then obtain t where g: "gl_task_id g = PStr t" and t: "gold_id g = t"
    by (auto simp: declared_def the_str_def)
  have found: "index_get (indexed seen) (PStr t) \<noteq> None \<longleftrightarrow> gold_id g \<in> gold_id ` set seen"
    unfolding t index_get_indexed by (auto simp: find_None_iff)
  show ?case
  proof (cases "gold_id g \<in> gold_id ` set seen")
    case True
    have "index_loop (g # labels) (indexed seen) = Inl (duplicate_label (gold_id g))"
      using g t True found by simp
    moreover have "\<not> distinct (map gold_id (seen @ g # labels))" using True by auto
    ultimately show ?thesis by auto
  next
    case False
    have "index_loop (g # labels) (indexed seen) = index_loop labels (indexed (seen @ [g]))"
      using g t False found by (simp add: indexed_snoc)
    moreover have "distinct (map gold_id (seen @ [g]))" using Cons.prems(2) False by simp
    ultimately show ?thesis using Cons.IH [of "seen @ [g]"] Cons.prems(1) by (auto split: if_splits)
  qed
qed simp

lemma index_declared:
  assumes "list_all declared labels"
  shows "if distinct (map gold_id labels) then index_by_task_id labels = Inr (indexed labels)
    else \<exists>g \<in> set labels. index_by_task_id labels =
      Inl (duplicate_label (gold_id g))"
proof -
  have "indexed [] = []" by (simp add: indexed_def)
  then show ?thesis using index_loop_declared [OF assms, of "[]"] by (auto simp: index_by_task_id_def split: if_splits)
qed

lemma read_back:
  assumes "declared g" and "iso_ok isofmt from_iso"
  shows "gold_label_from_dict from_iso (canon st (PDict (gold_label_to_dict isofmt g))) = Inr g"
proof -
  have ok: "dict_ok (gold_label_to_dict isofmt g)" by (simp add: gold_label_to_dict_def)
  show ?thesis using assms unfolding gold_label_from_dict_def getitem_canon [OF ok]
    by (auto simp: gold_label_to_dict_def declared_def declared_label_def fromisoformat_def iso_ok_def)
qed

text \<open>C40: Saving labels and loading the file gives the same labels in the same order; a set with two
  labels for one task is refused before anything is written, and the error names such a task.\<close>

theorem gold_labels_round_trip:
  assumes "list_all declared labels" and "iso_ok isofmt from_iso"
  shows "if distinct (map gold_id labels)
    then \<exists>content. save_gold_labels isofmt labels = Inr content \<and> load_gold_labels from_iso bad_json content = Inr labels
    else \<exists>g \<in> set labels. save_gold_labels isofmt labels =
      Inl (duplicate_label (gold_id g))"
proof (cases "distinct (map gold_id labels)")
  case True
  let ?v = "PList (map (PDict \<circ> gold_label_to_dict isofmt) labels)"
  have idx: "index_by_task_id labels = Inr (indexed labels)" using index_declared [OF assms(1)] True by simp
  have "wf_val ?v" using assms(1) by (auto simp: list_all_iff gold_label_to_dict_def declared_def declared_label_def)
  then have "loads bad_json (json_dumps json_indent2 ?v) = Inr (canon json_indent2 ?v)"
    by (simp only: loads_def json_loads_dumps style_ok_styles option.case)
  moreover have "map_res (gold_label_from_dict from_iso) (map (canon json_indent2) (map (PDict \<circ> gold_label_to_dict isofmt) labels)) = Inr labels"
    using assms(1) read_back [OF _ assms(2)] map_res_map [of labels "gold_label_from_dict from_iso" _ "\<lambda>g. g"]
    by (simp add: list_all_iff comp_def del: canon.simps)
  ultimately have "load_gold_labels from_iso bad_json (json_dumps json_indent2 ?v) = Inr labels"
    using idx by (simp add: load_gold_labels_def del: canon.simps(2) map_map)
  then show ?thesis using True idx by (simp add: save_gold_labels_def)
next
  case False
  then show ?thesis using index_declared [OF assms(1)] by (auto simp: save_gold_labels_def)
qed

section \<open>Agreement with the labels\<close>

definition comparison_of :: "llm_verdict \<Rightarrow> gold_label \<Rightarrow> gold_comparison" where
  "comparison_of v g =
     \<lparr>gc_task_id = lv_task_id v, gc_judge_name = lv_judge_name v, gc_judge_label = lv_label v,
      gc_gold_label = gl_label g, gc_agrees = (gl_label g = PStr (lv_label v))\<rparr>"

lemma compare_loop_indexed:
  "compare_loop (indexed golds) verdicts =
     concat (map (\<lambda>v. map (comparison_of v) (case List.find (\<lambda>g. gold_id g = lv_task_id v) golds of
       None \<Rightarrow> [] | Some g \<Rightarrow> [g])) verdicts)"
  by (induction verdicts) (auto simp: index_get_indexed comparison_of_def split: option.split)

lemma find_unique:
  "distinct (map f xs) \<Longrightarrow> (case List.find (\<lambda>x. f x = k) xs of None \<Rightarrow> [] | Some x \<Rightarrow> [x]) = filter (\<lambda>x. f x = k) xs"
proof (induction xs)
  case (Cons a xs)
  then show ?case by (cases "f a = k") (auto simp: filter_empty_conv eq_commute [of "[]"] rev_image_eqI)
qed simp

lemma rate_one: "x \<le> (1::rat) \<Longrightarrow> x < 1 \<longleftrightarrow> a < b \<Longrightarrow> (a::nat) \<le> b \<Longrightarrow> x = 1 \<longleftrightarrow> a = b"
  by (simp add: order.order_iff_strict) linarith

lemma all_filtered: "length (filter P xs) = length xs \<longleftrightarrow> (\<forall>x \<in> set xs. P x)"
  by (metis filter_id_conv length_filter_less less_irrefl)

text \<open>A judge is compared on exactly the tasks the labels cover, verdict by verdict and in order,
  and agrees where the labels are equal; the agreement rate of a judge is the share of its compared
  verdicts that agree - between 0 and 1, and 1 exactly when all of them do.\<close>

theorem gold_agreement_exact:
  assumes "list_all declared golds" and "distinct (map gold_id golds)" and "float_ok fl" and "length verdicts \<le> 2 ^ 53"
  shows "\<exists>comparisons. compare_verdicts_to_gold verdicts golds = Inr comparisons \<and>
    comparisons = concat (map (\<lambda>v. map (comparison_of v) (filter (\<lambda>g. gold_id g = lv_task_id v) golds)) verdicts) \<and>
    (case summarize_gold_agreement fl name comparisons of
       Inl e \<Rightarrow> exc_of e = ValueError \<and>
         \<not> (\<exists>v \<in> set verdicts. lv_judge_name v = name \<and> lv_task_id v \<in> gold_id ` set golds)
     | Inr report \<Rightarrow> 0 \<le> gr_agreement_rate report \<and> gr_agreement_rate report \<le> 1 \<and>
         (gr_agreement_rate report = 1 \<longleftrightarrow> (\<forall>v \<in> set verdicts. \<forall>g \<in> set golds.
            lv_judge_name v = name \<and> lv_task_id v = gold_id g \<longrightarrow> gl_label g = PStr (lv_label v))))"
proof -
  let ?match = "\<lambda>v. filter (\<lambda>g. gold_id g = lv_task_id v) golds"
  let ?cs = "concat (map (\<lambda>v. map (comparison_of v) (?match v)) verdicts)"
  let ?rel = "filter (\<lambda>c. gc_judge_name c = name) ?cs"
  have "compare_loop (indexed golds) verdicts = ?cs"
    unfolding compare_loop_indexed find_unique [OF assms(2)] ..
  then have run: "compare_verdicts_to_gold verdicts golds = Inr ?cs"
    using index_declared [OF assms(1)] assms(2) by (simp add: compare_verdicts_to_gold_def)
  have one: "length (?match v) \<le> 1" for v
    unfolding find_unique [OF assms(2), symmetric] by (simp split: option.split)
  have "length (concat (map (\<lambda>v. map (comparison_of v) (?match v)) vs)) \<le> length vs" for vs
  proof (induction vs)
    case (Cons v vs)
    then show ?case using one [of v] by simp
  qed simp
  then have len: "length ?rel \<le> 2 ^ 53" using assms(4) length_filter_le [of _ ?cs] by (meson le_trans)
  have members: "set ?rel = {comparison_of v g | v g. v \<in> set verdicts \<and> g \<in> set golds \<and> lv_judge_name v = name \<and>
      gold_id g = lv_task_id v}"
  proof -
    have "gc_judge_name (comparison_of v g) = lv_judge_name v" for v g by (simp add: comparison_of_def)
    then show ?thesis by auto blast
  qed
  have agrees: "gc_agrees (comparison_of v g) \<longleftrightarrow> gl_label g = PStr (lv_label v)" for v g
    by (simp add: comparison_of_def)
  show ?thesis
  proof (cases "?rel = []")
    case True
    then have "set ?rel = {}" by simp
    then have "\<not> (\<exists>v \<in> set verdicts. lv_judge_name v = name \<and> lv_task_id v \<in> gold_id ` set golds)"
      unfolding members by fastforce
    then show ?thesis using run True by (simp add: summarize_gold_agreement_def)
  next
    case False
    let ?a = "length (filter gc_agrees ?rel)" and ?b = "length ?rel"
    have b: "?a \<le> ?b" by (rule length_filter_le)
    have pos: "0 < ?b" using False by (simp only: length_greater_0_conv not_False_eq_True)
    note bounds = float_div_bounds [OF assms(3) b pos len]
    have "fl_div fl ?a ?b = 1 \<longleftrightarrow> ?a = ?b" by (rule rate_one [OF bounds(2,3) b])
    also have "\<dots> \<longleftrightarrow> (\<forall>c \<in> set ?rel. gc_agrees c)" by (rule all_filtered)
    also have "\<dots> \<longleftrightarrow> (\<forall>v \<in> set verdicts. \<forall>g \<in> set golds.
        lv_judge_name v = name \<and> lv_task_id v = gold_id g \<longrightarrow> gl_label g = PStr (lv_label v))"
      unfolding members using agrees by fastforce
    finally have one: "fl_div fl ?a ?b = 1 \<longleftrightarrow> (\<forall>v \<in> set verdicts. \<forall>g \<in> set golds.
        lv_judge_name v = name \<and> lv_task_id v = gold_id g \<longrightarrow> gl_label g = PStr (lv_label v))" .
    have "summarize_gold_agreement fl name ?cs = Inr \<lparr>gr_judge_name = name, gr_comparisons = ?rel, gr_agreement_rate = fl_div fl ?a ?b\<rparr>"
      using False by (simp only: summarize_gold_agreement_def Let_def if_False)
    then show ?thesis using run bounds(1,2) one by (intro exI [of _ ?cs]) (simp only: sum.case gold_agreement_report.simps)
  qed
qed

text \<open>Two labels, one of which the judge's verdict matches.\<close>

definition sample_golds :: "gold_label list" where
  "sample_golds = [declared_label ''task-1'' ''pass'' ''r'' ''t'' 7, declared_label ''task-2'' ''fail'' ''r'' ''t'' 7]"

definition sample_iso :: "datetime \<Rightarrow> string" where
  "sample_iso d = replicate (nat d) CHR ''+'' @ replicate (nat (- d)) CHR ''-''"

definition sample_from_iso :: "string \<Rightarrow> datetime option" where
  "sample_from_iso s = Some (int (length (filter (\<lambda>c. c = CHR ''+'') s)) - int (length (filter (\<lambda>c. c = CHR ''-'') s)))"

lemma sample_iso_ok: "iso_ok sample_iso sample_from_iso"
  by (simp add: iso_ok_def sample_iso_def sample_from_iso_def filter_replicate)

lemma sample_golds_facts: "list_all declared sample_golds" "distinct (map gold_id sample_golds)"
  by (simp_all add: sample_golds_def the_str_def)

theorem gold_labels_round_trip_witness:
  "\<exists>content. save_gold_labels sample_iso sample_golds = Inr content \<and>
    load_gold_labels sample_from_iso (\<lambda>s. s) content = Inr sample_golds"
  using gold_labels_round_trip [OF sample_golds_facts(1) sample_iso_ok, of "\<lambda>s. s"] sample_golds_facts(2) by simp

definition sample_verdict :: "string \<Rightarrow> string \<Rightarrow> llm_verdict" where
  "sample_verdict task label =
     \<lparr>lv_task_id = task, lv_judge_name = ''policy'', lv_rubric_version = ''1'', lv_label = label, lv_confidence = 1,
      lv_rationale = ''r''\<rparr>"

theorem gold_agreement_exact_witness:
  "\<exists>cs. compare_verdicts_to_gold [sample_verdict ''task-1'' ''pass'', sample_verdict ''task-9'' ''pass''] sample_golds = Inr cs \<and>
    length cs = 1 \<and> (case summarize_gold_agreement exact_floats ''policy'' cs of Inl e \<Rightarrow> False | Inr r \<Rightarrow> gr_agreement_rate r = 1)"
proof -
  let ?vs = "[sample_verdict ''task-1'' ''pass'', sample_verdict ''task-9'' ''pass'']"
  obtain cs where cs: "compare_verdicts_to_gold ?vs sample_golds = Inr cs"
      "cs = concat (map (\<lambda>v. map (comparison_of v) (filter (\<lambda>g. gold_id g = lv_task_id v) sample_golds)) ?vs)"
    and rest: "case summarize_gold_agreement exact_floats ''policy'' cs of
       Inl e \<Rightarrow> exc_of e = ValueError \<and>
         \<not> (\<exists>v \<in> set ?vs. lv_judge_name v = ''policy'' \<and> lv_task_id v \<in> gold_id ` set sample_golds)
     | Inr report \<Rightarrow> 0 \<le> gr_agreement_rate report \<and> gr_agreement_rate report \<le> 1 \<and>
         (gr_agreement_rate report = 1 \<longleftrightarrow> (\<forall>v \<in> set ?vs. \<forall>g \<in> set sample_golds.
            lv_judge_name v = ''policy'' \<and> lv_task_id v = gold_id g \<longrightarrow> gl_label g = PStr (lv_label v)))"
    using gold_agreement_exact [OF sample_golds_facts exact_floats_ok, of ?vs "''policy''"] by auto
  have "length cs = 1" unfolding cs(2) by (simp add: sample_golds_def sample_verdict_def the_str_def)
  moreover have "case summarize_gold_agreement exact_floats ''policy'' cs of Inl e \<Rightarrow> False | Inr r \<Rightarrow> gr_agreement_rate r = 1"
    using rest by (auto simp: sample_golds_def sample_verdict_def the_str_def split: sum.splits)
  ultimately show ?thesis using cs(1) by blast
qed

end
