(* ===== verification/PostgresApi.thy ===== *)
theory PostgresApi
  imports Api
begin

text \<open>
  The API as it is deployed, \<open>create_app(PostgresStore())\<close>, against the API on the in-memory store:
  every request gets the same answer, up to the order of keys in JSON columns and of rows where no
  order is asked for.
\<close>

section \<open>The application on Postgres\<close>

text \<open>An operation as the caller sees it: an exception, or the result and the state it leaves.\<close>

definition stepped :: "(exc, 'a) res \<times> 's \<Rightarrow> (exc, 'a \<times> 's) res" where
  "stepped r = (case r of (Inl e, s) \<Rightarrow> Inl e | (Inr x, s) \<Rightarrow> Inr (x, s))"

definition postgres_ops :: "pg \<Rightarrow> database store_ops" where
  "postgres_ops pg =
     \<lparr>so_get_agent_version = pg_get_agent_version, so_get_execution = pg_get_execution,
      so_get_run_executions = pg_get_run_executions pg, so_get_trace = pg_get_trace,
      so_append_trace_event = (\<lambda>now eid e db. stepped (pg_append_trace_event pg now eid e db)),
      so_record_result = (\<lambda>now eid r db. stepped (pg_record_result pg now (\<lambda>db. db) eid r db)),
      so_append_judge_verdict = (\<lambda>new_id now eid v db. stepped (pg_append_judge_verdict pg new_id now eid v db))\<rparr>"

definition postgres_app :: "pg \<Rightarrow> (string \<Rightarrow> string) \<Rightarrow> database app" where
  "postgres_app pg sha256 =
     \<lparr>app_ops = postgres_ops pg, app_write = serve_postgres pg sha256, app_get_judge_verdicts = pg_get_judge_verdicts pg\<rparr>"

section \<open>The same answer\<close>

text \<open>A JSON column keeps what \<open>==\<close> sees of an object.\<close>

definition jsonb_ok :: "pg \<Rightarrow> bool" where
  "jsonb_ok pg \<longleftrightarrow>
     (\<forall>p q. py_eq (PDict (pg_jsonb pg p)) (PDict (pg_jsonb pg q)) = py_eq (PDict p) (PDict q)) \<and>
     (\<forall>p q k. py_eq (case map_of (pg_jsonb pg p) k of None \<Rightarrow> PNone | Some v \<Rightarrow> v)
        (case map_of (pg_jsonb pg q) k of None \<Rightarrow> PNone | Some v \<Rightarrow> v) =
      py_eq (case map_of p k of None \<Rightarrow> PNone | Some v \<Rightarrow> v) (case map_of q k of None \<Rightarrow> PNone | Some v \<Rightarrow> v))"

text \<open>A comparison without the payloads an attribution shows as its evidence.\<close>

definition without_evidence :: "paired_task_comparison \<Rightarrow> paired_task_comparison" where
  "without_evidence item = item\<lparr>pc_attribution := map_option (\<lambda>a. a\<lparr>at_evidence := []\<rparr>) (pc_attribution item)\<rparr>"

definition same_comparison :: "run_comparison \<Rightarrow> run_comparison \<Rightarrow> bool" where
  "same_comparison r s \<longleftrightarrow>
     r\<lparr>rc_results := map without_evidence (rc_results r)\<rparr> = s\<lparr>rc_results := map without_evidence (rc_results s)\<rparr>"

fun same_body :: "pg \<Rightarrow> api_body \<Rightarrow> api_body \<Rightarrow> bool" where
  "same_body pg (StoredBody x) (StoredBody y) \<longleftrightarrow> same_response pg (Inr x) (Inr y)"
| "same_body pg (AgentVersionBody v) (AgentVersionBody w) \<longleftrightarrow> w = stored_version pg v"
| "same_body pg (ExecutionsBody xs) (ExecutionsBody ys) \<longleftrightarrow> mset xs = mset ys"
| "same_body pg (VerdictsBody xs) (VerdictsBody ys) \<longleftrightarrow> mset xs = mset ys"
| "same_body pg (TraceBody n es) (TraceBody m fs) \<longleftrightarrow> n = m \<and> fs = map (stored_trace_event pg) es"
| "same_body pg (ComparisonBody r) (ComparisonBody s) \<longleftrightarrow> same_comparison r s"
| "same_body pg a b \<longleftrightarrow> a = b"

text \<open>The same status and body; which of several duplicated tasks a comparison complains about is open.\<close>

definition same_answer :: "pg \<Rightarrow> nat \<times> api_body \<Rightarrow> nat \<times> api_body \<Rightarrow> bool" where
  "same_answer pg a b \<longleftrightarrow>
     fst a = fst b \<and> (same_body pg (snd a) (snd b) \<or> fst a = 422 \<and> (\<exists>d e. snd a = ErrorBody d \<and> snd b = ErrorBody e))"

section \<open>Comparisons\<close>

lemma stored_divergence:
  assumes "jsonb_ok pg"
  shows "event_divergence (stored_trace_event pg a) (stored_trace_event pg b) = event_divergence a b"
proof -
  have "py_eq (payload_get (stored_trace_event pg a) k) (payload_get (stored_trace_event pg b) k) =
      py_eq (payload_get a k) (payload_get b k)" for k
    using assms by (simp add: jsonb_ok_def payload_get_def stored_trace_event_def)
  moreover have "py_eq (PDict (ev_payload (stored_trace_event pg a))) (PDict (ev_payload (stored_trace_event pg b))) =
      py_eq (PDict (ev_payload a)) (PDict (ev_payload b))"
    using assms by (simp add: jsonb_ok_def stored_trace_event_def)
  moreover have "ev_event_type (stored_trace_event pg e) = ev_event_type e" for e by (simp add: stored_trace_event_def)
  ultimately show ?thesis by (simp only: event_divergence_def)
qed

lemma stored_first_pair:
  assumes "jsonb_ok pg"
  shows "first_divergent_pair (map (stored_trace_event pg) ls) (map (stored_trace_event pg) rs) =
    map_option (\<lambda>(l, r, d). (stored_trace_event pg l, stored_trace_event pg r, d)) (first_divergent_pair ls rs)"
  by (induction ls rs rule: first_divergent_pair.induct)
    (simp_all add: stored_divergence [OF assms] split: option.split)

lemma stored_first_divergence:
  assumes "jsonb_ok pg"
  shows "map_option (\<lambda>a. a\<lparr>at_evidence := []\<rparr>)
      (first_divergence t l r (map (stored_trace_event pg) ls) (map (stored_trace_event pg) rs)) =
    map_option (\<lambda>a. a\<lparr>at_evidence := []\<rparr>) (first_divergence t l r ls rs)"
  by (auto simp: first_divergence_def stored_first_pair [OF assms] Let_def split: option.split)


text \<open>The same error, or two that the API answers with 422, or values in a relation.\<close>

definition res_alike :: "('a \<Rightarrow> 'b \<Rightarrow> bool) \<Rightarrow> (exc, 'a) res \<Rightarrow> (exc, 'b) res \<Rightarrow> bool" where
  "res_alike R r s =
     (case (r, s) of
        (Inl e, Inl f) \<Rightarrow> e = f \<or> status_of e = 422 \<and> status_of f = 422
      | (Inr x, Inr y) \<Rightarrow> R x y | _ \<Rightarrow> False)"

lemma res_alike_simps [simp]:
  "res_alike R (Inr x) (Inr y) \<longleftrightarrow> R x y" "res_alike R (Inl e) (Inl e)" "\<not> res_alike R (Inl e) (Inr y)"
  "\<not> res_alike R (Inr x) (Inl f)"
  by (simp_all add: res_alike_def)

lemma res_alike_bind:
  assumes "res_alike Q r s" and "\<And>x y. Q x y \<Longrightarrow> res_alike R (f x) (g y)"
  shows "res_alike R (bind_res r f) (bind_res s g)"
  using assms by (cases r; cases s) (auto simp: res_alike_def)

lemma res_alike_map_res:
  assumes "\<And>x. res_alike (\<lambda>y z. h y = h z) (f x) (g x)"
  shows "res_alike (\<lambda>ys zs. map h ys = map h zs) (map_res f xs) (map_res g xs)"
  by (induction xs) (auto intro!: res_alike_bind [OF assms] res_alike_bind)

lemma option_eq_Some: "(\<And>x. a = Some x \<longleftrightarrow> b = Some x) \<Longrightarrow> a = b"
  by (cases a; cases b) auto

lemma mset_tasks:
  assumes "mset xs = mset ys"
  shows "distinct (map ex_task_id xs) \<longleftrightarrow> distinct (map ex_task_id ys)" and "set xs = set ys"
proof -
  have "mset (map ex_task_id xs) = mset (map ex_task_id ys)" using assms by simp
  then show "distinct (map ex_task_id xs) \<longleftrightarrow> distinct (map ex_task_id ys)" by (rule mset_eq_imp_distinct_iff)
qed (rule mset_eq_setD [OF assms])

text \<open>Pairing does not depend on the order of the rows, but for the duplicate it complains about.\<close>

lemma by_task_duplicate: "\<not> distinct (map ex_task_id es) \<Longrightarrow> \<exists>msg. by_task es = Inl (http_error 422 msg)"
  using by_task_loop_duplicate [of "[]" es] unfolding by_task_def by (metis append_Nil dict_ok_def distinct.simps(1) list.simps(8))

lemma same_by_task:
  assumes "mset xs = mset ys"
  shows "res_alike (\<lambda>d d'. map_of d = map_of d') (by_task xs) (by_task ys)"
proof (cases "distinct (map ex_task_id xs)")
  case True
  then have ys: "distinct (map ex_task_id ys)" using mset_tasks(1) [OF assms] by simp
  have "map_of (map (\<lambda>e. (ex_task_id e, e)) xs) k = map_of (map (\<lambda>e. (ex_task_id e, e)) ys) k" for k
    by (rule option_eq_Some) (simp only: by_task_lookup [OF True] by_task_lookup [OF ys] mset_tasks(2) [OF assms])
  moreover have "by_task xs = Inr (map (\<lambda>e. (ex_task_id e, e)) xs)" "by_task ys = Inr (map (\<lambda>e. (ex_task_id e, e)) ys)"
    using True ys by (simp_all add: by_task_Inr)
  ultimately show ?thesis by (simp add: fun_eq_iff)
next
  case False
  then have "\<not> distinct (map ex_task_id ys)" using mset_tasks(1) [OF assms] by simp
  with False obtain m n where "by_task xs = Inl (http_error 422 m)" "by_task ys = Inl (http_error 422 n)"
    using by_task_duplicate by blast
  then show ?thesis by (simp add: res_alike_def http_error_def status_of_def)
qed

text \<open>Comparing on the database: the in-memory comparison read through \<open>reads_alike\<close>.\<close>

lemma reads_res_alike:
  assumes "reads_alike pg db st"
  shows "res_alike (\<lambda>es fs. fs = map (stored_trace_event pg) es)
      (so_get_trace platform_ops k st) (so_get_trace (postgres_ops pg) k db)"
    and "res_alike (\<lambda>xs ys. mset xs = mset ys)
      (so_get_run_executions platform_ops k st) (so_get_run_executions (postgres_ops pg) k db)"
    and "res_alike (\<lambda>v w. w = stored_version pg v)
      (so_get_agent_version platform_ops k st) (so_get_agent_version (postgres_ops pg) k db)"
    and "res_alike (\<lambda>xs ys. mset xs = mset ys) (get_judge_verdicts k st) (pg_get_judge_verdicts pg k db)"
    and "so_get_execution (postgres_ops pg) k db = so_get_execution platform_ops k st"
proof -
  have rows: "res_alike (\<lambda>xs ys. mset xs = mset ys) r s" if "same_rows s r" for r s :: "(exc, 'x list) res"
    using that by (cases r; cases s) (simp_all add: same_rows_def)
  note r = assms [unfolded reads_alike_def]
  show "res_alike (\<lambda>es fs. fs = map (stored_trace_event pg) es)
      (so_get_trace platform_ops k st) (so_get_trace (postgres_ops pg) k db)"
    using r by (cases "get_trace k st") (simp_all add: platform_ops_def postgres_ops_def)
  show "res_alike (\<lambda>v w. w = stored_version pg v)
      (so_get_agent_version platform_ops k st) (so_get_agent_version (postgres_ops pg) k db)"
    using r by (cases "get_agent_version k st") (simp_all add: platform_ops_def postgres_ops_def)
  show "res_alike (\<lambda>xs ys. mset xs = mset ys)
      (so_get_run_executions platform_ops k st) (so_get_run_executions (postgres_ops pg) k db)"
    "res_alike (\<lambda>xs ys. mset xs = mset ys) (get_judge_verdicts k st) (pg_get_judge_verdicts pg k db)"
    using r by (auto simp: platform_ops_def postgres_ops_def intro!: rows)
  show "so_get_execution (postgres_ops pg) k db = so_get_execution platform_ops k st"
    using r by (simp add: platform_ops_def postgres_ops_def)
qed

lemma same_compare_task:
  assumes r: "reads_alike pg db st" and j: "jsonb_ok pg" and b: "map_of b = map_of b'" and c: "map_of c = map_of c'"
  shows "res_alike (\<lambda>x y. without_evidence x = without_evidence y)
    (compare_task platform_ops cost_round st b c k) (compare_task (postgres_ops pg) cost_round db b' c' k)"
proof -
  have att: "res_alike (\<lambda>x y. map_option (\<lambda>a. a\<lparr>at_evidence := []\<rparr>) x = map_option (\<lambda>a. a\<lparr>at_evidence := []\<rparr>) y)
      (if q then bind_res (so_get_trace platform_ops i st) (\<lambda>ls. bind_res (so_get_trace platform_ops i' st) (\<lambda>rs.
         Inr (first_divergence k l r ls rs))) else Inr None)
      (if q then bind_res (so_get_trace (postgres_ops pg) i db) (\<lambda>ls. bind_res (so_get_trace (postgres_ops pg) i' db) (\<lambda>rs.
         Inr (first_divergence k l r ls rs))) else Inr None)" for q i i' l r
  proof (cases q)
    case True
    show ?thesis unfolding if_P [OF True]
      by (rule res_alike_bind [OF reads_res_alike(1) [OF r]], rule res_alike_bind [OF reads_res_alike(1) [OF r]])
        (simp add: stored_first_divergence [OF j])
  qed simp
  show ?thesis
  proof (cases "map_of b' k")
    case left: (Some l)
    show ?thesis
    proof (cases "map_of c' k")
      case right: (Some r)
      show ?thesis unfolding compare_task_def b c left right Let_def prod.case option.case
        by (rule res_alike_bind [OF att]) (simp add: without_evidence_def)
    qed (simp add: compare_task_def b c left)
  qed (simp add: compare_task_def b c)
qed

lemma without_evidence_counts:
  assumes "map without_evidence xs = map without_evidence ys"
  shows "length (filter (\<lambda>item. pc_disposition item = x) xs) = length (filter (\<lambda>item. pc_disposition item = x) ys)"
    and "length xs = length ys"
proof -
  have "length (filter (\<lambda>item. pc_disposition item = x) zs) =
      length (filter (\<lambda>item. pc_disposition item = x) (map without_evidence zs))" for zs
    by (simp add: filter_map comp_def without_evidence_def)
  then show "length (filter (\<lambda>item. pc_disposition item = x) xs) = length (filter (\<lambda>item. pc_disposition item = x) ys)"
    using assms by metis
qed (rule map_eq_imp_length_eq [OF assms])

lemma same_compare_runs:
  assumes r: "reads_alike pg db st" and j: "jsonb_ok pg"
  shows "res_alike same_comparison (compare_runs platform_ops cost_round b c st)
    (compare_runs (postgres_ops pg) cost_round b c db)"
  unfolding compare_runs_def
proof (rule res_alike_bind [OF reads_res_alike(2) [OF r]], rule res_alike_bind [OF same_by_task], assumption,
    rule res_alike_bind [OF reads_res_alike(2) [OF r]], rule res_alike_bind [OF same_by_task], assumption)
  fix d d' e e' :: "(string, task_execution) dict"
  assume m: "map_of d = map_of d'" "map_of e = map_of e'"
  have ids: "shared_task_ids d' e' = shared_task_ids d e"
    using m by (simp add: shared_task_ids_def flip: dom_map_of_conv_image_fst)
  let ?report = "\<lambda>results. \<lparr>rc_baseline_run_id = b, rc_candidate_run_id = c, rc_compared_tasks = length results,
     rc_regressions = length (filter (\<lambda>item. pc_disposition item = REGRESSION) results),
     rc_improvements = length (filter (\<lambda>item. pc_disposition item = IMPROVEMENT) results), rc_results = results\<rparr>"
  have reports: "same_comparison (?report xs) (?report ys)" if "map without_evidence xs = map without_evidence ys" for xs ys
    using that without_evidence_counts(1) [OF that, of REGRESSION] without_evidence_counts(1) [OF that, of IMPROVEMENT]
      without_evidence_counts(2) [OF that] by (simp add: same_comparison_def)
  have "res_alike same_comparison
      (bind_res (map_res (compare_task platform_ops cost_round st d e) (shared_task_ids d e)) (\<lambda>results. Inr (?report results)))
      (bind_res (map_res (compare_task (postgres_ops pg) cost_round db d' e') (shared_task_ids d e)) (\<lambda>results. Inr (?report results)))"
    by (rule res_alike_bind [OF res_alike_map_res [OF same_compare_task [OF r j m]]])
      (simp add: reports)
  then show "res_alike same_comparison
      (if shared_task_ids d e = [] then Inl (http_error 422 ''runs have no shared task ids to compare'')
       else bind_res (map_res (compare_task platform_ops cost_round st d e) (shared_task_ids d e)) (\<lambda>results. Inr (?report results)))
      (if shared_task_ids d' e' = [] then Inl (http_error 422 ''runs have no shared task ids to compare'')
       else bind_res (map_res (compare_task (postgres_ops pg) cost_round db d' e') (shared_task_ids d' e')) (\<lambda>results. Inr (?report results)))"
    unfolding ids by (cases "shared_task_ids d e = []") simp_all
qed


lemma same_comparison_filter:
  assumes "same_comparison x y" and "\<And>r. P (without_evidence r) \<longleftrightarrow> P r"
  shows "same_comparison (x\<lparr>rc_results := filter P (rc_results x)\<rparr>) (y\<lparr>rc_results := filter P (rc_results y)\<rparr>)"
proof -
  have f: "map without_evidence (filter P xs) = filter P (map without_evidence xs)" for xs
    using assms(2) by (induction xs) auto
  show ?thesis using assms(1) unfolding same_comparison_def by (cases x; cases y) (simp add: f)
qed

lemma same_filtered_comparison:
  assumes "reads_alike pg db st" and "jsonb_ok pg"
  shows "res_alike same_comparison (filtered_comparison platform_ops cost_round b c task_id disp kind st)
    (filtered_comparison (postgres_ops pg) cost_round b c task_id disp kind db)"
  unfolding comparison_filters_select
  by (rule res_alike_bind [OF same_compare_runs [OF assms]], unfold res_alike_simps, erule same_comparison_filter)
    (auto simp: without_evidence_def)

section \<open>The same answers\<close>

lemma reply_alike:
  assumes "res_alike R r s" and "\<And>x y. R x y \<Longrightarrow> same_body pg (wrap x) (wrap y)"
  shows "same_answer pg (reply code wrap r) (reply code wrap s)"
  using assms by (cases r; cases s) (auto simp: res_alike_def reply_def same_answer_def detail_of_def)

lemma same_page:
  assumes "reads_alike pg db st"
  shows "res_alike (\<lambda>p q. fst q = fst p \<and> snd q = map (stored_trace_event pg) (snd p))
    (trace_page platform_ops eid limit offset st) (trace_page (postgres_ops pg) eid limit offset db)"
  unfolding trace_page_def Let_def
  by (auto intro!: res_alike_bind [OF reads_res_alike(1) [OF assms]] simp: take_map drop_map)

lemma same_run_executions:
  assumes "reads_alike pg db st"
  shows "res_alike (\<lambda>xs ys. mset xs = mset ys) (list_run_executions platform_ops run task_id passed st)
    (list_run_executions (postgres_ops pg) run task_id passed db)"
  unfolding list_run_executions_def Let_def
  by (rule res_alike_bind [OF reads_res_alike(2) [OF assms]]) (auto split: option.split)

text \<open>
  What a client sends: a body that does not validate, or one with numbers the columns hold and
  identifiers no row has yet; any request to read.
\<close>

fun admissible_call :: "api_request \<Rightarrow> platform_store \<Rightarrow> bool" where
  "admissible_call (Post r) st \<longleftrightarrow> \<not> is_ok (check_body r) \<or> admissible r st"
| "admissible_call r st \<longleftrightarrow> True"

lemma same_handle:
  assumes c: "commits_ok pg" and s: "scans_ok pg" and j: "jsonb_ok pg" and ok: "store_ok sha256 st" and m: "mirrors pg db st"
    and a: "admissible_call r st"
  shows "same_answer pg (fst (handle (platform_app sha256) cost_round r st)) (fst (handle (postgres_app pg sha256) cost_round r db)) \<and>
    mirrors pg (snd (handle (postgres_app pg sha256) cost_round r db)) (snd (handle (platform_app sha256) cost_round r st)) \<and>
    store_ok sha256 (snd (handle (platform_app sha256) cost_round r st))"
proof -
  have app: "app_ops (platform_app sha256) = platform_ops" "app_get_judge_verdicts (platform_app sha256) = get_judge_verdicts"
    "app_write (platform_app sha256) = serve_platform sha256" "app_ops (postgres_app pg sha256) = postgres_ops pg"
    "app_get_judge_verdicts (postgres_app pg sha256) = pg_get_judge_verdicts pg"
    "app_write (postgres_app pg sha256) = serve_postgres pg sha256"
    by (simp_all add: platform_app_def postgres_app_def)
  note reads = mirrors_reads [OF ok m s]
  show ?thesis
  proof (cases r)
    case (Post w)
    show ?thesis
    proof (cases "check_body w")
      case (Inl e)
      then show ?thesis using Post m ok by (simp add: same_answer_def)
    next
      case (Inr u)
      then have w: "admissible w st" using a Post by simp
      obtain x st' where x: "serve_platform sha256 w st = (x, st')" by fastforce
      obtain y db' where y: "serve_postgres pg sha256 w db = (y, db')" by fastforce
      have al: "same_response pg x y" "mirrors pg db' st'"
        using serve_alike [OF c ok m w] x y by (simp_all add: alike_def)
      have "res_alike (\<lambda>p q. same_response pg (Inr p) (Inr q)) x y"
        using al(1) by (cases "(pg, x, y)" rule: same_response.cases) auto
      then have "same_answer pg (reply (created_status w) StoredBody x) (reply (created_status w) StoredBody y)"
        by (rule reply_alike) simp
      then show ?thesis using Post Inr x y al(2) serve_platform_ok [OF ok w] by (simp add: app)
    qed
  next
    case (GetAgentVersion k)
    show ?thesis using reply_alike [OF reads_res_alike(3) [OF reads]] m ok by (simp add: GetAgentVersion app)
  next
    case (GetRunExecutions run task_id passed)
    show ?thesis using reply_alike [OF same_run_executions [OF reads]] m ok by (simp add: GetRunExecutions app)
  next
    case (GetTrace eid limit offset)
    have "same_answer pg (reply 200 (case_prod TraceBody) (trace_page platform_ops eid limit offset st))
        (reply 200 (case_prod TraceBody) (trace_page (postgres_ops pg) eid limit offset db))"
      by (rule reply_alike [OF same_page [OF reads]]) (auto split: prod.split)
    then show ?thesis using m ok by (simp add: GetTrace app)
  next
    case (GetVerdicts eid)
    show ?thesis using reply_alike [OF reads_res_alike(4) [OF reads]] m ok by (simp add: GetVerdicts app)
  next
    case (GetComparison b c task_id disp kind)
    show ?thesis using reply_alike [OF same_filtered_comparison [OF reads j]] m ok by (simp add: GetComparison app)
  next
    case (GetExecution eid)
    have "same_body pg (ExecutionBody x) (ExecutionBody x)" for x by simp
    then show ?thesis using m ok
      by (cases "so_get_execution platform_ops eid st") (simp_all add: GetExecution app reads_res_alike(5) [OF reads] same_answer_def reply_def)
  qed (use m ok in \<open>simp_all add: same_answer_def reply_def split: sum.split\<close>)
qed

fun admissible_calls :: "(string \<Rightarrow> string) \<Rightarrow> (rat \<Rightarrow> rat \<Rightarrow> rat) \<Rightarrow> api_request list \<Rightarrow> platform_store \<Rightarrow> bool" where
  "admissible_calls sha256 cost_round [] st \<longleftrightarrow> True"
| "admissible_calls sha256 cost_round (r # rs) st \<longleftrightarrow>
     admissible_call r st \<and> admissible_calls sha256 cost_round rs (snd (handle (platform_app sha256) cost_round r st))"

lemma same_histories:
  assumes c: "commits_ok pg" and s: "scans_ok pg" and j: "jsonb_ok pg"
  shows "store_ok sha256 st \<Longrightarrow> mirrors pg db st \<Longrightarrow> admissible_calls sha256 cost_round requests st \<Longrightarrow>
    list_all2 (same_answer pg) (fst (handle_all (platform_app sha256) cost_round requests st))
      (fst (handle_all (postgres_app pg sha256) cost_round requests db))"
proof (induction requests arbitrary: st db)
  case (Cons r rs)
  obtain x st1 where p: "handle (platform_app sha256) cost_round r st = (x, st1)" by fastforce
  obtain y db1 where q: "handle (postgres_app pg sha256) cost_round r db = (y, db1)" by fastforce
  have "admissible_call r st" using Cons.prems(3) by simp
  from same_handle [OF c s j Cons.prems(1,2) this, of cost_round]
  have "same_answer pg x y" "mirrors pg db1 st1" "store_ok sha256 st1" by (simp_all add: p q)
  then show ?case using Cons.IH [of st1 db1] Cons.prems(3) p q by (simp add: split_beta)
qed simp


text \<open>A column that sorts the keys.\<close>

lemma map_of_first: "map_of d k = map_option snd (List.find (\<lambda>p. fst p = k) d)"
  by (induction d) auto

lemma find_filter: "List.find P xs = (case filter P xs of [] \<Rightarrow> None | x # _ \<Rightarrow> Some x)"
  by (induction xs) auto

lemma map_of_sort_key: "map_of (sort_key fst d) = map_of d"
  by (simp add: fun_eq_iff map_of_first find_filter sort_key_stable)

lemma reversing_jsonb: "jsonb_ok reversing_pg"
  by (simp add: jsonb_ok_def reversing_pg_def map_of_sort_key list_all_iff)

definition sample_calls :: "api_request list" where
  "sample_calls = map Post sample_requests @ [GetAgentVersion (UUID 1), GetComparison (UUID 2) (UUID 2) None None None]"


end
