(* ===== verification/Demo.thy ===== *)
theory Demo
  imports Api Worker
begin

text \<open>
  \<open>scripts/_demo_scenario.py\<close> and the scripts over it: two versions of an agent, scripted on three
  seed tasks, run, scored and recorded, with a candidate that skips a refund. The store is its
  operations (\<open>seed_store\<close>); the identifiers, times and clocks a run of the script meets are the
  host's. \<open>scripts/run_demo_task.py\<close> sends the same steps through the handlers of the API.
\<close>

section \<open>The scripted models\<close>

definition call_reply :: "string \<Rightarrow> string \<Rightarrow> string \<Rightarrow> pydict \<Rightarrow> script_item" where
  "call_reply call_id service operation arguments =
     ScriptReply \<lparr>mr_finish_reason = ''tool_calls'', mr_content = None,
       mr_tool_calls = [\<lparr>tc_call_id = call_id, tc_service = service, tc_operation = operation, tc_arguments = arguments\<rparr>],
       mr_input_tokens = 0, mr_output_tokens = 0\<rparr>"

definition stop_reply :: "string \<Rightarrow> script_item" where
  "stop_reply content =
     ScriptReply \<lparr>mr_finish_reason = ''stop'', mr_content = Some content, mr_tool_calls = [], mr_input_tokens = 0,
       mr_output_tokens = 0\<rparr>"

definition scripted :: "script_item list \<Rightarrow> scripted_client" where
  "scripted script = \<lparr>sc_script = script, sc_calls = 0\<rparr>"

definition TASKS :: "benchmark_task list" where
  "TASKS = [CUSTOMER_REFUND_WITHIN_POLICY, CUSTOMER_REFUND_OUTSIDE_POLICY, ORDER_CANCELLATION_DENIED_AFTER_DELIVERY]"

definition correct_model_for :: "benchmark_task \<Rightarrow> scripted_client" where
  "correct_model_for task = scripted (
     if task = CUSTOMER_REFUND_WITHIN_POLICY then
       [call_reply ''c1'' ''customer'' ''get_customer'' [(''customer_id'', PStr ''CUST-001'')],
        call_reply ''c2'' ''order'' ''get_order'' [(''order_id'', PStr ''ORD-1001'')],
        call_reply ''c3'' ''policy'' ''check_refund_policy'' [(''order_id'', PStr ''ORD-1001'')],
        call_reply ''c4'' ''refund'' ''create_refund''
          [(''order_id'', PStr ''ORD-1001''), (''requesting_customer_id'', PStr ''CUST-001''),
           (''amount_cents'', PInt 4200), (''reason'', PStr ''damaged_item'')],
        call_reply ''c5'' ''ticket'' ''update_ticket'' [(''ticket_id'', PStr ''TICK-9001''), (''status'', PStr ''resolved'')],
        stop_reply ''Your refund has been issued.'']
     else if task = CUSTOMER_REFUND_OUTSIDE_POLICY then
       [call_reply ''c1'' ''customer'' ''get_customer'' [(''customer_id'', PStr ''CUST-002'')],
        call_reply ''c2'' ''order'' ''get_order'' [(''order_id'', PStr ''ORD-2001'')],
        call_reply ''c3'' ''policy'' ''check_refund_policy'' [(''order_id'', PStr ''ORD-2001'')],
        call_reply ''c4'' ''ticket'' ''update_ticket'' [(''ticket_id'', PStr ''TICK-9002''), (''status'', PStr ''resolved'')],
        stop_reply ''This order is outside our 30-day refund window.'']
     else
       [call_reply ''c1'' ''customer'' ''get_customer'' [(''customer_id'', PStr ''CUST-009'')],
        call_reply ''c2'' ''order'' ''get_order'' [(''order_id'', PStr ''ORD-9001'')],
        call_reply ''c3'' ''ticket'' ''update_ticket'' [(''ticket_id'', PStr ''TICK-9009''), (''status'', PStr ''resolved'')],
        stop_reply (''This order has already been delivered and can'' @ [CHR 0x27] @ ''t be cancelled.'')])"

definition regressed_model_for_refund_within_policy :: scripted_client where
  "regressed_model_for_refund_within_policy = scripted
     [call_reply ''c1'' ''customer'' ''get_customer'' [(''customer_id'', PStr ''CUST-001'')],
      call_reply ''c2'' ''ticket'' ''update_ticket'' [(''ticket_id'', PStr ''TICK-9001''), (''status'', PStr ''resolved'')],
      stop_reply ''Your ticket has been resolved.'']"

definition REGRESSED_REFUND_JUDGE_VERDICTS :: "judge_verdict_create list" where
  "REGRESSED_REFUND_JUDGE_VERDICTS =
     [\<lparr>jv_judge_name = ''policy_judge'', jv_rubric_version = ''1'', jv_label = JUDGE_FAIL, jv_confidence = 9 / 10,
       jv_rationale = ''The agent never checked refund eligibility or issued the refund the customer was owed.''\<rparr>,
      \<lparr>jv_judge_name = ''response_quality_judge'', jv_rubric_version = ''1'', jv_label = JUDGE_PASS, jv_confidence = 6 / 10,
       jv_rationale = ''The reply itself is polite and clearly worded, even though it doesn'' @ [CHR 0x27] @
         ''t reflect the missing refund.''\<rparr>]"

section \<open>The scenario\<close>

text \<open>What the script calls of a store.\<close>

record 's seed_store =
  ss_ops :: "'s store_ops"
  ss_create_agent_version :: "uuid \<Rightarrow> datetime \<Rightarrow> agent_version_create \<Rightarrow> 's \<Rightarrow> (exc, agent_version \<times> 's) res"
  ss_create_run :: "uuid \<Rightarrow> datetime \<Rightarrow> evaluation_run_create \<Rightarrow> 's \<Rightarrow> (exc, evaluation_run \<times> 's) res"
  ss_create_execution :: "uuid \<Rightarrow> datetime \<Rightarrow> uuid \<Rightarrow> task_execution_create \<Rightarrow> 's \<Rightarrow> (exc, task_execution \<times> 's) res"

definition platform_seed :: "(string \<Rightarrow> string) \<Rightarrow> platform_store seed_store" where
  "platform_seed sha256 =
     \<lparr>ss_ops = platform_ops, ss_create_agent_version = create_agent_version sha256, ss_create_run = create_run,
      ss_create_execution = create_execution\<rparr>"

text \<open>
  The host: the identifiers the store draws and the times it reads, for the set-up (first argument
  0) and for each run (1, 2, ...), and what the \<open>n\<close>-th run meets (its \<open>run_uuid\<close> is the
  \<open>uuid4()\<close> it is given).
\<close>

record demo_host =
  dh_id :: "nat \<Rightarrow> nat \<Rightarrow> uuid"
  dh_now :: "nat \<Rightarrow> nat \<Rightarrow> datetime"
  dh_runtime :: "nat \<Rightarrow> runtime"

text \<open>Two awaited steps in sequence; an exception ends the script with what is stored so far.\<close>

definition and_then :: "(exc, 'a) res \<times> 's \<Rightarrow> ('a \<Rightarrow> 's \<Rightarrow> (exc, 'b) res \<times> 's) \<Rightarrow> (exc, 'b) res \<times> 's" where
  "and_then r f = (case r of (Inl e, s) \<Rightarrow> (Inl e, s) | (Inr x, s) \<Rightarrow> f x s)"

definition awaited :: "('s \<Rightarrow> (exc, 'a \<times> 's) res) \<Rightarrow> 's \<Rightarrow> (exc, 'a) res \<times> 's" where
  "awaited f s = (case f s of Inl e \<Rightarrow> (Inl e, s) | Inr (x, s') \<Rightarrow> (Inr x, s'))"

fun record_verdicts ::
  "'s store_ops \<Rightarrow> (nat \<Rightarrow> uuid) \<Rightarrow> (nat \<Rightarrow> datetime) \<Rightarrow> nat \<Rightarrow> uuid \<Rightarrow> judge_verdict_create list \<Rightarrow> 's
     \<Rightarrow> (exc, unit) res \<times> 's" where
  "record_verdicts ops ids now k eid [] s = (Inr (), s)"
| "record_verdicts ops ids now k eid (verdict # verdicts) s =
     and_then (awaited (so_append_judge_verdict ops (ids k) (now k) eid verdict) s)
       (\<lambda>_. record_verdicts ops ids now (k + 1) eid verdicts)"

text \<open>\<open>_run_and_record\<close>, for the run number \<open>n\<close>.\<close>

definition run_and_record ::
  "'s seed_store \<Rightarrow> demo_host \<Rightarrow> nat \<Rightarrow> uuid \<Rightarrow> agent_version \<Rightarrow> benchmark_task \<Rightarrow> scripted_client
     \<Rightarrow> judge_verdict_create list \<Rightarrow> 's \<Rightarrow> (exc, unit) res \<times> 's" where
  "run_and_record ss host n run version task model judge_verdicts s =
     (let rt = dh_runtime host n; now = dh_now host n; ids = dh_id host n in
      and_then (bind_res (run_task scripted_complete rt version task model (Some (run_uuid rt))
            DEFAULT_MAX_STEPS DEFAULT_MAX_MODEL_RETRIES) (\<lambda>result.
          bind_res (score_execution task result) (\<lambda>(execution_result, _). Inr (result, execution_result))), s)
        (\<lambda>(result, execution_result) s.
      and_then (awaited (ss_create_execution ss (ids 0) (now 0) run
          \<lparr>ex_task_id = bt_task_id task, ex_task_seed = 0\<rparr>) s) (\<lambda>execution s.
      and_then (to_storage (rr_trace result), s) (\<lambda>events s.
      and_then (append_events (ss_ops ss) now 1 (ex_id execution) events s) (\<lambda>_ s.
      and_then (awaited (so_record_result (ss_ops ss) (now (length events + 1)) (ex_id execution) execution_result) s) (\<lambda>_.
        record_verdicts (ss_ops ss) ids (\<lambda>k. now (length events + 1 + k)) 1 (ex_id execution) judge_verdicts))))))"

definition demo_version :: "string \<Rightarrow> string \<Rightarrow> agent_version_create" where
  "demo_version sha hash =
     \<lparr>av_name = ''support-agent'', av_git_sha = sha, av_model = ''demo-model'',
      av_system_prompt = ''You are a customer support agent.'', av_tool_schema_hash = hash, av_config = []\<rparr>"

definition demo_run :: "uuid \<Rightarrow> evaluation_run_create" where
  "demo_run version =
     \<lparr>run_agent_version_id = version, run_suite_id = ''customer-support-v1'', run_suite_version = ''1'',
      run_suite_manifest_hash = ''demo-manifest-hash'', run_seed = 1\<rparr>"

fun seed_tasks ::
  "'s seed_store \<Rightarrow> demo_host \<Rightarrow> nat \<Rightarrow> (uuid \<times> agent_version) \<times> (uuid \<times> agent_version) \<Rightarrow> benchmark_task list \<Rightarrow> 's
     \<Rightarrow> (exc, unit) res \<times> 's" where
  "seed_tasks ss host n runs [] s = (Inr (), s)"
| "seed_tasks ss host n ((baseline, baseline_version), (candidate, candidate_version)) (task # tasks) s =
     (let is_regressed_task = (task = CUSTOMER_REFUND_WITHIN_POLICY) in
      and_then (run_and_record ss host n baseline baseline_version task (correct_model_for task) [] s) (\<lambda>_ s.
      and_then (run_and_record ss host (n + 1) candidate candidate_version task
          (if is_regressed_task then regressed_model_for_refund_within_policy else correct_model_for task)
          (if is_regressed_task then REGRESSED_REFUND_JUDGE_VERDICTS else []) s) (\<lambda>_.
        seed_tasks ss host (n + 2) ((baseline, baseline_version), (candidate, candidate_version)) tasks)))"

definition seed :: "'s seed_store \<Rightarrow> demo_host \<Rightarrow> 's \<Rightarrow> (exc, uuid \<times> uuid) res \<times> 's" where
  "seed ss host s =
     and_then (awaited (ss_create_agent_version ss (dh_id host 0 0) (dh_now host 0 0)
         (demo_version ''baseline0000000'' ''demo-schema-hash-baseline'')) s) (\<lambda>baseline_version s.
     and_then (awaited (ss_create_agent_version ss (dh_id host 0 1) (dh_now host 0 1)
         (demo_version ''candidate000000'' ''demo-schema-hash-candidate'')) s) (\<lambda>candidate_version s.
     and_then (awaited (ss_create_run ss (dh_id host 0 2) (dh_now host 0 2) (demo_run (av_id baseline_version))) s) (\<lambda>baseline s.
     and_then (awaited (ss_create_run ss (dh_id host 0 3) (dh_now host 0 3) (demo_run (av_id candidate_version))) s) (\<lambda>candidate s.
     and_then (seed_tasks ss host 1 ((run_id baseline, baseline_version), (run_id candidate, candidate_version)) TASKS s)
       (\<lambda>_ s. (Inr (run_id baseline, run_id candidate), s))))))"

section \<open>Runs of a script\<close>

text \<open>An iteration only depends on what the client answers to its one question, when that is a rp.\<close>

lemma retries_reply:
  "ask messages (av_model version) (av_config version) c = (Reply rp, c') \<Longrightarrow>
     complete_with_retries ask rt parent messages version max_retries attempt c t = (Inr rp, c', t)"
  by (subst complete_with_retries.simps) simp

lemma run_iteration_reply:
  assumes "ask (rs_messages s) (av_model version) (av_config version) (rs_client s) = (Reply rp, c')"
  shows "run_iteration ask rt version max_retries s =
    run_iteration (\<lambda>messages model params c. (Reply rp, c')) rt version max_retries s"
  using assms by (simp add: run_iteration_def retries_reply)

lemma iteration_of_reply:
  assumes "run_ok good rt st0 eid s" and "phase_run Ready (payloads (rs_trace s)) = Some Ready"
    and "ask (rs_messages s) (av_model version) (av_config version) (rs_client s) = (Reply rp, c')"
    and "good c'" and "reply_ok rp"
  shows "\<exists>s'. run_iteration ask rt version max_retries s =
      Inr (if mr_tool_calls rp = [] then Some (answer_text rp) else None, s') \<and>
    run_ok good rt st0 eid s' \<and> rs_client s' = c' \<and>
    calls_made (payloads (rs_trace s')) = calls_made (payloads (rs_trace s)) @ map request_triple (mr_tool_calls rp) \<and>
    phase_run Ready (payloads (rs_trace s')) = Some (if mr_tool_calls rp = [] then Finished else Ready)"
proof -
  let ?ask = "\<lambda>messages model params c. (Reply rp, c')"
  have mc: "model_client ?ask good (\<lambda>e. False)"
    by unfold_locales (use assms(4,5) in auto)
  note it = model_client.run_iteration_ok [OF mc assms(1,2), of version max_retries]
  then obtain answer s' where r: "run_iteration ?ask rt version max_retries s = Inr (answer, s')"
    by (cases "run_iteration ?ask rt version max_retries s") auto
  then obtain rp' parent t1 t2 where q:
      "complete_with_retries ?ask rt parent (rs_messages s) version max_retries 1 (rs_client s) t1 = (Inr rp', rs_client s', t2)"
      "calls_made (payloads (rs_trace s')) = calls_made (payloads (rs_trace s)) @ map request_triple (mr_tool_calls rp')"
      "answer = (if mr_tool_calls rp' = [] then Some (answer_text rp') else None)"
    using it by auto
  then have "rp' = rp" "rs_client s' = c'" by (simp_all add: retries_reply)
  moreover have "run_iteration ask rt version max_retries s = run_iteration ?ask rt version max_retries s"
    by (rule run_iteration_reply) (rule assms(3))
  ultimately show ?thesis using it r q by (auto split: if_splits)
qed

text \<open>A script of calls and then an answer, and the calls it makes.\<close>

fun plays :: "script_item list \<Rightarrow> bool" where
  "plays [] \<longleftrightarrow> False"
| "plays (ScriptError m # rest) \<longleftrightarrow> False"
| "plays (ScriptReply r # rest) \<longleftrightarrow> (if mr_tool_calls r = [] then rest = [] else plays rest)"

fun plan :: "script_item list \<Rightarrow> (string \<times> string \<times> pydict) list" where
  "plan [] = []"
| "plan (ScriptError m # rest) = plan rest"
| "plan (ScriptReply r # rest) = map request_triple (mr_tool_calls r) @ plan rest"

fun closing :: "script_item list \<Rightarrow> string" where
  "closing [] = []"
| "closing (ScriptError m # rest) = closing rest"
| "closing (ScriptReply r # rest) = (if mr_tool_calls r = [] then answer_text r else closing rest)"

lemma scripted_loop:
  assumes "plays script" and "length script \<le> n"
    and "run_ok scripted_good rt st0 eid s" and "phase_run Ready (payloads (rs_trace s)) = Some Ready"
    and "drop (sc_calls (rs_client s)) (sc_script (rs_client s)) = script"
  shows "\<exists>s'. run_loop scripted_complete rt version max_steps max_retries n s = Inr (Some (closing script), False, s') \<and>
    run_ok scripted_good rt st0 eid s' \<and>
    calls_made (payloads (rs_trace s')) = calls_made (payloads (rs_trace s)) @ plan script"
  using assms
proof (induction script arbitrary: n s rule: plays.induct)
  case (3 rp rest)
  obtain m where n: "n = Suc m" using "3.prems"(2) by (cases n) auto
  let ?c = "rs_client s"
  let ?c' = "?c\<lparr>sc_calls := sc_calls ?c + 1\<rparr>"
  note next_item = scripted_next [OF "3.prems"(5)]
  have good: "scripted_good ?c" using "3.prems"(3) by (simp add: run_ok_def)
  have "ScriptReply rp \<in> set (sc_script ?c)" using "3.prems"(5) by (metis in_set_dropD list.set_intros(1))
  then have "reply_ok rp" using good by (auto simp: scripted_good_def list_all_iff)
  moreover have "scripted_good ?c'" using good by (simp add: scripted_good_def)
  ultimately obtain s1 where s1: "run_iteration scripted_complete rt version max_retries s =
      Inr (if mr_tool_calls rp = [] then Some (answer_text rp) else None, s1)"
      "run_ok scripted_good rt st0 eid s1" "rs_client s1 = ?c'"
      "calls_made (payloads (rs_trace s1)) = calls_made (payloads (rs_trace s)) @ map request_triple (mr_tool_calls rp)"
      "phase_run Ready (payloads (rs_trace s1)) = Some (if mr_tool_calls rp = [] then Finished else Ready)"
    using iteration_of_reply [OF "3.prems"(3,4), of scripted_complete version rp ?c' max_retries] next_item(1) by auto
  show ?case
  proof (cases "mr_tool_calls rp = []")
    case True
    then show ?thesis using s1 "3.prems"(1) n by auto
  next
    case False
    have "plays rest" "length rest \<le> m" using "3.prems"(1,2) False n by simp_all
    moreover have "drop (sc_calls (rs_client s1)) (sc_script (rs_client s1)) = rest" using s1(3) next_item(2) by simp
    ultimately show ?thesis using "3.IH" [OF False, of m s1] s1 False n by auto
  qed
qed simp_all

lemma scripted_plays:
  assumes "wf_support (from_mapping (bt_initial_state task))" and "scripted_good (scripted script)"
    and "plays script" and "length script \<le> nat max_steps"
  shows "\<exists>r. run_task scripted_complete rt version task (scripted script) execution_id max_steps max_retries = Inr r \<and>
    rr_final_output r = Some (closing script) \<and>
    score_run task r = score_actions task (map call_of_triple (plan script))
      (snapshot (replay rt (plan script) (from_mapping (bt_initial_state task))))"
proof -
  let ?st0 = "from_mapping (bt_initial_state task)"
  let ?eid = "case execution_id of None \<Rightarrow> run_uuid rt | Some u \<Rightarrow> u"
  let ?s = "run_start version task ?eid (scripted script)"
  have s: "run_ok scripted_good rt ?st0 ?eid ?s" "phase_run Ready (payloads (rs_trace ?s)) = Some Ready"
    "drop (sc_calls (rs_client ?s)) (sc_script (rs_client ?s)) = script" "calls_made (payloads (rs_trace ?s)) = []"
    using assms(1,2) session_ok_refl by (simp_all add: run_ok_def run_start_def scripted_def)
  from scripted_loop [OF assms(3,4) s(1-3), of version max_steps max_retries]
  obtain s' where "run_loop scripted_complete rt version max_steps max_retries (nat max_steps) ?s =
      Inr (Some (closing script), False, s')"
      "run_ok scripted_good rt ?st0 ?eid s'" "calls_made (payloads (rs_trace s')) = plan script"
    using s(4) by auto
  then show ?thesis
    by (auto simp: run_task_def Let_def run_ok_def score_run_def extract_tool_calls_made simp del: score_actions_simps)
qed

section \<open>What the models of the scenario do\<close>

definition demo_passes :: "runtime \<Rightarrow> benchmark_task \<Rightarrow> script_item list \<Rightarrow> bool" where
  "demo_passes rt task script =
     cs_passed (score_actions task (map call_of_triple (plan script))
       (snapshot (replay rt (plan script) (from_mapping (bt_initial_state task)))))"

definition playable :: "benchmark_task \<Rightarrow> script_item list \<Rightarrow> bool" where
  "playable task script \<longleftrightarrow>
     wf_support (from_mapping (bt_initial_state task)) \<and> scripted_good (scripted script) \<and> plays script \<and>
     length script \<le> nat DEFAULT_MAX_STEPS"

lemma demo_playable:
  "list_all (\<lambda>task. playable task (sc_script (correct_model_for task))) TASKS"
  "playable CUSTOMER_REFUND_WITHIN_POLICY (sc_script regressed_model_for_refund_within_policy)"
  by code_simp+


lemma demo_verdicts:
  "demo_passes rt CUSTOMER_REFUND_WITHIN_POLICY (sc_script (correct_model_for CUSTOMER_REFUND_WITHIN_POLICY))"
  "demo_passes rt CUSTOMER_REFUND_OUTSIDE_POLICY (sc_script (correct_model_for CUSTOMER_REFUND_OUTSIDE_POLICY))"
  "demo_passes rt ORDER_CANCELLATION_DENIED_AFTER_DELIVERY
     (sc_script (correct_model_for ORDER_CANCELLATION_DENIED_AFTER_DELIVERY))"
  "\<not> demo_passes rt CUSTOMER_REFUND_WITHIN_POLICY (sc_script regressed_model_for_refund_within_policy)"
  by code_simp+

lemma correct_model_scripted: "correct_model_for task = scripted (sc_script (correct_model_for task))"
  "regressed_model_for_refund_within_policy = scripted (sc_script regressed_model_for_refund_within_policy)"
  by (simp_all add: correct_model_for_def regressed_model_for_refund_within_policy_def scripted_def)

lemma playable_runs:
  assumes "playable task script"
  shows "\<exists>r res. run_task scripted_complete rt version task (scripted script) (Some eid)
      DEFAULT_MAX_STEPS DEFAULT_MAX_MODEL_RETRIES = Inr r \<and>
    score_execution task r = Inr (res, score_run task r) \<and> TaskExecutionResult res = Inr res \<and>
    terminal_status (res_status res) \<and> res_passed res = demo_passes rt task script \<and>
    (res_status res = PASSED \<longleftrightarrow> res_passed res) \<and>
    res_final_output res = (if closing script = [] then NO_FINAL_ANSWER else closing script) \<and>
    score_run task r = score_actions task (map call_of_triple (plan script))
      (snapshot (replay rt (plan script) (from_mapping (bt_initial_state task)))) \<and>
    to_storage (rr_trace r) = Inr (map step_to_event (tr_steps (rr_trace r))) \<and> trace_ok (rr_trace r)"
proof -
  have p: "wf_support (from_mapping (bt_initial_state task))" "scripted_good (scripted script)" "plays script"
      "length script \<le> nat DEFAULT_MAX_STEPS"
    using assms by (simp_all add: playable_def)
  obtain r where r: "run_task scripted_complete rt version task (scripted script) (Some eid)
      DEFAULT_MAX_STEPS DEFAULT_MAX_MODEL_RETRIES = Inr r" "rr_final_output r = Some (closing script)"
      "score_run task r = score_actions task (map call_of_triple (plan script))
        (snapshot (replay rt (plan script) (from_mapping (bt_initial_state task))))"
    using scripted_plays [OF p, of rt version "Some eid"] by blast
  then have passed: "cs_passed (score_run task r) = demo_passes rt task script" by (simp add: demo_passes_def)
  have t: "trace_ok (rr_trace r)"
    using scripted.run_task_ok [OF p(2,1), where rt = rt and version = version and execution_id = "Some eid" and
        max_steps = DEFAULT_MAX_STEPS and max_retries = DEFAULT_MAX_MODEL_RETRIES] r(1) by simp
  obtain res where res: "score_execution task r = Inr (res, score_run task r)" "terminal_status (res_status res)"
      "res_passed res = demo_passes rt task script" "res_status res = PASSED \<longleftrightarrow> res_passed res"
    using finished_run_scores [OF scripted.model_client_axioms p(2,1) r(1)] r(2) passed by auto
  then have "TaskExecutionResult res = Inr res"
    "res_final_output res = (if closing script = [] then NO_FINAL_ANSWER else closing script)"
    using r(2) by (auto simp: score_execution_def Let_def bind_res_eq_Inr TaskExecutionResult_Inr)
  then show ?thesis using r res t to_storage_ok [OF t] by blast
qed

section \<open>What a run adds to the store\<close>

text \<open>One row for each execution: its identity, its run, its task, whether it passed, and the verdicts on it.\<close>

type_synonym row = "uuid \<times> uuid \<times> string \<times> bool option \<times> judge_verdict_create list"

definition row_of :: "platform_store \<Rightarrow> task_execution \<Rightarrow> row" where
  "row_of st e =
     (ex_id e, ex_run_id e, ex_task_id e, ex_passed e, map judge_verdict_create.truncate (ps_verdicts st (ex_id e)))"

definition rows :: "platform_store \<Rightarrow> row list" where
  "rows st = map (row_of st) (values_of (ps_executions st))"

lemma keyed_by_keys: "keyed_by f d \<Longrightarrow> keys d = map f (values_of d)"
  by (auto simp: keyed_by_def list_all_iff)

lemma rows_ids: "store_ok sha256 st \<Longrightarrow> map fst (rows st) = keys (ps_executions st)"
  using keyed_by_keys [of ex_id "ps_executions st"] by (simp add: store_ok_def rows_def row_of_def comp_def)

lemma dict_set_last: "k \<notin> set (keys d) \<Longrightarrow> dict_set k v (d @ [(k, w)]) = d @ [(k, v)]"
  by (induction d) auto

lemma append_events_frame:
  "append_events platform_ops now k eid es st = (r, st') \<Longrightarrow>
     \<exists>evs. st' = st\<lparr>ps_events := evs\<rparr>"
proof (induction es arbitrary: st k)
  case Nil
  then show ?case by (intro exI [of _ "ps_events st"]) simp
next
  case (Cons e es)
  show ?case
  proof (cases "append_trace_event (now k) eid e st")
    case (Inl x)
    then show ?thesis using Cons.prems by (intro exI [of _ "ps_events st"]) (simp add: platform_ops_def)
  next
    case (Inr p)
    obtain ev s1 where s1: "p = (ev, s1)" by (cases p)
    have "append_events platform_ops now (k + 1) eid es s1 = (r, st')"
      using Cons.prems Inr s1 by (simp add: platform_ops_def)
    then obtain evs where "st' = s1\<lparr>ps_events := evs\<rparr>" using Cons.IH by blast
    moreover have "\<exists>evs. s1 = st\<lparr>ps_events := evs\<rparr>"
      using Inr s1 by (auto simp: append_trace_event_Inr)
    ultimately show ?thesis by auto
  qed
qed

lemma record_verdicts_appends:
  assumes "store_ok sha256 st" and "map_of (ps_executions st) eid \<noteq> None"
    and "list_all (\<lambda>v. JudgeVerdictCreate v = Inr v) verdicts"
  shows "\<exists>vs. record_verdicts platform_ops ids now k eid verdicts st =
      (Inr (), st\<lparr>ps_verdicts := (ps_verdicts st)(eid := ps_verdicts st eid @ vs)\<rparr>) \<and>
    map judge_verdict_create.truncate vs = verdicts \<and>
    store_ok sha256 (st\<lparr>ps_verdicts := (ps_verdicts st)(eid := ps_verdicts st eid @ vs)\<rparr>)"
  using assms
proof (induction verdicts arbitrary: st k)
  case Nil
  then show ?case by (intro exI [of _ "[]"]) simp
next
  case (Cons v verdicts)
  let ?v = "judge_verdict_create.extend v \<lparr>jv_id = ids k, jv_execution_id = eid, jv_created_at = now k\<rparr>"
  let ?st1 = "st\<lparr>ps_verdicts := (ps_verdicts st)(eid := ps_verdicts st eid @ [?v])\<rparr>"
  have one: "append_judge_verdict (ids k) (now k) eid v st = Inr (?v, ?st1)"
    using Cons.prems(2,3) by (simp add: append_judge_verdict_Inr)
  have st1: "store_ok sha256 ?st1" using append_judge_verdict_ok [OF Cons.prems(1) one] by simp
  have later: "?st1\<lparr>ps_verdicts := (ps_verdicts ?st1)(eid := ps_verdicts ?st1 eid @ vs)\<rparr> =
      st\<lparr>ps_verdicts := (ps_verdicts st)(eid := ps_verdicts st eid @ ?v # vs)\<rparr>" for vs by simp
  have "map_of (ps_executions ?st1) eid \<noteq> None" "list_all (\<lambda>v. JudgeVerdictCreate v = Inr v) verdicts"
    using Cons.prems(2,3) by simp_all
  from Cons.IH [OF st1 this, of "k + 1"] obtain vs
    where vs: "record_verdicts platform_ops ids now (k + 1) eid verdicts ?st1 =
      (Inr (), st\<lparr>ps_verdicts := (ps_verdicts st)(eid := ps_verdicts st eid @ ?v # vs)\<rparr>)"
      "map judge_verdict_create.truncate vs = verdicts"
      "store_ok sha256 (st\<lparr>ps_verdicts := (ps_verdicts st)(eid := ps_verdicts st eid @ ?v # vs)\<rparr>)"
    unfolding later by blast
  have "judge_verdict_create.truncate ?v = v" by (simp add: judge_verdict_create.defs)
  then have "map judge_verdict_create.truncate (?v # vs) = v # verdicts" using vs(2) by simp
  moreover have "record_verdicts platform_ops ids now k eid (v # verdicts) st =
      record_verdicts platform_ops ids now (k + 1) eid verdicts ?st1"
    using one by (simp add: and_then_def awaited_def platform_ops_def)
  ultimately show ?case using vs(1,3) by metis
qed


text \<open>A script run for a new execution, its trace and its result stored.\<close>

lemma execution_recorded:
  assumes script: "playable task script" and ok: "store_ok sha256 st" and run: "run \<in> set (keys (ps_runs st))"
    and new: "eid \<notin> set (keys (ps_executions st))" and p: "TaskExecutionCreate p = Inr p"
  obtains r res x s1 s2 s3 where
    "run_task scripted_complete rt version task (scripted script) (Some u) DEFAULT_MAX_STEPS DEFAULT_MAX_MODEL_RETRIES = Inr r"
    and "score_execution task r = Inr (res, score_actions task (map call_of_triple (plan script))
      (snapshot (replay rt (plan script) (from_mapping (bt_initial_state task)))))"
    and "TaskExecutionResult res = Inr res" and "res_passed res = demo_passes rt task script"
    and "res_status res = PASSED \<longleftrightarrow> res_passed res"
    and "res_final_output res = (if closing script = [] then NO_FINAL_ANSWER else closing script)"
    and "to_storage (rr_trace r) = Inr (map step_to_event (tr_steps (rr_trace r)))"
    and "list_all (\<lambda>e. TraceEventCreate e = Inr e) (map step_to_event (tr_steps (rr_trace r)))"
    and "create_execution eid t1 run p st = Inr (x, s1)"
    and "append_events platform_ops now k eid (map step_to_event (tr_steps (rr_trace r))) s1 = (Inr (), s2)"
    and "record_result (t2 (length (tr_steps (rr_trace r)))) eid res s2 = Inr (finalized (t2 (length (tr_steps (rr_trace r)))) res x, s3)"
    and "ex_id x = eid" and "ex_run_id x = run" and "ex_task_id x = ex_task_id p"
    and "store_ok sha256 s3" and "ps_runs s3 = ps_runs st" and "ps_verdicts s3 = ps_verdicts st" and "ps_verdicts st eid = []"
    and "ps_executions s3 = ps_executions st @ [(eid, finalized (t2 (length (tr_steps (rr_trace r)))) res x)]"
proof -
  obtain r res where r: "run_task scripted_complete rt version task (scripted script) (Some u)
      DEFAULT_MAX_STEPS DEFAULT_MAX_MODEL_RETRIES = Inr r" "score_execution task r = Inr (res, score_run task r)"
      "TaskExecutionResult res = Inr res" "res_passed res = demo_passes rt task script"
      "res_status res = PASSED \<longleftrightarrow> res_passed res"
      "res_final_output res = (if closing script = [] then NO_FINAL_ANSWER else closing script)"
      "score_run task r = score_actions task (map call_of_triple (plan script))
        (snapshot (replay rt (plan script) (from_mapping (bt_initial_state task))))"
      "to_storage (rr_trace r) = Inr (map step_to_event (tr_steps (rr_trace r)))" "trace_ok (rr_trace r)"
    using playable_runs [OF script] by blast
  let ?es = "map step_to_event (tr_steps (rr_trace r))"
  let ?x = "task_execution_create.extend p
    \<lparr>ex_id = eid, ex_run_id = run, ex_status = PENDING, ex_passed = None, ex_final_output = None, ex_latency_ms = None,
     ex_input_tokens = None, ex_output_tokens = None, ex_estimated_cost_usd = None, ex_missing_expected_actions = [],
     ex_forbidden_actions_seen = [], ex_final_state_mismatches = [], ex_created_at = t1, ex_finished_at = None\<rparr>"
  let ?s1 = "st\<lparr>ps_executions := ps_executions st @ [(eid, ?x)]\<rparr>"
  have x: "ex_id ?x = eid" "ex_run_id ?x = run" "ex_task_id ?x = ex_task_id p" "ex_status ?x = PENDING"
    by (simp_all add: task_execution_create.defs)
  have created: "create_execution eid t1 run p st = Inr (?x, ?s1)"
    using run p dict_set_fresh [OF new]
    by (simp add: create_execution_def valid_extensions(3) x(1))
  have s1: "store_ok sha256 ?s1" using create_execution_ok [OF ok new created] by simp
  have m1: "map_of (ps_executions ?s1) eid = Some ?x"
    using new by (simp add: map_add_def map_of_eq_None_iff [THEN iffD2])
  have none: "ps_events st eid = []" "ps_verdicts st eid = []" using ok new by (simp_all add: store_ok_def)
  have t: "so_get_trace platform_ops eid ?s1 = Inr []" using m1 none(1) by (simp add: platform_ops_def get_trace_Inr)
  note es = storable_events [OF r(9)]
  have d: "distinct (map ev_sequence_no ([] @ map (kept_event (\<lambda>p. p) eid 0) ?es))"
    using es(1) by (simp add: kept_event_def comp_def distinct_map)
  obtain s2 where s2: "append_events platform_ops now k eid ?es ?s1 = (Inr (), s2)" "store_ok sha256 s2"
    using platform_evidence.append_events_fresh [OF s1 t d es(2)] by blast
  then obtain evs where e2: "s2 = ?s1\<lparr>ps_events := evs\<rparr>" using append_events_frame by blast
  let ?t2 = "t2 (length (tr_steps (rr_trace r)))"
  let ?s3 = "s2\<lparr>ps_executions := ps_executions st @ [(eid, finalized ?t2 res ?x)]\<rparr>"
  have s3: "record_result ?t2 eid res s2 = Inr (finalized ?t2 res ?x, ?s3)"
    using m1 x(4) dict_set_last [OF new] e2 by (auto simp: record_result_Inr terminal_status_def)
  then have "store_ok sha256 ?s3" using record_result_ok [OF s2(2) r(3)] by blast
  then show thesis
    by (intro that [OF r(1) r(2) [unfolded r(7)] r(3-6,8) es(2) created s2(1) s3 x(1-3) _ _ _ none(2)]) (simp_all add: e2)
qed

lemma run_and_record_adds:
  assumes script: "playable task script" and ok: "store_ok sha256 st" and run: "run \<in> set (keys (ps_runs st))"
    and fresh: "dh_id host n 0 \<notin> set (map fst (rows st))" and task: "length_in 1 120 (bt_task_id task)"
    and verdicts: "list_all (\<lambda>v. JudgeVerdictCreate v = Inr v) verdicts"
  shows "\<exists>st'. run_and_record (platform_seed sha256) host n run version task (scripted script) verdicts st = (Inr (), st') \<and>
    store_ok sha256 st' \<and> ps_runs st' = ps_runs st \<and>
    rows st' = rows st @
      [(dh_id host n 0, run, bt_task_id task, Some (demo_passes (dh_runtime host n) task script), verdicts)]"
proof -
  let ?rt = "dh_runtime host n" and ?now = "dh_now host n" and ?eid = "dh_id host n 0"
  let ?p = "\<lparr>ex_task_id = bt_task_id task, ex_task_seed = 0\<rparr>"
  have new: "?eid \<notin> set (keys (ps_executions st))" using fresh rows_ids [OF ok] by metis
  have p: "TaskExecutionCreate ?p = Inr ?p" using task by (simp add: TaskExecutionCreate_def validated_def)
  obtain r res x s1 s2 s3 where r: "run_task scripted_complete ?rt version task (scripted script) (Some (run_uuid ?rt))
      DEFAULT_MAX_STEPS DEFAULT_MAX_MODEL_RETRIES = Inr r"
      "\<exists>score. score_execution task r = Inr (res, score)" "res_passed res = demo_passes ?rt task script"
      "to_storage (rr_trace r) = Inr (map step_to_event (tr_steps (rr_trace r)))"
    and x: "create_execution ?eid (?now 0) run ?p st = Inr (x, s1)" "ex_id x = ?eid" "ex_run_id x = run"
      "ex_task_id x = bt_task_id task"
    and s: "append_events platform_ops ?now 1 ?eid (map step_to_event (tr_steps (rr_trace r))) s1 = (Inr (), s2)"
      "record_result (?now (length (tr_steps (rr_trace r)) + 1)) ?eid res s2 =
        Inr (finalized (?now (length (tr_steps (rr_trace r)) + 1)) res x, s3)"
      "store_ok sha256 s3" "ps_runs s3 = ps_runs st" "ps_verdicts s3 = ps_verdicts st" "ps_verdicts st ?eid = []"
      "ps_executions s3 = ps_executions st @ [(?eid, finalized (?now (length (tr_steps (rr_trace r)) + 1)) res x)]"
    by (rule execution_recorded [OF script ok run new p, where rt = ?rt and version = version and u = "run_uuid ?rt" and
          ?t1.0 = "?now 0" and now = ?now and k = 1 and ?t2.0 = "\<lambda>m. ?now (m + 1)"]) (rule that, auto)
  let ?n = "length (tr_steps (rr_trace r)) + 1"
  have m3: "map_of (ps_executions s3) ?eid \<noteq> None" using new s(7) by simp
  obtain vs where vs: "record_verdicts platform_ops (dh_id host n) (\<lambda>k. ?now (?n + k)) 1 ?eid verdicts s3 =
      (Inr (), s3\<lparr>ps_verdicts := (ps_verdicts s3)(?eid := ps_verdicts s3 ?eid @ vs)\<rparr>)"
      "map judge_verdict_create.truncate vs = verdicts"
      "store_ok sha256 (s3\<lparr>ps_verdicts := (ps_verdicts s3)(?eid := ps_verdicts s3 ?eid @ vs)\<rparr>)"
    using record_verdicts_appends [OF s(3) m3 verdicts] by blast
  let ?s4 = "s3\<lparr>ps_verdicts := (ps_verdicts s3)(?eid := ps_verdicts s3 ?eid @ vs)\<rparr>"
  have "run_and_record (platform_seed sha256) host n run version task (scripted script) verdicts st = (Inr (), ?s4)"
    using r(1,2,4) x(1,2) s(1,2) vs(1)
    by (auto simp: run_and_record_def and_then_def awaited_def platform_seed_def platform_ops_def Let_def)
  moreover have "map (row_of ?s4) (values_of (ps_executions st)) = rows st"
  proof -
    have "ex_id e \<noteq> ?eid" if "e \<in> set (values_of (ps_executions st))" for e
      using fresh that by (force simp: rows_def row_of_def)
    then show ?thesis by (auto simp: rows_def row_of_def s(5))
  qed
  moreover have "row_of ?s4 (finalized (?now ?n) res x) =
      (?eid, run, bt_task_id task, Some (demo_passes ?rt task script), verdicts)"
    using x(2-4) r(3) vs(2) s(5,6) by (simp add: row_of_def)
  ultimately show ?thesis using vs(3) s(4,7) by (intro exI [of _ ?s4]) (simp add: rows_def)
qed

section \<open>The scenario, run\<close>

text \<open>The rows of the six runs, in the order of the script.\<close>

fun demo_rows :: "demo_host \<Rightarrow> nat \<Rightarrow> uuid \<Rightarrow> uuid \<Rightarrow> benchmark_task list \<Rightarrow> row list" where
  "demo_rows host n baseline candidate [] = []"
| "demo_rows host n baseline candidate (task # tasks) =
     (dh_id host n 0, baseline, bt_task_id task, Some True, [])
     # (dh_id host (n + 1) 0, candidate, bt_task_id task, Some (task \<noteq> CUSTOMER_REFUND_WITHIN_POLICY),
         if task = CUSTOMER_REFUND_WITHIN_POLICY then REGRESSED_REFUND_JUDGE_VERDICTS else [])
     # demo_rows host (n + 2) baseline candidate tasks"

lemma demo_task:
  assumes "task \<in> set TASKS"
  shows "playable task (sc_script (correct_model_for task))"
    and "demo_passes rt task (sc_script (correct_model_for task))" and "length_in 1 120 (bt_task_id task)"
proof -
  have "list_all (\<lambda>task. length_in 1 120 (bt_task_id task)) TASKS" by code_simp
  then show "length_in 1 120 (bt_task_id task)" using assms by (simp add: list_all_iff)
qed (use assms demo_playable demo_verdicts in \<open>auto simp: TASKS_def\<close>)

lemma regressed_verdicts_valid: "list_all (\<lambda>v. JudgeVerdictCreate v = Inr v) REGRESSED_REFUND_JUDGE_VERDICTS"
  by code_simp

lemma demo_rows_ids: "map fst (demo_rows host n b c tasks) = map (\<lambda>i. dh_id host i 0) [n..<n + 2 * length tasks]"
  by (induction host n b c tasks rule: demo_rows.induct) (simp_all add: upt_conv_Cons del: upt_Suc)

text \<open>The two models of a task, and whether they pass.\<close>

definition plays_as :: "benchmark_task \<Rightarrow> scripted_client \<Rightarrow> bool \<Rightarrow> bool" where
  "plays_as task model passed \<longleftrightarrow>
     playable task (sc_script model) \<and> scripted (sc_script model) = model \<and>
     (\<forall>rt. demo_passes rt task (sc_script model) = passed)"

lemma demo_models:
  assumes "task \<in> set TASKS"
  shows "plays_as task (correct_model_for task) True"
    and "plays_as task (if task = CUSTOMER_REFUND_WITHIN_POLICY then regressed_model_for_refund_within_policy
      else correct_model_for task) (task \<noteq> CUSTOMER_REFUND_WITHIN_POLICY)"
proof -
  show c: "plays_as task (correct_model_for task) True"
    using demo_task [OF assms] by (simp add: plays_as_def flip: correct_model_scripted(1))
  have "plays_as CUSTOMER_REFUND_WITHIN_POLICY regressed_model_for_refund_within_policy False"
    using demo_playable(2) demo_verdicts(4) by (simp add: plays_as_def flip: correct_model_scripted(2))
  then show "plays_as task (if task = CUSTOMER_REFUND_WITHIN_POLICY then regressed_model_for_refund_within_policy
      else correct_model_for task) (task \<noteq> CUSTOMER_REFUND_WITHIN_POLICY)" using c by auto
qed

lemma demo_run_adds:
  assumes "plays_as task model passed" and "task \<in> set TASKS" and "store_ok sha256 st"
    and "run \<in> set (keys (ps_runs st))" and "dh_id host n 0 \<notin> set (map fst (rows st))"
    and "list_all (\<lambda>v. JudgeVerdictCreate v = Inr v) verdicts"
  shows "\<exists>st'. run_and_record (platform_seed sha256) host n run version task model verdicts st = (Inr (), st') \<and>
    store_ok sha256 st' \<and> ps_runs st' = ps_runs st \<and>
    rows st' = rows st @ [(dh_id host n 0, run, bt_task_id task, Some passed, verdicts)]"
proof -
  have m: "playable task (sc_script model)" "scripted (sc_script model) = model"
    "\<And>rt. demo_passes rt task (sc_script model) = passed" using assms(1) by (simp_all add: plays_as_def)
  from run_and_record_adds [OF m(1) assms(3-5) demo_task(3) [OF assms(2)] assms(6), of version]
  show ?thesis unfolding m(2,3) .
qed

lemma seed_tasks_rows:
  assumes "set tasks \<subseteq> set TASKS" and "store_ok sha256 st"
    and "b \<in> set (keys (ps_runs st))" and "c \<in> set (keys (ps_runs st))"
    and "distinct (map fst (rows st @ demo_rows host n b c tasks))"
  shows "\<exists>st'. seed_tasks (platform_seed sha256) host n ((b, bv), (c, cv)) tasks st = (Inr (), st') \<and>
    store_ok sha256 st' \<and> ps_runs st' = ps_runs st \<and> rows st' = rows st @ demo_rows host n b c tasks"
  using assms
proof (induction tasks arbitrary: n st)
  case (Cons task tasks)
  let ?bad = "task = CUSTOMER_REFUND_WITHIN_POLICY"
  let ?model = "if ?bad then regressed_model_for_refund_within_policy else correct_model_for task"
  let ?verdicts = "if ?bad then REGRESSED_REFUND_JUDGE_VERDICTS else []"
  let ?r1 = "(dh_id host n 0, b, bt_task_id task, Some True, [])"
  let ?r2 = "(dh_id host (n + 1) 0, c, bt_task_id task, Some (\<not> ?bad), ?verdicts)"
  have task: "task \<in> set TASKS" using Cons.prems(1) by simp
  note d = Cons.prems(5)
  have fresh1: "dh_id host n 0 \<notin> set (map fst (rows st))" using d by auto
  have none: "list_all (\<lambda>v. JudgeVerdictCreate v = Inr v) []" by simp
  obtain s1 where s1: "run_and_record (platform_seed sha256) host n b bv task (correct_model_for task) [] st = (Inr (), s1)"
      "store_ok sha256 s1" "ps_runs s1 = ps_runs st" "rows s1 = rows st @ [?r1]"
    using demo_run_adds [OF demo_models(1) [OF task] task Cons.prems(2,3) fresh1 none] by blast
  have fresh2: "dh_id host (n + 1) 0 \<notin> set (map fst (rows s1))" using d s1(4) by auto
  have valid: "list_all (\<lambda>v. JudgeVerdictCreate v = Inr v) ?verdicts" using regressed_verdicts_valid by simp
  have c: "c \<in> set (keys (ps_runs s1))" using Cons.prems(4) s1(3) by simp
  obtain s2 where s2: "run_and_record (platform_seed sha256) host (n + 1) c cv task ?model ?verdicts s1 = (Inr (), s2)"
      "store_ok sha256 s2" "ps_runs s2 = ps_runs s1" "rows s2 = rows s1 @ [?r2]"
    using demo_run_adds [OF demo_models(2) [OF task] task s1(2) c fresh2 valid] by blast
  have rows2: "rows s2 @ demo_rows host (n + 2) b c tasks = rows st @ demo_rows host n b c (task # tasks)"
    using s1(4) s2(4) by simp
  have runs2: "ps_runs s2 = ps_runs st" using s1(3) s2(3) by simp
  have rest: "set tasks \<subseteq> set TASKS" "b \<in> set (keys (ps_runs s2))" "c \<in> set (keys (ps_runs s2))"
    using Cons.prems(1,3,4) unfolding runs2 by simp_all
  obtain s3 where "seed_tasks (platform_seed sha256) host (n + 2) ((b, bv), (c, cv)) tasks s2 = (Inr (), s3)"
      "store_ok sha256 s3" "ps_runs s3 = ps_runs st" "rows s3 = rows st @ demo_rows host n b c (task # tasks)"
    using Cons.IH [OF rest(1) s2(2) rest(2,3), of "n + 2"] d unfolding rows2 runs2 by blast
  moreover have "seed_tasks (platform_seed sha256) host n ((b, bv), (c, cv)) (task # tasks) st =
      seed_tasks (platform_seed sha256) host (n + 2) ((b, bv), (c, cv)) tasks s2"
    using s1(1) s2(1) by (simp add: and_then_def Let_def)
  ultimately show ?case by auto
qed simp

text \<open>The set-up: two versions and two runs.\<close>

definition same_evidence :: "platform_store \<Rightarrow> platform_store \<Rightarrow> bool" where
  "same_evidence st st' \<longleftrightarrow> ps_executions st' = ps_executions st \<and> ps_verdicts st' = ps_verdicts st"

lemma same_evidence_rows: "same_evidence st st' \<Longrightarrow> rows st' = rows st"
  by (simp add: same_evidence_def rows_def row_of_def)

lemma version_created:
  assumes "store_ok sha256 st" and "AgentVersionCreate p = Inr p" and "new_id \<notin> set (keys (ps_agent_versions st))"
  shows "\<exists>v st'. create_agent_version sha256 new_id now p st = Inr (v, st') \<and> store_ok sha256 st' \<and> same_evidence st st' \<and>
    ps_runs st' = ps_runs st \<and> set (keys (ps_agent_versions st')) \<subseteq> insert new_id (set (keys (ps_agent_versions st))) \<and>
    set (keys (ps_agent_versions st)) \<subseteq> set (keys (ps_agent_versions st')) \<and>
    av_id v \<in> set (keys (ps_agent_versions st'))"
proof -
  let ?h = "compute_agent_version_content_hash sha256 (av_model p) (av_system_prompt p) (av_tool_schema_hash p) (av_config p)"
  let ?v = "agent_version_create.extend p \<lparr>av_id = new_id, av_content_hash = ?h, av_created_at = now\<rparr>"
  have valid: "AgentVersionCreate ?v = Inr ?v"
    using assms(2) by (simp add: AgentVersionCreate_def validated_Inr agent_version_create.defs)
  have "\<exists>v st'. create_agent_version sha256 new_id now p st = Inr (v, st') \<and> same_evidence st st' \<and>
    ps_runs st' = ps_runs st \<and> set (keys (ps_agent_versions st')) \<subseteq> insert new_id (set (keys (ps_agent_versions st))) \<and>
    set (keys (ps_agent_versions st)) \<subseteq> set (keys (ps_agent_versions st')) \<and>
    av_id v \<in> set (keys (ps_agent_versions st'))"
  proof (cases "List.find (\<lambda>existing. av_content_hash existing = ?h) (values_of (ps_agent_versions st))")
    case None
    then show ?thesis using valid assms(3)
      by (auto simp: create_agent_version_def same_evidence_def dict_set_fresh agent_version_create.defs Let_def)
  next
    case (Some old)
    have "old \<in> set (values_of (ps_agent_versions st))" using Some by (auto simp: find_Some_iff intro: nth_mem)
    moreover have "keys (ps_agent_versions st) = map av_id (values_of (ps_agent_versions st))"
      by (rule keyed_by_keys) (use assms(1) in \<open>simp add: store_ok_def\<close>)
    ultimately have "av_id old \<in> set (keys (ps_agent_versions st))" by (metis image_eqI list.set_map)
    then show ?thesis using Some by (auto simp: create_agent_version_def same_evidence_def Let_def)
  qed
  then show ?thesis using create_agent_version_ok [OF assms(1,3)] by blast
qed

lemma run_created:
  assumes "store_ok sha256 st" and "EvaluationRunCreate p = Inr p" and "new_id \<notin> set (keys (ps_runs st))"
    and "run_agent_version_id p \<in> set (keys (ps_agent_versions st))"
  shows "\<exists>r st'. create_run new_id now p st = Inr (r, st') \<and> run_id r = new_id \<and> store_ok sha256 st' \<and>
    same_evidence st st' \<and> ps_agent_versions st' = ps_agent_versions st \<and> keys (ps_runs st') = keys (ps_runs st) @ [new_id]"
proof -
  let ?r = "evaluation_run_create.extend p
    \<lparr>run_id = new_id, run_status_of = RUN_QUEUED, run_created_at = now, run_finished_at = None\<rparr>"
  have "EvaluationRunCreate ?r = Inr ?r"
    using assms(2) by (simp add: EvaluationRunCreate_def validated_Inr evaluation_run_create.defs)
  then have "create_run new_id now p st = Inr (?r, st\<lparr>ps_runs := dict_set new_id ?r (ps_runs st)\<rparr>)"
    using assms(4) by (simp add: create_run_def evaluation_run_create.defs)
  moreover from create_run_ok [OF assms(1,3) this]
  have "store_ok sha256 (st\<lparr>ps_runs := dict_set new_id ?r (ps_runs st)\<rparr>)" by simp
  moreover have "run_id ?r = new_id" by (simp add: evaluation_run_create.defs)
  moreover have "keys (dict_set new_id ?r (ps_runs st)) = keys (ps_runs st) @ [new_id]"
    using assms(3) by (simp add: dict_set_fresh)
  ultimately show ?thesis
    by (intro exI [of _ ?r] exI [of _ "st\<lparr>ps_runs := dict_set new_id ?r (ps_runs st)\<rparr>"]) (simp add: same_evidence_def)
qed

lemma demo_payloads_valid:
  "AgentVersionCreate (demo_version ''baseline0000000'' ''demo-schema-hash-baseline'') =
     Inr (demo_version ''baseline0000000'' ''demo-schema-hash-baseline'')"
  "AgentVersionCreate (demo_version ''candidate000000'' ''demo-schema-hash-candidate'') =
     Inr (demo_version ''candidate000000'' ''demo-schema-hash-candidate'')"
  "EvaluationRunCreate (demo_run v) = Inr (demo_run v)"
  by code_simp+

text \<open>The identifiers the script draws for versions, runs and executions are new, also among themselves.\<close>

definition distinct_ids :: "demo_host \<Rightarrow> platform_store \<Rightarrow> bool" where
  "distinct_ids host st \<longleftrightarrow>
     distinct (keys (ps_agent_versions st) @ [dh_id host 0 0, dh_id host 0 1]) \<and>
     distinct (keys (ps_runs st) @ [dh_id host 0 2, dh_id host 0 3]) \<and>
     distinct (keys (ps_executions st) @ map (\<lambda>n. dh_id host n 0) [1..<7])"

lemma seed_runs:
  assumes ok: "store_ok sha256 st" and "distinct_ids host st"
  shows "\<exists>st'. seed (platform_seed sha256) host st = (Inr (dh_id host 0 2, dh_id host 0 3), st') \<and>
    store_ok sha256 st' \<and> {dh_id host 0 2, dh_id host 0 3} \<subseteq> set (keys (ps_runs st')) \<and>
    rows st' = rows st @ demo_rows host 1 (dh_id host 0 2) (dh_id host 0 3) TASKS"
proof -
  let ?id = "dh_id host 0" and ?now = "dh_now host 0"
  have d: "distinct (keys (ps_agent_versions st) @ [?id 0, ?id 1])" "distinct (keys (ps_runs st) @ [?id 2, ?id 3])"
    "distinct (keys (ps_executions st) @ map (\<lambda>n. dh_id host n 0) [1..<7])"
    using assms(2) by (simp_all add: distinct_ids_def)
  have none: "?id 0 \<notin> set (keys (ps_agent_versions st))" using d(1) by simp
  obtain v1 s1 where s1: "create_agent_version sha256 (?id 0) (?now 0) (demo_version ''baseline0000000'' ''demo-schema-hash-baseline'')
      st = Inr (v1, s1)" "store_ok sha256 s1" "same_evidence st s1" "ps_runs s1 = ps_runs st"
      "set (keys (ps_agent_versions s1)) \<subseteq> insert (?id 0) (set (keys (ps_agent_versions st)))"
      "av_id v1 \<in> set (keys (ps_agent_versions s1))"
    using version_created [OF ok demo_payloads_valid(1) none] by blast
  have "?id 1 \<notin> insert (?id 0) (set (keys (ps_agent_versions st)))" using d(1) by auto
  then have new1: "?id 1 \<notin> set (keys (ps_agent_versions s1))" using s1(5) by blast
  obtain v2 s2 where s2: "create_agent_version sha256 (?id 1) (?now 1) (demo_version ''candidate000000'' ''demo-schema-hash-candidate'')
      s1 = Inr (v2, s2)" "store_ok sha256 s2" "same_evidence s1 s2" "ps_runs s2 = ps_runs s1"
      "set (keys (ps_agent_versions s1)) \<subseteq> set (keys (ps_agent_versions s2))"
      "av_id v2 \<in> set (keys (ps_agent_versions s2))"
    using version_created [OF s1(2) demo_payloads_valid(2) new1] by blast
  have r0: "ps_runs s2 = ps_runs st" using s1(4) s2(4) by simp
  have pre3: "?id 2 \<notin> set (keys (ps_runs s2))" "run_agent_version_id (demo_run (av_id v1)) \<in> set (keys (ps_agent_versions s2))"
    using r0 d(2) s1(6) s2(5) by (auto simp: demo_run_def)
  obtain b s3 where s3: "create_run (?id 2) (?now 2) (demo_run (av_id v1)) s2 = Inr (b, s3)" "run_id b = ?id 2"
      "store_ok sha256 s3" "same_evidence s2 s3" "ps_agent_versions s3 = ps_agent_versions s2"
      "keys (ps_runs s3) = keys (ps_runs st) @ [?id 2]"
    using run_created [OF s2(2) demo_payloads_valid(3) pre3, of "?now 2"] r0 by auto
  have pre4: "?id 3 \<notin> set (keys (ps_runs s3))" "run_agent_version_id (demo_run (av_id v2)) \<in> set (keys (ps_agent_versions s3))"
    using s3(5,6) d(2) s2(6) by (auto simp: demo_run_def)
  obtain c s4 where s4: "create_run (?id 3) (?now 3) (demo_run (av_id v2)) s3 = Inr (c, s4)" "run_id c = ?id 3"
      "store_ok sha256 s4" "same_evidence s3 s4" "keys (ps_runs s4) = keys (ps_runs st) @ [?id 2, ?id 3]"
    using run_created [OF s3(3) demo_payloads_valid(3) pre4, of "?now 3"] s3(6) by auto
  have r4: "rows s4 = rows st"
    using s1(3) s2(3) s3(4) s4(4) by (simp add: same_evidence_rows)
  have "length TASKS = 3" by (simp add: TASKS_def)
  then have "distinct (map fst (rows s4 @ demo_rows host 1 (?id 2) (?id 3) TASKS))"
    using d(3) unfolding map_append demo_rows_ids r4 rows_ids [OF ok] by simp
  moreover have in4: "?id 2 \<in> set (keys (ps_runs s4))" "?id 3 \<in> set (keys (ps_runs s4))" unfolding s4(5) by simp_all
  ultimately obtain s5 where s5: "seed_tasks (platform_seed sha256) host 1 ((?id 2, v1), (?id 3, v2)) TASKS s4 = (Inr (), s5)"
      "store_ok sha256 s5" "ps_runs s5 = ps_runs s4" "rows s5 = rows st @ demo_rows host 1 (?id 2) (?id 3) TASKS"
    using seed_tasks_rows [OF subset_refl s4(3), of "?id 2" "?id 3" host 1 v1 v2] unfolding r4 by auto
  have "seed (platform_seed sha256) host st = (Inr (?id 2, ?id 3), s5)"
    using s1(1) s2(1) s3(1,2) s4(1,2) s5(1) by (simp add: seed_def and_then_def awaited_def platform_seed_def)
  moreover have "{?id 2, ?id 3} \<subseteq> set (keys (ps_runs s5))" using in4 unfolding s5(3) by blast
  ultimately show ?thesis using s5(2,4) by blast
qed


section \<open>What the demonstration shows\<close>

lemma run_executions_rows:
  assumes "store_ok sha256 st" and "run \<in> set (keys (ps_runs st))"
  shows "\<exists>es. so_get_run_executions platform_ops run st = Inr es \<and>
    map (row_of st) es = filter (\<lambda>row. fst (snd row) = run) (rows st) \<and>
    list_all (\<lambda>e. \<exists>t. so_get_trace platform_ops (ex_id e) st = Inr t) es"
proof -
  let ?es = "filter (\<lambda>item. ex_run_id item = run) (values_of (ps_executions st))"
  have es: "so_get_run_executions platform_ops run st = Inr ?es"
    using assms(2) by (simp add: platform_ops_def get_run_executions_def)
  moreover have "map (row_of st) ?es = filter (\<lambda>row. fst (snd row) = run) (rows st)"
    by (simp add: rows_def filter_map comp_def row_of_def)
  ultimately show ?thesis using platform_run_executions [OF assms(1) es] by blast
qed

definition demo_dispositions :: "(string \<times> regression_disposition) list" where
  "demo_dispositions =
     [(bt_task_id ORDER_CANCELLATION_DENIED_AFTER_DELIVERY, STABLE_PASS),
      (bt_task_id CUSTOMER_REFUND_OUTSIDE_POLICY, STABLE_PASS), (bt_task_id CUSTOMER_REFUND_WITHIN_POLICY, REGRESSION)]"

abbreviation demo_disposition :: "string \<Rightarrow> regression_disposition" where
  "demo_disposition t \<equiv> if t = bt_task_id CUSTOMER_REFUND_WITHIN_POLICY then REGRESSION else STABLE_PASS"

lemma demo_task_ids:
  "sorted_list_of_set (set (map bt_task_id TASKS)) = map fst demo_dispositions" "distinct (map bt_task_id TASKS)"
  "map (\<lambda>t. (t, demo_disposition t)) (map fst demo_dispositions) = demo_dispositions"
  by (unfold sorted_list_of_set_sort_remdups) code_simp+

lemma demo_rows_runs:
  assumes "b \<noteq> c"
  shows "map (fst \<circ> snd \<circ> snd) (filter (\<lambda>row. fst (snd row) = b) (demo_rows host n b c tasks)) = map bt_task_id tasks"
    and "map (fst \<circ> snd \<circ> snd) (filter (\<lambda>row. fst (snd row) = c) (demo_rows host n b c tasks)) = map bt_task_id tasks"
    and "(i, b, t, p, vs) \<in> set (demo_rows host n b c tasks) \<Longrightarrow> p = Some True"
    and "(i, c, t, p, vs) \<in> set (demo_rows host n b c tasks) \<Longrightarrow>
      \<exists>task \<in> set tasks. t = bt_task_id task \<and> p = Some (task \<noteq> CUSTOMER_REFUND_WITHIN_POLICY)"
  using assms by (induction host n b c tasks rule: demo_rows.induct) auto

lemma demo_pairs:
  assumes "b \<noteq> c"
    and "map (row_of st) lefts = filter (\<lambda>row. fst (snd row) = b) (demo_rows host n b c TASKS)"
    and "map (row_of st) rights = filter (\<lambda>row. fst (snd row) = c) (demo_rows host n b c TASKS)"
  shows "map ex_task_id lefts = map bt_task_id TASKS" and "map ex_task_id rights = map bt_task_id TASKS"
    and "pair_ok ops cost_round st lefts rights k item \<Longrightarrow> pc_disposition item = demo_disposition k"
proof -
  have ids: "map ex_task_id es = map (fst \<circ> snd \<circ> snd) (map (row_of st) es)" for es by (simp add: row_of_def)
  show "map ex_task_id lefts = map bt_task_id TASKS" "map ex_task_id rights = map bt_task_id TASKS"
    unfolding ids assms(2,3) by (rule demo_rows_runs [OF assms(1)])+
  assume "pair_ok ops cost_round st lefts rights k item"
  then obtain l r where lr: "l \<in> set lefts" "r \<in> set rights" "ex_task_id r = k"
      "pc_disposition item = disposition (ex_passed l) (ex_passed r)"
    unfolding pair_ok_def by blast
  have "row_of st l \<in> set (filter (\<lambda>row. fst (snd row) = b) (demo_rows host n b c TASKS))"
    "row_of st r \<in> set (filter (\<lambda>row. fst (snd row) = c) (demo_rows host n b c TASKS))"
    unfolding assms(2,3) [symmetric] using lr(1,2) by simp_all
  then have rows: "\<exists>i vs. (i, b, ex_task_id l, ex_passed l, vs) \<in> set (demo_rows host n b c TASKS)"
    "\<exists>i vs. (i, c, ex_task_id r, ex_passed r, vs) \<in> set (demo_rows host n b c TASKS)"
    unfolding row_of_def by auto
  have left: "ex_passed l = Some True" using rows(1) demo_rows_runs(3) [OF assms(1)] by blast
  obtain task where "task \<in> set TASKS" "k = bt_task_id task"
      "ex_passed r = Some (task \<noteq> CUSTOMER_REFUND_WITHIN_POLICY)"
    using rows(2) demo_rows_runs(4) [OF assms(1)] lr(3) by blast
  moreover have "task = CUSTOMER_REFUND_WITHIN_POLICY"
    if "task \<in> set TASKS" "bt_task_id task = bt_task_id CUSTOMER_REFUND_WITHIN_POLICY" for task
    using that demo_task_ids(2) by (auto simp: TASKS_def)
  ultimately show "pc_disposition item = demo_disposition k" using lr(4) left
    by (cases "task = CUSTOMER_REFUND_WITHIN_POLICY") auto
qed

text \<open>The rows a store held before are of other runs.\<close>

lemma earlier_rows:
  assumes "store_ok sha256 st" and "run \<notin> set (keys (ps_runs st))"
  shows "filter (\<lambda>row. fst (snd row) = run) (rows st) = []"
proof -
  have "ex_run_id e \<noteq> run" if "e \<in> set (values_of (ps_executions st))" for e
    using assms that by (auto simp: store_ok_def list_all_iff)
  then show ?thesis by (auto simp: rows_def row_of_def filter_empty_conv)
qed

lemma demo_comparison:
  assumes ok: "store_ok sha256 st" and ids: "distinct_ids host st"
  shows "\<exists>b c st' r. seed (platform_seed sha256) host st = (Inr (b, c), st') \<and> store_ok sha256 st' \<and>
    rows st' = rows st @ demo_rows host 1 b c TASKS \<and> compare_runs platform_ops cost_round b c st' = Inr r \<and>
    rc_compared_tasks r = 3 \<and> rc_regressions r = 1 \<and> rc_improvements r = 0 \<and>
    map (\<lambda>item. (pc_task_id item, pc_disposition item)) (rc_results r) = demo_dispositions"
proof -
  let ?b = "dh_id host 0 2" and ?c = "dh_id host 0 3"
  obtain st' where st: "seed (platform_seed sha256) host st = (Inr (?b, ?c), st')" "store_ok sha256 st'"
      "{?b, ?c} \<subseteq> set (keys (ps_runs st'))" "rows st' = rows st @ demo_rows host 1 ?b ?c TASKS"
    using seed_runs [OF assms] by blast
  have "?b \<noteq> ?c" and new: "?b \<notin> set (keys (ps_runs st))" "?c \<notin> set (keys (ps_runs st))"
    using ids by (simp_all add: distinct_ids_def)
  note pairs = demo_pairs [OF this(1)]
  have runs: "?b \<in> set (keys (ps_runs st'))" "?c \<in> set (keys (ps_runs st'))" using st(3) by simp_all
  obtain lefts rights where l: "so_get_run_executions platform_ops ?b st' = Inr lefts"
      "so_get_run_executions platform_ops ?c st' = Inr rights"
      "map (row_of st') lefts = filter (\<lambda>row. fst (snd row) = ?b) (demo_rows host 1 ?b ?c TASKS)"
      "map (row_of st') rights = filter (\<lambda>row. fst (snd row) = ?c) (demo_rows host 1 ?b ?c TASKS)"
      "list_all (\<lambda>e. \<exists>t. so_get_trace platform_ops (ex_id e) st' = Inr t) lefts"
      "list_all (\<lambda>e. \<exists>t. so_get_trace platform_ops (ex_id e) st' = Inr t) rights"
    using run_executions_rows [OF st(2) runs(1)] run_executions_rows [OF st(2) runs(2)]
    unfolding st(4) filter_append earlier_rows [OF ok new(1)] earlier_rows [OF ok new(2)] append.simps by blast
  note tasks = pairs(1,2) [OF l(3,4)]
  have shared: "ex_task_id ` set lefts \<inter> ex_task_id ` set rights = set (map bt_task_id TASKS)"
    using tasks by (metis inf.idem list.set_map)
  have dist: "distinct (map ex_task_id lefts)" "distinct (map ex_task_id rights)"
    unfolding tasks by (rule demo_task_ids(2))+
  have "ex_task_id ` set lefts \<inter> ex_task_id ` set rights \<noteq> {}" unfolding shared by (simp add: TASKS_def)
  from compare_runs_total [OF l(1,2) dist this l(5,6)] obtain r where r: "compare_runs platform_ops cost_round ?b ?c st' = Inr r" by blast
  have "map pc_task_id (rc_results r) = sorted_list_of_set (ex_task_id ` set lefts \<inter> ex_task_id ` set rights) \<and>
      list_all (\<lambda>item. pair_ok platform_ops cost_round st' lefts rights (pc_task_id item) item) (rc_results r) \<and>
      rc_compared_tasks r = length (rc_results r) \<and>
      rc_regressions r = length (filter (\<lambda>item. pc_disposition item = REGRESSION) (rc_results r)) \<and>
      rc_improvements r = length (filter (\<lambda>item. pc_disposition item = IMPROVEMENT) (rc_results r))"
    by (rule compare_runs_Inr [OF r]) (use l(1,2) in simp)
  then have results: "map pc_task_id (rc_results r) = map fst demo_dispositions"
      "list_all (\<lambda>item. pair_ok platform_ops cost_round st' lefts rights (pc_task_id item) item) (rc_results r)"
      "rc_compared_tasks r = length (rc_results r)"
      "rc_regressions r = length (filter (\<lambda>item. pc_disposition item = REGRESSION) (rc_results r))"
      "rc_improvements r = length (filter (\<lambda>item. pc_disposition item = IMPROVEMENT) (rc_results r))"
    unfolding shared demo_task_ids(1) by blast+
  let ?pair = "\<lambda>item. (pc_task_id item, pc_disposition item)"
  have "\<forall>item \<in> set (rc_results r). pc_disposition item = demo_disposition (pc_task_id item)"
    using results(2) pairs(3) [OF l(3,4)] unfolding list_all_iff by blast
  then have "map ?pair (rc_results r) = map (\<lambda>t. (t, demo_disposition t)) (map pc_task_id (rc_results r))" by simp
  then have d: "map ?pair (rc_results r) = demo_dispositions" unfolding results(1) demo_task_ids(3) .
  have size: "length (filter (\<lambda>item. pc_disposition item = x) (rc_results r)) =
      length (filter (\<lambda>p. snd p = x) demo_dispositions)" for x
    unfolding d [symmetric] by (simp add: filter_map comp_def)
  have "rc_compared_tasks r = 3" "rc_regressions r = 1" "rc_improvements r = 0"
    using results(3-5) d unfolding size by (auto simp: demo_dispositions_def dest: arg_cong [where f = length])
  then show ?thesis using st(1,2,4) r d by blast
qed

text \<open>The demonstration shows what it is for: seeding a consistent store, empty or not, succeeds, keeps
  what was recorded, leaves the store well-formed with six more recorded executions, and comparing
  the two new runs reports three shared tasks, one regression, on the refund the candidate skipped,
  and no improvement.\<close>

theorem demo_shows_one_regression:
  assumes "store_ok sha256 st" and "distinct_ids host st"
  shows "\<exists>b c st' r. seed (platform_seed sha256) host st = (Inr (b, c), st') \<and> store_ok sha256 st' \<and>
    rows st' = rows st @ demo_rows host 1 b c TASKS \<and> compare_runs platform_ops cost_round b c st' = Inr r \<and>
    rc_compared_tasks r = 3 \<and> rc_regressions r = 1 \<and> rc_improvements r = 0 \<and>
    map (\<lambda>item. (pc_task_id item, pc_disposition item)) (rc_results r) = demo_dispositions"
  by (rule demo_comparison [OF assms])

definition sample_host :: demo_host where
  "sample_host = \<lparr>dh_id = (\<lambda>n k. UUID (4 * n + k)), dh_now = (\<lambda>n k. 0), dh_runtime = (\<lambda>n. sample_runtime)\<rparr>"

theorem demo_shows_one_regression_witness:
  "\<exists>b c st r. seed (platform_seed (\<lambda>s. s)) sample_host empty_store = (Inr (b, c), st) \<and>
    compare_runs platform_ops (\<lambda>a b. a - b) b c st = Inr r \<and> rc_regressions r = 1"
proof -
  have "distinct_ids sample_host empty_store" by code_simp
  from demo_shows_one_regression [OF store_ok_empty this] show ?thesis by blast
qed

end
