(* ===== verification/DemoTask.thy ===== *)
theory DemoTask
  imports Demo
begin

text \<open>
  \<open>scripts/run_demo_task.py\<close>: one agent version against one task, all through the API. The application
  is the argument (the script's is \<open>create_app(PostgresStore())\<close>); requests and answers are the values
  their JSON stands for, so what the encoding of a request and the decoding of its answer keep is the
  identity here.
\<close>

section \<open>The script\<close>

definition TASK :: benchmark_task where
  "TASK = CUSTOMER_REFUND_WITHIN_POLICY"

definition MODEL_SCRIPT :: "script_item list" where
  "MODEL_SCRIPT =
     [call_reply ''c1'' ''customer'' ''get_customer'' [(''customer_id'', PStr ''CUST-001'')],
      call_reply ''c2'' ''order'' ''get_order'' [(''order_id'', PStr ''ORD-1001'')],
      call_reply ''c3'' ''policy'' ''check_refund_policy'' [(''order_id'', PStr ''ORD-1001'')],
      call_reply ''c4'' ''refund'' ''create_refund''
        [(''order_id'', PStr ''ORD-1001''), (''requesting_customer_id'', PStr ''CUST-001''),
         (''amount_cents'', PInt 4200), (''reason'', PStr ''damaged_item'')],
      call_reply ''c5'' ''ticket'' ''update_ticket'' [(''ticket_id'', PStr ''TICK-9001''), (''status'', PStr ''resolved'')],
      stop_reply ''Refund issued for order ORD-1001.'']"

definition demo_agent :: agent_version_create where
  "demo_agent =
     \<lparr>av_name = ''demo-refund-agent'', av_git_sha = ''0000000'', av_model = ''scripted-demo-v1'',
      av_system_prompt = ''You are a support agent. Follow policy exactly.'', av_tool_schema_hash = ''demo0001'',
      av_config = []\<rparr>"

definition demo_suite_run :: "uuid \<Rightarrow> evaluation_run_create" where
  "demo_suite_run version =
     \<lparr>run_agent_version_id = version, run_suite_id = ''support-ops'', run_suite_version = ''v1'',
      run_suite_manifest_hash = ''demo-manifest'', run_seed = 7\<rparr>"

text \<open>\<open>await client.post(...)\<close> and \<open>raise_for_status()\<close>.\<close>

definition posted :: "'s app \<Rightarrow> (rat \<Rightarrow> rat \<Rightarrow> rat) \<Rightarrow> request \<Rightarrow> 's \<Rightarrow> (exc, response) res \<times> 's" where
  "posted app cost_round r st =
     (case handle app cost_round (Post r) st of
        ((code, StoredBody x), st') \<Rightarrow>
          (if code < 400 then Inr x else Inl (Raise HTTPStatusError (int_text (int code))), st')
      | ((code, _), st') \<Rightarrow> (Inl (Raise HTTPStatusError (int_text (int code))), st'))"

fun post_events ::
  "'s app \<Rightarrow> (rat \<Rightarrow> rat \<Rightarrow> rat) \<Rightarrow> (nat \<Rightarrow> datetime) \<Rightarrow> nat \<Rightarrow> uuid \<Rightarrow> trace_event_create list \<Rightarrow> 's
     \<Rightarrow> (exc, unit) res \<times> 's" where
  "post_events app cost_round now k eid [] st = (Inr (), st)"
| "post_events app cost_round now k eid (event # events) st =
     and_then (posted app cost_round (AppendEvent (now k) eid event) st)
       (\<lambda>_. post_events app cost_round now (k + 1) eid events)"

record demo_report =
  dr_run_id :: uuid
  dr_execution_id :: uuid
  dr_execution :: task_execution
  dr_trace_steps :: nat
  dr_contract_score :: contract_score

text \<open>
  What is printed: the fields of the execution that was fetched (a \<open>KeyError\<close> when it is an error
  body), and the length of the fetched trace, one page of it (an error body has one key).
\<close>

definition printed_report ::
  "uuid \<Rightarrow> uuid \<Rightarrow> api_body \<Rightarrow> api_body \<Rightarrow> contract_score \<Rightarrow> (exc, demo_report) res" where
  "printed_report run eid fetched_execution fetched_trace contract_score =
     (case fetched_execution of
        ExecutionBody execution \<Rightarrow>
          Inr \<lparr>dr_run_id = run, dr_execution_id = eid, dr_execution = execution,
            dr_trace_steps = (case fetched_trace of TraceBody size_header events \<Rightarrow> length events | _ \<Rightarrow> 1),
            dr_contract_score = contract_score\<rparr>
      | _ \<Rightarrow> Inl (Raise KeyError (repr_str ''status'')))"

text \<open>\<open>AgentVersion.model_validate(response.json())\<close>, and \<open>response.json()["id"]\<close>.\<close>

definition answered_version :: "response \<Rightarrow> (exc, agent_version) res" where
  "answered_version answer =
     (case answer of Version version \<Rightarrow> Inr version | _ \<Rightarrow> Inl (Raise ValidationError ''AgentVersion''))"

definition answered_id :: "response \<Rightarrow> (exc, uuid) res" where
  "answered_id answer =
     (case answer of
        Version version \<Rightarrow> Inr (av_id version) | Run run \<Rightarrow> Inr (run_id run)
      | Execution execution \<Rightarrow> Inr (ex_id execution) | Event event \<Rightarrow> Inr (ev_id event) | Verdict verdict \<Rightarrow> Inr (jv_id verdict))"

text \<open>\<open>main()\<close>. The identifiers the store draws are \<open>ids\<close>, the times it reads \<open>now\<close>.\<close>

definition run_demo_task ::
  "'s app \<Rightarrow> (rat \<Rightarrow> rat \<Rightarrow> rat) \<Rightarrow> (nat \<Rightarrow> uuid) \<Rightarrow> (nat \<Rightarrow> datetime) \<Rightarrow> runtime \<Rightarrow> 's \<Rightarrow> (exc, demo_report) res \<times> 's" where
  "run_demo_task app cost_round ids now rt st =
     and_then (posted app cost_round (RegisterVersion (ids 0) (now 0) demo_agent) st) (\<lambda>answer st.
     and_then (answered_version answer, st) (\<lambda>version st.
     and_then (posted app cost_round (StartRun (ids 1) (now 1) (demo_suite_run (av_id version))) st) (\<lambda>answer st.
     and_then (answered_id answer, st) (\<lambda>run st.
     and_then (posted app cost_round (StartExecution (ids 2) (now 2) run
         \<lparr>ex_task_id = bt_task_id TASK, ex_task_seed = 7\<rparr>) st) (\<lambda>answer st.
     and_then (answered_id answer, st) (\<lambda>eid st.
     and_then (run_task scripted_complete rt version TASK (scripted MODEL_SCRIPT) (Some eid)
         DEFAULT_MAX_STEPS DEFAULT_MAX_MODEL_RETRIES, st) (\<lambda>result st.
     and_then (to_storage (rr_trace result), st) (\<lambda>events st.
     and_then (post_events app cost_round now 3 eid events st) (\<lambda>_ st.
     and_then (score_execution TASK result, st) (\<lambda>(execution_result, contract_score) st.
     and_then (posted app cost_round (RecordResult (now (3 + length events)) eid execution_result) st) (\<lambda>_ st.
     case handle app cost_round (GetExecution eid) st of ((_, fetched_execution), st) \<Rightarrow>
     case handle app cost_round (GetTrace eid None None) st of ((_, fetched_trace), st) \<Rightarrow>
       (printed_report run eid fetched_execution fetched_trace contract_score, st))))))))))))"


section \<open>What the script shows\<close>

lemma posted_ok:
  "check_body r = Inr u \<Longrightarrow> serve_platform sha256 r st = (Inr x, st') \<Longrightarrow>
     posted (platform_app sha256) cost_round r st = (Inr x, st')"
  by (cases r) (simp_all add: posted_def platform_app_def)

lemma post_events_ok:
  "list_all (\<lambda>e. TraceEventCreate e = Inr e) events \<Longrightarrow> append_events platform_ops now k eid events st = (Inr (), st') \<Longrightarrow>
     post_events (platform_app sha256) cost_round now k eid events st = (Inr (), st')"
proof (induction events arbitrary: k st)
  case (Cons e events)
  obtain ev s1 where s1: "append_trace_event (now k) eid e st = Inr (ev, s1)"
      "append_events platform_ops now (k + 1) eid events s1 = (Inr (), st')"
    using Cons.prems(2) by (auto simp: platform_ops_def split: sum.splits)
  have "posted (platform_app sha256) cost_round (AppendEvent (now k) eid e) st = (Inr (Event ev), s1)"
    by (rule posted_ok) (use Cons.prems(1) s1(1) in \<open>simp_all add: lift_res_def\<close>)
  then show ?case using Cons.IH [OF _ s1(2)] Cons.prems(1) by (simp add: and_then_def)
qed simp

lemma demo_script:
  "playable TASK MODEL_SCRIPT" "demo_passes rt TASK MODEL_SCRIPT" "closing MODEL_SCRIPT = ''Refund issued for order ORD-1001.''"
  "AgentVersionCreate demo_agent = Inr demo_agent" "EvaluationRunCreate (demo_suite_run v) = Inr (demo_suite_run v)"
  "TaskExecutionCreate \<lparr>ex_task_id = bt_task_id TASK, ex_task_seed = 7\<rparr> = Inr \<lparr>ex_task_id = bt_task_id TASK, ex_task_seed = 7\<rparr>"
  "score_actions TASK (map call_of_triple (plan MODEL_SCRIPT))
     (snapshot (replay rt (plan MODEL_SCRIPT) (from_mapping (bt_initial_state TASK)))) =
   \<lparr>cs_passed = True, cs_missing_expected_actions = [], cs_forbidden_actions_seen = [], cs_final_state_mismatches = []\<rparr>"
  by code_simp+


definition demo_report_ok :: "(nat \<Rightarrow> uuid) \<Rightarrow> platform_store \<Rightarrow> demo_report \<Rightarrow> bool" where
  "demo_report_ok ids st report \<longleftrightarrow>
     dr_run_id report = ids 1 \<and> dr_execution_id report = ids 2 \<and>
     map_of (ps_executions st) (ids 2) = Some (dr_execution report) \<and>
     ex_status (dr_execution report) = PASSED \<and> ex_passed (dr_execution report) = Some True \<and>
     ex_final_output (dr_execution report) = Some ''Refund issued for order ORD-1001.'' \<and>
     dr_contract_score report = \<lparr>cs_passed = True, cs_missing_expected_actions = [], cs_forbidden_actions_seen = [],
       cs_final_state_mismatches = []\<rparr> \<and>
     dr_trace_steps report = min 200 (length (ps_events st (ids 2)))"

lemma fetched_report:
  assumes "map_of (ps_executions st) eid = Some y"
  shows "handle (platform_app sha256) cost_round (GetExecution eid) st = ((200, ExecutionBody y), st)"
    and "\<exists>n es. handle (platform_app sha256) cost_round (GetTrace eid None None) st = ((200, TraceBody n es), st) \<and>
      length es = min 200 (length (ps_events st eid))"
  using assms
  by (simp_all add: platform_app_def platform_ops_def get_execution_def lookup_or_404_def trace_page_def get_trace_def Let_def)

text \<open>What the demo task leaves in the store, step by step.\<close>

lemma demo_task_recorded:
  assumes ok: "store_ok sha256 st" and "ids 0 \<notin> set (keys (ps_agent_versions st))" and "ids 1 \<notin> set (keys (ps_runs st))"
    and "ids 2 \<notin> set (keys (ps_executions st))"
  obtains v s1 run s2 x s3 r res s4 s5 where
    "create_agent_version sha256 (ids 0) (now 0) demo_agent st = Inr (v, s1)"
    "create_run (ids 1) (now 1) (demo_suite_run (av_id v)) s1 = Inr (run, s2)" "run_id run = ids 1"
    "create_execution (ids 2) (now 2) (ids 1) \<lparr>ex_task_id = bt_task_id TASK, ex_task_seed = 7\<rparr> s2 = Inr (x, s3)" "ex_id x = ids 2"
    "run_task scripted_complete rt v TASK (scripted MODEL_SCRIPT) (Some (ids 2)) DEFAULT_MAX_STEPS DEFAULT_MAX_MODEL_RETRIES = Inr r"
    "score_execution TASK r = Inr (res, \<lparr>cs_passed = True, cs_missing_expected_actions = [],
       cs_forbidden_actions_seen = [], cs_final_state_mismatches = []\<rparr>)"
    "TaskExecutionResult res = Inr res" "res_passed res" "res_status res = PASSED"
    "res_final_output res = ''Refund issued for order ORD-1001.''"
    "to_storage (rr_trace r) = Inr (map step_to_event (tr_steps (rr_trace r)))"
    "list_all (\<lambda>e. TraceEventCreate e = Inr e) (map step_to_event (tr_steps (rr_trace r)))"
    "append_events platform_ops now 3 (ids 2) (map step_to_event (tr_steps (rr_trace r))) s3 = (Inr (), s4)"
    "record_result (now (3 + length (tr_steps (rr_trace r)))) (ids 2) res s4 =
       Inr (finalized (now (3 + length (tr_steps (rr_trace r)))) res x, s5)" "store_ok sha256 s5"
    "map_of (ps_executions s5) (ids 2) = Some (finalized (now (3 + length (tr_steps (rr_trace r)))) res x)"
proof -
  let ?eid = "ids 2"
  obtain v s1 where s1: "create_agent_version sha256 (ids 0) (now 0) demo_agent st = Inr (v, s1)" "store_ok sha256 s1"
      "same_evidence st s1" "ps_runs s1 = ps_runs st" "av_id v \<in> set (keys (ps_agent_versions s1))"
    using version_created [OF ok demo_script(4) assms(2)] by blast
  have pre2: "ids 1 \<notin> set (keys (ps_runs s1))" "run_agent_version_id (demo_suite_run (av_id v)) \<in> set (keys (ps_agent_versions s1))"
    using assms(3) s1(4,5) by (simp_all add: demo_suite_run_def)
  obtain run s2 where s2: "create_run (ids 1) (now 1) (demo_suite_run (av_id v)) s1 = Inr (run, s2)" "run_id run = ids 1"
      "store_ok sha256 s2" "same_evidence s1 s2" "keys (ps_runs s2) = keys (ps_runs s1) @ [ids 1]"
    using run_created [OF s1(2) demo_script(5) pre2, of "now 1"] by blast
  have new: "?eid \<notin> set (keys (ps_executions s2))" "ids 1 \<in> set (keys (ps_runs s2))"
    using assms(4) s1(3) s2(4,5) by (simp_all add: same_evidence_def)
  let ?p = "\<lparr>ex_task_id = bt_task_id TASK, ex_task_seed = 7\<rparr>"
  obtain r res x s3 s4 s5 where r: "run_task scripted_complete rt v TASK (scripted MODEL_SCRIPT) (Some ?eid)
      DEFAULT_MAX_STEPS DEFAULT_MAX_MODEL_RETRIES = Inr r"
      "score_execution TASK r = Inr (res, \<lparr>cs_passed = True, cs_missing_expected_actions = [],
        cs_forbidden_actions_seen = [], cs_final_state_mismatches = []\<rparr>)"
      "TaskExecutionResult res = Inr res" "res_passed res" "res_status res = PASSED"
      "res_final_output res = ''Refund issued for order ORD-1001.''"
      "to_storage (rr_trace r) = Inr (map step_to_event (tr_steps (rr_trace r)))"
      "list_all (\<lambda>e. TraceEventCreate e = Inr e) (map step_to_event (tr_steps (rr_trace r)))"
    and s: "create_execution ?eid (now 2) (ids 1) ?p s2 = Inr (x, s3)" "ex_id x = ?eid"
      "append_events platform_ops now 3 ?eid (map step_to_event (tr_steps (rr_trace r))) s3 = (Inr (), s4)"
      "record_result (now (3 + length (tr_steps (rr_trace r)))) ?eid res s4 =
        Inr (finalized (now (3 + length (tr_steps (rr_trace r)))) res x, s5)" "store_ok sha256 s5"
      "ps_executions s5 = ps_executions s2 @ [(?eid, finalized (now (3 + length (tr_steps (rr_trace r)))) res x)]"
    by (rule execution_recorded [OF demo_script(1) s2(3) new(2,1) demo_script(6), where rt = rt and version = v and
          u = ?eid and ?t1.0 = "now 2" and now = now and k = 3 and ?t2.0 = "\<lambda>m. now (3 + m)"])
      (rule that, auto simp only: demo_script(2,3,7) refl simp_thms list.distinct if_False)
  have "map_of (ps_executions s5) ?eid = Some (finalized (now (3 + length (tr_steps (rr_trace r)))) res x)"
    using new(1) s(6) by (simp add: map_add_def map_of_eq_None_iff [THEN iffD2])
  from that [OF s1(1) s2(1,2) s(1,2) r(1-8) s(3-5) this] show thesis .
qed

lemma demo_requests_answered:
  assumes "create_agent_version sha256 (ids 0) (now 0) demo_agent st = Inr (v, s1)"
    and "create_run (ids 1) (now 1) (demo_suite_run (av_id v)) s1 = Inr (run, s2)"
    and "create_execution (ids 2) (now 2) (ids 1) \<lparr>ex_task_id = bt_task_id TASK, ex_task_seed = 7\<rparr> s2 = Inr (x, s3)"
    and "TaskExecutionResult res = Inr res" and "record_result t (ids 2) res s4 = Inr (y, s5)"
  shows "posted (platform_app sha256) cost_round (RegisterVersion (ids 0) (now 0) demo_agent) st = (Inr (Version v), s1)"
    and "posted (platform_app sha256) cost_round (StartRun (ids 1) (now 1) (demo_suite_run (av_id v))) s1 = (Inr (Run run), s2)"
    and "posted (platform_app sha256) cost_round
      (StartExecution (ids 2) (now 2) (ids 1) \<lparr>ex_task_id = bt_task_id TASK, ex_task_seed = 7\<rparr>) s2 = (Inr (Execution x), s3)"
    and "posted (platform_app sha256) cost_round (RecordResult t (ids 2) res) s4 = (Inr (Execution y), s5)"
  by (rule posted_ok; simp add: assms demo_script lift_res_def del: One_nat_def)+



end
