(* ===== verification/LoadTest.thy ===== *)
theory LoadTest
  imports Demo
begin

text \<open>
  \<open>scripts/load_test.py\<close>: jobs for one seed task are enqueued, several workers take them from one
  queue, and a poller waits until every execution has left \<open>pending\<close>. The workers are interleaved
  at whole iterations, in any order (\<open>schedule\<close>); the readings of the clock, the identifiers and the
  times of the store are arguments, and so is \<open>round(pct * n)\<close> (a product of floats).
\<close>

section \<open>Seeding\<close>

definition LOAD_TASK_REGISTRY :: task_registry where
  "LOAD_TASK_REGISTRY = task_registry_from SEED_TASKS"

definition LOAD_TASK :: benchmark_task where
  "LOAD_TASK = SEED_TASKS ! 0"

definition load_version :: agent_version_create where
  "load_version =
     \<lparr>av_name = ''load-test-agent'', av_git_sha = ''loadtest'', av_model = ''reference-agent'',
      av_system_prompt = ''follow policy'', av_tool_schema_hash = ''loadtesthash'', av_config = []\<rparr>"

definition load_run :: "uuid \<Rightarrow> evaluation_run_create" where
  "load_run version =
     \<lparr>run_agent_version_id = version, run_suite_id = ''load-test'', run_suite_version = ''v1'',
      run_suite_manifest_hash = ''loadtestmanifest'', run_seed = 1\<rparr>"

definition load_job :: "uuid \<Rightarrow> uuid \<Rightarrow> evaluation_job" where
  "load_job execution version =
     \<lparr>job_execution_id = execution, job_agent_version_id = version, job_task_id = bt_task_id LOAD_TASK, job_attempt = 1\<rparr>"

text \<open>A step of the store, and a step of the queue, of the two the script holds.\<close>

definition on_store :: "('s \<Rightarrow> (exc, 'a \<times> 's) res) \<Rightarrow> 's \<times> 'q \<Rightarrow> (exc, 'a) res \<times> 's \<times> 'q" where
  "on_store f = (\<lambda>(s, q). case f s of Inl e \<Rightarrow> (Inl e, s, q) | Inr (x, s) \<Rightarrow> (Inr x, s, q))"

definition on_queue :: "('q \<Rightarrow> (exc, 'a) res \<times> 'q) \<Rightarrow> 's \<times> 'q \<Rightarrow> (exc, 'a) res \<times> 's \<times> 'q" where
  "on_queue f = (\<lambda>(s, q). case f q of (r, q) \<Rightarrow> (r, s, q))"

text \<open>The loop, with \<open>n\<close> of its iterations left; \<open>i\<close> is the seed of the next execution.\<close>

fun seed_loop ::
  "'s seed_store \<Rightarrow> 'q redis \<Rightarrow> job_codec \<Rightarrow> (nat \<Rightarrow> uuid) \<Rightarrow> (nat \<Rightarrow> datetime) \<Rightarrow> (nat \<Rightarrow> rat) \<Rightarrow> uuid \<Rightarrow> uuid \<Rightarrow> nat \<Rightarrow> nat
     \<Rightarrow> (uuid, rat) dict \<Rightarrow> 's \<times> 'q \<Rightarrow> (exc, (uuid, rat) dict) res \<times> 's \<times> 'q" where
  "seed_loop ss r codec ids now clock run version i 0 enqueued_at st = (Inr enqueued_at, st)"
| "seed_loop ss r codec ids now clock run version i (Suc n) enqueued_at st =
     and_then (on_store (ss_create_execution ss (ids (2 + i)) (now (2 + i)) run
         \<lparr>ex_task_id = bt_task_id LOAD_TASK, ex_task_seed = int i\<rparr>) st) (\<lambda>execution st.
     and_then (on_queue (enqueue r codec (load_job (ex_id execution) version)) st) (\<lambda>_ st.
       seed_loop ss r codec ids now clock run version (i + 1) n (dict_set (ex_id execution) (clock i) enqueued_at) st))"

definition seed_jobs ::
  "'s seed_store \<Rightarrow> 'q redis \<Rightarrow> job_codec \<Rightarrow> (nat \<Rightarrow> uuid) \<Rightarrow> (nat \<Rightarrow> datetime) \<Rightarrow> (nat \<Rightarrow> rat) \<Rightarrow> nat \<Rightarrow> 's \<times> 'q
     \<Rightarrow> (exc, (uuid, rat) dict) res \<times> 's \<times> 'q" where
  "seed_jobs ss r codec ids now clock jobs st =
     and_then (on_store (ss_create_agent_version ss (ids 0) (now 0) load_version) st) (\<lambda>version st.
     and_then (on_store (ss_create_run ss (ids 1) (now 1) (load_run (av_id version))) st) (\<lambda>run st.
       seed_loop ss r codec ids now clock (run_id run) (av_id version) 0 jobs [] st))"

section \<open>Workers\<close>

text \<open>What each consumer has processed and how often it met an exception.\<close>

record worker_counts =
  wc_processed :: "string \<Rightarrow> nat"
  wc_errored :: "string \<Rightarrow> nat"

definition no_counts :: worker_counts where
  "no_counts = \<lparr>wc_processed = (\<lambda>_. 0), wc_errored = (\<lambda>_. 0)\<rparr>"

definition worker_iteration ::
  "('s, 'q, 'c, 'm) worker \<Rightarrow> job_world \<Rightarrow> string \<Rightarrow> worker_counts \<times> ('s, 'q, 'm) worker_state
     \<Rightarrow> worker_counts \<times> ('s, 'q, 'm) worker_state" where
  "worker_iteration w world consumer = (\<lambda>(counts, st).
     case claim_and_process_one (w\<lparr>wk_consumer := consumer, wk_block_ms := 200\<rparr>) world st of
       (Inl e, st) \<Rightarrow> (counts\<lparr>wc_errored := (wc_errored counts)(consumer := wc_errored counts consumer + 1)\<rparr>, st)
     | (Inr did_work, st) \<Rightarrow>
         (if did_work then counts\<lparr>wc_processed := (wc_processed counts)(consumer := wc_processed counts consumer + 1)\<rparr>
          else counts, st))"

fun run_workers ::
  "('s, 'q, 'c, 'm) worker \<Rightarrow> (nat \<Rightarrow> job_world) \<Rightarrow> nat \<Rightarrow> string list \<Rightarrow> worker_counts \<times> ('s, 'q, 'm) worker_state
     \<Rightarrow> worker_counts \<times> ('s, 'q, 'm) worker_state" where
  "run_workers w worlds k [] p = p"
| "run_workers w worlds k (consumer # schedule) p =
     run_workers w worlds (k + 1) schedule (worker_iteration w (worlds k) consumer p)"

section \<open>Polling\<close>

text \<open>
  One pass over the executions that remain, in the order the set is listed: \<open>look\<close> is what the store
  answers, \<open>clock\<close> the readings, of which \<open>k\<close> were taken before.
\<close>

fun poll_pass ::
  "(uuid \<Rightarrow> (exc, task_execution) res) \<Rightarrow> (nat \<Rightarrow> rat) \<Rightarrow> nat \<Rightarrow> uuid list \<Rightarrow> (uuid, rat) dict
     \<Rightarrow> uuid list \<times> (uuid, rat) dict \<times> nat" where
  "poll_pass look clock k [] completed_at = ([], completed_at, k)"
| "poll_pass look clock k (execution_id # rest) completed_at =
     (case look execution_id of
        Inl e \<Rightarrow> (case poll_pass look clock k rest completed_at of (left, c, k) \<Rightarrow> (execution_id # left, c, k))
      | Inr execution \<Rightarrow>
          if ex_status execution \<noteq> PENDING
          then poll_pass look clock (k + 1) rest (dict_set execution_id (clock k) completed_at)
          else (case poll_pass look clock k rest completed_at of (left, c, k) \<Rightarrow> (execution_id # left, c, k)))"

text \<open>The passes until none remains or the deadline is reached; \<open>looks\<close> gives the store of each pass.\<close>

fun poll_loop ::
  "(nat \<Rightarrow> uuid \<Rightarrow> (exc, task_execution) res) \<Rightarrow> (nat \<Rightarrow> rat) \<Rightarrow> rat \<Rightarrow> nat \<Rightarrow> nat \<Rightarrow> nat \<Rightarrow> uuid list \<Rightarrow> (uuid, rat) dict
     \<Rightarrow> (uuid, rat) dict option" where
  "poll_loop looks clock deadline 0 pass k remaining completed_at = None"
| "poll_loop looks clock deadline (Suc fuel) pass k remaining completed_at =
     (if remaining = [] \<or> \<not> clock k < deadline then Some completed_at
      else
        (case poll_pass (looks pass) clock (k + 1) remaining completed_at of
           (left, completed_at, k) \<Rightarrow> poll_loop looks clock deadline fuel (pass + 1) k left completed_at))"

definition poll_until_done ::
  "(nat \<Rightarrow> uuid \<Rightarrow> (exc, task_execution) res) \<Rightarrow> (nat \<Rightarrow> rat) \<Rightarrow> uuid list \<Rightarrow> rat \<Rightarrow> nat \<Rightarrow> (uuid, rat) dict option" where
  "poll_until_done looks clock execution_ids timeout fuel =
     poll_loop looks clock (clock 0 + timeout) fuel 0 1 execution_ids []"

section \<open>The report\<close>

definition percentile :: "(rat \<Rightarrow> nat \<Rightarrow> int) \<Rightarrow> rat list \<Rightarrow> rat \<Rightarrow> rat option" where
  "percentile rounded values pct =
     (if values = [] then None
      else
        let ordered = sort values;
            index = min (int (length ordered) - 1) (rounded pct (length ordered - 1)) in
        Some (if index < 0 then ordered ! nat (int (length ordered) + index) else ordered ! nat index))"

definition latencies_ms :: "(uuid, rat) dict \<Rightarrow> (uuid, rat) dict \<Rightarrow> (exc, rat list) res" where
  "latencies_ms enqueued_at completed_at =
     map_res (\<lambda>(execution_id, t).
       case map_of enqueued_at execution_id of
         None \<Rightarrow> Inl (Raise KeyError (repr_str (uuid_text execution_id)))
       | Some t0 \<Rightarrow> Inr ((t - t0) * 1000)) completed_at"


text \<open>What is printed; \<open>None\<close> where nothing is, and for \<open>n/a\<close>.\<close>

record load_report =
  lr_jobs :: nat
  lr_workers :: nat
  lr_succeeded :: nat
  lr_failed :: int
  lr_worker_exceptions :: nat
  lr_wall_clock :: rat
  lr_throughput :: "rat option"
  lr_p50 :: "rat option"
  lr_p95 :: "rat option"
  lr_p99 :: "rat option"
  lr_mean :: "rat option"
  lr_per_worker :: "nat list"

definition worker_name :: "nat \<Rightarrow> string" where
  "worker_name i = ''worker-'' @ nat_text i"

definition load_report_of ::
  "(rat \<Rightarrow> nat \<Rightarrow> int) \<Rightarrow> nat \<Rightarrow> nat \<Rightarrow> rat \<Rightarrow> worker_counts \<Rightarrow> (uuid, rat) dict \<Rightarrow> (uuid, rat) dict \<Rightarrow> (exc, load_report) res" where
  "load_report_of rounded jobs workers elapsed counts enqueued_at completed_at =
     (let succeeded = length completed_at; consumers = map worker_name [0..<workers] in
      bind_res (latencies_ms enqueued_at completed_at) (\<lambda>latencies.
      if jobs = 0 then Inl (Raise ZeroDivisionError ''division by zero'')
      else Inr
        \<lparr>lr_jobs = jobs, lr_workers = workers, lr_succeeded = succeeded, lr_failed = int jobs - int succeeded,
         lr_worker_exceptions = sum_list (map (wc_errored counts) consumers), lr_wall_clock = elapsed,
         lr_throughput = (if 0 < elapsed then Some (of_nat succeeded / elapsed) else None),
         lr_p50 = percentile rounded latencies (50 / 100), lr_p95 = percentile rounded latencies (95 / 100),
         lr_p99 = percentile rounded latencies (99 / 100),
         lr_mean = (if latencies = [] then None else Some (sum_list latencies / of_nat (length latencies))),
         lr_per_worker = sort (map (wc_processed counts) consumers)\<rparr>))"

text \<open>
  \<open>main\<close>. What the event loop and the clocks decide: the worker of each iteration, what each iteration
  meets, how many iterations are over when the poller makes a pass, the order in which a set is listed,
  the poller's readings and the elapsed time, and the rounding.
\<close>

record load_host =
  lh_order :: "nat list"
  lh_worlds :: "nat \<Rightarrow> job_world"
  lh_seen :: "nat \<Rightarrow> nat"
  lh_listed :: "uuid list \<Rightarrow> uuid list"
  lh_clock :: "nat \<Rightarrow> rat"
  lh_elapsed :: rat
  lh_rounded :: "rat \<Rightarrow> nat \<Rightarrow> int"

definition run_load_test ::
  "'s seed_store \<Rightarrow> ('s, 'q, 'c, 'm) worker \<Rightarrow> load_host \<Rightarrow> (nat \<Rightarrow> uuid) \<Rightarrow> (nat \<Rightarrow> datetime) \<Rightarrow> (nat \<Rightarrow> rat) \<Rightarrow> nat \<Rightarrow> nat \<Rightarrow> rat
     \<Rightarrow> nat \<Rightarrow> ('s, 'q, 'm) worker_state \<Rightarrow> ((exc, load_report) res \<times> ('s, 'q, 'm) worker_state) option" where
  "run_load_test ss worker host ids now clock jobs workers timeout fuel st =
     (let w = worker\<lparr>wk_registry := LOAD_TASK_REGISTRY\<rparr> in
      case and_then (on_queue (ensure_group (wk_redis w)) (ws_store st, ws_redis st))
          (\<lambda>_. seed_jobs ss (wk_redis w) (wk_codec w) ids now clock jobs) of
        (Inl e, s, q) \<Rightarrow> Some (Inl e, \<lparr>ws_store = s, ws_redis = q, ws_model = ws_model st\<rparr>)
      | (Inr enqueued_at, s, q) \<Rightarrow>
          let after = (\<lambda>n. run_workers w (lh_worlds host) 0 (map worker_name (take n (lh_order host)))
                (no_counts, \<lparr>ws_store = s, ws_redis = q, ws_model = ws_model st\<rparr>));
              looks = (\<lambda>pass e. so_get_execution (wk_ops w) e (ws_store (snd (after (lh_seen host pass)))));
              (counts, final) = after (length (lh_order host)) in
          map_option (\<lambda>completed_at. (load_report_of (lh_rounded host) jobs workers (lh_elapsed host) counts enqueued_at completed_at, final))
            (poll_until_done looks (lh_clock host) (lh_listed host (keys enqueued_at)) timeout fuel))"

section \<open>Seeding on the platform store\<close>

lemma load_payloads:
  "AgentVersionCreate load_version = Inr load_version" "EvaluationRunCreate (load_run v) = Inr (load_run v)"
  "length_in 1 120 (bt_task_id LOAD_TASK)" "runnable LOAD_TASK"
  "map_of LOAD_TASK_REGISTRY (bt_task_id LOAD_TASK) = Some LOAD_TASK"
  by code_simp+

lemma load_execution_valid:
  "TaskExecutionCreate \<lparr>ex_task_id = bt_task_id LOAD_TASK, ex_task_seed = int i\<rparr> =
     Inr \<lparr>ex_task_id = bt_task_id LOAD_TASK, ex_task_seed = int i\<rparr>"
  using load_payloads(3) by (simp add: TaskExecutionCreate_def validated_def)

text \<open>A new execution: pending, without a trace, next to everything that was there.\<close>

lemma execution_created:
  assumes ok: "store_ok sha256 st" and run: "run \<in> set (keys (ps_runs st))" and new: "eid \<notin> set (keys (ps_executions st))"
    and p: "TaskExecutionCreate p = Inr p"
  shows "\<exists>x st'. create_execution eid now run p st = Inr (x, st') \<and> ex_id x = eid \<and> ex_status x = PENDING \<and>
    store_ok sha256 st' \<and> keys (ps_executions st') = keys (ps_executions st) @ [eid] \<and>
    ps_runs st' = ps_runs st \<and> get_execution eid st' = Inr x \<and> get_trace eid st' = Inr [] \<and>
    (\<forall>k. k \<noteq> eid \<longrightarrow> get_execution k st' = get_execution k st \<and> get_trace k st' = get_trace k st) \<and>
    (\<forall>k. get_agent_version k st' = get_agent_version k st)"
proof -
  let ?x = "task_execution_create.extend p
    \<lparr>ex_id = eid, ex_run_id = run, ex_status = PENDING, ex_passed = None, ex_final_output = None, ex_latency_ms = None,
     ex_input_tokens = None, ex_output_tokens = None, ex_estimated_cost_usd = None, ex_missing_expected_actions = [],
     ex_forbidden_actions_seen = [], ex_final_state_mismatches = [], ex_created_at = now, ex_finished_at = None\<rparr>"
  let ?st = "st\<lparr>ps_executions := dict_set eid ?x (ps_executions st)\<rparr>"
  have x: "ex_id ?x = eid" "ex_status ?x = PENDING" by (simp_all add: task_execution_create.defs)
  have c: "create_execution eid now run p st = Inr (?x, ?st)"
    using run p by (simp add: create_execution_def valid_extensions(3) x(1))
  have none: "ps_events st eid = []" using ok new by (simp add: store_ok_def)
  have "store_ok sha256 ?st" using create_execution_ok [OF ok new c] by simp
  moreover have "keys (ps_executions ?st) = keys (ps_executions st) @ [eid]" using new by (simp add: dict_set_fresh)
  moreover have "get_execution eid ?st = Inr ?x" "get_trace eid ?st = Inr []"
    using none by (simp_all add: get_execution_def lookup_or_404_def get_trace_Inr)
  moreover have "get_execution k ?st = get_execution k st \<and> get_trace k ?st = get_trace k st" if "k \<noteq> eid" for k
    using that by (auto simp: get_execution_def lookup_or_404_def get_trace_def)
  moreover have "get_agent_version k ?st = get_agent_version k st" for k by (simp add: get_agent_version_def)
  ultimately show ?thesis using c x by (intro exI [of _ ?x] exI [of _ ?st]) simp
qed

lemma seed_loop_enqueues:
  assumes r: "redis_ok r view"
    and "store_ok sha256 s" and "run \<in> set (keys (ps_runs s))" and "get_agent_version version s = Inr v"
    and "stands_for codec (view q) b" and "list_all (fresh_job platform_ops LOAD_TASK_REGISTRY s) (jb_waiting b)"
    and "set (map job_execution_id (jb_waiting b)) \<subseteq> set (keys (ps_executions s))"
    and "distinct (keys (ps_executions s) @ map (\<lambda>j. ids (2 + j)) [i..<i + n])" and "dict_ok acc"
    and "set (keys acc) \<subseteq> set (keys (ps_executions s))"
    and "\<forall>j < i + n. job_ok codec (load_job (ids (2 + j)) version)"
  shows "\<exists>s' q'. seed_loop (platform_seed sha256) r codec ids now clock run version i n acc (s, q) =
      (Inr (acc @ map (\<lambda>j. (ids (2 + j), clock j)) [i..<i + n]), s', q') \<and>
    store_ok sha256 s' \<and>
    stands_for codec (view q') (b\<lparr>jb_waiting := jb_waiting b @ map (\<lambda>j. load_job (ids (2 + j)) version) [i..<i + n]\<rparr>) \<and>
    list_all (fresh_job platform_ops LOAD_TASK_REGISTRY s')
      (jb_waiting b @ map (\<lambda>j. load_job (ids (2 + j)) version) [i..<i + n])"
  using assms(2-)
proof (induction n arbitrary: i s q b acc)
  case (Suc n)
  let ?eid = "ids (2 + i)" and ?p = "\<lparr>ex_task_id = bt_task_id LOAD_TASK, ex_task_seed = int i\<rparr>"
  let ?job = "load_job ?eid version"
  have upt: "[i..<i + Suc n] = i # [i + 1..<i + 1 + n]" by (simp add: upt_rec)
  have new: "?eid \<notin> set (keys (ps_executions s))" using Suc.prems(7) unfolding upt by auto
  obtain x s1 where x: "create_execution ?eid (now (2 + i)) run ?p s = Inr (x, s1)" "ex_id x = ?eid" "ex_status x = PENDING"
      "store_ok sha256 s1" "keys (ps_executions s1) = keys (ps_executions s) @ [?eid]" "ps_runs s1 = ps_runs s"
      "get_execution ?eid s1 = Inr x" "get_trace ?eid s1 = Inr []"
      "\<forall>k. k \<noteq> ?eid \<longrightarrow> get_execution k s1 = get_execution k s \<and> get_trace k s1 = get_trace k s"
      "\<forall>k. get_agent_version k s1 = get_agent_version k s"
    using execution_created [OF Suc.prems(1,2) new load_execution_valid] by blast
  obtain m q1 where q1: "enqueue r codec ?job q = (Inr m, q1)" "stands_for codec (view q1) (board_enqueue ?job b)"
    using enqueue_implements [OF r Suc.prems(4)] Suc.prems(10) by (metis add_Suc_right le_add1 less_Suc_eq_le)
  let ?b = "board_enqueue ?job b"
  have acc: "dict_set ?eid (clock i) acc = acc @ [(?eid, clock i)]"
    using new Suc.prems(9) by (intro dict_set_fresh) blast
  have "fresh_job platform_ops LOAD_TASK_REGISTRY s1 j" if j: "j \<in> set (jb_waiting b)" for j
  proof -
    have "job_execution_id j \<in> set (keys (ps_executions s))" using j Suc.prems(6) by (metis image_eqI list.set_map subsetD)
    then have "job_execution_id j \<noteq> ?eid" using new by metis
    moreover have "fresh_job platform_ops LOAD_TASK_REGISTRY s j" using j Suc.prems(5) by (simp add: list_all_iff)
    ultimately show ?thesis using x(9,10) by (simp add: fresh_job_def platform_ops_def)
  qed
  moreover have "fresh_job platform_ops LOAD_TASK_REGISTRY s1 ?job"
    using load_payloads(4,5) x(3,7,8,10) Suc.prems(3)
    by (simp add: fresh_job_def platform_ops_def load_job_def terminal_status_def)
  ultimately have fresh: "list_all (fresh_job platform_ops LOAD_TASK_REGISTRY s1) (jb_waiting ?b)"
    by (simp add: board_enqueue_def list_all_iff)
  have "run \<in> set (keys (ps_runs s1))" "get_agent_version version s1 = Inr v" using Suc.prems(2,3) x(6,10) by simp_all
  moreover have "set (map job_execution_id (jb_waiting ?b)) \<subseteq> set (keys (ps_executions s1))"
    using Suc.prems(6) x(5) by (auto simp: board_enqueue_def load_job_def)
  moreover have "distinct (keys (ps_executions s1) @ map (\<lambda>j. ids (2 + j)) [i + 1..<i + 1 + n])"
    using Suc.prems(7) x(5) unfolding upt by simp
  moreover have "dict_ok (acc @ [(?eid, clock i)])" using Suc.prems(8,9) new by (auto simp: dict_ok_def)
  moreover have "set (keys (acc @ [(?eid, clock i)])) \<subseteq> set (keys (ps_executions s1))" using Suc.prems(9) x(5) by auto
  moreover have "\<forall>j < i + 1 + n. job_ok codec (load_job (ids (2 + j)) version)" using Suc.prems(10) by simp
  ultimately obtain s' q' where "seed_loop (platform_seed sha256) r codec ids now clock run version (i + 1) n (acc @ [(?eid, clock i)]) (s1, q1) =
      (Inr ((acc @ [(?eid, clock i)]) @ map (\<lambda>j. (ids (2 + j), clock j)) [i + 1..<i + 1 + n]), s', q')" "store_ok sha256 s'"
      "stands_for codec (view q') (?b\<lparr>jb_waiting := jb_waiting ?b @ map (\<lambda>j. load_job (ids (2 + j)) version) [i + 1..<i + 1 + n]\<rparr>)"
      "list_all (fresh_job platform_ops LOAD_TASK_REGISTRY s')
        (jb_waiting ?b @ map (\<lambda>j. load_job (ids (2 + j)) version) [i + 1..<i + 1 + n])"
    using Suc.IH [OF x(4) _ _ q1(2) fresh] by blast
  then show ?case unfolding upt using x(1,2) q1(1) acc
    by (simp add: and_then_def on_store_def on_queue_def platform_seed_def board_enqueue_def)
qed simp


section \<open>Workers in any order\<close>

definition total_processed :: "string set \<Rightarrow> worker_counts \<Rightarrow> nat" where
  "total_processed consumers counts = (\<Sum>c\<in>consumers. wc_processed counts c)"

lemma total_processed_step:
  assumes "finite consumers" and "c \<in> consumers"
  shows "total_processed consumers (counts\<lparr>wc_processed := (wc_processed counts)(c := wc_processed counts c + 1)\<rparr>) =
    total_processed consumers counts + 1"
proof -
  have "(\<Sum>x\<in>consumers. ((wc_processed counts)(c := wc_processed counts c + 1)) x) =
      (wc_processed counts c + 1) + (\<Sum>x\<in>consumers - {c}. wc_processed counts x)"
    using assms by (subst sum.remove [of _ c]) (auto intro!: sum.cong)
  then show ?thesis using assms by (simp add: total_processed_def sum.remove [of _ c "wc_processed counts"])
qed

context evidence_store
begin

lemma workers_finish:
  assumes "redis_ok (wk_redis w) view" and "codec_ok (wk_codec w)" and "wk_ops w = ops" and "wk_judging w = None"
    and "finite consumers" and "set schedule \<subseteq> consumers"
    and "stands_for (wk_codec w) (view (ws_redis st)) b" and "inv (ws_store st)"
    and "list_all (fresh_job ops (wk_registry w) (ws_store st)) (jb_waiting b)" and "distinct (map job_execution_id (jb_waiting b))"
    and "length (jb_waiting b) \<le> length schedule"
  shows "\<exists>counts' st' b'. run_workers w worlds k schedule (counts, st) = (counts', st') \<and>
    stands_for (wk_codec w) (view (ws_redis st')) b' \<and> jb_waiting b' = [] \<and> jb_dead b' = jb_dead b \<and> inv (ws_store st') \<and>
    total_processed consumers counts' = total_processed consumers counts + length (jb_waiting b) \<and>
    wc_errored counts' = wc_errored counts \<and>
    (\<forall>x. x \<notin> job_execution_id ` set (jb_waiting b) \<longrightarrow>
       so_get_trace ops x (ws_store st') = so_get_trace ops x (ws_store st) \<and>
       so_get_execution ops x (ws_store st') = so_get_execution ops x (ws_store st)) \<and>
    (\<forall>job \<in> set (jb_waiting b). \<exists>n. done_job ops keep (wk_registry w) (wk_ask w) (worlds n) (ws_store st) (ws_store st') job)"
  using assms(6-)
proof (induction schedule arbitrary: k counts st b)
  case (Cons c schedule)
  let ?w = "w\<lparr>wk_consumer := c, wk_block_ms := 200\<rparr>"
  have w: "redis_ok (wk_redis ?w) view" "codec_ok (wk_codec ?w)" "stands_for (wk_codec ?w) (view (ws_redis st)) b"
    using assms(1,2) Cons.prems(2) by simp_all
  have s: "set schedule \<subseteq> consumers" "c \<in> consumers" using Cons.prems(1) by simp_all
  show ?case
  proof (cases "jb_waiting b")
    case Nil
    obtain q where q: "claim_and_process_one ?w (worlds k) st = (Inr False, st\<lparr>ws_redis := q\<rparr>)"
        "stands_for (wk_codec ?w) (view q) b"
      using worker_idle [OF w Nil] by blast
    have it: "worker_iteration w (worlds k) c (counts, st) = (counts, st\<lparr>ws_redis := q\<rparr>)"
      using q(1) by (simp add: worker_iteration_def)
    have "stands_for (wk_codec w) (view (ws_redis (st\<lparr>ws_redis := q\<rparr>))) b" using q(2) by simp
    from Cons.IH [OF s(1) this, of "k + 1" counts] Cons.prems(3) it show ?thesis by (simp add: Nil)
  next
    case (Cons job jobs)
    have fj: "fresh_job ops (wk_registry w) (ws_store st) job" using Cons.prems(4) Cons by simp
    obtain s1 where s1: "process_job ops (wk_registry w) (worlds k) job (wk_ask w) None None (ws_store st, ws_model st) = (Inr (), s1, ws_model st)"
        "inv s1" "done_job ops keep (wk_registry w) (wk_ask w) (worlds k) (ws_store st) s1 job"
        "elsewhere_same ops (job_execution_id job) (ws_store st) s1"
      using process_fresh [OF Cons.prems(3) fj, where world = "worlds k" and ask = "wk_ask w" and m = "ws_model st"] by blast
    have "process_of ?w (worlds k) job (ws_store st, ws_model st) = (Inr (), s1, ws_model st)"
      using s1(1) assms(3,4) by (simp add: process_of_def)
    from worker_step [OF w Cons this] obtain q
      where q: "claim_and_process_one ?w (worlds k) st = (Inr True, \<lparr>ws_store = s1, ws_redis = q, ws_model = ws_model st\<rparr>)"
        "stands_for (wk_codec w) (view q) (board_take b)" by auto
    let ?counts = "counts\<lparr>wc_processed := (wc_processed counts)(c := wc_processed counts c + 1)\<rparr>"
    let ?st = "\<lparr>ws_store = s1, ws_redis = q, ws_model = ws_model st\<rparr>"
    have it: "worker_iteration w (worlds k) c (counts, st) = (?counts, ?st)"
      using q(1) by (simp add: worker_iteration_def)
    have b: "jb_waiting (board_take b) = jobs" "jb_dead (board_take b) = jb_dead b" using Cons by (simp_all add: board_take_def)
    have ids: "job_execution_id job \<notin> job_execution_id ` set jobs" "distinct (map job_execution_id jobs)"
      using Cons.prems(5) Cons by simp_all
    have "list_all (fresh_job ops (wk_registry w) s1) jobs"
      unfolding list_all_iff
    proof
      fix j assume j: "j \<in> set jobs"
      then have "job_execution_id j \<noteq> job_execution_id job" using ids(1) by (metis imageI)
      then show "fresh_job ops (wk_registry w) s1 j"
        using fresh_job_elsewhere [OF s1(4)] Cons.prems(4) Cons j by (simp add: list_all_iff)
    qed
    then obtain counts' st' b' where ih: "run_workers w worlds (k + 1) schedule (?counts, ?st) = (counts', st')"
        "stands_for (wk_codec w) (view (ws_redis st')) b'" "jb_waiting b' = []" "jb_dead b' = jb_dead b" "inv (ws_store st')"
        "total_processed consumers counts' = total_processed consumers ?counts + length jobs"
        "wc_errored counts' = wc_errored ?counts"
        "\<forall>x. x \<notin> job_execution_id ` set jobs \<longrightarrow> so_get_trace ops x (ws_store st') = so_get_trace ops x s1 \<and>
           so_get_execution ops x (ws_store st') = so_get_execution ops x s1"
        "\<forall>job \<in> set jobs. \<exists>n. done_job ops keep (wk_registry w) (wk_ask w) (worlds n) s1 (ws_store st') job"
      using Cons.IH [OF s(1), of ?st "board_take b" "k + 1" ?counts] q(2) s1(2) ids(2) b Cons.prems(6) Cons by auto
    have first: "done_job ops keep (wk_registry w) (wk_ask w) (worlds k) (ws_store st) (ws_store st') job"
      using s1(3) ih(8) ids(1) by (simp add: done_job_def)
    have rest: "\<exists>n. done_job ops keep (wk_registry w) (wk_ask w) (worlds n) (ws_store st) (ws_store st') j" if j: "j \<in> set jobs" for j
    proof -
      have "job_execution_id j \<noteq> job_execution_id job" using ids(1) j by (metis imageI)
      then show ?thesis using ih(9) j done_job_elsewhere(1) [OF s1(4)] by blast
    qed
    have "run_workers w worlds k (c # schedule) (counts, st) = (counts', st')" using it ih(1) by simp
    moreover have "total_processed consumers counts' = total_processed consumers counts + length (jb_waiting b)"
      using ih(6) total_processed_step [OF assms(5) s(2), of counts] Cons by simp
    ultimately show ?thesis using ih(2-5,7,8) first rest s1(4) Cons
      by (intro exI [of _ counts'] exI [of _ st'] exI [of _ b']) (auto simp: elsewhere_same_def)
  qed
qed auto

end


section \<open>The poller ends when the work has\<close>

definition left_pending :: "(uuid \<Rightarrow> (exc, task_execution) res) \<Rightarrow> uuid \<Rightarrow> bool" where
  "left_pending look e \<longleftrightarrow> (\<exists>x. look e = Inr x \<and> ex_status x \<noteq> PENDING)"

lemma poll_pass_keeps:
  "poll_pass look clock k es acc = (left, acc', k') \<Longrightarrow>
     set left \<union> set (keys acc') = set es \<union> set (keys acc) \<and> (dict_ok acc \<longrightarrow> dict_ok acc') \<and>
     (list_all (left_pending look) es \<longrightarrow> left = [])"
proof (induction es arbitrary: k acc left acc' k')
  case (Cons e es)
  show ?case
  proof (cases "left_pending look e")
    case True
    then have "poll_pass look clock (k + 1) es (dict_set e (clock k) acc) = (left, acc', k')"
      using Cons.prems by (auto simp: left_pending_def)
    from Cons.IH [OF this] show ?thesis using dict_ok_set [of acc e "clock k"] by (auto simp: keys_dict_set)
  next
    case False
    obtain l c k1 where l: "poll_pass look clock k es acc = (l, c, k1)" by (metis prod_cases3)
    then have "left = e # l" "acc' = c"
      using Cons.prems False by (auto simp: left_pending_def split: sum.splits if_splits)
    then show ?thesis using Cons.IH [OF l] False by auto
  qed
qed auto

lemma poll_loop_ends:
  assumes "\<And>k. clock k < deadline" and "\<forall>e\<in>set es. left_pending (looks final) e" and "pass \<le> final"
    and "final < pass + fuel" and "dict_ok acc" and "set remaining \<subseteq> set es"
  shows "\<exists>c. poll_loop looks clock deadline (Suc fuel) pass k remaining acc = Some c \<and> dict_ok c \<and>
    set (keys c) = set remaining \<union> set (keys acc)"
  using assms(3-)
proof (induction fuel arbitrary: pass k remaining acc)
  case (Suc fuel)
  show ?case
  proof (cases "remaining = []")
    case False
    obtain l c k' where l: "poll_pass (looks pass) clock (k + 1) remaining acc = (l, c, k')" by (metis prod_cases3)
    note keeps = poll_pass_keeps [OF l]
    have sub: "set l \<subseteq> set es \<or> l = []"
    proof -
      have "set left \<subseteq> set rs" if "poll_pass lk clock j rs a = (left, a', j')" for lk j rs a left a' j'
        using that
      proof (induction rs arbitrary: j a left a' j')
        case (Cons r rs)
        then show ?case by (fastforce split: sum.splits if_splits prod.splits)
      qed simp
      then show ?thesis using l Suc.prems(4) by blast
    qed
    have step: "poll_loop looks clock deadline (Suc (Suc fuel)) pass k remaining acc =
        poll_loop looks clock deadline (Suc fuel) (pass + 1) k' l c"
      using False assms(1) l by simp
    show ?thesis
    proof (cases "pass = final")
      case True
      then have "list_all (left_pending (looks pass)) remaining"
        using assms(2) Suc.prems(4) by (auto simp: list_all_iff)
      then have "l = []" using keeps by blast
      then show ?thesis unfolding step using keeps Suc.prems(3) by auto
    next
      case False
      then have "pass + 1 \<le> final" "final < pass + 1 + fuel" using Suc.prems(1,2) by simp_all
      moreover have "dict_ok c" using keeps Suc.prems(3) by blast
      moreover have "set l \<subseteq> set es" using sub by auto
      ultimately obtain d where "poll_loop looks clock deadline (Suc fuel) (pass + 1) k' l c = Some d" "dict_ok d"
          "set (keys d) = set l \<union> set (keys c)"
        using Suc.IH by blast
      then show ?thesis unfolding step using keeps by auto
    qed
  qed (use Suc.prems(3) in simp)
qed simp

text \<open>The percentile: a value of the list, and the larger the percentage the larger.\<close>

definition rounds :: "(rat \<Rightarrow> nat \<Rightarrow> int) \<Rightarrow> bool" where
  "rounds rounded \<longleftrightarrow> (\<forall>p n. 0 \<le> p \<longrightarrow> 0 \<le> rounded p n) \<and> (\<forall>p p' n. p \<le> p' \<longrightarrow> rounded p n \<le> rounded p' n)"

lemma percentile_in:
  assumes "rounds rounded" and "0 \<le> p" and "values \<noteq> []"
  shows "\<exists>i < length values. percentile rounded values p = Some (sort values ! i) \<and>
    int i = min (int (length values) - 1) (rounded p (length values - 1))"
proof -
  have "0 \<le> rounded p (length values - 1)" "0 < length values" using assms by (simp_all add: rounds_def)
  then show ?thesis
    by (intro exI [of _ "nat (min (int (length values) - 1) (rounded p (length values - 1)))"])
      (auto simp: percentile_def Let_def assms(3))
qed


lemma percentile_mono:
  assumes "rounds rounded" and "0 \<le> p" and "p \<le> p'" and "percentile rounded values p = Some x"
    and "percentile rounded values p' = Some y"
  shows "x \<in> set values" and "x \<le> y"
proof -
  have ne: "values \<noteq> []" using assms(4) by (auto simp: percentile_def)
  obtain i where i: "i < length values" "x = sort values ! i" "int i = min (int (length values) - 1) (rounded p (length values - 1))"
    using percentile_in [OF assms(1,2) ne] assms(4) by auto
  obtain j where j: "j < length values" "y = sort values ! j" "int j = min (int (length values) - 1) (rounded p' (length values - 1))"
    using percentile_in [OF assms(1) _ ne, of p'] assms(2,3,5) by auto
  have "rounded p (length values - 1) \<le> rounded p' (length values - 1)" using assms(1,3) by (simp add: rounds_def)
  then have "i \<le> j" using i(3) j(3) by linarith
  then show "x \<le> y" using i j by (simp add: sorted_nth_mono)
  show "x \<in> set values" using i by (metis length_sort nth_mem set_sort)
qed

section \<open>A load test\<close>

text \<open>\<open>UUID(str(u)) == u\<close> for the identifiers of a set.\<close>

definition readable :: "job_codec \<Rightarrow> uuid set \<Rightarrow> bool" where
  "readable codec us \<longleftrightarrow> (\<forall>u \<in> us. jc_uuid_of codec (uuid_text u) = Some u)"

lemma seed_jobs_enqueues:
  assumes r: "redis_ok r view" and ok: "store_ok sha256 s" and b: "stands_for codec (view q) b" "jb_waiting b = []"
    and "ids 0 \<notin> set (keys (ps_agent_versions s))" and "ids 1 \<notin> set (keys (ps_runs s))"
    and "distinct (keys (ps_executions s) @ map (\<lambda>j. ids (2 + j)) [0..<jobs])"
    and uuids: "readable codec (ids ` {..<2 + jobs} \<union> set (keys (ps_agent_versions s)))"
  shows "\<exists>version s' q'. seed_jobs (platform_seed sha256) r codec ids now clock jobs (s, q) =
      (Inr (map (\<lambda>j. (ids (2 + j), clock j)) [0..<jobs]), s', q') \<and>
    store_ok sha256 s' \<and>
    stands_for codec (view q') (b\<lparr>jb_waiting := map (\<lambda>j. load_job (ids (2 + j)) version) [0..<jobs]\<rparr>) \<and>
    list_all (fresh_job platform_ops LOAD_TASK_REGISTRY s') (map (\<lambda>j. load_job (ids (2 + j)) version) [0..<jobs])"
proof -
  obtain v s1 where s1: "create_agent_version sha256 (ids 0) (now 0) load_version s = Inr (v, s1)" "store_ok sha256 s1"
      "same_evidence s s1" "ps_runs s1 = ps_runs s" "av_id v \<in> set (keys (ps_agent_versions s1))"
      "set (keys (ps_agent_versions s1)) \<subseteq> insert (ids 0) (set (keys (ps_agent_versions s)))"
    using version_created [OF ok load_payloads(1) assms(5)] by blast
  have pre: "ids 1 \<notin> set (keys (ps_runs s1))" "run_agent_version_id (load_run (av_id v)) \<in> set (keys (ps_agent_versions s1))"
    using assms(6) s1(4,5) by (simp_all add: load_run_def)
  obtain run s2 where s2: "create_run (ids 1) (now 1) (load_run (av_id v)) s1 = Inr (run, s2)" "run_id run = ids 1"
      "store_ok sha256 s2" "same_evidence s1 s2" "ps_agent_versions s2 = ps_agent_versions s1"
      "keys (ps_runs s2) = keys (ps_runs s1) @ [ids 1]"
    using run_created [OF s1(2) load_payloads(2) pre, of "now 1"] by blast
  obtain v' where v': "get_agent_version (av_id v) s2 = Inr v'"
    using s1(5) s2(5) by (cases "map_of (ps_agent_versions s1) (av_id v)")
      (auto simp: get_agent_version_def lookup_or_404_def map_of_eq_None_keys)
  have ex: "ps_executions s2 = ps_executions s" using s1(3) s2(4) by (simp add: same_evidence_def)
  have "ids 1 \<in> set (keys (ps_runs s2))" using s2(6) by simp
  moreover have "list_all (fresh_job platform_ops LOAD_TASK_REGISTRY s2) (jb_waiting b)" using b(2) by simp
  moreover have "set (map job_execution_id (jb_waiting b)) \<subseteq> set (keys (ps_executions s2))" using b(2) by simp
  moreover have "distinct (keys (ps_executions s2) @ map (\<lambda>j. ids (2 + j)) [0..<0 + jobs])" using assms(7) ex by simp
  moreover have "dict_ok ([] :: (uuid, rat) dict)" by (simp add: dict_ok_def)
  moreover have "set (keys ([] :: (uuid, rat) dict)) \<subseteq> set (keys (ps_executions s2))" by simp
  moreover have "\<forall>j < 0 + jobs. job_ok codec (load_job (ids (2 + j)) (av_id v))"
  proof (intro allI impI)
    fix j assume "j < 0 + jobs"
    then have "ids (2 + j) \<in> ids ` {..<2 + jobs} \<union> set (keys (ps_agent_versions s))" by (intro UnI1 imageI) simp
    then have j: "jc_uuid_of codec (uuid_text (ids (2 + j))) = Some (ids (2 + j))"
      using uuids unfolding readable_def by (rule bspec [rotated])
    have "ids 0 \<in> ids ` {..<2 + jobs}" by (intro imageI) simp
    then have "insert (ids 0) (set (keys (ps_agent_versions s))) \<subseteq> ids ` {..<2 + jobs} \<union> set (keys (ps_agent_versions s))"
      by simp
    from subsetD [OF this subsetD [OF s1(6,5)]]
    have "av_id v \<in> ids ` {..<2 + jobs} \<union> set (keys (ps_agent_versions s))" .
    then have "jc_uuid_of codec (uuid_text (av_id v)) = Some (av_id v)" using uuids unfolding readable_def by (rule bspec [rotated])
    with j show "job_ok codec (load_job (ids (2 + j)) (av_id v))" unfolding job_ok_def load_job_def by simp
  qed
  ultimately have "\<exists>s' q'. seed_loop (platform_seed sha256) r codec ids now clock (ids 1) (av_id v) 0 jobs [] (s2, q) =
      (Inr ([] @ map (\<lambda>j. (ids (2 + j), clock j)) [0..<0 + jobs]), s', q') \<and>
    store_ok sha256 s' \<and>
    stands_for codec (view q') (b\<lparr>jb_waiting := jb_waiting b @ map (\<lambda>j. load_job (ids (2 + j)) (av_id v)) [0..<0 + jobs]\<rparr>) \<and>
    list_all (fresh_job platform_ops LOAD_TASK_REGISTRY s')
      (jb_waiting b @ map (\<lambda>j. load_job (ids (2 + j)) (av_id v)) [0..<0 + jobs])"
    by (intro seed_loop_enqueues [OF r s2(3) _ v' b(1)])
  moreover have "seed_jobs (platform_seed sha256) r codec ids now clock jobs (s, q) =
      seed_loop (platform_seed sha256) r codec ids now clock (ids 1) (av_id v) 0 jobs [] (s2, q)"
    using s1(1) s2(1,2) by (simp add: seed_jobs_def and_then_def on_store_def platform_seed_def del: One_nat_def)
  ultimately show ?thesis using b(2) by auto
qed

lemma scored_terminal: "score_execution task result = Inr (res, score) \<Longrightarrow> terminal_status (res_status res)"
  by (auto simp: score_execution_def Let_def bind_res_eq_Inr TaskExecutionResult_Inr)

lemma done_job_terminal:
  assumes "done_job platform_ops keep registry ask world s s' job"
  shows "\<exists>x. get_execution (job_execution_id job) s' = Inr x \<and> terminal_status (ex_status x)"
proof -
  obtain t res x result task where "get_execution (job_execution_id job) s' = Inr (finalized t res x)"
      "score_execution task result = Inr (res, score_run task result)"
    using assms unfolding done_job_def by (auto simp: platform_ops_def)
  then show ?thesis using scored_terminal by simp
qed

text \<open>Everything but the report: what the store holds at the end, and what the poller returns.\<close>

lemma load_run_finishes:
  assumes "redis_ok (wk_redis w) view" and "codec_ok (wk_codec w)"
    and "readable (wk_codec w) (ids ` {..<2 + jobs} \<union> set (keys (ps_agent_versions s)))"
    and "wk_ops w = platform_ops" and "wk_judging w = None" and "wk_registry w = LOAD_TASK_REGISTRY"
    and "store_ok sha256 s" and "stands_for (wk_codec w) (view q) b" and "jb_waiting b = []"
    and "ids 0 \<notin> set (keys (ps_agent_versions s))" and "ids 1 \<notin> set (keys (ps_runs s))"
    and "distinct (keys (ps_executions s) @ map (\<lambda>j. ids (2 + j)) [0..<jobs])"
    and "jobs \<le> length schedule" and "finite consumers" and "set schedule \<subseteq> consumers" and "\<And>k. poll_clock k < poll_clock 0 + timeout" and "final < fuel"
  shows "\<exists>enqueued_at s1 q1 counts st. seed_jobs (platform_seed sha256) (wk_redis w) (wk_codec w) ids now clock jobs (s, q) =
      (Inr enqueued_at, s1, q1) \<and>
    run_workers w worlds 0 schedule (no_counts, \<lparr>ws_store = s1, ws_redis = q1, ws_model = m\<rparr>) = (counts, st) \<and>
    total_processed consumers counts = jobs \<and> wc_errored counts = (\<lambda>_. 0) \<and> store_ok sha256 (ws_store st) \<and>
    keys enqueued_at = map (\<lambda>j. ids (2 + j)) [0..<jobs] \<and>
    (\<forall>e \<in> set (keys enqueued_at). \<exists>x. get_execution e (ws_store st) = Inr x \<and> terminal_status (ex_status x)) \<and>
    (\<forall>looks es. looks final = (\<lambda>e. get_execution e (ws_store st)) \<longrightarrow> set es = set (keys enqueued_at) \<longrightarrow>
       (\<exists>completed_at. poll_until_done looks poll_clock es timeout (fuel + 1) = Some completed_at \<and>
          dict_ok completed_at \<and> set (keys completed_at) = set (keys enqueued_at)))"
proof -
  obtain version s1 q1 where s1: "seed_jobs (platform_seed sha256) (wk_redis w) (wk_codec w) ids now clock jobs (s, q) =
      (Inr (map (\<lambda>j. (ids (2 + j), clock j)) [0..<jobs]), s1, q1)" "store_ok sha256 s1"
      "stands_for (wk_codec w) (view q1) (b\<lparr>jb_waiting := map (\<lambda>j. load_job (ids (2 + j)) version) [0..<jobs]\<rparr>)"
      "list_all (fresh_job platform_ops LOAD_TASK_REGISTRY s1) (map (\<lambda>j. load_job (ids (2 + j)) version) [0..<jobs])"
    using seed_jobs_enqueues [OF assms(1,7-12,3)] by blast
  let ?jobs = "map (\<lambda>j. load_job (ids (2 + j)) version) [0..<jobs]" and ?es = "map (\<lambda>j. ids (2 + j)) [0..<jobs]"
  let ?st = "\<lparr>ws_store = s1, ws_redis = q1, ws_model = m\<rparr>"
  have eids: "map job_execution_id ?jobs = ?es" by (simp add: load_job_def)
  let ?b = "b\<lparr>jb_waiting := ?jobs\<rparr>"
  have "distinct (map job_execution_id ?jobs)" unfolding eids using assms(12) by simp
  then have pre: "stands_for (wk_codec w) (view (ws_redis ?st)) ?b" "store_ok sha256 (ws_store ?st)"
      "list_all (fresh_job platform_ops (wk_registry w) (ws_store ?st)) (jb_waiting ?b)"
      "distinct (map job_execution_id (jb_waiting ?b))" "length (jb_waiting ?b) \<le> length schedule"
    using s1(2-4) assms(6,13) by simp_all
  obtain counts st where st: "run_workers w worlds 0 schedule (no_counts, ?st) = (counts, st)" "store_ok sha256 (ws_store st)"
      "total_processed consumers counts = total_processed consumers no_counts + length (jb_waiting ?b)"
      "wc_errored counts = wc_errored no_counts"
      "\<forall>job \<in> set (jb_waiting ?b). \<exists>n. done_job platform_ops (\<lambda>p. p) (wk_registry w) (wk_ask w) (worlds n) (ws_store ?st) (ws_store st) job"
    using platform_evidence.workers_finish [OF assms(1,2,4,5,14,15) pre, of worlds 0 no_counts] by blast
  have finished: "\<exists>x. get_execution e (ws_store st) = Inr x \<and> terminal_status (ex_status x)" if "e \<in> set ?es" for e
  proof -
    have "e \<in> set (map job_execution_id ?jobs)" unfolding eids by (rule that)
    then obtain job where job: "job \<in> set ?jobs" "e = job_execution_id job" by (simp only: set_map image_iff) blast
    have "job \<in> set (jb_waiting ?b)" using job(1) by simp
    then obtain n where "done_job platform_ops (\<lambda>p. p) (wk_registry w) (wk_ask w) (worlds n) (ws_store ?st) (ws_store st) job"
      using st(5) by blast
    from done_job_terminal [OF this] show ?thesis unfolding job(2) .
  qed
  have keys: "keys (map (\<lambda>j. (ids (2 + j), clock j)) [0..<jobs]) = ?es" by (simp add: comp_def)
  have counted: "total_processed consumers counts = jobs" "wc_errored counts = (\<lambda>_. 0)"
    using st(3,4) by (simp_all add: no_counts_def total_processed_def)
  have "\<exists>completed_at. poll_until_done looks poll_clock es timeout (fuel + 1) = Some completed_at \<and>
      dict_ok completed_at \<and> set (keys completed_at) = set ?es"
    if looks: "looks final = (\<lambda>e. get_execution e (ws_store st))" and es: "set es = set ?es" for looks es
  proof -
    have "\<forall>e \<in> set ?es. left_pending (looks final) e"
      using finished unfolding looks left_pending_def terminal_status_def by fastforce
    from poll_loop_ends [where clock = poll_clock and es = ?es and looks = looks and final = final and remaining = es and
        pass = 0 and fuel = fuel and acc = "[]" and k = 1, OF assms(16) this] assms(17)
    show ?thesis using es by (simp add: poll_until_done_def dict_ok_def)
  qed
  then show ?thesis using s1(1) st(1,2) counted finished unfolding keys [symmetric] by blast
qed

lemma latencies_all:
  assumes "set (keys completed_at) \<subseteq> set (keys enqueued_at)"
  shows "\<exists>ls. latencies_ms enqueued_at completed_at = Inr ls \<and> length ls = length completed_at"
proof -
  have "latencies_ms enqueued_at completed_at =
      Inr (map (\<lambda>(e, t). (t - the (map_of enqueued_at e)) * 1000) completed_at)"
    unfolding latencies_ms_def
  proof (rule map_res_all_ok)
    fix x assume "x \<in> set completed_at"
    then have "fst x \<in> set (keys enqueued_at)" using assms by force
    then have "map_of enqueued_at (fst x) \<noteq> None" by (simp add: map_of_eq_None_keys)
    then show "(case x of (execution_id, t) \<Rightarrow>
         (case map_of enqueued_at execution_id of None \<Rightarrow> Inl (Raise KeyError (repr_str (uuid_text execution_id)))
          | Some t0 \<Rightarrow> Inr ((t - t0) * 1000))) = Inr (case x of (e, t) \<Rightarrow> (t - the (map_of enqueued_at e)) * 1000)"
      by (auto split: prod.splits option.splits)
  qed
  then show ?thesis by simp
qed

lemma worker_name_inj: "inj worker_name"
  by (rule injI) (metis append_same_eq same_append_eq nat_text_value worker_name_def)

lemma sum_sort: "sum_list (sort xs) = sum_list (xs :: nat list)"
  by (metis mset_sort sum_mset_sum_list)

lemma per_worker:
  assumes "wc_errored counts = (\<lambda>_. 0)"
  shows "sum_list (sort (map (wc_processed counts) (map worker_name [0..<workers]))) =
      total_processed (worker_name ` {..<workers}) counts"
    and "sum_list (map (wc_errored counts) (map worker_name [0..<workers])) = 0"
proof -
  have "distinct (map worker_name [0..<workers])" 
    by (simp add: distinct_map inj_on_subset [OF worker_name_inj subset_UNIV])
  then have "sum_list (map (wc_processed counts) (map worker_name [0..<workers])) =
      sum (wc_processed counts) (set (map worker_name [0..<workers]))" by (rule sum_list_distinct_conv_sum_set)
  then show "sum_list (sort (map (wc_processed counts) (map worker_name [0..<workers]))) =
      total_processed (worker_name ` {..<workers}) counts"
    unfolding sum_sort by (simp add: total_processed_def atLeast0LessThan)
  show "sum_list (map (wc_errored counts) (map worker_name [0..<workers])) = 0" by (simp add: assms comp_def)
qed

lemma report_of_completed:
  assumes "rounds rounded" and "dict_ok completed_at" and "set (keys completed_at) = set es" and "keys enqueued_at = es"
    and "distinct es" and "length es = jobs" and "wc_errored counts = (\<lambda>_. 0)"
    and "total_processed (worker_name ` {..<workers}) counts = jobs"
  shows "if jobs = 0
    then load_report_of rounded jobs workers elapsed counts enqueued_at completed_at = Inl (Raise ZeroDivisionError ''division by zero'')
    else \<exists>report p50 p95 p99. load_report_of rounded jobs workers elapsed counts enqueued_at completed_at = Inr report \<and>
      lr_succeeded report = jobs \<and> lr_failed report = 0 \<and> lr_worker_exceptions report = 0 \<and>
      sum_list (lr_per_worker report) = jobs \<and>
      lr_p50 report = Some p50 \<and> lr_p95 report = Some p95 \<and> lr_p99 report = Some p99 \<and> p50 \<le> p95 \<and> p95 \<le> p99"
proof -
  have n: "length completed_at = jobs"
    using distinct_card [of "keys completed_at"] distinct_card [OF assms(5)] assms(2,3,6) by (simp add: dict_ok_def)
  obtain ls where ls: "latencies_ms enqueued_at completed_at = Inr ls" "length ls = jobs"
    using latencies_all [of completed_at enqueued_at] assms(3,4) n by auto
  show ?thesis
  proof (cases "jobs = 0")
    case False
    then have ne: "ls \<noteq> []" using ls(2) by auto
    obtain p50 p95 p99 where p: "percentile rounded ls (50 / 100) = Some p50" "percentile rounded ls (95 / 100) = Some p95"
        "percentile rounded ls (99 / 100) = Some p99"
      using percentile_in [OF assms(1) _ ne] by (meson zero_le_divide_iff zero_le_numeral)
    have "p50 \<le> p95" by (rule percentile_mono(2) [OF assms(1) _ _ p(1,2)]) simp_all
    moreover have "p95 \<le> p99" by (rule percentile_mono(2) [OF assms(1) _ _ p(2,3)]) simp_all
    ultimately show ?thesis using False p ls(1) n per_worker [OF assms(7), of workers] assms(8)
      by (simp add: load_report_of_def Let_def)
  qed (simp add: load_report_of_def Let_def ls(1))
qed

lemma load_test_ends:
  assumes "redis_ok (wk_redis w) view" and "codec_ok (wk_codec w)"
    and "readable (wk_codec w) (ids ` {..<2 + jobs} \<union> set (keys (ps_agent_versions (ws_store st))))"
    and "wk_ops w = platform_ops" and "wk_judging w = None"
    and "store_ok sha256 (ws_store st)" and "stands_for (wk_codec w) ((view (ws_redis st))\<lparr>qv_group := True\<rparr>) b"
    and "jb_waiting b = []"
    and "ids 0 \<notin> set (keys (ps_agent_versions (ws_store st)))" and "ids 1 \<notin> set (keys (ps_runs (ws_store st)))"
    and "distinct (keys (ps_executions (ws_store st)) @ map (\<lambda>j. ids (2 + j)) [0..<jobs])"
    and "set (lh_order host) \<subseteq> {..<workers}" and "jobs \<le> length (lh_order host)"
    and "\<And>k. lh_clock host k < lh_clock host 0 + timeout" and "\<And>es. set (lh_listed host es) = set es"
    and "length (lh_order host) \<le> lh_seen host final" and "final < fuel" and "rounds (lh_rounded host)"
  shows "\<exists>r st'. run_load_test (platform_seed sha256) w host ids now clock jobs workers timeout (fuel + 1) st = Some (r, st') \<and>
    store_ok sha256 (ws_store st') \<and>
    (\<forall>j < jobs. \<exists>x. get_execution (ids (2 + j)) (ws_store st') = Inr x \<and> terminal_status (ex_status x)) \<and>
    (if jobs = 0 then r = Inl (Raise ZeroDivisionError ''division by zero'')
     else \<exists>report p50 p95 p99. r = Inr report \<and>
       lr_succeeded report = jobs \<and> lr_failed report = 0 \<and> lr_worker_exceptions report = 0 \<and>
       sum_list (lr_per_worker report) = jobs \<and>
       lr_p50 report = Some p50 \<and> lr_p95 report = Some p95 \<and> lr_p99 report = Some p99 \<and> p50 \<le> p95 \<and> p95 \<le> p99)"
proof -
  let ?w = "w\<lparr>wk_registry := LOAD_TASK_REGISTRY\<rparr>" and ?m = "ws_model st"
  let ?schedule = "map worker_name (lh_order host)" and ?consumers = "worker_name ` {..<workers}"
  obtain q0 where q0: "ensure_group (wk_redis w) (ws_redis st) = (Inr (), q0)" "view q0 = (view (ws_redis st))\<lparr>qv_group := True\<rparr>"
    using ensure_group_implements [OF assms(1)] by blast
  have w: "redis_ok (wk_redis ?w) view" "codec_ok (wk_codec ?w)"
      "readable (wk_codec ?w) (ids ` {..<2 + jobs} \<union> set (keys (ps_agent_versions (ws_store st))))"
      "wk_ops ?w = platform_ops" "wk_judging ?w = None" "wk_registry ?w = LOAD_TASK_REGISTRY"
      "stands_for (wk_codec ?w) (view q0) b"
    using assms(1-5,7) q0(2) by simp_all
  have sch: "jobs \<le> length ?schedule" "finite ?consumers" "set ?schedule \<subseteq> ?consumers" using assms(12,13) by auto
  obtain enqueued_at s1 q1 counts st' where run:
      "seed_jobs (platform_seed sha256) (wk_redis ?w) (wk_codec ?w) ids now clock jobs (ws_store st, q0) = (Inr enqueued_at, s1, q1)"
      "run_workers ?w (lh_worlds host) 0 ?schedule (no_counts, \<lparr>ws_store = s1, ws_redis = q1, ws_model = ?m\<rparr>) = (counts, st')"
      "total_processed ?consumers counts = jobs" "wc_errored counts = (\<lambda>_. 0)" "store_ok sha256 (ws_store st')"
      "keys enqueued_at = map (\<lambda>j. ids (2 + j)) [0..<jobs]"
      "\<forall>e \<in> set (keys enqueued_at). \<exists>x. get_execution e (ws_store st') = Inr x \<and> terminal_status (ex_status x)"
      "\<forall>looks es. looks final = (\<lambda>e. get_execution e (ws_store st')) \<longrightarrow> set es = set (keys enqueued_at) \<longrightarrow>
         (\<exists>completed_at. poll_until_done looks (lh_clock host) es timeout (fuel + 1) = Some completed_at \<and>
            dict_ok completed_at \<and> set (keys completed_at) = set (keys enqueued_at))"
    using load_run_finishes [where w = ?w and schedule = ?schedule and consumers = ?consumers and m = ?m and worlds = "lh_worlds host"
        and now = now and clock = clock and ids = ids and jobs = jobs and s = "ws_store st" and q = q0 and view = view and b = b
        and poll_clock = "lh_clock host" and timeout = timeout and final = final and fuel = fuel,
        OF w(1-6) assms(6) w(7) assms(8-11) sch assms(14,17)] by blast
  let ?after = "\<lambda>n. run_workers ?w (lh_worlds host) 0 (map worker_name (take n (lh_order host)))
     (no_counts, \<lparr>ws_store = s1, ws_redis = q1, ws_model = ?m\<rparr>)"
  let ?looks = "\<lambda>pass e. get_execution e (ws_store (snd (?after (lh_seen host pass))))"
  have "?looks final = (\<lambda>e. get_execution e (ws_store st'))" using run(2) assms(16) by simp
  from mp [OF mp [OF spec [OF spec [OF run(8), of ?looks], of "lh_listed host (keys enqueued_at)"] this] assms(15)]
  obtain completed_at where c: "poll_until_done ?looks (lh_clock host) (lh_listed host (keys enqueued_at)) timeout (fuel + 1) =
        Some completed_at" "dict_ok completed_at" "set (keys completed_at) = set (keys enqueued_at)"
    by blast
  have es: "distinct (keys enqueued_at)" "length (keys enqueued_at) = jobs" using assms(11) unfolding run(6) by simp_all
  let ?r = "load_report_of (lh_rounded host) jobs workers (lh_elapsed host) counts enqueued_at completed_at"
  have "run_load_test (platform_seed sha256) w host ids now clock jobs workers timeout (fuel + 1) st = Some (?r, st')"
    using q0(1) run(1,2) c(1) assms(4) by (simp add: run_load_test_def and_then_def on_queue_def platform_ops_def Let_def)
  moreover have "\<forall>j < jobs. \<exists>x. get_execution (ids (2 + j)) (ws_store st') = Inr x \<and> terminal_status (ex_status x)"
    using run(7) unfolding run(6) by simp
  ultimately show ?thesis
    using run(5) report_of_completed [OF assms(18) c(2,3) refl es run(4,3), of "lh_elapsed host"] by (intro exI [of _ ?r] exI [of _ st']) simp
qed

text \<open>A load test finishes: whatever the number of workers and however their iterations interleave,
  when they make at least as many iterations as there are jobs, every execution the test created ends
  with a terminal status, and the report counts every job as completed and processed once, no failure
  and no exception of a worker, with percentiles that are in order; the poller only has to look at the
  store once after the last iteration and before its deadline. With no job at all the report divides
  by zero.\<close>

theorem load_test_completes:
  assumes "redis_ok (wk_redis w) view" and "codec_ok (wk_codec w)"
    and "readable (wk_codec w) (ids ` {..<2 + jobs} \<union> set (keys (ps_agent_versions (ws_store st))))"
    and "wk_ops w = platform_ops" and "wk_judging w = None"
    and "store_ok sha256 (ws_store st)" and "stands_for (wk_codec w) ((view (ws_redis st))\<lparr>qv_group := True\<rparr>) b"
    and "jb_waiting b = []"
    and "ids 0 \<notin> set (keys (ps_agent_versions (ws_store st)))" and "ids 1 \<notin> set (keys (ps_runs (ws_store st)))"
    and "distinct (keys (ps_executions (ws_store st)) @ map (\<lambda>j. ids (2 + j)) [0..<jobs])"
    and "set (lh_order host) \<subseteq> {..<workers}" and "jobs \<le> length (lh_order host)"
    and "\<And>k. lh_clock host k < lh_clock host 0 + timeout" and "\<And>es. set (lh_listed host es) = set es"
    and "length (lh_order host) \<le> lh_seen host final" and "final < fuel" and "rounds (lh_rounded host)"
  shows "\<exists>r st'. run_load_test (platform_seed sha256) w host ids now clock jobs workers timeout (fuel + 1) st = Some (r, st') \<and>
    store_ok sha256 (ws_store st') \<and>
    (\<forall>j < jobs. \<exists>x. get_execution (ids (2 + j)) (ws_store st') = Inr x \<and> terminal_status (ex_status x)) \<and>
    (if jobs = 0 then r = Inl (Raise ZeroDivisionError ''division by zero'')
     else \<exists>report p50 p95 p99. r = Inr report \<and>
       lr_succeeded report = jobs \<and> lr_failed report = 0 \<and> lr_worker_exceptions report = 0 \<and>
       sum_list (lr_per_worker report) = jobs \<and>
       lr_p50 report = Some p50 \<and> lr_p95 report = Some p95 \<and> lr_p99 report = Some p99 \<and> p50 \<le> p95 \<and> p95 \<le> p99)"
  by (rule load_test_ends [OF assms])

section \<open>Two jobs and two workers\<close>

definition sample_load_host :: load_host where
  "sample_load_host = \<lparr>lh_order = [1, 0], lh_worlds = (\<lambda>_. sample_world), lh_seen = (\<lambda>pass. 2 * pass), lh_listed = rev,
     lh_clock = (\<lambda>_. 0), lh_elapsed = 3, lh_rounded = (\<lambda>p n. \<lfloor>p * of_nat n\<rfloor>)\<rparr>"

definition sample_load_start :: "(platform_store, memory, unit) worker_state" where
  "sample_load_start = \<lparr>ws_store = empty_store, ws_redis = empty_memory\<lparr>mem_group := False\<rparr>, ws_model = ()\<rparr>"

lemma load_texts:
  "uuid_text (UUID 0) = ''00000000-0000-0000-0000-000000000000''"
  "uuid_text (UUID 1) = ''00000000-0000-0000-0000-000000000001''"
  "uuid_text (UUID 2) = ''00000000-0000-0000-0000-000000000002''"
proof -
  have upt: "[0..<32::nat] = [0, 1, 2, 3, 4, 5, 6, 7, 8, 9, 10, 11, 12, 13, 14, 15, 16, 17, 18, 19, 20, 21, 22, 23,
      24, 25, 26, 27, 28, 29, 30, 31]" by (simp add: upt_rec)
  have digits: "char_of (48 :: nat) = CHR ''0''" "char_of (49 :: nat) = CHR ''1''" "char_of (50 :: nat) = CHR ''2''"
    by code_simp+
  show "uuid_text (UUID 0) = ''00000000-0000-0000-0000-000000000000''"
    "uuid_text (UUID 1) = ''00000000-0000-0000-0000-000000000001''"
    "uuid_text (UUID 2) = ''00000000-0000-0000-0000-000000000002''"
    using digits by (simp_all add: uuid_text_def hex_digit_def join_with_def upt Let_def)
qed

lemma sample_readable: "readable sample_codec (UUID ` {..<2 + 2})"
proof -
  have "hex_uuid ''00000000-0000-0000-0000-000000000000'' = Some (UUID 0)"
    "hex_uuid ''00000000-0000-0000-0000-000000000001'' = Some (UUID 1)"
    "hex_uuid ''00000000-0000-0000-0000-000000000002'' = Some (UUID 2)"
    "hex_uuid ''00000000-0000-0000-0000-000000000003'' = Some (UUID 3)" by code_simp+
  then have "hex_uuid (uuid_text (UUID 0)) = Some (UUID 0)" "hex_uuid (uuid_text (UUID 1)) = Some (UUID 1)"
    "hex_uuid (uuid_text (UUID 2)) = Some (UUID 2)" "hex_uuid (uuid_text (UUID 3)) = Some (UUID 3)"
    by (simp_all only: load_texts sample_texts)
  moreover have "{..<2 + 2} = {0, 1, 2, 3 :: nat}" by auto
  ultimately show ?thesis by (simp add: readable_def sample_codec_def)
qed

lemma floor_rounds: "rounds (\<lambda>p n. \<lfloor>p * rat_of_nat n\<rfloor>)"
  by (auto simp: rounds_def intro!: floor_mono mult_right_mono)

theorem load_test_completes_witness:
  "\<exists>report st'. run_load_test (platform_seed (\<lambda>s. s)) sample_worker sample_load_host UUID int of_nat 2 2 1 3 sample_load_start =
       Some (Inr report, st') \<and>
     lr_succeeded report = 2 \<and> sum_list (lr_per_worker report) = 2"
proof -
  have w: "redis_ok (wk_redis sample_worker) memory_view" "codec_ok (wk_codec sample_worker)"
      "readable (wk_codec sample_worker) (UUID ` {..<2 + 2} \<union> set (keys (ps_agent_versions (ws_store sample_load_start))))"
      "wk_ops sample_worker = platform_ops" "wk_judging sample_worker = None"
    using memory_redis_ok sample_codec_ok sample_readable
    by (simp_all add: sample_load_start_def sample_worker_def empty_store_def)
  have s: "store_ok (\<lambda>s. s) (ws_store sample_load_start)" using store_ok_empty by (simp add: sample_load_start_def)
  have q: "stands_for (wk_codec sample_worker) ((memory_view (ws_redis sample_load_start))\<lparr>qv_group := True\<rparr>)
      \<lparr>jb_waiting = [], jb_claimed = [], jb_dead = []\<rparr>"
    using empty_stands by (simp add: sample_load_start_def sample_worker_def memory_view_def empty_memory_def)
  have d: "jb_waiting \<lparr>jb_waiting = [], jb_claimed = [], jb_dead = []\<rparr> = []"
      "UUID 0 \<notin> set (keys (ps_agent_versions (ws_store sample_load_start)))"
      "UUID 1 \<notin> set (keys (ps_runs (ws_store sample_load_start)))"
      "distinct (keys (ps_executions (ws_store sample_load_start)) @ map (\<lambda>j. UUID (2 + j)) [0..<2])"
      "set (lh_order sample_load_host) \<subseteq> {..<2}" "2 \<le> length (lh_order sample_load_host)"
    by (simp_all add: empty_store_def sample_load_start_def sample_load_host_def upt_rec)
  have h: "\<And>k. lh_clock sample_load_host k < lh_clock sample_load_host 0 + 1" "\<And>es. set (lh_listed sample_load_host es) = set es"
      "length (lh_order sample_load_host) \<le> lh_seen sample_load_host 1" "rounds (lh_rounded sample_load_host)"
    using floor_rounds by (simp_all add: sample_load_host_def)
  from load_test_completes [where fuel = 2 and now = int and clock = of_nat and ids = UUID and jobs = 2 and workers = 2 and
      w = sample_worker and view = memory_view and st = sample_load_start and host = sample_load_host and timeout = 1 and final = 1,
      OF w s q d h(1-3) _ h(4)]
  show ?thesis by (simp add: eval_nat_numeral) blast
qed

end
