(* ===== verification/Migrations.thy ===== *)
theory Migrations
  imports PostgresStore
begin

text \<open>
  The database schema twice: as \<open>backend/app/models.py\<close> declares it and as the revisions under
  \<open>backend/alembic/versions\<close> build it, with the back-fill of the content hash. What Alembic and
  Postgres do for an operation is a parameter (\<open>'db alembic\<close>); what is relied on is that it has
  its documented effect on the catalog (locale \<open>migrator\<close>).
\<close>

section \<open>Schemas\<close>

datatype column_type =
    Uuid | String | Integer | Boolean | Float | DateTimeTz | Jsonb | Enumeration string "string list"

record db_column =
  co_name :: string
  co_type :: column_type
  co_nullable :: bool
  co_server_default :: "string option"

record db_table =
  ta_name :: string
  ta_columns :: "db_column list"
  ta_foreign_keys :: "(string \<times> string \<times> string) list"
  ta_primary_key :: "string list"
  ta_uniques :: "(string \<times> string list) list"

record db_index =
  ix_name :: string
  ix_table :: string
  ix_columns :: "string list"
  ix_using :: string

text \<open>A registered deployment as the revisions see it.\<close>

record version_row =
  vr_id :: uuid
  vr_model :: string
  vr_system_prompt :: string
  vr_tool_schema_hash :: string
  vr_config :: pydict
  vr_content_hash :: "string option"

record catalog =
  ct_tables :: "db_table list"
  ct_indexes :: "db_index list"
  ct_types :: "(string \<times> string list) list"
  ct_versions :: "version_row list"

definition empty_catalog :: catalog where
  "empty_catalog = \<lparr>ct_tables = [], ct_indexes = [], ct_types = [], ct_versions = []\<rparr>"

text \<open>\<open>sa.Column(name, type, nullable=...)\<close>.\<close>

abbreviation col :: "string \<Rightarrow> column_type \<Rightarrow> bool \<Rightarrow> db_column" where
  "col name type nullable \<equiv> \<lparr>co_name = name, co_type = type, co_nullable = nullable, co_server_default = None\<rparr>"

abbreviation btree :: "string \<Rightarrow> string \<Rightarrow> string list \<Rightarrow> db_index" where
  "btree name table columns \<equiv> \<lparr>ix_name = name, ix_table = table, ix_columns = columns, ix_using = ''btree''\<rparr>"

section \<open>The declared models\<close>

text \<open>
  \<open>_enum_column\<close>: the values of the enumeration; the type has the lower-case name of the class.
  \<open>Mapped[...]\<close> gives the type: \<open>datetime\<close> with a time zone, by \<open>type_annotation_map\<close>.
\<close>

definition runstatus :: column_type where
  "runstatus = Enumeration ''runstatus'' [''queued'', ''running'', ''completed'', ''failed'']"

definition executionstatus :: column_type where
  "executionstatus = Enumeration ''executionstatus'' [''pending'', ''running'', ''passed'', ''failed'', ''errored'']"

definition eventtype :: column_type where
  "eventtype = Enumeration ''eventtype''
     (map event_type_value [MODEL_REQUEST, MODEL_RESPONSE, TOOL_CALL, TOOL_RESULT, RETRY, ERROR, FINAL_ANSWER])"

definition judgelabel :: column_type where
  "judgelabel = Enumeration ''judgelabel'' (map judge_label_value [JUDGE_PASS, JUDGE_FAIL, JUDGE_UNCERTAIN])"

definition AgentVersionModel :: db_table where
  "AgentVersionModel =
     \<lparr>ta_name = ''agent_versions'',
      ta_columns =
        [col ''id'' Uuid False, col ''name'' String False, col ''git_sha'' String False, col ''model'' String False,
         col ''system_prompt'' String False, col ''tool_schema_hash'' String False, col ''config'' Jsonb False,
         col ''content_hash'' String False, col ''created_at'' DateTimeTz False],
      ta_foreign_keys = [], ta_primary_key = [''id''], ta_uniques = [([], [''content_hash''])]\<rparr>"

definition EvaluationRunModel :: "db_table \<times> db_index list" where
  "EvaluationRunModel =
     (\<lparr>ta_name = ''evaluation_runs'',
       ta_columns =
         [col ''id'' Uuid False, col ''agent_version_id'' Uuid False, col ''suite_id'' String False,
          col ''suite_version'' String False, col ''suite_manifest_hash'' String False, col ''seed'' Integer False,
          col ''status'' runstatus False, col ''created_at'' DateTimeTz False, col ''finished_at'' DateTimeTz True],
       ta_foreign_keys = [(''agent_version_id'', ''agent_versions'', ''id'')], ta_primary_key = [''id''], ta_uniques = []\<rparr>,
      [btree ''ix_evaluation_runs_agent_version_id'' ''evaluation_runs'' [''agent_version_id'']])"

definition TaskExecutionModel :: "db_table \<times> db_index list" where
  "TaskExecutionModel =
     (\<lparr>ta_name = ''task_executions'',
       ta_columns =
         [col ''id'' Uuid False, col ''run_id'' Uuid False, col ''task_id'' String False, col ''task_seed'' Integer False,
          col ''status'' executionstatus False, col ''passed'' Boolean True, col ''final_output'' String True,
          col ''latency_ms'' Integer True, col ''input_tokens'' Integer True, col ''output_tokens'' Integer True,
          col ''estimated_cost_usd'' Float True, col ''missing_expected_actions'' Jsonb False,
          col ''forbidden_actions_seen'' Jsonb False, col ''final_state_mismatches'' Jsonb False,
          col ''created_at'' DateTimeTz False, col ''finished_at'' DateTimeTz True],
       ta_foreign_keys = [(''run_id'', ''evaluation_runs'', ''id'')], ta_primary_key = [''id''], ta_uniques = []\<rparr>,
      [btree ''ix_task_executions_run_id'' ''task_executions'' [''run_id''],
       btree ''ix_task_executions_run_id_task_id'' ''task_executions'' [''run_id'', ''task_id'']])"

definition TraceEventModel :: "db_table \<times> db_index list" where
  "TraceEventModel =
     (\<lparr>ta_name = ''trace_events'',
       ta_columns =
         [col ''id'' Uuid False, col ''execution_id'' Uuid False, col ''sequence_no'' Integer False,
          col ''event_type'' eventtype False, col ''payload'' Jsonb False, col ''parent_event_id'' Uuid True,
          col ''duration_ms'' Integer True, col ''created_at'' DateTimeTz False],
       ta_foreign_keys = [(''execution_id'', ''task_executions'', ''id'')], ta_primary_key = [''id''],
       ta_uniques = [(''uq_trace_events_execution_sequence'', [''execution_id'', ''sequence_no''])]\<rparr>,
      [btree ''ix_trace_events_execution_id_event_type'' ''trace_events'' [''execution_id'', ''event_type''],
       \<lparr>ix_name = ''ix_trace_events_payload_gin'', ix_table = ''trace_events'', ix_columns = [''payload''], ix_using = ''gin''\<rparr>])"

definition JudgeVerdictModel :: "db_table \<times> db_index list" where
  "JudgeVerdictModel =
     (\<lparr>ta_name = ''judge_verdicts'',
       ta_columns =
         [col ''id'' Uuid False, col ''execution_id'' Uuid False, col ''judge_name'' String False,
          col ''rubric_version'' String False, col ''label'' judgelabel False, col ''confidence'' Float False,
          col ''rationale'' String False, col ''created_at'' DateTimeTz False],
       ta_foreign_keys = [(''execution_id'', ''task_executions'', ''id'')], ta_primary_key = [''id''], ta_uniques = []\<rparr>,
      [btree ''ix_judge_verdicts_execution_id'' ''judge_verdicts'' [''execution_id'']])"

definition declared_models :: "(db_table \<times> db_index list) list" where
  "declared_models =
     [(AgentVersionModel, []), EvaluationRunModel, TaskExecutionModel, TraceEventModel, JudgeVerdictModel]"


section \<open>The revisions\<close>

text \<open>What a revision asks of Alembic; the names of the two constraint kinds are those of the calls.\<close>

datatype op =
    CreateTable db_table
  | DropTable string
  | AddColumn string db_column
  | DropColumn string string
  | SetNotNull string string
  | CreateUnique string string "string list"
  | DropUnique string string
  | CreateIndex db_index
  | DropIndex string string

record 'db alembic =
  al_op :: "op \<Rightarrow> 'db \<Rightarrow> (exc, 'db) res"
  al_select_versions :: "'db \<Rightarrow> (exc, version_row list) res"
  al_update_hash :: "uuid \<Rightarrow> string \<Rightarrow> 'db \<Rightarrow> (exc, 'db) res"

fun run_ops :: "'db alembic \<Rightarrow> op list \<Rightarrow> 'db \<Rightarrow> (exc, 'db) res" where
  "run_ops al [] db = Inr db"
| "run_ops al (x # xs) db = bind_res (al_op al x db) (run_ops al xs)"

definition upgrade_b6f7846940e8 :: "op list" where
  "upgrade_b6f7846940e8 =
     [CreateTable \<lparr>ta_name = ''agent_versions'',
        ta_columns =
          [col ''id'' Uuid False, col ''name'' String False, col ''git_sha'' String False, col ''model'' String False,
           col ''system_prompt'' String False, col ''tool_schema_hash'' String False, col ''config'' Jsonb False,
           col ''created_at'' DateTimeTz False],
        ta_foreign_keys = [], ta_primary_key = [''id''], ta_uniques = []\<rparr>,
      CreateTable \<lparr>ta_name = ''evaluation_runs'',
        ta_columns =
          [col ''id'' Uuid False, col ''agent_version_id'' Uuid False, col ''suite_id'' String False,
           col ''suite_version'' String False, col ''suite_manifest_hash'' String False, col ''seed'' Integer False,
           col ''status'' (Enumeration ''runstatus'' [''queued'', ''running'', ''completed'', ''failed'']) False,
           col ''created_at'' DateTimeTz False, col ''finished_at'' DateTimeTz True],
        ta_foreign_keys = [(''agent_version_id'', ''agent_versions'', ''id'')], ta_primary_key = [''id''], ta_uniques = []\<rparr>,
      CreateIndex (btree ''ix_evaluation_runs_agent_version_id'' ''evaluation_runs'' [''agent_version_id'']),
      CreateTable \<lparr>ta_name = ''task_executions'',
        ta_columns =
          [col ''id'' Uuid False, col ''run_id'' Uuid False, col ''task_id'' String False, col ''task_seed'' Integer False,
           col ''status'' (Enumeration ''executionstatus'' [''pending'', ''running'', ''passed'', ''failed'', ''errored'']) False,
           col ''passed'' Boolean True, col ''final_output'' String True, col ''latency_ms'' Integer True,
           col ''input_tokens'' Integer True, col ''output_tokens'' Integer True, col ''estimated_cost_usd'' Float True,
           col ''created_at'' DateTimeTz False, col ''finished_at'' DateTimeTz True],
        ta_foreign_keys = [(''run_id'', ''evaluation_runs'', ''id'')], ta_primary_key = [''id''], ta_uniques = []\<rparr>,
      CreateIndex (btree ''ix_task_executions_run_id'' ''task_executions'' [''run_id'']),
      CreateIndex (btree ''ix_task_executions_run_id_task_id'' ''task_executions'' [''run_id'', ''task_id'']),
      CreateTable \<lparr>ta_name = ''trace_events'',
        ta_columns =
          [col ''id'' Uuid False, col ''execution_id'' Uuid False, col ''sequence_no'' Integer False,
           col ''event_type'' (Enumeration ''eventtype'' [''model_request'', ''model_response'', ''tool_call'',
             ''tool_result'', ''retry'', ''error'', ''final_answer'']) False,
           col ''payload'' Jsonb False, col ''parent_event_id'' Uuid True, col ''duration_ms'' Integer True,
           col ''created_at'' DateTimeTz False],
        ta_foreign_keys = [(''execution_id'', ''task_executions'', ''id'')], ta_primary_key = [''id''],
        ta_uniques = [(''uq_trace_events_execution_sequence'', [''execution_id'', ''sequence_no''])]\<rparr>,
      CreateIndex (btree ''ix_trace_events_execution_id'' ''trace_events'' [''execution_id''])]"

definition downgrade_b6f7846940e8 :: "op list" where
  "downgrade_b6f7846940e8 =
     [DropIndex ''ix_trace_events_execution_id'' ''trace_events'', DropTable ''trace_events'',
      DropIndex ''ix_task_executions_run_id_task_id'' ''task_executions'',
      DropIndex ''ix_task_executions_run_id'' ''task_executions'', DropTable ''task_executions'',
      DropIndex ''ix_evaluation_runs_agent_version_id'' ''evaluation_runs'', DropTable ''evaluation_runs'',
      DropTable ''agent_versions'']"

definition scored_column :: "string \<Rightarrow> db_column" where
  "scored_column name = (col name Jsonb False)\<lparr>co_server_default := Some ([CHR 0x27] @ ''[]'' @ [CHR 0x27] @ ''::jsonb'')\<rparr>"

definition upgrade_4491ac318ffc :: "op list" where
  "upgrade_4491ac318ffc =
     [AddColumn ''task_executions'' (scored_column ''missing_expected_actions''),
      AddColumn ''task_executions'' (scored_column ''forbidden_actions_seen''),
      AddColumn ''task_executions'' (scored_column ''final_state_mismatches'')]"

definition downgrade_4491ac318ffc :: "op list" where
  "downgrade_4491ac318ffc =
     [DropColumn ''task_executions'' ''final_state_mismatches'', DropColumn ''task_executions'' ''forbidden_actions_seen'',
      DropColumn ''task_executions'' ''missing_expected_actions'']"

definition upgrade_bd25f8b625ce :: "op list" where
  "upgrade_bd25f8b625ce =
     [CreateTable \<lparr>ta_name = ''judge_verdicts'',
        ta_columns =
          [col ''id'' Uuid False, col ''execution_id'' Uuid False, col ''judge_name'' String False,
           col ''rubric_version'' String False, col ''label'' (Enumeration ''judgelabel'' [''pass'', ''fail'', ''uncertain'']) False,
           col ''confidence'' Float False, col ''rationale'' String False, col ''created_at'' DateTimeTz False],
        ta_foreign_keys = [(''execution_id'', ''task_executions'', ''id'')], ta_primary_key = [''id''], ta_uniques = []\<rparr>,
      CreateIndex (btree ''ix_judge_verdicts_execution_id'' ''judge_verdicts'' [''execution_id''])]"

definition downgrade_bd25f8b625ce :: "op list" where
  "downgrade_bd25f8b625ce =
     [DropIndex ''ix_judge_verdicts_execution_id'' ''judge_verdicts'', DropTable ''judge_verdicts'']"

text \<open>\<open>for row in existing_rows\<close>: the hash of each row, from the row.\<close>

fun backfill :: "'db alembic \<Rightarrow> (string \<Rightarrow> string) \<Rightarrow> version_row list \<Rightarrow> 'db \<Rightarrow> (exc, 'db) res" where
  "backfill al sha256 [] db = Inr db"
| "backfill al sha256 (row # rows) db =
     (let content_hash = compute_agent_version_content_hash sha256 (vr_model row) (vr_system_prompt row)
            (vr_tool_schema_hash row) (vr_config row) in
      bind_res (al_update_hash al (vr_id row) content_hash db) (backfill al sha256 rows))"

definition upgrade_9a1faddf3548 :: "'db alembic \<Rightarrow> (string \<Rightarrow> string) \<Rightarrow> 'db \<Rightarrow> (exc, 'db) res" where
  "upgrade_9a1faddf3548 al sha256 db =
     bind_res (al_op al (AddColumn ''agent_versions'' (col ''content_hash'' String True)) db) (\<lambda>db.
     bind_res (al_select_versions al db) (\<lambda>existing_rows.
     bind_res (backfill al sha256 existing_rows db)
       (run_ops al
         [SetNotNull ''agent_versions'' ''content_hash'',
          CreateUnique ''uq_agent_versions_content_hash'' ''agent_versions'' [''content_hash'']])))"

definition downgrade_9a1faddf3548 :: "op list" where
  "downgrade_9a1faddf3548 =
     [DropUnique ''uq_agent_versions_content_hash'' ''agent_versions'', DropColumn ''agent_versions'' ''content_hash'']"

definition upgrade_82cfbe100ed2 :: "op list" where
  "upgrade_82cfbe100ed2 =
     [DropIndex ''ix_trace_events_execution_id'' ''trace_events'',
      CreateIndex (btree ''ix_trace_events_execution_id_event_type'' ''trace_events'' [''execution_id'', ''event_type'']),
      CreateIndex \<lparr>ix_name = ''ix_trace_events_payload_gin'', ix_table = ''trace_events'', ix_columns = [''payload''],
        ix_using = ''gin''\<rparr>]"

definition downgrade_82cfbe100ed2 :: "op list" where
  "downgrade_82cfbe100ed2 =
     [DropIndex ''ix_trace_events_payload_gin'' ''trace_events'',
      DropIndex ''ix_trace_events_execution_id_event_type'' ''trace_events'',
      CreateIndex (btree ''ix_trace_events_execution_id'' ''trace_events'' [''execution_id''])]"

text \<open>Each revision: its identifier, the one it revises, and its two functions.\<close>

record 'db revision =
  rev_id :: string
  rev_down :: "string option"
  rev_upgrade :: "'db \<Rightarrow> (exc, 'db) res"
  rev_downgrade :: "'db \<Rightarrow> (exc, 'db) res"

definition revisions :: "'db alembic \<Rightarrow> (string \<Rightarrow> string) \<Rightarrow> 'db revision list" where
  "revisions al sha256 =
     [\<lparr>rev_id = ''b6f7846940e8'', rev_down = None, rev_upgrade = run_ops al upgrade_b6f7846940e8,
       rev_downgrade = run_ops al downgrade_b6f7846940e8\<rparr>,
      \<lparr>rev_id = ''4491ac318ffc'', rev_down = Some ''b6f7846940e8'', rev_upgrade = run_ops al upgrade_4491ac318ffc,
       rev_downgrade = run_ops al downgrade_4491ac318ffc\<rparr>,
      \<lparr>rev_id = ''bd25f8b625ce'', rev_down = Some ''4491ac318ffc'', rev_upgrade = run_ops al upgrade_bd25f8b625ce,
       rev_downgrade = run_ops al downgrade_bd25f8b625ce\<rparr>,
      \<lparr>rev_id = ''9a1faddf3548'', rev_down = Some ''bd25f8b625ce'', rev_upgrade = upgrade_9a1faddf3548 al sha256,
       rev_downgrade = run_ops al downgrade_9a1faddf3548\<rparr>,
      \<lparr>rev_id = ''82cfbe100ed2'', rev_down = Some ''9a1faddf3548'', rev_upgrade = run_ops al upgrade_82cfbe100ed2,
       rev_downgrade = run_ops al downgrade_82cfbe100ed2\<rparr>]"

text \<open>\<open>alembic upgrade head\<close> and \<open>alembic downgrade base\<close>: the revisions along \<open>down_revision\<close>.\<close>

fun apply_all :: "('db \<Rightarrow> (exc, 'db) res) list \<Rightarrow> 'db \<Rightarrow> (exc, 'db) res" where
  "apply_all [] db = Inr db"
| "apply_all (f # fs) db = bind_res (f db) (apply_all fs)"

definition upgrade_head :: "'db alembic \<Rightarrow> (string \<Rightarrow> string) \<Rightarrow> 'db \<Rightarrow> (exc, 'db) res" where
  "upgrade_head al sha256 = apply_all (map rev_upgrade (revisions al sha256))"

definition downgrade_base :: "'db alembic \<Rightarrow> (string \<Rightarrow> string) \<Rightarrow> 'db \<Rightarrow> (exc, 'db) res" where
  "downgrade_base al sha256 = apply_all (map rev_downgrade (rev (revisions al sha256)))"

section \<open>The documented effect\<close>

text \<open>
  What an operation does to a catalog, and when it fails: a name that is taken or missing, a type that
  exists, a reference without its target or left without one, a null or a duplicate under a new
  constraint. The rows the catalog has are those of \<open>agent_versions\<close>; operations whose outcome
  depends on the rows of another table are not among those of the revisions and have no effect here.
\<close>

definition find_table :: "string \<Rightarrow> catalog \<Rightarrow> db_table option" where
  "find_table n c = List.find (\<lambda>t. ta_name t = n) (ct_tables c)"

definition change_table :: "string \<Rightarrow> (db_table \<Rightarrow> db_table) \<Rightarrow> catalog \<Rightarrow> catalog" where
  "change_table n f c = c\<lparr>ct_tables := map (\<lambda>t. if ta_name t = n then f t else t) (ct_tables c)\<rparr>"

definition column_names :: "db_table \<Rightarrow> string list" where
  "column_names t = map co_name (ta_columns t)"

fun types_of :: "db_column list \<Rightarrow> (string \<times> string list) list" where
  "types_of [] = []"
| "types_of (c # cs) = (case co_type c of Enumeration n vs \<Rightarrow> (n, vs) # types_of cs | _ \<Rightarrow> types_of cs)"

definition hashes :: "catalog \<Rightarrow> string list" where
  "hashes c = map the (filter (\<lambda>h. h \<noteq> None) (map vr_content_hash (ct_versions c)))"

fun alter :: "op \<Rightarrow> catalog \<Rightarrow> catalog option" where
  "alter (CreateTable t) c =
     (if find_table (ta_name t) c \<noteq> None \<or>
        list_ex (\<lambda>(_, target, _). find_table target c = None) (ta_foreign_keys t) \<or>
        list_ex (\<lambda>(n, _). n \<in> set (map fst (ct_types c))) (types_of (ta_columns t))
      then None
      else Some (c\<lparr>ct_tables := ct_tables c @ [t], ct_types := ct_types c @ types_of (ta_columns t)\<rparr>))"
| "alter (DropTable n) c =
     (if find_table n c = None \<or>
        list_ex (\<lambda>t. ta_name t \<noteq> n \<and> list_ex (\<lambda>(_, target, _). target = n) (ta_foreign_keys t)) (ct_tables c)
      then None
      else Some (c\<lparr>ct_tables := filter (\<lambda>t. ta_name t \<noteq> n) (ct_tables c),
        ct_indexes := filter (\<lambda>i. ix_table i \<noteq> n) (ct_indexes c),
        ct_versions := (if n = ''agent_versions'' then [] else ct_versions c)\<rparr>))"
| "alter (AddColumn n new) c =
     (case find_table n c of
        None \<Rightarrow> None
      | Some t \<Rightarrow>
          if co_name new \<in> set (column_names t) \<or> (\<not> co_nullable new \<and> co_server_default new = None) then None
          else Some ((change_table n (\<lambda>t. t\<lparr>ta_columns := ta_columns t @ [new]\<rparr>) c)\<lparr>ct_versions :=
            (if n = ''agent_versions'' \<and> co_name new = ''content_hash''
             then map (\<lambda>r. r\<lparr>vr_content_hash := None\<rparr>) (ct_versions c) else ct_versions c)\<rparr>))"
| "alter (DropColumn n old) c =
     (case find_table n c of
        None \<Rightarrow> None
      | Some t \<Rightarrow>
          if old \<notin> set (column_names t) then None
          else Some ((change_table n (\<lambda>t. t\<lparr>ta_columns := filter (\<lambda>k. co_name k \<noteq> old) (ta_columns t),
              ta_uniques := filter (\<lambda>(_, cs). old \<notin> set cs) (ta_uniques t)\<rparr>) c)\<lparr>ct_indexes :=
                filter (\<lambda>i. \<not> (ix_table i = n \<and> old \<in> set (ix_columns i))) (ct_indexes c)\<rparr>))"
| "alter (SetNotNull n k) c =
     (case find_table n c of
        None \<Rightarrow> None
      | Some t \<Rightarrow>
          if k \<in> set (column_names t) \<and> n = ''agent_versions'' \<and> k = ''content_hash'' \<and>
            list_all (\<lambda>r. vr_content_hash r \<noteq> None) (ct_versions c)
          then Some (change_table n (\<lambda>t. t\<lparr>ta_columns := map (\<lambda>x. if co_name x = k then x\<lparr>co_nullable := False\<rparr> else x)
            (ta_columns t)\<rparr>) c)
          else None)"
| "alter (CreateUnique name n ks) c =
     (case find_table n c of
        None \<Rightarrow> None
      | Some t \<Rightarrow>
          if set ks \<subseteq> set (column_names t) \<and> name \<notin> set (map fst (ta_uniques t)) \<and>
            n = ''agent_versions'' \<and> ks = [''content_hash''] \<and> distinct (hashes c)
          then Some (change_table n (\<lambda>t. t\<lparr>ta_uniques := ta_uniques t @ [(name, ks)]\<rparr>) c)
          else None)"
| "alter (DropUnique name n) c =
     (case find_table n c of
        None \<Rightarrow> None
      | Some t \<Rightarrow>
          if name \<in> set (map fst (ta_uniques t))
          then Some (change_table n (\<lambda>t. t\<lparr>ta_uniques := filter (\<lambda>(x, _). x \<noteq> name) (ta_uniques t)\<rparr>) c)
          else None)"
| "alter (CreateIndex i) c =
     (case find_table (ix_table i) c of
        None \<Rightarrow> None
      | Some t \<Rightarrow>
          if ix_name i \<in> set (map ix_name (ct_indexes c)) \<or> \<not> set (ix_columns i) \<subseteq> set (column_names t) then None
          else Some (c\<lparr>ct_indexes := ct_indexes c @ [i]\<rparr>))"
| "alter (DropIndex name n) c =
     (if name \<in> set (map ix_name (ct_indexes c)) then Some (c\<lparr>ct_indexes := filter (\<lambda>i. ix_name i \<noteq> name) (ct_indexes c)\<rparr>)
      else None)"

fun alter_all :: "op list \<Rightarrow> catalog \<Rightarrow> catalog option" where
  "alter_all [] c = Some c"
| "alter_all (x # xs) c = (case alter x c of None \<Rightarrow> None | Some c \<Rightarrow> alter_all xs c)"

definition set_hash :: "uuid \<Rightarrow> string \<Rightarrow> catalog \<Rightarrow> catalog" where
  "set_hash i h c = c\<lparr>ct_versions := map (\<lambda>r. if vr_id r = i then r\<lparr>vr_content_hash := Some h\<rparr> else r) (ct_versions c)\<rparr>"

definition has_hash_column :: "catalog \<Rightarrow> bool" where
  "has_hash_column c \<longleftrightarrow> (\<exists>t. find_table ''agent_versions'' c = Some t \<and> ''content_hash'' \<in> set (column_names t))"

locale migrator =
  fixes al :: "'db alembic"
    and view :: "'db \<Rightarrow> catalog"
  assumes op_effect: "case alter x (view db) of
        None \<Rightarrow> \<exists>e. al_op al x db = Inl e | Some c \<Rightarrow> \<exists>db'. al_op al x db = Inr db' \<and> view db' = c"
    and select_effect: "has_hash_column (view db) \<Longrightarrow>
        \<exists>rows. al_select_versions al db = Inr rows \<and> mset rows = mset (ct_versions (view db))"
    and update_effect: "has_hash_column (view db) \<Longrightarrow>
        \<exists>db'. al_update_hash al i h db = Inr db' \<and> view db' = set_hash i h (view db)"

section \<open>The effect of a revision\<close>

definition row_hash :: "(string \<Rightarrow> string) \<Rightarrow> version_row \<Rightarrow> string" where
  "row_hash sha256 r =
     compute_agent_version_content_hash sha256 (vr_model r) (vr_system_prompt r) (vr_tool_schema_hash r) (vr_config r)"

definition hashed :: "(string \<Rightarrow> string) \<Rightarrow> catalog \<Rightarrow> catalog" where
  "hashed sha256 c = c\<lparr>ct_versions := map (\<lambda>r. r\<lparr>vr_content_hash := Some (row_hash sha256 r)\<rparr>) (ct_versions c)\<rparr>"

definition hash_revision :: "(string \<Rightarrow> string) \<Rightarrow> catalog \<Rightarrow> catalog option" where
  "hash_revision sha256 c =
     (case alter (AddColumn ''agent_versions'' (col ''content_hash'' String True)) c of
        None \<Rightarrow> None
      | Some c \<Rightarrow> alter_all
          [SetNotNull ''agent_versions'' ''content_hash'',
           CreateUnique ''uq_agent_versions_content_hash'' ''agent_versions'' [''content_hash'']] (hashed sha256 c))"

definition keys_ok :: "catalog \<Rightarrow> bool" where
  "keys_ok c \<longleftrightarrow> distinct (map vr_id (ct_versions c))"

definition implements :: "('db \<Rightarrow> catalog) \<Rightarrow> ('db \<Rightarrow> (exc, 'db) res) \<Rightarrow> (catalog \<Rightarrow> catalog option) \<Rightarrow> bool" where
  "implements view f g \<longleftrightarrow>
     (\<forall>db. keys_ok (view db) \<longrightarrow>
        (case g (view db) of
           None \<Rightarrow> \<exists>e. f db = Inl e | Some c \<Rightarrow> keys_ok c \<and> (\<exists>db'. f db = Inr db' \<and> view db' = c)))"

lemma implementsD:
  assumes "implements view f g" and "keys_ok (view db)"
  shows "g (view db) = None \<Longrightarrow> \<exists>e. f db = Inl e"
    and "g (view db) = Some c \<Longrightarrow> keys_ok c \<and> (\<exists>db'. f db = Inr db' \<and> view db' = c)"
  using assms by (auto simp: implements_def)

lemma implementsI:
  assumes "\<And>db. keys_ok (view db) \<Longrightarrow> g (view db) = None \<Longrightarrow> \<exists>e. f db = Inl e"
    and "\<And>db c. keys_ok (view db) \<Longrightarrow> g (view db) = Some c \<Longrightarrow> keys_ok c \<and> (\<exists>db'. f db = Inr db' \<and> view db' = c)"
  shows "implements view f g"
  using assms unfolding implements_def by (auto split: option.split)

lemma implements_bind:
  assumes "implements view f g" and "implements view f' g'"
  shows "implements view (\<lambda>db. bind_res (f db) f') (\<lambda>c. case g c of None \<Rightarrow> None | Some c \<Rightarrow> g' c)"
proof (rule implementsI)
  fix db assume k: "keys_ok (view db)" and "(case g (view db) of None \<Rightarrow> None | Some c \<Rightarrow> g' c) = None"
  then show "\<exists>e. bind_res (f db) f' = Inl e"
  proof (cases "g (view db)")
    case None
    then show ?thesis using implementsD(1) [OF assms(1) k] by auto
  next
    case (Some c)
    then obtain db' where "f db = Inr db'" "view db' = c" "keys_ok c" using implementsD(2) [OF assms(1) k] by blast
    moreover have "g' c = None" using Some \<open>(case g (view db) of None \<Rightarrow> None | Some c \<Rightarrow> g' c) = None\<close> by simp
    ultimately show ?thesis using implementsD(1) [OF assms(2)] by auto
  qed
next
  fix db c assume k: "keys_ok (view db)" and s: "(case g (view db) of None \<Rightarrow> None | Some c \<Rightarrow> g' c) = Some c"
  then obtain c1 where c1: "g (view db) = Some c1" "g' c1 = Some c" by (auto split: option.splits)
  then obtain db1 where "f db = Inr db1" "view db1 = c1" "keys_ok c1" using implementsD(2) [OF assms(1) k] by blast
  then show "keys_ok c \<and> (\<exists>db'. bind_res (f db) f' = Inr db' \<and> view db' = c)"
    using implementsD(2) [OF assms(2), of db1 c] c1(2) by simp
qed

lemma alter_keys: "alter x c = Some c' \<Longrightarrow> keys_ok c \<Longrightarrow> keys_ok c'"
  by (cases "(x, c)" rule: alter.cases)
    (auto simp: keys_ok_def change_table_def comp_def split: if_splits option.splits)

lemma alter_all_append: "alter_all (xs @ ys) c = (case alter_all xs c of None \<Rightarrow> None | Some c \<Rightarrow> alter_all ys c)"
  by (induction xs arbitrary: c) (auto split: option.splits)

text \<open>The back-fill: each row gets the hash of its own columns, whatever the order of the rows read.\<close>

lemma fold_set_hash:
  "distinct (map vr_id rows) \<Longrightarrow>
     fold (\<lambda>q. set_hash (vr_id q) (row_hash sha256 q)) rows c =
       c\<lparr>ct_versions := map (\<lambda>r. case List.find (\<lambda>q. vr_id q = vr_id r) rows of
         None \<Rightarrow> r | Some q \<Rightarrow> r\<lparr>vr_content_hash := Some (row_hash sha256 q)\<rparr>) (ct_versions c)\<rparr>"
proof (induction rows arbitrary: c)
  case (Cons q rows)
  have "List.find (\<lambda>p. vr_id p = vr_id q) rows = None" using Cons.prems by (simp add: find_None_iff) (metis image_eqI)
  then show ?case using Cons by (auto simp: set_hash_def split: option.split)
qed simp

lemma fold_set_hash_all:
  assumes "keys_ok c" and "mset rows = mset (ct_versions c)"
  shows "fold (\<lambda>q. set_hash (vr_id q) (row_hash sha256 q)) rows c = hashed sha256 c"
proof -
  have "mset (map vr_id rows) = mset (map vr_id (ct_versions c))" using assms(2) by simp
  then have d: "distinct (map vr_id rows)" using assms(1) unfolding keys_ok_def by (metis mset_eq_imp_distinct_iff)
  have "List.find (\<lambda>q. vr_id q = vr_id r) rows = Some r" if "r \<in> set (ct_versions c)" for r
  proof -
    have r: "r \<in> set rows" using that mset_eq_setD [OF assms(2)] by simp
    then obtain q where q: "List.find (\<lambda>q. vr_id q = vr_id r) rows = Some q"
      by (cases "List.find (\<lambda>q. vr_id q = vr_id r) rows") (auto simp: find_None_iff)
    then have "q \<in> set rows" "vr_id q = vr_id r" by (auto simp: find_Some_iff)
    then show ?thesis using q r d by (metis distinct_map inj_onD)
  qed
  then show ?thesis unfolding fold_set_hash [OF d] hashed_def by (intro arg_cong [where f = "\<lambda>vs. c\<lparr>ct_versions := vs\<rparr>"] map_cong) simp_all
qed

lemma has_hash_column_set_hash [simp]: "has_hash_column (set_hash i h c) = has_hash_column c"
  by (simp add: has_hash_column_def find_table_def set_hash_def)

lemma find_table_change:
  assumes "\<And>t. ta_name (f t) = ta_name t"
  shows "find_table n (change_table n f c) = map_option f (find_table n c)"
proof -
  have "List.find (\<lambda>t. ta_name t = n) (map (\<lambda>t. if ta_name t = n then f t else t) ts) =
      map_option f (List.find (\<lambda>t. ta_name t = n) ts)" for ts
    by (induction ts) (simp_all add: assms)
  then show ?thesis by (simp add: find_table_def change_table_def)
qed

lemma hash_column_added:
  "alter (AddColumn ''agent_versions'' (col ''content_hash'' String True)) c = Some c' \<Longrightarrow> has_hash_column c'"
  by (auto simp: has_hash_column_def find_table_change column_names_def find_table_def [of _ "_\<lparr>ct_versions := _\<rparr>"]
      find_table_def [of _ "change_table _ _ _", symmetric] split: option.splits if_splits)

lemma keys_ok_hashed [simp]: "keys_ok (hashed sha256 c) = keys_ok c"
  by (simp add: keys_ok_def hashed_def comp_def)

context migrator
begin

lemma op_implements: "implements view (al_op al x) (alter x)"
proof (rule implementsI)
  fix db assume "alter x (view db) = None"
  then show "\<exists>e. al_op al x db = Inl e" using op_effect [of x db] by simp
next
  fix db c assume "keys_ok (view db)" "alter x (view db) = Some c"
  then show "keys_ok c \<and> (\<exists>db'. al_op al x db = Inr db' \<and> view db' = c)"
    using op_effect [of x db] alter_keys by simp
qed

lemma run_ops_implements: "implements view (run_ops al xs) (alter_all xs)"
proof (induction xs)
  case (Cons x xs)
  show ?case using implements_bind [OF op_implements [of x] Cons.IH] by simp
qed (simp add: implements_def)

lemma backfill_effect:
  "has_hash_column (view db) \<Longrightarrow>
     \<exists>db'. backfill al sha256 rows db = Inr db' \<and>
       view db' = fold (\<lambda>q. set_hash (vr_id q) (row_hash sha256 q)) rows (view db)"
proof (induction rows arbitrary: db)
  case (Cons q rows)
  obtain db1 where db1: "al_update_hash al (vr_id q) (row_hash sha256 q) db = Inr db1"
      "view db1 = set_hash (vr_id q) (row_hash sha256 q) (view db)"
    using update_effect [OF Cons.prems] by blast
  then have "has_hash_column (view db1)" using Cons.prems by simp
  from Cons.IH [OF this] show ?case using db1 by (simp add: row_hash_def)
qed simp

lemma hash_revision_implements: "implements view (upgrade_9a1faddf3548 al sha256) (hash_revision sha256)"
proof -
  let ?new = "AddColumn ''agent_versions'' (col ''content_hash'' String True)"
  let ?rest = "[SetNotNull ''agent_versions'' ''content_hash'',
    CreateUnique ''uq_agent_versions_content_hash'' ''agent_versions'' [''content_hash'']]"
  have after: "\<exists>db'. bind_res (al_select_versions al db) (\<lambda>rows. bind_res (backfill al sha256 rows db) f) = f db' \<and>
      view db' = hashed sha256 (view db)" if h: "has_hash_column (view db)" and k: "keys_ok (view db)" for db f
  proof -
    obtain rows where rows: "al_select_versions al db = Inr rows" "mset rows = mset (ct_versions (view db))"
      using select_effect [OF h] by blast
    then show ?thesis using backfill_effect [OF h, of sha256 rows] fold_set_hash_all [OF k rows(2)] by auto
  qed
  show ?thesis
  proof (rule implementsI)
    fix db assume k: "keys_ok (view db)" and none: "hash_revision sha256 (view db) = None"
    show "\<exists>e. upgrade_9a1faddf3548 al sha256 db = Inl e"
    proof (cases "alter ?new (view db)")
      case None
      then show ?thesis using implementsD(1) [OF op_implements k None] by (auto simp: upgrade_9a1faddf3548_def simp del: alter.simps run_ops.simps)
    next
      case (Some c1)
      then obtain db1 where db1: "al_op al ?new db = Inr db1" "view db1 = c1" "keys_ok c1"
        using implementsD(2) [OF op_implements k Some] by blast
      obtain db2 where db2: "upgrade_9a1faddf3548 al sha256 db = run_ops al ?rest db2" "view db2 = hashed sha256 c1"
        using after [of db1 "run_ops al ?rest"] hash_column_added [OF Some] db1 by (auto simp: upgrade_9a1faddf3548_def simp del: alter.simps run_ops.simps)
      moreover have "alter_all ?rest (view db2) = None" using none Some db2(2) by (simp add: hash_revision_def del: alter.simps alter_all.simps)
      ultimately show ?thesis using implementsD(1) [OF run_ops_implements, of db2] db1(3) by (simp del: alter.simps alter_all.simps run_ops.simps)
    qed
  next
    fix db c assume k: "keys_ok (view db)" and some: "hash_revision sha256 (view db) = Some c"
    then obtain c1 where c1: "alter ?new (view db) = Some c1" "alter_all ?rest (hashed sha256 c1) = Some c"
      unfolding hash_revision_def by (auto split: option.splits)
    then obtain db1 where db1: "al_op al ?new db = Inr db1" "view db1 = c1" "keys_ok c1"
      using implementsD(2) [OF op_implements k c1(1)] by blast
    obtain db2 where db2: "upgrade_9a1faddf3548 al sha256 db = run_ops al ?rest db2" "view db2 = hashed sha256 c1"
      using after [of db1 "run_ops al ?rest"] hash_column_added [OF c1(1)] db1 by (auto simp: upgrade_9a1faddf3548_def simp del: alter.simps run_ops.simps)
    then show "keys_ok c \<and> (\<exists>db'. upgrade_9a1faddf3548 al sha256 db = Inr db' \<and> view db' = c)"
      using implementsD(2) [OF run_ops_implements, of db2 ?rest c] c1(2) db1(3) by (simp del: alter.simps alter_all.simps run_ops.simps)
  qed
qed

end


section \<open>All the revisions\<close>

definition head_spec :: "(string \<Rightarrow> string) \<Rightarrow> (catalog \<Rightarrow> catalog option) list" where
  "head_spec sha256 =
     [alter_all upgrade_b6f7846940e8, alter_all upgrade_4491ac318ffc, alter_all upgrade_bd25f8b625ce,
      hash_revision sha256, alter_all upgrade_82cfbe100ed2]"

definition base_spec :: "(catalog \<Rightarrow> catalog option) list" where
  "base_spec =
     [alter_all downgrade_82cfbe100ed2, alter_all downgrade_9a1faddf3548, alter_all downgrade_bd25f8b625ce,
      alter_all downgrade_4491ac318ffc, alter_all downgrade_b6f7846940e8]"

fun spec_all :: "(catalog \<Rightarrow> catalog option) list \<Rightarrow> catalog \<Rightarrow> catalog option" where
  "spec_all [] c = Some c"
| "spec_all (g # gs) c = (case g c of None \<Rightarrow> None | Some c \<Rightarrow> spec_all gs c)"

lemma apply_all_implements:
  "list_all2 (implements view) fs gs \<Longrightarrow> implements view (apply_all fs) (spec_all gs)"
proof (induction rule: list_all2_induct)
  case (Cons f fs g gs)
  show ?case using implements_bind [OF Cons.hyps(1) Cons.IH] by simp
qed (simp add: implements_def)

context migrator
begin

lemma upgrade_implements: "implements view (upgrade_head al sha256) (spec_all (head_spec sha256))"
  unfolding upgrade_head_def
  by (rule apply_all_implements)
    (simp add: revisions_def head_spec_def run_ops_implements hash_revision_implements del: run_ops.simps alter_all.simps)

lemma downgrade_implements: "implements view (downgrade_base al sha256) (spec_all base_spec)"
  unfolding downgrade_base_def
  by (rule apply_all_implements)
    (simp add: revisions_def base_spec_def run_ops_implements del: run_ops.simps alter_all.simps)

end

text \<open>The shape of a schema: what is left of the order of tables and columns, of server defaults, and of
  the names of unique constraints.\<close>

definition table_shape ::
  "db_table \<Rightarrow> string \<times> (string \<times> column_type \<times> bool) set \<times> (string \<times> string \<times> string) set \<times> string list \<times> string list set" where
  "table_shape t =
     (ta_name t, set (map (\<lambda>c. (co_name c, co_type c, co_nullable c)) (ta_columns t)), set (ta_foreign_keys t),
      ta_primary_key t, set (map snd (ta_uniques t)))"

definition same_schema :: "catalog \<Rightarrow> (db_table \<times> db_index list) list \<Rightarrow> bool" where
  "same_schema c models \<longleftrightarrow>
     set (map table_shape (ct_tables c)) = set (map (table_shape \<circ> fst) models) \<and>
     length (ct_tables c) = length models \<and>
     set (ct_indexes c) = set (concat (map snd models)) \<and> distinct (map ix_name (ct_indexes c)) \<and>
     list_all (\<lambda>t. distinct (column_names t)) (ct_tables c)"

text \<open>What \<open>downgrade base\<close> leaves of an empty database that was upgraded: the enumeration types.\<close>

definition emptied_catalog :: catalog where
  "emptied_catalog = empty_catalog\<lparr>ct_types := concat (map (\<lambda>m. types_of (ta_columns (fst m))) declared_models)\<rparr>"

lemma head_of_empty:
  "case spec_all (head_spec sha256) empty_catalog of
     None \<Rightarrow> False
   | Some c \<Rightarrow> same_schema c declared_models \<and> spec_all base_spec c = Some emptied_catalog"
  by code_simp

lemma head_of_emptied: "spec_all (head_spec sha256) emptied_catalog = None" "map fst (ct_types emptied_catalog) =
    [''runstatus'', ''executionstatus'', ''eventtype'', ''judgelabel'']"
  by code_simp+

lemma keys_ok_fresh [simp]: "keys_ok empty_catalog" "keys_ok emptied_catalog"
  by (simp_all add: keys_ok_def empty_catalog_def emptied_catalog_def)

context migrator
begin

lemma upgrade_from_empty:
  assumes "view db = empty_catalog"
  shows "\<exists>db'. upgrade_head al sha256 db = Inr db' \<and> same_schema (view db') declared_models"
proof -
  obtain c where "spec_all (head_spec sha256) (view db) = Some c" "same_schema c declared_models"
    using head_of_empty [of sha256] assms by (auto split: option.splits)
  then show ?thesis using implementsD(2) [OF upgrade_implements, of db sha256 c] assms by auto
qed

end

text \<open>The hash revision, on any catalog with the table and without the column.\<close>

lemma find_table_versions [simp]: "find_table n (c\<lparr>ct_versions := vs\<rparr>) = find_table n c"
  by (simp add: find_table_def)

lemma versions_change_table [simp]: "ct_versions (change_table n f c) = ct_versions c"
  by (simp add: change_table_def)

lemma hash_revision_result:
  assumes t: "find_table ''agent_versions'' c = Some t" and "''content_hash'' \<notin> set (column_names t)"
    and "''uq_agent_versions_content_hash'' \<notin> set (map fst (ta_uniques t))"
  shows "if distinct (map (row_hash sha256) (ct_versions c))
    then \<exists>c'. hash_revision sha256 c = Some c' \<and>
      ct_versions c' = map (\<lambda>r. r\<lparr>vr_content_hash := Some (row_hash sha256 r)\<rparr>) (ct_versions c)
    else hash_revision sha256 c = None"
proof -
  have forget: "row_hash sha256 (r\<lparr>vr_content_hash := x\<rparr>) = row_hash sha256 r" for r x by (simp add: row_hash_def)
  obtain c1 t1 where c1: "alter (AddColumn ''agent_versions'' (col ''content_hash'' String True)) c = Some c1"
      "find_table ''agent_versions'' c1 = Some t1" "''content_hash'' \<in> set (column_names t1)"
      "ta_uniques t1 = ta_uniques t" "ct_versions c1 = map (\<lambda>r. r\<lparr>vr_content_hash := None\<rparr>) (ct_versions c)"
    using t assms(2) by (simp add: find_table_change column_names_def)
  let ?c2 = "hashed sha256 c1"
  have v: "ct_versions ?c2 = map (\<lambda>r. r\<lparr>vr_content_hash := Some (row_hash sha256 r)\<rparr>) (ct_versions c)"
    by (simp add: hashed_def c1(5) forget)
  have t2: "find_table ''agent_versions'' ?c2 = Some t1" using c1(2) by (simp add: hashed_def)
  obtain c3 t3 where c3: "alter (SetNotNull ''agent_versions'' ''content_hash'') ?c2 = Some c3"
      "find_table ''agent_versions'' c3 = Some t3" "''content_hash'' \<in> set (column_names t3)"
      "ta_uniques t3 = ta_uniques t" "ct_versions c3 = ct_versions ?c2"
  proof -
    have "column_names (t1\<lparr>ta_columns := map (\<lambda>x. if co_name x = k then x\<lparr>co_nullable := False\<rparr> else x) (ta_columns t1)\<rparr>) =
        column_names t1" for k by (simp add: column_names_def comp_def if_distrib cong: if_cong)
    then show thesis using that t2 c1(3,4) v by (simp add: find_table_change list_all_iff)
  qed
  have h: "hashes c3 = map (row_hash sha256) (ct_versions c)"
    using c3(5) v by (simp add: hashes_def comp_def)
  have "hash_revision sha256 c = alter (CreateUnique ''uq_agent_versions_content_hash'' ''agent_versions'' [''content_hash'']) c3"
    unfolding hash_revision_def c1(1) by (simp add: c3(1) del: alter.simps split: option.split)
  also have "\<dots> = (if distinct (map (row_hash sha256) (ct_versions c))
      then Some (change_table ''agent_versions'' (\<lambda>t. t\<lparr>ta_uniques := ta_uniques t @
        [(''uq_agent_versions_content_hash'', [''content_hash''])]\<rparr>) c3) else None)"
    using c3(2-4) assms(3) h by simp
  finally show ?thesis using c3(5) v by simp
qed

section \<open>Properties of the revisions\<close>

text \<open>The revisions build the schema the models declare: upgrading an empty database to the head
  succeeds, and has exactly the tables, columns, types, keys, unique constraints and indexes of
  \<open>models.py\<close>.\<close>

theorem migrations_build_the_models:
  assumes "migrator al view" and "view db = empty_catalog"
  shows "\<exists>db'. upgrade_head al sha256 db = Inr db' \<and> same_schema (view db') declared_models"
  by (rule migrator.upgrade_from_empty [OF assms])

text \<open>C22: The back-fill gives every registered version the hash of its own content and changes nothing
  else of it, whatever the order in which the rows are read; the revision succeeds exactly when no
  two versions have the same hash.\<close>

theorem content_hash_backfill:
  assumes "migrator al view" and "keys_ok (view db)" and "find_table ''agent_versions'' (view db) = Some t"
    and "''content_hash'' \<notin> set (column_names t)"
    and "''uq_agent_versions_content_hash'' \<notin> set (map fst (ta_uniques t))"
  shows "if distinct (map (row_hash sha256) (ct_versions (view db)))
    then \<exists>db'. upgrade_9a1faddf3548 al sha256 db = Inr db' \<and>
      ct_versions (view db') = map (\<lambda>r. r\<lparr>vr_content_hash := Some (row_hash sha256 r)\<rparr>) (ct_versions (view db))
    else \<exists>e. upgrade_9a1faddf3548 al sha256 db = Inl e"
  using hash_revision_result [OF assms(3-5), of sha256]
    implementsD [OF migrator.hash_revision_implements [OF assms(1)] assms(2), of sha256]
  by (auto split: if_splits)

text \<open>Downgrading to the base and upgrading again fails: the downgrades drop the tables and leave the
  four enumeration types, which the first revision creates.\<close>

theorem downgraded_database_cannot_be_upgraded:
  assumes "migrator al view" and "view db = empty_catalog" and "upgrade_head al sha256 db = Inr db1"
  shows "\<exists>db2 e. downgrade_base al sha256 db1 = Inr db2 \<and> ct_tables (view db2) = [] \<and> ct_indexes (view db2) = [] \<and>
    map fst (ct_types (view db2)) = [''runstatus'', ''executionstatus'', ''eventtype'', ''judgelabel''] \<and>
    upgrade_head al sha256 db2 = Inl e"
proof -
  note up = implementsD [OF migrator.upgrade_implements [OF assms(1)], of _ sha256]
  obtain c where c: "spec_all (head_spec sha256) (view db) = Some c" "spec_all base_spec c = Some emptied_catalog"
    using head_of_empty [of sha256] assms(2) by (auto split: option.splits)
  then have "view db1 = c" "keys_ok c" using up(2) [of db c] assms(2,3) by auto
  then obtain db2 where db2: "downgrade_base al sha256 db1 = Inr db2" "view db2 = emptied_catalog"
    using implementsD(2) [OF migrator.downgrade_implements [OF assms(1)], of db1 emptied_catalog] c(2) by auto
  moreover obtain e where "upgrade_head al sha256 db2 = Inl e"
    using up(1) [of db2] head_of_emptied(1) [of sha256] db2(2) by auto
  ultimately show ?thesis using head_of_emptied(2) by (auto simp: emptied_catalog_def empty_catalog_def)
qed

section \<open>A database that is its catalog\<close>

definition failed :: exc where
  "failed = Raise DBAPIError ''statement failed''"

definition catalog_alembic :: "catalog alembic" where
  "catalog_alembic =
     \<lparr>al_op = (\<lambda>x c. case alter x c of None \<Rightarrow> Inl failed | Some c \<Rightarrow> Inr c),
      al_select_versions = (\<lambda>c. Inr (rev (ct_versions c))), al_update_hash = (\<lambda>i h c. Inr (set_hash i h c))\<rparr>"

interpretation catalog_migrator: migrator catalog_alembic "\<lambda>c. c"
  by unfold_locales (auto simp: catalog_alembic_def split: option.split)

definition two_versions :: catalog where
  "two_versions = empty_catalog\<lparr>ct_tables := [hd (map fst declared_models)\<lparr>ta_columns := [col ''id'' Uuid False], ta_uniques := []\<rparr>],
     ct_versions := [\<lparr>vr_id = UUID 1, vr_model = ''m'', vr_system_prompt = ''p'', vr_tool_schema_hash = ''t'', vr_config = [],
         vr_content_hash = None\<rparr>,
       \<lparr>vr_id = UUID 2, vr_model = ''n'', vr_system_prompt = ''p'', vr_tool_schema_hash = ''t'', vr_config = [],
         vr_content_hash = None\<rparr>]\<rparr>"

theorem migrations_build_the_models_witness:
  "\<exists>c. upgrade_head catalog_alembic (\<lambda>s. s) empty_catalog = Inr c \<and> same_schema c declared_models"
  using migrations_build_the_models [OF catalog_migrator.migrator_axioms, of empty_catalog] by blast

theorem downgraded_database_cannot_be_upgraded_witness:
  "\<exists>c1 c2 e. upgrade_head catalog_alembic (\<lambda>s. s) empty_catalog = Inr c1 \<and> downgrade_base catalog_alembic (\<lambda>s. s) c1 = Inr c2 \<and>
    upgrade_head catalog_alembic (\<lambda>s. s) c2 = Inl e"
proof -
  have "is_ok (upgrade_head catalog_alembic (\<lambda>s. s) empty_catalog)" by code_simp
  then obtain c1 where c1: "upgrade_head catalog_alembic (\<lambda>s. s) empty_catalog = Inr c1" by (auto simp: is_ok_iff)
  from downgraded_database_cannot_be_upgraded [OF catalog_migrator.migrator_axioms _ this] show ?thesis using c1 by blast
qed

theorem content_hash_backfill_witness:
  "\<exists>c. upgrade_9a1faddf3548 catalog_alembic (\<lambda>s. s) two_versions = Inr c \<and>
    list_all (\<lambda>r. vr_content_hash r = Some (row_hash (\<lambda>s. s) r)) (ct_versions c)"
proof -
  let ?t = "hd (ct_tables two_versions)"
  have "keys_ok two_versions" "find_table ''agent_versions'' two_versions = Some ?t" "''content_hash'' \<notin> set (column_names ?t)"
    "''uq_agent_versions_content_hash'' \<notin> set (map fst (ta_uniques ?t))"
    "distinct (map (row_hash (\<lambda>s. s)) (ct_versions two_versions))" by code_simp+
  note facts = this
  obtain c where "upgrade_9a1faddf3548 catalog_alembic (\<lambda>s. s) two_versions = Inr c"
      "ct_versions c = map (\<lambda>r. r\<lparr>vr_content_hash := Some (row_hash (\<lambda>s. s) r)\<rparr>) (ct_versions two_versions)"
    using content_hash_backfill [OF catalog_migrator.migrator_axioms facts(1-4), of "\<lambda>s. s"] facts(5) by auto
  then show ?thesis by (simp add: list_all_iff row_hash_def)
qed

end
