(* ===== verification/RunHost.thy ===== *)
theory RunHost
  imports Runner
begin

text \<open>
  What a run takes from its host: the identifiers and durations of its steps, and how long its trace
  gets. The locale \<open>brisk_client\<close> is a client that answers at once, asks for one tool at a time,
  counts no tokens and ignores the configuration; both clients of the source are interpreted.
\<close>

section \<open>Steps\<close>

definition from_host :: "runtime \<Rightarrow> trace \<Rightarrow> bool" where
  "from_host rt t \<longleftrightarrow>
     map step_id (tr_steps t) = map (uuid4 rt) [0..<length (tr_steps t)] \<and>
     map step_no (tr_steps t) = map int [0..<length (tr_steps t)] \<and>
     list_all (\<lambda>s. \<forall>d. step_duration_ms s = Some d \<longrightarrow> d \<in> int ` range (elapsed_ms rt)) (tr_steps t)"

lemma from_host_empty [simp]: "from_host rt (empty_trace eid)"
  by (simp add: from_host_def)

lemma from_host_append:
  assumes "append_step (uuid4 rt) p parent d t = Inr (step, t')" and "from_host rt t"
    and "\<forall>n. d = Some n \<longrightarrow> n \<in> int ` range (elapsed_ms rt)"
  shows "from_host rt t'" and "length (tr_steps t') = length (tr_steps t) + 1"
  using assms by (auto simp: append_step_Inr from_host_def)

lemma from_host_invoke:
  assumes "invoke rt cid svc op args (t, env) = Inr (step, t', env')" and "from_host rt t"
  shows "from_host rt t'" and "length (tr_steps t') = length (tr_steps t) + 2"
proof -
  obtain s1 t1 where a: "append_step (uuid4 rt) (ToolCallPayload cid svc op args) None None t = Inr (s1, t1)"
    using assms(1) by (auto simp: invoke_def invoke_on_def bind_res_eq_Inr)
  obtain p d where b: "append_step (uuid4 rt) p (Some (step_id s1)) (Some (int (elapsed_ms rt d))) t1 = Inr (step, t')"
    using assms(1) a by (auto simp: invoke_def invoke_on_def bind_res_eq_Inr Let_def split: prod.splits sum.splits if_splits)
  have t1: "from_host rt t1" "length (tr_steps t1) = length (tr_steps t) + 1" using from_host_append [OF a assms(2)] by simp_all
  show "from_host rt t'" "length (tr_steps t') = length (tr_steps t) + 2" using from_host_append [OF b t1(1)] t1(2) by auto
qed

lemma from_host_calls:
  "invoke_calls rt calls (t, env, messages) = Inr (t', env', messages') \<Longrightarrow> from_host rt t \<Longrightarrow>
     from_host rt t' \<and> length (tr_steps t') = length (tr_steps t) + 2 * length calls"
proof (induction calls arbitrary: t env messages)
  case (Cons call calls)
  obtain s1 t1 env1 messages1 where i: "invoke rt (tc_call_id call) (tc_service call) (tc_operation call) (tc_arguments call) (t, env) =
        Inr (s1, t1, env1)" "invoke_calls rt calls (t1, env1, messages1) = Inr (t', env', messages')"
    using Cons.prems(1) by (auto simp: bind_res_eq_Inr)
  show ?case using Cons.IH [OF i(2)] from_host_invoke [OF i(1) Cons.prems(2)] by simp
qed simp

section \<open>Brisk clients\<close>

definition brisk_outcome :: "('c \<Rightarrow> bool) \<Rightarrow> model_outcome \<times> 'c \<Rightarrow> bool" where
  "brisk_outcome brisk = (\<lambda>(outcome, c). case outcome of
       Reply r \<Rightarrow> length (mr_tool_calls r) \<le> 1 \<and> mr_input_tokens r = 0 \<and> mr_output_tokens r = 0 \<and> brisk c
     | Transient m \<Rightarrow> False
     | Crash e \<Rightarrow> True)"

locale brisk_client =
  fixes ask :: "'c client" and brisk :: "'c \<Rightarrow> bool"
  assumes brisk_answer: "brisk c \<Longrightarrow> brisk_outcome brisk (ask messages model params c)"
    and params_ignored: "ask messages model params c = ask messages model params' c"
begin

lemma retries_brisk:
  assumes "brisk c" and "complete_with_retries ask rt parent messages version n k c t = (Inr r, c', t')"
  shows "t' = t \<and> length (mr_tool_calls r) \<le> 1 \<and> mr_input_tokens r = 0 \<and> mr_output_tokens r = 0 \<and> brisk c'"
  using assms(2) brisk_answer [OF assms(1), of messages "av_model version" "av_config version"]
  by (subst (asm) complete_with_retries.simps) (auto simp: brisk_outcome_def split: model_outcome.splits prod.splits)

lemma retries_params:
  assumes "av_model version' = av_model version"
  shows "complete_with_retries ask rt parent messages version' n k c t = complete_with_retries ask rt parent messages version n k c t"
proof (induction "nat (n + 1 - k)" arbitrary: k c t rule: less_induct)
  case less
  note step = complete_with_retries.simps [of ask rt parent messages _ n k c t]
  have a: "ask messages (av_model version') (av_config version') c = ask messages (av_model version) (av_config version) c"
    unfolding assms by (rule params_ignored)
  have ih: "complete_with_retries ask rt parent messages version' n (k + 1) c t =
      complete_with_retries ask rt parent messages version n (k + 1) c t" if "\<not> k > n" for c t
    by (rule less) (use that in simp)
  show ?case unfolding step a by (auto simp: ih split: prod.splits model_outcome.splits sum.splits)
qed

lemma iteration_params:
  assumes "av_model version' = av_model version"
  shows "run_iteration ask rt version' n s = run_iteration ask rt version n s"
  by (simp add: run_iteration_def retries_params [OF assms] assms)

lemma loop_params:
  assumes "av_model version' = av_model version"
  shows "run_loop ask rt version' m n k s = run_loop ask rt version m n k s"
  by (induction k arbitrary: s)
    (auto simp: iteration_params [OF assms] intro!: bind_res_cong split: option.splits)

text \<open>The configuration of a version plays no part in its run.\<close>

lemma run_task_params:
  assumes "av_model version' = av_model version" and "av_system_prompt version' = av_system_prompt version"
  shows "run_task ask rt version' task c eid m n = run_task ask rt version task c eid m n"
  by (simp add: run_task_def run_start_def loop_params [OF assms(1)] assms(2))

lemma iteration_host:
  assumes "run_iteration ask rt version n s = Inr (answer, s')" and "brisk (rs_client s)" and "from_host rt (rs_trace s)"
  shows "brisk (rs_client s')" and "from_host rt (rs_trace s')" and "length (tr_steps (rs_trace s')) \<le> length (tr_steps (rs_trace s)) + 4"
    and "rs_input_tokens s' = rs_input_tokens s" and "rs_output_tokens s' = rs_output_tokens s"
proof -
  let ?p = "ModelRequestPayload (rs_messages s) (av_model version) []"
  obtain s1 t1 where s1: "append_step (uuid4 rt) ?p None None (rs_trace s) = Inr (s1, t1)"
    using assms(1) by (auto simp: run_iteration_def bind_res_eq_Inr)
  obtain r c' t2 where r: "complete_with_retries ask rt (step_id s1) (rs_messages s) version n 1 (rs_client s) t1 = (Inr r, c', t2)"
    using assms(1) s1 by (auto simp: run_iteration_def split: prod.splits sum.splits)
  have b: "t2 = t1" "length (mr_tool_calls r) \<le> 1" "mr_input_tokens r = 0" "mr_output_tokens r = 0" "brisk c'"
    using retries_brisk [OF assms(2) r] by simp_all
  obtain q s3 t3 where s3: "append_step (uuid4 rt) q (Some (step_id s1)) None t2 = Inr (s3, t3)"
    and rest: "if mr_tool_calls r = []
      then \<exists>s4 t4. append_step (uuid4 rt) (FinalAnswerPayload (answer_text r)) None None t3 = Inr (s4, t4) \<and>
        rs_trace s' = t4 \<and> rs_client s' = c' \<and> rs_input_tokens s' = rs_input_tokens s \<and> rs_output_tokens s' = rs_output_tokens s
      else \<exists>ms env t4 ms'. invoke_calls rt (mr_tool_calls r) (t3, rs_env s, ms) = Inr (t4, env, ms') \<and>
        rs_trace s' = t4 \<and> rs_client s' = c' \<and> rs_input_tokens s' = rs_input_tokens s \<and> rs_output_tokens s' = rs_output_tokens s"
    using assms(1) s1 r b(3,4) by (auto simp: run_iteration_def bind_res_eq_Inr Let_def split: if_splits) blast
  have t1: "from_host rt t1" "length (tr_steps t1) = length (tr_steps (rs_trace s)) + 1"
    using from_host_append [OF s1 assms(3)] by simp_all
  have t3: "from_host rt t3" "length (tr_steps t3) = length (tr_steps (rs_trace s)) + 2"
    using from_host_append [OF s3] t1 b(1) by simp_all
  have "from_host rt (rs_trace s') \<and> length (tr_steps (rs_trace s')) \<le> length (tr_steps (rs_trace s)) + 4"
  proof (cases "mr_tool_calls r = []")
    case True
    then obtain s4 where "append_step (uuid4 rt) (FinalAnswerPayload (answer_text r)) None None t3 = Inr (s4, rs_trace s')"
      using rest by auto
    from from_host_append [OF this t3(1)] t3(2) show ?thesis by simp
  next
    case False
    then obtain ms env ms' where "invoke_calls rt (mr_tool_calls r) (t3, rs_env s, ms) = Inr (rs_trace s', env, ms')"
      using rest by auto
    from from_host_calls [OF this t3(1)] t3(2) b(2) show ?thesis by simp
  qed
  then show "from_host rt (rs_trace s')" "length (tr_steps (rs_trace s')) \<le> length (tr_steps (rs_trace s)) + 4" by simp_all
  show "brisk (rs_client s')" "rs_input_tokens s' = rs_input_tokens s" "rs_output_tokens s' = rs_output_tokens s"
    using rest b(5) by (auto split: if_splits)
qed

lemma loop_host:
  "run_loop ask rt version m n k s = Inr (answer, exceeded, s') \<Longrightarrow> brisk (rs_client s) \<Longrightarrow> from_host rt (rs_trace s) \<Longrightarrow>
     from_host rt (rs_trace s') \<and> length (tr_steps (rs_trace s')) \<le> length (tr_steps (rs_trace s)) + 4 * k + 1 \<and>
     rs_input_tokens s' = rs_input_tokens s \<and> rs_output_tokens s' = rs_output_tokens s"
proof (induction k arbitrary: s)
  case 0
  obtain st t where "append_step (uuid4 rt) (ErrorPayload ''MaxStepsExceeded''
      (''exceeded '' @ int_text m @ '' steps without a final answer'')) None None (rs_trace s) = Inr (st, t)"
      "s' = s\<lparr>rs_trace := t\<rparr>"
    using "0.prems"(1) by (auto simp: bind_res_eq_Inr)
  with from_host_append [OF this(1) "0.prems"(3)] show ?case by simp
next
  case (Suc k)
  obtain a s1 where s1: "run_iteration ask rt version n s = Inr (a, s1)"
      "case a of Some x \<Rightarrow> s' = s1 | None \<Rightarrow> run_loop ask rt version m n k s1 = Inr (answer, exceeded, s')"
    using Suc.prems(1) by (auto simp: bind_res_eq_Inr split: option.splits)
  note i = iteration_host [OF s1(1) Suc.prems(2,3)]
  show ?case using Suc.IH [of s1] s1(2) i by (cases a) fastforce+
qed

lemma run_task_host:
  assumes "run_task ask rt version task c eid m n = Inr result" and "brisk c"
  shows "from_host rt (rr_trace result)" and "length (tr_steps (rr_trace result)) \<le> 4 * nat m + 1"
    and "rr_input_tokens result = 0" and "rr_output_tokens result = 0" and "rr_latency_ms result = int (run_ms rt)"
proof -
  let ?s = "run_start version task (case eid of None \<Rightarrow> run_uuid rt | Some u \<Rightarrow> u) c"
  obtain answer exceeded s where l: "run_loop ask rt version m n (nat m) ?s = Inr (answer, exceeded, s)"
      and r: "rr_trace result = rs_trace s" "rr_input_tokens result = rs_input_tokens s"
        "rr_output_tokens result = rs_output_tokens s" "rr_latency_ms result = int (run_ms rt)"
    using assms(1) by (auto simp: run_task_def bind_res_eq_Inr Let_def)
  have s: "rs_client ?s = c" "tr_steps (rs_trace ?s) = []" "from_host rt (rs_trace ?s)" "rs_input_tokens ?s = 0" "rs_output_tokens ?s = 0"
    by (simp_all add: run_start_def)
  show "from_host rt (rr_trace result)" "length (tr_steps (rr_trace result)) \<le> 4 * nat m + 1"
      "rr_input_tokens result = 0" "rr_output_tokens result = 0" "rr_latency_ms result = int (run_ms rt)"
    using loop_host [OF l] s r assms(2) by simp_all
qed

end

section \<open>The clients of the source\<close>

interpretation brisk_reference: brisk_client reference_complete "\<lambda>_. True"
  by unfold_locales (simp_all add: reference_complete_def brisk_outcome_def Let_def)

definition brisk_item :: "script_item \<Rightarrow> bool" where
  "brisk_item item = (case item of
       ScriptReply r \<Rightarrow> length (mr_tool_calls r) \<le> 1 \<and> mr_input_tokens r = 0 \<and> mr_output_tokens r = 0
     | ScriptError m \<Rightarrow> False)"

interpretation brisk_scripted: brisk_client scripted_complete "\<lambda>c. list_all brisk_item (sc_script c)"
proof unfold_locales
  fix c :: scripted_client and messages model params
  assume l: "list_all brisk_item (sc_script c)"
  show "brisk_outcome (\<lambda>c. list_all brisk_item (sc_script c)) (scripted_complete messages model params c)"
  proof (cases "sc_calls c < length (sc_script c)")
    case True
    then have "brisk_item (sc_script c ! sc_calls c)" using l by (simp add: list_all_length)
    then show ?thesis using l True by (cases "sc_script c ! sc_calls c") (auto simp: scripted_complete_def brisk_outcome_def brisk_item_def)
  qed (simp add: scripted_complete_def brisk_outcome_def)
qed (simp add: scripted_complete_def)

end
