(* ===== verification/PostgresWorker.thy ===== *)
theory PostgresWorker
  imports PostgresApi Worker RunHost "HOL-Library.Countable"
begin

text \<open>
  The worker as it is deployed, on the Postgres store, against the worker on the in-memory store. The
  locale \<open>store_refinement\<close> is what the clients of \<open>Store\<close> need of two implementations to behave
  alike on both; its facts follow every operation of the worker, from storing one event to the loop.
  It is interpreted on the two stores of the source.
\<close>

section \<open>Two stores that agree\<close>

text \<open>The same exception, or the same result in states in a relation; the states also when it raises.\<close>

definition agree :: "('c \<Rightarrow> 'a \<Rightarrow> bool) \<Rightarrow> (exc, 'x \<times> 'c) res \<Rightarrow> (exc, 'x \<times> 'a) res \<Rightarrow> bool" where
  "agree R r s = (case (r, s) of (Inl e, Inl f) \<Rightarrow> e = f | (Inr (x, c), Inr (y, a)) \<Rightarrow> x = y \<and> R c a | _ \<Rightarrow> False)"

definition agree_at :: "('c \<Rightarrow> 'a \<Rightarrow> bool) \<Rightarrow> (exc, 'x) res \<times> 'c \<Rightarrow> (exc, 'x) res \<times> 'a \<Rightarrow> bool" where
  "agree_at R p q \<longleftrightarrow> fst p = fst q \<and> R (snd p) (snd q)"

lemma agree_Inl [simp]: "agree R (Inl e) s \<longleftrightarrow> s = Inl e"
  by (cases s) (auto simp: agree_def)

lemma agree_Inr [simp]: "agree R (Inr (x, c)) s \<longleftrightarrow> (\<exists>a. s = Inr (x, a) \<and> R c a)"
  by (cases s) (auto simp: agree_def)

lemma agree_mono:
  assumes "agree R r s" and "\<And>x c a. s = Inr (x, a) \<Longrightarrow> R c a \<Longrightarrow> R' c a"
  shows "agree R' r s"
  using assms by (cases r) auto

text \<open>What two implementations leave behind when they agree; the worker on a given store.\<close>

definition alike_after ::
  "('c \<Rightarrow> 'a \<Rightarrow> bool) \<Rightarrow> ('a \<Rightarrow> uuid set) \<Rightarrow> uuid set \<Rightarrow> (exc, 'x) res \<times> 'c \<times> 'm \<Rightarrow> (exc, 'x) res \<times> 'a \<times> 'm \<Rightarrow> bool" where
  "alike_after twin ids used p q \<longleftrightarrow>
     fst p = fst q \<and> snd (snd p) = snd (snd q) \<and> twin (fst (snd p)) (fst (snd q)) \<and> ids (fst (snd q)) \<subseteq> used"

definition state_twin :: "('c \<Rightarrow> 'a \<Rightarrow> bool) \<Rightarrow> ('c, 'q, 'm) worker_state \<Rightarrow> ('a, 'q, 'm) worker_state \<Rightarrow> bool" where
  "state_twin twin cs s \<longleftrightarrow> twin (ws_store cs) (ws_store s) \<and> ws_redis cs = ws_redis s \<and> ws_model cs = ws_model s"

definition worker_on :: "'c store_ops \<Rightarrow> ('a, 'q, 'cl, 'm) worker \<Rightarrow> ('c, 'q, 'cl, 'm) worker" where
  "worker_on ops w =
     \<lparr>wk_ops = ops, wk_redis = wk_redis w, wk_codec = wk_codec w, wk_max_attempts = wk_max_attempts w,
      wk_registry = wk_registry w, wk_consumer = wk_consumer w, wk_block_ms = wk_block_ms w, wk_ask = wk_ask w,
      wk_judging = wk_judging w\<rparr>"

text \<open>Events that can be stored one after the other, and what a host must supply for the events of its runs.\<close>

definition event_fits :: "trace_event_create \<Rightarrow> bool" where
  "event_fits e \<longleftrightarrow> TraceEventCreate e = Inr e \<and> int4 (ev_sequence_no e) \<and> int4_option (ev_duration_ms e)"

definition result_fits :: "task_execution_result \<Rightarrow> bool" where
  "result_fits r \<longleftrightarrow> TaskExecutionResult r = Inr r \<and>
     int4 (res_latency_ms r) \<and> int4 (res_input_tokens r) \<and> int4 (res_output_tokens r)"

definition host_fits :: "runtime \<Rightarrow> uuid set \<Rightarrow> bool" where
  "host_fits rt used \<longleftrightarrow> inj (uuid4 rt) \<and> range (uuid4 rt) \<inter> used = {} \<and>
     (\<forall>n. int4 (int (elapsed_ms rt n))) \<and> int4 (int (run_ms rt))"

definition worlds_fit :: "(nat \<Rightarrow> job_world) \<Rightarrow> nat \<Rightarrow> uuid set \<Rightarrow> bool" where
  "worlds_fit worlds k used \<longleftrightarrow>
     (\<forall>i\<ge>k. host_fits (jw_runtime (worlds i)) used \<and>
       (\<forall>j\<ge>k. i \<noteq> j \<longrightarrow> range (uuid4 (jw_runtime (worlds i))) \<inter> range (uuid4 (jw_runtime (worlds j))) = {}))"

lemma worlds_fit_next:
  assumes "worlds_fit worlds k used" and "used' \<subseteq> used \<union> range (uuid4 (jw_runtime (worlds k)))"
  shows "worlds_fit worlds (Suc k) used'"
  unfolding worlds_fit_def host_fits_def
proof (intro allI impI conjI)
  fix i j assume i: "Suc k \<le> i"
  then have h: "host_fits (jw_runtime (worlds i)) used" "k \<le> i" "k \<noteq> i" using assms(1) by (simp_all add: worlds_fit_def)
  then show "inj (uuid4 (jw_runtime (worlds i)))" "int4 (int (run_ms (jw_runtime (worlds i))))"
    "int4 (int (elapsed_ms (jw_runtime (worlds i)) n))" for n by (simp_all add: host_fits_def)
  have d: "range (uuid4 (jw_runtime (worlds k))) \<inter> range (uuid4 (jw_runtime (worlds i))) = {}"
      "range (uuid4 (jw_runtime (worlds i))) \<inter> used = {}"
    using assms(1) h by (simp_all add: worlds_fit_def host_fits_def)
  have "range (uuid4 (jw_runtime (worlds i))) \<inter> used' \<subseteq>
      range (uuid4 (jw_runtime (worlds i))) \<inter> (used \<union> range (uuid4 (jw_runtime (worlds k))))"
    by (rule Int_mono [OF subset_refl assms(2)])
  also have "\<dots> = {}" using d by (simp only: Int_Un_distrib Un_empty Int_commute simp_thms)
  finally show "range (uuid4 (jw_runtime (worlds i))) \<inter> used' = {}" by simp
  show "Suc k \<le> j \<Longrightarrow> i \<noteq> j \<Longrightarrow> range (uuid4 (jw_runtime (worlds i))) \<inter> range (uuid4 (jw_runtime (worlds j))) = {}"
    using assms(1) h(2) unfolding worlds_fit_def by simp
qed

lemma worlds_fit_later:
  assumes "worlds_fit worlds k used"
  shows "worlds_fit worlds (Suc k) used"
  by (rule worlds_fit_next [OF assms]) blast

section \<open>The events of a run fit\<close>

lemma stored_events:
  assumes "from_host rt t" and "host_fits rt used" and "length (tr_steps t) \<le> 2 ^ 31" and "to_storage t = Inr events"
  shows "list_all event_fits events" and "distinct (map ev_id events)" and "set (map ev_id events) \<inter> used = {}"
    and "set (map ev_id events) \<subseteq> range (uuid4 rt)" and "length events = length (tr_steps t)"
proof -
  have l: "list_all2 (\<lambda>s e. TraceEventCreate (step_to_event s) = Inr e) (tr_steps t) events"
    using assms(4) by (simp add: to_storage_def map_res_Inr_iff)
  then have v: "list_all2 (\<lambda>s e. e = step_to_event s \<and> TraceEventCreate e = Inr e) (tr_steps t) events"
    by (rule list_all2_mono) (auto simp: TraceEventCreate_def validated_Inr)
  then have es: "events = map step_to_event (tr_steps t)" and ok: "list_all (\<lambda>e. TraceEventCreate e = Inr e) events"
    by (auto simp: list_all2_conv_all_nth list_all_length intro!: nth_equalityI)
  have h: "map step_id (tr_steps t) = map (uuid4 rt) [0..<length (tr_steps t)]"
      "map step_no (tr_steps t) = map int [0..<length (tr_steps t)]"
      "list_all (\<lambda>s. \<forall>d. step_duration_ms s = Some d \<longrightarrow> d \<in> int ` range (elapsed_ms rt)) (tr_steps t)"
    using assms(1) by (simp_all add: from_host_def)
  have ids: "map ev_id events = map (uuid4 rt) [0..<length (tr_steps t)]"
    unfolding es by (simp add: step_to_event_def comp_def h(1))
  show "distinct (map ev_id events)" unfolding ids
    using inj_on_subset [of "uuid4 rt" UNIV] assms(2) by (simp add: host_fits_def distinct_map)
  show "set (map ev_id events) \<subseteq> range (uuid4 rt)" unfolding ids by auto
  then show "set (map ev_id events) \<inter> used = {}" using assms(2) unfolding host_fits_def by blast
  show "length events = length (tr_steps t)" by (simp add: es)
  have "event_fits e" if e: "e \<in> set events" for e
  proof -
    obtain s where s: "s \<in> set (tr_steps t)" "e = step_to_event s" using e unfolding es by auto
    have "step_no s \<in> set (map step_no (tr_steps t))" using s(1) by simp
    then have "0 \<le> step_no s" "step_no s < 2 ^ 31" unfolding h(2) using assms(3) by auto
    then have "int4 (ev_sequence_no e)" by (simp add: s(2) step_to_event_def int4_def)
    moreover have "int4_option (ev_duration_ms e)"
      using h(3) s assms(2) by (auto simp: list_all_iff step_to_event_def int4_option_def host_fits_def split: option.split)
    moreover have "TraceEventCreate e = Inr e" using ok e by (simp add: list_all_iff)
    ultimately show ?thesis by (simp add: event_fits_def)
  qed
  then show "list_all event_fits events" by (simp add: list_all_iff)
qed

lemma scored_fits:
  assumes "score_execution task result = Inr (res, score)" and "rr_latency_ms result = int (run_ms rt)"
    and "rr_input_tokens result = 0" and "rr_output_tokens result = 0" and "host_fits rt used"
  shows "result_fits res"
  using assms by (auto simp: result_fits_def score_execution_def Let_def bind_res_eq_Inr TaskExecutionResult_Inr host_fits_def int4_def)

section \<open>The contract\<close>

text \<open>
  \<open>ids\<close> are the identifiers of the events a store holds. \<open>keep\<close> is what the concrete store makes of a
  version (the order of its configuration's keys).
\<close>

locale store_refinement =
  fixes abstract :: "'a store_ops" and concrete :: "'c store_ops"
    and twin :: "'c \<Rightarrow> 'a \<Rightarrow> bool" and ids :: "'a \<Rightarrow> uuid set"
    and keep :: "agent_version \<Rightarrow> agent_version"
  assumes version_kept: "twin c a \<Longrightarrow>
        so_get_agent_version concrete k c = map_sum id keep (so_get_agent_version abstract k a)"
    and keep_run: "av_model (keep v) = av_model v" "av_system_prompt (keep v) = av_system_prompt v"
    and execution_alike: "twin c a \<Longrightarrow> so_get_execution concrete k c = so_get_execution abstract k a"
    and append_alike: "twin c a \<Longrightarrow> event_fits e \<Longrightarrow> ev_id e \<notin> ids a \<Longrightarrow>
        agree (\<lambda>c' a'. twin c' a' \<and> ids a' \<subseteq> insert (ev_id e) (ids a))
          (so_append_trace_event concrete now eid e c) (so_append_trace_event abstract now eid e a)"
    and record_alike: "twin c a \<Longrightarrow> result_fits r \<Longrightarrow>
        agree (\<lambda>c' a'. twin c' a' \<and> ids a' = ids a)
          (so_record_result concrete now eid r c) (so_record_result abstract now eid r a)"
begin

lemma append_events_alike:
  assumes "twin c a" and "list_all event_fits es" and "distinct (map ev_id es)" and "set (map ev_id es) \<inter> ids a = {}"
  shows "agree_at (\<lambda>c' a'. twin c' a' \<and> ids a' \<subseteq> ids a \<union> set (map ev_id es))
    (append_events concrete now k eid es c) (append_events abstract now k eid es a)"
  using assms
proof (induction es arbitrary: c a k)
  case (Cons e es)
  have e: "event_fits e" "ev_id e \<notin> ids a" using Cons.prems(2,4) by auto
  note step = append_alike [OF Cons.prems(1) e, of "now k" eid]
  show ?case
  proof (cases "so_append_trace_event concrete (now k) eid e c")
    case (Inl x)
    then show ?thesis using step Cons.prems(1) by (auto simp: agree_at_def)
  next
    case (Inr y)
    obtain ev c1 where y: "y = (ev, c1)" by (cases y)
    obtain a1 where a1: "so_append_trace_event abstract (now k) eid e a = Inr (ev, a1)" "twin c1 a1" "ids a1 \<subseteq> insert (ev_id e) (ids a)"
      using step Inr y by auto
    have "ev_id ` set es \<inter> insert (ev_id e) (ids a) = {}" using Cons.prems(3,4) by simp
    then have "set (map ev_id es) \<inter> ids a1 = {}" using a1(3) unfolding set_map by blast
    from Cons.IH [OF a1(2) _ _ this, of "k + 1"] Cons.prems(2,3)
    have "agree_at (\<lambda>c' a'. twin c' a' \<and> ids a' \<subseteq> ids a1 \<union> set (map ev_id es))
        (append_events concrete now (k + 1) eid es c1) (append_events abstract now (k + 1) eid es a1)" by simp
    then show ?thesis using Inr y a1(1,3) by (auto simp: agree_at_def)
  qed
qed (simp add: agree_at_def)

lemma reference_run_fits:
  assumes "run_job ask None rt version task eid = Inr result" and "host_fits rt used" and "to_storage (rr_trace result) = Inr events"
  shows "list_all event_fits events" and "distinct (map ev_id events)" and "set (map ev_id events) \<inter> used = {}"
    and "set (map ev_id events) \<subseteq> range (uuid4 rt)"
    and "score_execution task result = Inr (res, score) \<Longrightarrow> result_fits res"
proof -
  have run: "run_task reference_complete rt version task (reference_client_for task) (Some eid) DEFAULT_MAX_STEPS
      DEFAULT_MAX_MODEL_RETRIES = Inr result"
    using assms(1) by (simp add: run_job_def)
  note h = brisk_reference.run_task_host [OF run TrueI]
  have "length (tr_steps (rr_trace result)) \<le> 2 ^ 31" using h(2) by (simp add: DEFAULT_MAX_STEPS_def)
  from stored_events [OF h(1) assms(2) this assms(3)]
  show "list_all event_fits events" "distinct (map ev_id events)" "set (map ev_id events) \<inter> used = {}"
    "set (map ev_id events) \<subseteq> range (uuid4 rt)" by simp_all
  show "score_execution task result = Inr (res, score) \<Longrightarrow> result_fits res"
    by (rule scored_fits [OF _ h(5,3,4) assms(2)])
qed

lemma process_alike:
  assumes "twin c a" and "host_fits (jw_runtime world) (ids a)"
  shows "alike_after twin ids (ids a \<union> range (uuid4 (jw_runtime world)))
    (process_job concrete registry world job ask None None (c, m))
    (process_job abstract registry world job ask None None (a, m))"
proof (cases "map_of registry (job_task_id job)")
  case None
  then show ?thesis using assms(1) by (simp add: process_job_def alike_after_def)
next
  case (Some task)
  let ?rt = "jw_runtime world" and ?eid = "job_execution_id job" and ?now = "jw_now world"
  show ?thesis
  proof (cases "so_get_agent_version abstract (job_agent_version_id job) a")
    case (Inl e)
    then show ?thesis using assms(1) Some version_kept [OF assms(1)] by (simp add: process_job_def alike_after_def)
  next
    case (Inr version)
    have v: "so_get_agent_version concrete (job_agent_version_id job) c = Inr (keep version)"
      using version_kept [OF assms(1)] Inr by simp
    have run: "run_job ask None ?rt (keep version) task ?eid = run_job ask None ?rt version task ?eid"
      by (simp add: run_job_def brisk_reference.run_task_params [OF keep_run])
    let ?run = "bind_res (run_job ask None ?rt version task ?eid) (\<lambda>result.
      bind_res (to_storage (rr_trace result)) (\<lambda>events. Inr (result, events)))"
    show ?thesis
    proof (cases ?run)
      case (Inl e)
      then show ?thesis using assms(1) Some Inr v run by (auto simp: process_job_def alike_after_def)
    next
      case re: (Inr p)
      obtain result events where r: "run_job ask None ?rt version task ?eid = Inr result" "to_storage (rr_trace result) = Inr events"
          "p = (result, events)"
        using re by (auto simp: bind_res_eq_Inr)
      note fits = reference_run_fits [OF r(1) assms(2) r(2)]
      obtain x c1 where c1: "append_events concrete ?now 0 ?eid events c = (x, c1)" by fastforce
      obtain a1 where a1: "append_events abstract ?now 0 ?eid events a = (x, a1)" "twin c1 a1" "ids a1 \<subseteq> ids a \<union> range (uuid4 ?rt)"
        using append_events_alike [OF assms(1) fits(1-3), of ?now 0 ?eid] c1 fits(4)
        by (cases "append_events abstract ?now 0 ?eid events a") (auto simp: agree_at_def, blast)
      show ?thesis
      proof (cases x)
        case (Inl e)
        then show ?thesis using Some Inr v run r c1 a1 by (simp add: process_job_def alike_after_def)
      next
        case ok: (Inr u)
        show ?thesis
        proof (cases "score_execution task result")
          case (Inl e)
          then show ?thesis using Some Inr v run r c1 a1 ok by (simp add: process_job_def alike_after_def)
        next
          case sc: (Inr s)
          obtain res score where s: "s = (res, score)" by (cases s)
          have "result_fits res" using fits(5) sc s by blast
          note rec = record_alike [OF a1(2) this, of "?now (length events)" ?eid]
          show ?thesis
          proof (cases "so_record_result concrete (?now (length events)) ?eid res c1")
            case (Inl e)
            then show ?thesis using Some \<open>so_get_agent_version abstract _ a = Inr version\<close> v run r c1 a1 ok sc s rec
              by (simp add: process_job_def alike_after_def)
          next
            case stored: (Inr y)
            obtain z c2 where y: "y = (z, c2)" by (cases y)
            obtain a2 where a2: "so_record_result abstract (?now (length events)) ?eid res a1 = Inr (z, a2)" "twin c2 a2"
                "ids a2 \<subseteq> ids a \<union> range (uuid4 ?rt)"
              using rec stored y a1(3) by auto
            then show ?thesis using Some Inr v run r c1 a1(1) ok sc s stored y
              by (simp add: process_job_def alike_after_def judge_result_def)
          qed
        qed
      qed
    qed
  qed
qed

lemma claim_alike:
  assumes "wk_ops w = abstract" and "wk_judging w = None" and "state_twin twin cs s"
    and "host_fits (jw_runtime world) (ids (ws_store s))" and "claim_and_process_one w world s = (r, s')"
  shows "\<exists>cs'. claim_and_process_one (worker_on concrete w) world cs = (r, cs') \<and> state_twin twin cs' s' \<and>
    ids (ws_store s') \<subseteq> ids (ws_store s) \<union> range (uuid4 (jw_runtime world))"
proof -
  have st: "twin (ws_store cs) (ws_store s)" "ws_redis cs = ws_redis s" "ws_model cs = ws_model s"
    using assms(3) by (simp_all add: state_twin_def)
  obtain x q where c: "claim (wk_redis w) (wk_codec w) (wk_consumer w) (wk_block_ms w) (ws_redis s) = (x, q)" by fastforce
  show ?thesis
  proof (cases "\<exists>i job. x = Inr (Some (i, job))")
    case True
    then obtain i job where x: "x = Inr (Some (i, job))" by blast
    obtain y a1 m1 where y: "process_job abstract (wk_registry w) world job (wk_ask w) None None (ws_store s, ws_model s) = (y, a1, m1)"
      by (metis prod_cases3)
    obtain c1 where c1: "process_job concrete (wk_registry w) world job (wk_ask w) None None (ws_store cs, ws_model cs) = (y, c1, m1)"
        "twin c1 a1" "ids a1 \<subseteq> ids (ws_store s) \<union> range (uuid4 (jw_runtime world))"
      using process_alike [OF st(1) assms(4), of "wk_registry w" job "wk_ask w" "ws_model s"] y st(3)
      by (cases "process_job concrete (wk_registry w) world job (wk_ask w) None None (ws_store cs, ws_model cs)")
        (auto simp: alike_after_def)
    show ?thesis
      using assms(1,2,5) c x y c1 st
      by (auto simp: claim_and_process_one_def worker_on_def state_twin_def split: sum.splits prod.splits)
  next
    case False
    then have "x = Inr None \<or> (\<exists>e. x = Inl e)" by (metis not_None_eq surj_pair sum.exhaust)
    then show ?thesis using assms(5) c st
      by (auto simp: claim_and_process_one_def worker_on_def state_twin_def)
  qed
qed

lemma loop_alike:
  assumes "wk_ops w = abstract" and "wk_judging w = None" and "run_worker_loop w worlds stop_after n s = Some (r, s')"
    and "worlds_fit worlds n (ids (ws_store s))" and "state_twin twin cs s"
  shows "\<exists>cs'. run_worker_loop (worker_on concrete w) worlds stop_after n cs = Some (r, cs') \<and> state_twin twin cs' s'"
proof -
  let ?Q = "\<lambda>w worlds stop_after n s rs. wk_ops w = abstract \<longrightarrow> wk_judging w = None \<longrightarrow>
    worlds_fit worlds n (ids (ws_store s)) \<longrightarrow> (\<forall>cs. state_twin twin cs s \<longrightarrow>
      (\<exists>cs'. run_worker_loop (worker_on concrete w) worlds stop_after n cs = Some (fst rs, cs') \<and> state_twin twin cs' (snd rs)))"
  have "?Q w worlds stop_after n s (r, s')"
  proof (rule run_worker_loop.raw_induct [where P = ?Q, OF _ assms(3)])
    fix loop :: "('a, 'q, 'cl, 'm) worker \<Rightarrow> (nat \<Rightarrow> job_world) \<Rightarrow> nat option \<Rightarrow> nat \<Rightarrow> ('a, 'q, 'm) worker_state
        \<Rightarrow> ((exc, nat) res \<times> ('a, 'q, 'm) worker_state) option"
      and w worlds stop_after n s rs
    assume IH: "\<And>w worlds stop_after n s rs. loop w worlds stop_after n s = Some rs \<Longrightarrow> ?Q w worlds stop_after n s rs"
      and body: "(if \<not> (case stop_after of None \<Rightarrow> True | Some n' \<Rightarrow> n < n') then Some (Inr n, s)
        else case claim_and_process_one w (worlds n) s of
            (Inl e, st) \<Rightarrow> Some (Inl e, st)
          | (Inr did_work, st) \<Rightarrow> if did_work then loop w worlds stop_after (n + 1) st else Some (Inr n, st)) = Some rs"
    show "?Q w worlds stop_after n s rs"
    proof (intro impI allI)
      fix cs
      assume w: "wk_ops w = abstract" "wk_judging w = None" and fit: "worlds_fit worlds n (ids (ws_store s))" and tw: "state_twin twin cs s"
      show "\<exists>cs'. run_worker_loop (worker_on concrete w) worlds stop_after n cs = Some (fst rs, cs') \<and> state_twin twin cs' (snd rs)"
      proof (cases "case stop_after of None \<Rightarrow> True | Some m \<Rightarrow> n < m")
        case False
        then show ?thesis using body tw by (subst run_worker_loop.simps) auto
      next
        case True
        have host: "host_fits (jw_runtime (worlds n)) (ids (ws_store s))" using fit by (simp add: worlds_fit_def)
        obtain x s1 where x: "claim_and_process_one w (worlds n) s = (x, s1)" by fastforce
        obtain cs1 where cs1: "claim_and_process_one (worker_on concrete w) (worlds n) cs = (x, cs1)" "state_twin twin cs1 s1"
            "ids (ws_store s1) \<subseteq> ids (ws_store s) \<union> range (uuid4 (jw_runtime (worlds n)))"
          using claim_alike [OF w tw host x] by blast
        have fit1: "worlds_fit worlds (n + 1) (ids (ws_store s1))" using worlds_fit_next [OF fit cs1(3)] by simp
        show ?thesis
        proof (cases "x = Inr True")
          case did: True
          have "loop w worlds stop_after (n + 1) s1 = Some rs" using body True x did by simp
          from IH [OF this] w fit1 cs1(2) obtain cs'
            where "run_worker_loop (worker_on concrete w) worlds stop_after (n + 1) cs1 = Some (fst rs, cs')" "state_twin twin cs' (snd rs)" by blast
          then show ?thesis using True cs1(1) did by (subst run_worker_loop.simps) simp
        next
          case False
          then have "(\<exists>e. x = Inl e \<and> rs = (Inl e, s1)) \<or> x = Inr False \<and> rs = (Inr n, s1)"
            using body True x by (cases x) auto
          then show ?thesis using True cs1 by (subst run_worker_loop.simps) auto
        qed
      qed
    qed
  qed
  then show ?thesis using assms(1,2,4,5) by simp
qed

end

section \<open>The two stores of the source\<close>

definition stored_event_ids :: "platform_store \<Rightarrow> uuid set" where
  "stored_event_ids st = (\<Union>x. ev_id ` set (ps_events st x))"

definition postgres_twin :: "pg \<Rightarrow> (string \<Rightarrow> string) \<Rightarrow> database \<Rightarrow> platform_store \<Rightarrow> bool" where
  "postgres_twin pg sha256 db st \<longleftrightarrow> commits_ok pg \<and> scans_ok pg \<and> mirrors pg db st \<and> store_ok sha256 st"

lemma twin_reads:
  assumes "postgres_twin pg sha256 db st"
  shows "reads_alike pg db st"
  using mirrors_reads assms unfolding postgres_twin_def by blast

text \<open>A request that is admissible keeps the two stores together, and gets the same response.\<close>

lemma twin_request:
  assumes "postgres_twin pg sha256 db st" and "admissible request st"
    and "serve_platform sha256 request st = (x, st')" and "serve_postgres pg sha256 request db = (y, db')"
  shows "same_response pg x y" and "postgres_twin pg sha256 db' st'"
  using serve_alike [of pg sha256 st db request] serve_platform_ok [of sha256 st request] assms
  by (simp_all add: postgres_twin_def alike_def)

text \<open>An admissible request has the same effect on both; its responses are the same unless it registers a version.\<close>

lemma request_alike:
  assumes "postgres_twin pg sha256 db st" and "admissible request st"
    and "serve_platform sha256 request st = lift_res wrap st r" and "serve_postgres pg sha256 request db = wrap_res wrap y"
    and "\<And>u v. same_response pg (Inr (wrap u)) (Inr (wrap v)) \<Longrightarrow> f u = f v"
  shows "agree (postgres_twin pg sha256) (map_sum id (map_prod f id) (stepped y)) (map_sum id (map_prod f id) r)"
proof -
  obtain x st' where x: "lift_res wrap st r = (x, st')" by fastforce
  obtain z db' where z: "y = (z, db')" by (cases y)
  have same: "same_response pg x (map_sum id wrap z)" "postgres_twin pg sha256 db' st'"
    using twin_request [OF assms(1,2)] assms(3,4) x z by (simp_all add: wrap_res_def)
  have err: "same_response pg (Inl e) s \<longleftrightarrow> s = Inl e" for e s by auto
  have ok: "\<not> same_response pg (Inr q) (Inl e)" for e q by (cases q) simp_all
  show ?thesis
  proof (cases r)
    case (Inl e)
    then have "x = Inl e" using x by (simp add: lift_res_def)
    then have "z = Inl e" using same(1) by (cases z) (simp_all add: err)
    then show ?thesis using Inl z by (simp add: stepped_def)
  next
    case (Inr p)
    then have p: "x = Inr (wrap (fst p))" "st' = snd p" using x by (auto simp: lift_res_def split: prod.splits)
    then obtain v where v: "z = Inr v" using same(1) by (cases z) (simp_all add: ok)
    have "f (fst p) = f v" using same(1) unfolding p(1) v by (intro assms(5)) simp
    then show ?thesis using Inr z v p(2) same(2) by (cases p) (simp add: stepped_def)
  qed
qed

lemma same_version:
  assumes "same_response pg (Inr (Version v)) (Inr (Version w))"
  shows "(av_id v, av_model v, av_system_prompt v) = (av_id w, av_model w, av_system_prompt w)"
  using assms by (auto simp: stored_version_def)

lemma appended_ids:
  assumes "append_trace_event now eid e st = Inr (ev, st')"
  shows "stored_event_ids st' \<subseteq> insert (ev_id e) (stored_event_ids st)"
proof -
  have "set (ps_events st' x) \<subseteq> insert ev (set (ps_events st x))" for x
    using assms by (auto simp: append_trace_event_Inr)
  moreover have "ev_id ev = ev_id e" using assms by (auto simp: append_trace_event_Inr)
  ultimately show ?thesis unfolding stored_event_ids_def by blast
qed

interpretation postgres_platform: store_refinement platform_ops "postgres_ops pg" "postgres_twin pg sha256" stored_event_ids
    "stored_version pg" for pg sha256
proof unfold_locales
  fix db st k
  assume tw: "postgres_twin pg sha256 db st"
  then show "so_get_agent_version (postgres_ops pg) k db = map_sum id (stored_version pg) (so_get_agent_version platform_ops k st)"
    "so_get_execution (postgres_ops pg) k db = so_get_execution platform_ops k st"
    using twin_reads [OF tw] by (simp_all add: reads_alike_def postgres_ops_def platform_ops_def)
next
  fix v
  show "av_model (stored_version pg v) = av_model v" "av_system_prompt (stored_version pg v) = av_system_prompt v"
    by (simp_all add: stored_version_def)
next
  fix db st
  assume tw: "postgres_twin pg sha256 db st"
  note same = request_alike [where f = id, unfolded map_prod.id sum.map_id id_apply, OF tw]
  show "agree (\<lambda>c' a'. postgres_twin pg sha256 c' a' \<and> stored_event_ids a' \<subseteq> insert (ev_id e) (stored_event_ids st))
      (so_append_trace_event (postgres_ops pg) now eid e db) (so_append_trace_event platform_ops now eid e st)"
    if e: "event_fits e" "ev_id e \<notin> stored_event_ids st" for e now eid
  proof -
    have "admissible (AppendEvent now eid e) st" using e by (auto simp: event_fits_def stored_event_ids_def)
    from same [OF this serve_platform.simps(5) serve_postgres.simps(5)]
    show ?thesis unfolding platform_ops_def postgres_ops_def store_ops.simps
      by (rule agree_mono) (use appended_ids in \<open>auto simp: platform_ops_def\<close>)
  qed
  show "agree (\<lambda>c' a'. postgres_twin pg sha256 c' a' \<and> stored_event_ids a' = stored_event_ids st)
      (so_record_result (postgres_ops pg) now eid r db) (so_record_result platform_ops now eid r st)"
    if r: "result_fits r" for r now eid
  proof -
    have "admissible (RecordResult now eid r) st" using r by (simp add: result_fits_def)
    from same [OF this serve_platform.simps(4) serve_postgres.simps(4)]
    show ?thesis unfolding platform_ops_def postgres_ops_def store_ops.simps
      by (rule agree_mono) (auto simp: record_result_Inr stored_event_ids_def)
  qed
qed

section \<open>The deployed worker\<close>

lemma kept_events_stored:
  "map (stored_trace_event pg) (kept_events (\<lambda>p. p) eid now k es) = kept_events (pg_jsonb pg) eid now k es"
  by (induction es arbitrary: k) (simp_all add: kept_event_def stored_trace_event_def stored_event_def trace_event_create.defs)

lemma fresh_job_on_postgres:
  assumes "postgres_twin pg sha256 db st" and "fresh_job (postgres_ops pg) registry db job"
  shows "fresh_job platform_ops registry st job"
proof -
  note r = twin_reads [OF assms(1), unfolded reads_alike_def]
  obtain task v x where f: "map_of registry (job_task_id job) = Some task" "runnable task"
      "so_get_agent_version (postgres_ops pg) (job_agent_version_id job) db = Inr v"
      "so_get_execution (postgres_ops pg) (job_execution_id job) db = Inr x" "\<not> terminal_status (ex_status x)"
      "so_get_trace (postgres_ops pg) (job_execution_id job) db = Inr []"
    using assms(2) unfolding fresh_job_def by blast
  obtain version where "get_agent_version (job_agent_version_id job) st = Inr version"
    using f(3) r by (cases "get_agent_version (job_agent_version_id job) st") (auto simp: postgres_ops_def)
  moreover have "get_execution (job_execution_id job) st = Inr x" using f(4) r by (simp add: postgres_ops_def)
  moreover have "get_trace (job_execution_id job) st = Inr []"
    using f(6) r by (cases "get_trace (job_execution_id job) st") (auto simp: postgres_ops_def)
  ultimately show ?thesis using f(1,2,5) by (auto simp: fresh_job_def platform_ops_def)
qed

lemma done_job_on_postgres:
  assumes "postgres_twin pg sha256 db st" and "postgres_twin pg sha256 db' st'"
    and "done_job platform_ops (\<lambda>p. p) registry ask world st st' job"
  shows "done_job (postgres_ops pg) (pg_jsonb pg) registry ask world db db' job"
proof -
  have r: "so_get_agent_version (postgres_ops pg) k db = map_sum id (stored_version pg) (so_get_agent_version platform_ops k st)"
    "so_get_execution (postgres_ops pg) k db = so_get_execution platform_ops k st" for k
    using twin_reads [OF assms(1)] by (simp_all add: reads_alike_def postgres_ops_def platform_ops_def)
  have r': "so_get_execution (postgres_ops pg) k db' = so_get_execution platform_ops k st'"
    "so_get_trace (postgres_ops pg) k db' = map_sum id (map (stored_trace_event pg)) (so_get_trace platform_ops k st')" for k
    using twin_reads [OF assms(2)] by (simp_all add: reads_alike_def postgres_ops_def platform_ops_def)
  have run: "run_job ask None rt (stored_version pg v) task eid = run_job ask None rt v task eid" for rt v task eid
    
    by (simp add: run_job_def brisk_reference.run_task_params [OF postgres_platform.keep_run])
  obtain task version x result res where d: "map_of registry (job_task_id job) = Some task"
      "so_get_agent_version platform_ops (job_agent_version_id job) st = Inr version"
      "so_get_execution platform_ops (job_execution_id job) st = Inr x"
      "run_job ask None (jw_runtime world) version task (job_execution_id job) = Inr result"
      "score_execution task result = Inr (res, score_run task result)"
      "so_get_trace platform_ops (job_execution_id job) st' =
         Inr (kept_events (\<lambda>p. p) (job_execution_id job) (jw_now world) 0 (map step_to_event (tr_steps (rr_trace result))))"
      "so_get_execution platform_ops (job_execution_id job) st' =
         Inr (finalized (jw_now world (length (tr_steps (rr_trace result)))) res x)"
    using assms(3) unfolding done_job_def by blast
  show ?thesis unfolding done_job_def
    by (intro exI [of _ task] exI [of _ "stored_version pg version"] exI [of _ x] exI [of _ result] exI [of _ res])
      (simp add: d r r' run kept_events_stored)
qed

text \<open>C29: The worker on the Postgres store refines the worker on the in-memory store: whatever the Redis server
  does and whatever the limit on the number of jobs, if the loop returns on the one it returns on the
  other with the same count or exception, the same queue and the same rows, up to key order in JSON
  columns; it suffices that every run draws identifiers of its own and stays within 32 bits of
  milliseconds.\<close>

theorem worker_on_postgres_alike:
  assumes "commits_ok pg" and "scans_ok pg" and "wk_ops w = platform_ops" and "wk_judging w = None"
    and "store_ok sha256 (ws_store st)" and "mirrors pg (ws_store db) (ws_store st)"
    and "ws_redis db = ws_redis st" and "ws_model db = ws_model st"
    and "worlds_fit worlds n (stored_event_ids (ws_store st))"
    and "run_worker_loop w worlds stop_after n st = Some (r, st')"
  shows "\<exists>db'. run_worker_loop (worker_on (postgres_ops pg) w) worlds stop_after n db = Some (r, db') \<and>
    mirrors pg (ws_store db') (ws_store st') \<and> reads_alike pg (ws_store db') (ws_store st') \<and>
    ws_redis db' = ws_redis st' \<and> ws_model db' = ws_model st'"
proof -
  have "state_twin (postgres_twin pg sha256) db st" using assms(1,2,5-8) by (simp add: state_twin_def postgres_twin_def)
  from postgres_platform.loop_alike [OF assms(3,4,10,9) this] show ?thesis
    using twin_reads unfolding state_twin_def postgres_twin_def by blast
qed

section \<open>Examples\<close>

text \<open>A database that holds the sample store, and a host whose runs draw identifiers of their own.\<close>

definition job_database :: database where
  "job_database =
     \<lparr>db_versions = map (stored_version reversing_pg) (values_of (ps_agent_versions job_store)),
      db_runs = values_of (ps_runs job_store), db_executions = values_of (ps_executions job_store), db_events = [],
      db_verdicts = []\<rparr>"

lemma job_database_mirrors: "mirrors reversing_pg job_database job_store"
proof -
  have "rows_valid job_store"
    by (simp add: rows_valid_def job_store_def AgentVersionCreate_def TaskExecutionCreate_def validated_def length_in_def
        sample_version_create_def agent_version_create.defs)
  moreover have "ps_events job_store = (\<lambda>_. [])" "ps_verdicts job_store = (\<lambda>_. [])" by (simp_all add: job_store_def)
  ultimately show ?thesis by (simp add: mirrors_def job_database_def)
qed

definition own_worlds :: "nat \<Rightarrow> job_world" where
  "own_worlds k = sample_world\<lparr>jw_runtime := sample_runtime\<lparr>uuid4 := (\<lambda>n. UUID (prod_encode (k, n)))\<rparr>\<rparr>"

lemma own_worlds_fit: "worlds_fit own_worlds 0 (stored_event_ids job_store)"
proof -
  have "stored_event_ids job_store = {}" by (simp add: stored_event_ids_def job_store_def)
  moreover have "int4 3" "int4 12" by (simp_all add: int4_def)
  ultimately show ?thesis
    by (auto simp: worlds_fit_def host_fits_def own_worlds_def sample_world_def sample_runtime_def inj_def)
qed

lemma reversing_scans: "scans_ok reversing_pg"
  by (simp add: scans_ok_def reversing_pg_def)

definition database_job :: "(database, memory, unit) worker_state" where
  "database_job = \<lparr>ws_store = job_database, ws_redis = ws_redis one_job, ws_model = ()\<rparr>"

theorem worker_on_postgres_alike_witness:
  "\<exists>n st' db'. run_worker_loop sample_worker own_worlds None 0 one_job = Some (Inr n, st') \<and>
     run_worker_loop (worker_on (postgres_ops reversing_pg) sample_worker) own_worlds None 0 database_job = Some (Inr n, db') \<and>
     mirrors reversing_pg (ws_store db') (ws_store st')"
proof -
  obtain n st' where run: "run_worker_loop sample_worker own_worlds None 0 one_job = Some (Inr n, st')"
    using loop_drains [OF one_job_stands(1,2), of one_job "start_of one_waiting one_job" own_worlds] one_job_stands(3) by auto
  have "wk_ops sample_worker = platform_ops" "wk_judging sample_worker = None" by (simp_all add: sample_worker_def)
  moreover have "store_ok (\<lambda>s. s) (ws_store one_job)" "mirrors reversing_pg (ws_store database_job) (ws_store one_job)"
      "ws_redis database_job = ws_redis one_job" "ws_model database_job = ws_model one_job"
      "worlds_fit own_worlds 0 (stored_event_ids (ws_store one_job))"
    using job_store_ok job_database_mirrors own_worlds_fit by (simp_all add: one_job_def database_job_def)
  ultimately show ?thesis using worker_on_postgres_alike [OF reversing_commits reversing_scans _ _ _ _ _ _ _ run] run by blast
qed

end
