(* ===== verification/PostgresDemo.thy ===== *)
theory PostgresDemo
  imports PostgresWorker Demo
begin

text \<open>
  \<open>scripts/seed_demo_data.py\<close>: the demo scenario on the Postgres store, for the API of the compose stack.
  The locale \<open>seed_refinement\<close> extends the contract of \<open>PostgresWorker\<close> by what the scenario creates,
  and carries the scenario from one store to the other.
\<close>

section \<open>The store the script creates\<close>

definition postgres_seed :: "pg \<Rightarrow> (string \<Rightarrow> string) \<Rightarrow> database seed_store" where
  "postgres_seed pg sha256 =
     \<lparr>ss_ops = postgres_ops pg,
      ss_create_agent_version = (\<lambda>new_id now p db. stepped (pg_create_agent_version pg sha256 new_id now (\<lambda>db. db) p db)),
      ss_create_run = (\<lambda>new_id now p db. stepped (pg_create_run pg new_id now p db)),
      ss_create_execution = (\<lambda>new_id now run p db. stepped (pg_create_execution pg new_id now run p db))\<rparr>"

definition seed_demo_data :: "pg \<Rightarrow> (string \<Rightarrow> string) \<Rightarrow> demo_host \<Rightarrow> database \<Rightarrow> (exc, uuid \<times> uuid) res \<times> database" where
  "seed_demo_data pg sha256 host db = seed (postgres_seed pg sha256) host db"

section \<open>Steps of a script\<close>

text \<open>Two stores in a relation, with the identifiers of the one below a bound.\<close>

definition inside :: "('c \<Rightarrow> 'a \<Rightarrow> bool) \<Rightarrow> ('a \<Rightarrow> uuid set) \<Rightarrow> uuid set \<Rightarrow> 'c \<Rightarrow> 'a \<Rightarrow> bool" where
  "inside twin ids bound c a \<longleftrightarrow> twin c a \<and> ids a \<subseteq> bound"

lemma inside_mono: "inside twin ids b c a \<Longrightarrow> b \<subseteq> b' \<Longrightarrow> inside twin ids b' c a"
  by (auto simp: inside_def)

lemma awaited_alike:
  assumes "agree R (f c) (g a)" and "R' c a" and "\<And>c a. R c a \<Longrightarrow> R' c a"
  shows "agree_at R' (awaited f c) (awaited g a)"
  using assms by (cases "f c") (auto simp: awaited_def agree_at_def)

lemma and_then_alike:
  assumes "agree_at R p q" and "\<And>x c a. fst q = Inr x \<Longrightarrow> R c a \<Longrightarrow> agree_at S (f x c) (g x a)"
    and "\<And>c a. R c a \<Longrightarrow> S c a"
  shows "agree_at S (and_then p f) (and_then q g)"
  using assms by (cases p; cases q; cases "fst q") (auto simp: and_then_def agree_at_def)

lemma awaited_then_alike:
  assumes "agree R (f c) (g a)" and "R' c a" and "\<And>c a. R c a \<Longrightarrow> R' c a"
    and "\<And>x c a. R' c a \<Longrightarrow> agree_at S (F x c) (G x a)" and "\<And>c a. R' c a \<Longrightarrow> S c a"
  shows "agree_at S (and_then (awaited f c) F) (and_then (awaited g a) G)"
  by (rule and_then_alike [where R = R']) (use assms awaited_alike [of R f c g a R'] in auto)

section \<open>The identifiers of a script\<close>

text \<open>What has been drawn before the run number \<open>n\<close>, and hosts whose draws are apart.\<close>

definition drawn :: "demo_host \<Rightarrow> uuid set \<Rightarrow> nat \<Rightarrow> uuid set" where
  "drawn host used n = used \<union> (\<Union>i<n. range (dh_id host i) \<union> range (uuid4 (dh_runtime host i)))"

definition demo_host_fits :: "demo_host \<Rightarrow> uuid set \<Rightarrow> bool" where
  "demo_host_fits host used \<longleftrightarrow>
     (\<forall>n. inj (dh_id host n) \<and> range (dh_id host n) \<inter> drawn host used n = {} \<and>
        host_fits (dh_runtime host n) (drawn host used n \<union> range (dh_id host n)))"

lemma drawn_Suc: "drawn host used (Suc n) = drawn host used n \<union> range (dh_id host n) \<union> range (uuid4 (dh_runtime host n))"
  by (simp add: drawn_def lessThan_Suc Un_ac)

lemma demo_brisk:
  assumes "task \<in> set TASKS"
  shows "list_all brisk_item (sc_script (correct_model_for task))"
    and "list_all brisk_item (sc_script (if task = CUSTOMER_REFUND_WITHIN_POLICY then regressed_model_for_refund_within_policy
      else correct_model_for task))"
proof -
  have "list_all (\<lambda>task. list_all brisk_item (sc_script (correct_model_for task))) TASKS" by code_simp
  then show c: "list_all brisk_item (sc_script (correct_model_for task))" using assms by (simp add: list_all_iff)
  have "list_all brisk_item (sc_script regressed_model_for_refund_within_policy)" by code_simp
  then show "list_all brisk_item (sc_script (if task = CUSTOMER_REFUND_WITHIN_POLICY
      then regressed_model_for_refund_within_policy else correct_model_for task))" using c by simp
qed

section \<open>The contract\<close>

definition version_seen :: "(exc, agent_version \<times> 's) res \<Rightarrow> (exc, (uuid \<times> string \<times> string) \<times> 's) res" where
  "version_seen r = map_sum id (map_prod (\<lambda>v. (av_id v, av_model v, av_system_prompt v)) id) r"

locale seed_refinement = store_refinement "ss_ops abstract" "ss_ops concrete" twin ids keep
  for abstract :: "'a seed_store" and concrete :: "'c seed_store" and twin :: "'c \<Rightarrow> 'a \<Rightarrow> bool"
    and ids :: "'a \<Rightarrow> uuid set" and keep :: "agent_version \<Rightarrow> agent_version" +
  assumes version_alike: "twin c a \<Longrightarrow> AgentVersionCreate p = Inr p \<Longrightarrow> u \<notin> ids a \<Longrightarrow>
        agree (inside twin ids (insert u (ids a)))
          (version_seen (ss_create_agent_version concrete u now p c)) (version_seen (ss_create_agent_version abstract u now p a))"
    and run_alike: "twin c a \<Longrightarrow> EvaluationRunCreate r = Inr r \<Longrightarrow> int4 (run_seed r) \<Longrightarrow> u \<notin> ids a \<Longrightarrow>
        agree (inside twin ids (insert u (ids a))) (ss_create_run concrete u now r c) (ss_create_run abstract u now r a)"
    and new_execution_alike: "twin c a \<Longrightarrow> TaskExecutionCreate e = Inr e \<Longrightarrow> int4 (ex_task_seed e) \<Longrightarrow> u \<notin> ids a \<Longrightarrow>
        agree (inside twin ids (insert u (ids a)))
          (ss_create_execution concrete u now run e c) (ss_create_execution abstract u now run e a)"
    and verdict_alike: "twin c a \<Longrightarrow> JudgeVerdictCreate v = Inr v \<Longrightarrow> u \<notin> ids a \<Longrightarrow>
        agree (inside twin ids (insert u (ids a)))
          (so_append_judge_verdict (ss_ops concrete) u now eid v c) (so_append_judge_verdict (ss_ops abstract) u now eid v a)"
begin

lemma verdicts_alike:
  assumes "inside twin ids b c a" and "list_all (\<lambda>v. JudgeVerdictCreate v = Inr v) vs" and "inj new"
    and "\<forall>j\<ge>k. new j \<notin> b"
  shows "agree_at (inside twin ids (b \<union> range new))
    (record_verdicts (ss_ops concrete) new now k eid vs c) (record_verdicts (ss_ops abstract) new now k eid vs a)"
  using assms
proof (induction vs arbitrary: c a k b)
  case Nil
  then show ?case by (auto simp: agree_at_def intro: inside_mono)
next
  case (Cons v vs)
  have tw: "twin c a" "ids a \<subseteq> b" using Cons.prems(1) by (simp_all add: inside_def)
  have v: "JudgeVerdictCreate v = Inr v" "list_all (\<lambda>v. JudgeVerdictCreate v = Inr v) vs" using Cons.prems(2) by simp_all
  have "new k \<notin> ids a" using Cons.prems(4) tw(2) by blast
  note step = verdict_alike [OF tw(1) v(1) this]
  show ?case unfolding record_verdicts.simps
  proof (rule awaited_then_alike [where R' = "inside twin ids (insert (new k) b)"], rule step)
    show "inside twin ids (insert (new k) b) c a" by (rule inside_mono [OF Cons.prems(1)]) blast
    show "inside twin ids (insert (new k) (ids a)) c' a' \<Longrightarrow> inside twin ids (insert (new k) b) c' a'" for c' a'
      by (erule inside_mono) (use tw(2) in blast)
    show "inside twin ids (insert (new k) b) c' a' \<Longrightarrow> inside twin ids (b \<union> range new) c' a'" for c' a'
      by (erule inside_mono) blast
    fix c' a'
    assume w: "inside twin ids (insert (new k) b) c' a'"
    have "\<forall>j\<ge>k + 1. new j \<notin> insert (new k) b" using Cons.prems(3,4) by (auto dest: injD)
    from Cons.IH [OF w v(2) Cons.prems(3) this] show "agree_at (inside twin ids (b \<union> range new))
        (record_verdicts (ss_ops concrete) new now (k + 1) eid vs c') (record_verdicts (ss_ops abstract) new now (k + 1) eid vs a')"
      by (simp add: insert_absorb)
  qed
qed

text \<open>What follows the creation of the execution: its events, its result, its verdicts.\<close>

lemma evidence_alike:
  assumes run: "run_task scripted_complete rt version task model eid0 DEFAULT_MAX_STEPS DEFAULT_MAX_MODEL_RETRIES = Inr result"
    and brisk: "list_all brisk_item (sc_script model)" and score: "score_execution task result = Inr (res, score)"
    and w: "inside twin ids b c a" and host: "host_fits rt (b \<union> range new)" and new: "inj new" "\<forall>j\<ge>1. new j \<notin> b"
    and verdicts: "list_all (\<lambda>v. JudgeVerdictCreate v = Inr v) verdicts"
  shows "agree_at (inside twin ids (b \<union> range (uuid4 rt) \<union> range new))
    (and_then (to_storage (rr_trace result), c) (\<lambda>events s.
      and_then (append_events (ss_ops concrete) now 1 eid events s) (\<lambda>_ s.
      and_then (awaited (so_record_result (ss_ops concrete) (now (length events + 1)) eid res) s) (\<lambda>_.
        record_verdicts (ss_ops concrete) new (\<lambda>k. now (length events + 1 + k)) 1 eid verdicts))))
    (and_then (to_storage (rr_trace result), a) (\<lambda>events s.
      and_then (append_events (ss_ops abstract) now 1 eid events s) (\<lambda>_ s.
      and_then (awaited (so_record_result (ss_ops abstract) (now (length events + 1)) eid res) s) (\<lambda>_.
        record_verdicts (ss_ops abstract) new (\<lambda>k. now (length events + 1 + k)) 1 eid verdicts))))"
    (is "agree_at ?R ?c ?a")
proof (cases "to_storage (rr_trace result)")
  case (Inl e)
  then show ?thesis using w by (auto simp: and_then_def agree_at_def intro: inside_mono)
next
  case (Inr events)
  note h = brisk_scripted.run_task_host [OF run brisk]
  have "length (tr_steps (rr_trace result)) \<le> 2 ^ 31" using h(2) by (simp add: DEFAULT_MAX_STEPS_def)
  note es = stored_events [OF h(1) host this Inr]
  have fits: "result_fits res" by (rule scored_fits [OF score h(5,3,4) host])
  let ?b = "b \<union> range (uuid4 rt)"
  have tw: "twin c a" "ids a \<subseteq> b" using w by (simp_all add: inside_def)
  have "set (map ev_id events) \<inter> ids a = {}" using es(3) tw(2) by blast
  note stored = append_events_alike [OF tw(1) es(1,2) this, of now 1 eid]
  have step: "agree_at ?R
      (and_then (append_events (ss_ops concrete) now 1 eid events c) (\<lambda>_ s.
      and_then (awaited (so_record_result (ss_ops concrete) (now (length events + 1)) eid res) s) (\<lambda>_.
        record_verdicts (ss_ops concrete) new (\<lambda>k. now (length events + 1 + k)) 1 eid verdicts)))
      (and_then (append_events (ss_ops abstract) now 1 eid events a) (\<lambda>_ s.
      and_then (awaited (so_record_result (ss_ops abstract) (now (length events + 1)) eid res) s) (\<lambda>_.
        record_verdicts (ss_ops abstract) new (\<lambda>k. now (length events + 1 + k)) 1 eid verdicts)))"
  proof (rule and_then_alike [OF stored])
    show "twin c' a' \<and> ids a' \<subseteq> ids a \<union> set (map ev_id events) \<Longrightarrow> ?R c' a'" for c' a'
      using tw(2) es(4) unfolding inside_def by blast
    fix x c' a'
    assume "twin c' a' \<and> ids a' \<subseteq> ids a \<union> set (map ev_id events)"
    then have tw': "twin c' a'" "inside twin ids ?b c' a'" using tw(2) es(4) unfolding inside_def by blast+
    show "agree_at ?R
      (and_then (awaited (so_record_result (ss_ops concrete) (now (length events + 1)) eid res) c') (\<lambda>_.
        record_verdicts (ss_ops concrete) new (\<lambda>k. now (length events + 1 + k)) 1 eid verdicts))
      (and_then (awaited (so_record_result (ss_ops abstract) (now (length events + 1)) eid res) a') (\<lambda>_.
        record_verdicts (ss_ops abstract) new (\<lambda>k. now (length events + 1 + k)) 1 eid verdicts))"
    proof (rule awaited_then_alike [where R' = "inside twin ids ?b"], rule record_alike [OF tw'(1) fits], rule tw'(2))
      show "twin c1 a1 \<and> ids a1 = ids a' \<Longrightarrow> inside twin ids ?b c1 a1" for c1 a1
        using tw'(2) by (simp add: inside_def)
      show "inside twin ids ?b c1 a1 \<Longrightarrow> ?R c1 a1" for c1 a1 by (erule inside_mono) blast
      have fresh: "\<forall>j\<ge>1. new j \<notin> ?b" using new(2) host unfolding host_fits_def by blast
      show "inside twin ids ?b c1 a1 \<Longrightarrow> agree_at ?R
          (record_verdicts (ss_ops concrete) new (\<lambda>k. now (length events + 1 + k)) 1 eid verdicts c1)
          (record_verdicts (ss_ops abstract) new (\<lambda>k. now (length events + 1 + k)) 1 eid verdicts a1)" for c1 a1
        by (rule verdicts_alike [OF _ verdicts new(1) fresh])
    qed
  qed
  then show ?thesis unfolding Inr by (simp add: and_then_def)
qed

lemma run_and_record_alike:
  assumes w: "inside twin ids (drawn host used n) c a" and host: "demo_host_fits host used"
    and brisk: "list_all brisk_item (sc_script model)" and task: "length_in 1 120 (bt_task_id task)"
    and version: "av_model version' = av_model version" "av_system_prompt version' = av_system_prompt version"
    and verdicts: "list_all (\<lambda>v. JudgeVerdictCreate v = Inr v) verdicts"
  shows "agree_at (inside twin ids (drawn host used (Suc n)))
    (run_and_record concrete host n run version' task model verdicts c)
    (run_and_record abstract host n run version task model verdicts a)"
proof -
  let ?rt = "dh_runtime host n" and ?b = "insert (dh_id host n 0) (drawn host used n)" and ?R = "inside twin ids (drawn host used (Suc n))"
  let ?p = "\<lparr>ex_task_id = bt_task_id task, ex_task_seed = 0\<rparr>"
  let ?run = "bind_res (run_task scripted_complete ?rt version task model (Some (run_uuid ?rt)) DEFAULT_MAX_STEPS DEFAULT_MAX_MODEL_RETRIES)
    (\<lambda>result. bind_res (score_execution task result) (\<lambda>(execution_result, _). Inr (result, execution_result)))"
  have h: "inj (dh_id host n)" "range (dh_id host n) \<inter> drawn host used n = {}"
      "host_fits ?rt (drawn host used n \<union> range (dh_id host n))"
    using host by (simp_all add: demo_host_fits_def)
  have b: "?b \<union> range (dh_id host n) = drawn host used n \<union> range (dh_id host n)"
      "?b \<union> range (uuid4 ?rt) \<union> range (dh_id host n) = drawn host used (Suc n)"
    by (auto simp: drawn_Suc)
  have new: "\<forall>j\<ge>1. dh_id host n j \<notin> ?b" using h(1,2) by (auto dest: injD)
  have p: "TaskExecutionCreate ?p = Inr ?p" "int4 (ex_task_seed ?p)"
    using task by (simp_all add: TaskExecutionCreate_def validated_def int4_def)
  have tw: "twin c a" "ids a \<subseteq> drawn host used n" using w by (simp_all add: inside_def)
  have "dh_id host n 0 \<notin> ids a" using h(2) tw(2) by blast
  note created = new_execution_alike [OF tw(1) p this, of "dh_now host n 0" run]
  note same = brisk_scripted.run_task_params [OF version]
  show ?thesis
  proof (cases ?run)
    case (Inl e)
    moreover have "?R c a" by (rule inside_mono [OF w]) (simp add: drawn_Suc, blast)
    ultimately show ?thesis by (simp add: run_and_record_def Let_def same and_then_def agree_at_def)
  next
    case (Inr pair)
    obtain result res score where r: "pair = (result, res)"
        "run_task scripted_complete ?rt version task model (Some (run_uuid ?rt)) DEFAULT_MAX_STEPS DEFAULT_MAX_MODEL_RETRIES = Inr result"
        "score_execution task result = Inr (res, score)"
      using Inr by (auto simp: bind_res_eq_Inr)
    show ?thesis unfolding run_and_record_def Let_def same Inr r(1)
    proof (subst (1 3) and_then_def, simp only: prod.case sum.case, rule awaited_then_alike [where R' = "inside twin ids ?b"], rule created)
      show "inside twin ids ?b c a" by (rule inside_mono [OF w]) blast
      show "inside twin ids (insert (dh_id host n 0) (ids a)) c' a' \<Longrightarrow> inside twin ids ?b c' a'" for c' a'
        by (erule inside_mono) (use tw(2) in blast)
      show "inside twin ids ?b c' a' \<Longrightarrow> ?R c' a'" for c' a' by (erule inside_mono) (simp add: drawn_Suc, blast)
    next
      fix x :: task_execution and c' a'
      assume w': "inside twin ids ?b c' a'"
      from evidence_alike [OF r(2) brisk r(3) w' _ h(1) new verdicts, unfolded b, OF h(3)]
      show "agree_at ?R
          (and_then (to_storage (rr_trace result), c') (\<lambda>events s.
            and_then (append_events (ss_ops concrete) (dh_now host n) 1 (ex_id x) events s) (\<lambda>_ s.
            and_then (awaited (so_record_result (ss_ops concrete) (dh_now host n (length events + 1)) (ex_id x) res) s) (\<lambda>_.
              record_verdicts (ss_ops concrete) (dh_id host n) (\<lambda>k. dh_now host n (length events + 1 + k)) 1 (ex_id x) verdicts))))
          (and_then (to_storage (rr_trace result), a') (\<lambda>events s.
            and_then (append_events (ss_ops abstract) (dh_now host n) 1 (ex_id x) events s) (\<lambda>_ s.
            and_then (awaited (so_record_result (ss_ops abstract) (dh_now host n (length events + 1)) (ex_id x) res) s) (\<lambda>_.
              record_verdicts (ss_ops abstract) (dh_id host n) (\<lambda>k. dh_now host n (length events + 1 + k)) 1 (ex_id x) verdicts))))" .
    qed
  qed
qed

lemma seed_tasks_alike:
  assumes "inside twin ids (drawn host used n) c a" and "demo_host_fits host used" and "set tasks \<subseteq> set TASKS"
    and "av_model bv' = av_model bv" "av_system_prompt bv' = av_system_prompt bv"
    and "av_model cv' = av_model cv" "av_system_prompt cv' = av_system_prompt cv"
  shows "agree_at (inside twin ids (drawn host used (n + 2 * length tasks)))
    (seed_tasks concrete host n ((b, bv'), (k, cv')) tasks c) (seed_tasks abstract host n ((b, bv), (k, cv)) tasks a)"
  using assms(1,3)
proof (induction tasks arbitrary: n c a)
  case Nil
  then show ?case by (simp add: agree_at_def)
next
  case (Cons task tasks)
  let ?bad = "task = CUSTOMER_REFUND_WITHIN_POLICY"
  let ?model = "if ?bad then regressed_model_for_refund_within_policy else correct_model_for task"
  let ?verdicts = "if ?bad then REGRESSED_REFUND_JUDGE_VERDICTS else []"
  have task: "task \<in> set TASKS" "set tasks \<subseteq> set TASKS" using Cons.prems(2) by simp_all
  note brisk = demo_brisk [OF task(1)]
  have valid: "list_all (\<lambda>v. JudgeVerdictCreate v = Inr v) ?verdicts" "list_all (\<lambda>v. JudgeVerdictCreate v = Inr v) []"
    using regressed_verdicts_valid by simp_all
  have later: "drawn host used m \<subseteq> drawn host used (m + i)" for m i unfolding drawn_def by force
  show ?case unfolding seed_tasks.simps Let_def
  proof (rule and_then_alike [where R = "inside twin ids (drawn host used (Suc n))"])
    show "agree_at (inside twin ids (drawn host used (Suc n)))
        (run_and_record concrete host n b bv' task (correct_model_for task) [] c)
        (run_and_record abstract host n b bv task (correct_model_for task) [] a)"
      by (rule run_and_record_alike [OF Cons.prems(1) assms(2) brisk(1) demo_task(3) [OF task(1)] assms(4,5) valid(2)])
    show "inside twin ids (drawn host used (Suc n)) c' a' \<Longrightarrow>
        inside twin ids (drawn host used (n + 2 * length (task # tasks))) c' a'" for c' a'
      by (erule inside_mono) (use later [of "Suc n" "1 + 2 * length tasks"] in simp)
    fix x :: unit and c' a'
    assume w: "inside twin ids (drawn host used (Suc n)) c' a'"
    show "agree_at (inside twin ids (drawn host used (n + 2 * length (task # tasks))))
       (and_then (run_and_record concrete host (n + 1) k cv' task ?model ?verdicts c')
         (\<lambda>_. seed_tasks concrete host (n + 2) ((b, bv'), k, cv') tasks))
       (and_then (run_and_record abstract host (n + 1) k cv task ?model ?verdicts a')
         (\<lambda>_. seed_tasks abstract host (n + 2) ((b, bv), k, cv) tasks))"
    proof (rule and_then_alike [where R = "inside twin ids (drawn host used (n + 2))"])
      from run_and_record_alike [OF w assms(2) brisk(2) demo_task(3) [OF task(1)] assms(6,7) valid(1)]
      show "agree_at (inside twin ids (drawn host used (n + 2)))
          (run_and_record concrete host (n + 1) k cv' task ?model ?verdicts c')
          (run_and_record abstract host (n + 1) k cv task ?model ?verdicts a')" by simp
      show "inside twin ids (drawn host used (n + 2)) c1 a1 \<Longrightarrow>
          inside twin ids (drawn host used (n + 2 * length (task # tasks))) c1 a1" for c1 a1
        by (erule inside_mono) (use later [of "n + 2" "2 * length tasks"] in simp)
      show "inside twin ids (drawn host used (n + 2)) c1 a1 \<Longrightarrow>
          agree_at (inside twin ids (drawn host used (n + 2 * length (task # tasks))))
            (seed_tasks concrete host (n + 2) ((b, bv'), k, cv') tasks c1)
            (seed_tasks abstract host (n + 2) ((b, bv), k, cv) tasks a1)" for c1 a1
        using Cons.IH [of "n + 2" c1 a1] task(2) by simp
    qed
  qed
qed

lemma version_cases:
  assumes w: "inside twin ids b c a" and u: "u \<notin> b" and p: "AgentVersionCreate p = Inr p"
  obtains (failed) e where "ss_create_agent_version concrete u now p c = Inl e"
      and "ss_create_agent_version abstract u now p a = Inl e"
    | (created) v' v c2 a2 where "ss_create_agent_version concrete u now p c = Inr (v', c2)"
      and "ss_create_agent_version abstract u now p a = Inr (v, a2)" and "inside twin ids (insert u b) c2 a2"
      and "av_id v' = av_id v" and "av_model v' = av_model v" and "av_system_prompt v' = av_system_prompt v"
proof -
  have t: "twin c a" "u \<notin> ids a" using w u unfolding inside_def by blast+
  note v = version_alike [OF t(1) p t(2), of now]
  show thesis
  proof (cases "ss_create_agent_version concrete u now p c")
    case (Inl e)
    moreover have "ss_create_agent_version abstract u now p a = Inl e"
      using v Inl by (cases "ss_create_agent_version abstract u now p a") (auto simp: version_seen_def)
    ultimately show thesis by (rule failed)
  next
    case (Inr y)
    obtain v' c2 where y: "y = (v', c2)" by (cases y)
    obtain v a2 where z: "ss_create_agent_version abstract u now p a = Inr (v, a2)"
        "inside twin ids (insert u (ids a)) c2 a2" "av_id v' = av_id v" "av_model v' = av_model v"
        "av_system_prompt v' = av_system_prompt v"
      using v Inr y by (cases "ss_create_agent_version abstract u now p a") (auto simp: version_seen_def)
    have "inside twin ids (insert u b) c2 a2" using z(2) w unfolding inside_def by blast
    then show thesis using created Inr y z(1,3-5) by blast
  qed
qed

lemma version_then_alike:
  assumes w: "inside twin ids b c a" and u: "u \<notin> b" and p: "AgentVersionCreate p = Inr p"
    and S: "\<And>c a. inside twin ids (insert u b) c a \<Longrightarrow> S c a"
    and F: "\<And>v' v c a. inside twin ids (insert u b) c a \<Longrightarrow> av_id v' = av_id v \<Longrightarrow> av_model v' = av_model v \<Longrightarrow>
      av_system_prompt v' = av_system_prompt v \<Longrightarrow> agree_at S (F v' c) (G v a)"
  shows "agree_at S (and_then (awaited (ss_create_agent_version concrete u now p) c) F)
    (and_then (awaited (ss_create_agent_version abstract u now p) a) G)"
proof -
  have "S c a" by (rule S, rule inside_mono [OF w]) blast
  then show ?thesis
    by (cases rule: version_cases [OF w u p, of now]) (simp_all add: and_then_def awaited_def agree_at_def F [unfolded agree_at_def])
qed

lemma run_then_alike:
  assumes w: "inside twin ids b c a" and u: "u \<notin> b" and r: "EvaluationRunCreate r = Inr r" "int4 (run_seed r)"
    and S: "\<And>c a. inside twin ids (insert u b) c a \<Longrightarrow> S c a"
    and F: "\<And>x c a. inside twin ids (insert u b) c a \<Longrightarrow> agree_at S (F x c) (G x a)"
  shows "agree_at S (and_then (awaited (ss_create_run concrete u now r) c) F)
    (and_then (awaited (ss_create_run abstract u now r) a) G)"
proof (rule awaited_then_alike [where R' = "inside twin ids (insert u b)"], rule run_alike)
  show "twin c a" "u \<notin> ids a" using w u unfolding inside_def by blast+
  show "inside twin ids (insert u b) c a" by (rule inside_mono [OF w]) blast
  show "inside twin ids (insert u (ids a)) c' a' \<Longrightarrow> inside twin ids (insert u b) c' a'" for c' a'
    using w unfolding inside_def by blast
qed (use r S F in auto)

lemma seed_alike:
  assumes tw: "twin c a" and host: "demo_host_fits host (ids a)"
  shows "agree_at (inside twin ids (drawn host (ids a) (1 + 2 * length TASKS))) (seed concrete host c) (seed abstract host a)"
proof -
  let ?id = "dh_id host 0" and ?S = "inside twin ids (drawn host (ids a) (1 + 2 * length TASKS))"
  let ?b1 = "insert (?id 0) (ids a)" let ?b2 = "insert (?id 1) ?b1" let ?b3 = "insert (?id 2) ?b2" let ?b4 = "insert (?id 3) ?b3"
  have "inj ?id" "range ?id \<inter> ids a = {}"
    using host [unfolded demo_host_fits_def, rule_format, of 0] by (simp_all add: drawn_def)
  then have new: "?id 0 \<notin> ids a" "?id 1 \<notin> ?b1" "?id 2 \<notin> ?b2" "?id 3 \<notin> ?b3" by (auto dest: injD)
  have four: "?b4 \<subseteq> drawn host (ids a) 1" by (auto simp: drawn_def)
  also have "drawn host (ids a) 1 \<subseteq> drawn host (ids a) (1 + 2 * length TASKS)" unfolding drawn_def by force
  finally have big: "?b4 \<subseteq> drawn host (ids a) (1 + 2 * length TASKS)" .
  have S: "inside twin ids b c1 a1 \<Longrightarrow> b \<subseteq> ?b4 \<Longrightarrow> ?S c1 a1" for b c1 a1
    by (erule inside_mono, erule subset_trans, rule big)
  have run: "EvaluationRunCreate (demo_run u) = Inr (demo_run u)" "int4 (run_seed (demo_run u))" for u
    by (simp add: demo_payloads_valid(3)) (simp add: demo_run_def int4_def)
  show ?thesis unfolding seed_def
  proof (rule version_then_alike [OF _ new(1) demo_payloads_valid(1)])
    show "inside twin ids (ids a) c a" using tw by (simp add: inside_def)
    show "inside twin ids ?b1 c1 a1 \<Longrightarrow> ?S c1 a1" for c1 a1 by (erule S) blast
    fix bv' bv :: agent_version and c1 a1
    assume w1: "inside twin ids ?b1 c1 a1" and bv: "av_id bv' = av_id bv" "av_model bv' = av_model bv"
      "av_system_prompt bv' = av_system_prompt bv"
    let ?rest = "\<lambda>ss b bv cv s. and_then (awaited (ss_create_run ss (?id 3) (dh_now host 0 3) (demo_run (av_id cv))) s) (\<lambda>k s.
      and_then (seed_tasks ss host 1 ((run_id b, bv), (run_id k, cv)) TASKS s) (\<lambda>_ s. (Inr (run_id b, run_id k), s)))"
    have rest: "agree_at ?S (?rest concrete b bv' cv' c3) (?rest abstract b bv cv a3)"
      if w3: "inside twin ids ?b3 c3 a3" and cv: "av_id cv' = av_id cv" "av_model cv' = av_model cv"
        "av_system_prompt cv' = av_system_prompt cv" for b :: evaluation_run and cv' cv c3 a3
      unfolding cv(1)
    proof (rule run_then_alike [OF w3 new(4) run])
      show "inside twin ids ?b4 c4 a4 \<Longrightarrow> ?S c4 a4" for c4 a4 by (erule S) blast
      fix k :: evaluation_run and c4 a4
      assume "inside twin ids ?b4 c4 a4"
      then have "inside twin ids (drawn host (ids a) 1) c4 a4" by (rule inside_mono) (rule four)
      from seed_tasks_alike [OF this host subset_refl bv(2,3) cv(2,3)]
      show "agree_at ?S (and_then (seed_tasks concrete host 1 ((run_id b, bv'), (run_id k, cv')) TASKS c4) (\<lambda>_ s. (Inr (run_id b, run_id k), s)))
          (and_then (seed_tasks abstract host 1 ((run_id b, bv), (run_id k, cv)) TASKS a4) (\<lambda>_ s. (Inr (run_id b, run_id k), s)))"
        by (rule and_then_alike) (simp_all add: agree_at_def)
    qed
    show "agree_at ?S
        (and_then (awaited (ss_create_agent_version concrete (?id 1) (dh_now host 0 1)
            (demo_version ''candidate000000'' ''demo-schema-hash-candidate'')) c1) (\<lambda>cv s.
          and_then (awaited (ss_create_run concrete (?id 2) (dh_now host 0 2) (demo_run (av_id bv'))) s) (\<lambda>b. ?rest concrete b bv' cv)))
        (and_then (awaited (ss_create_agent_version abstract (?id 1) (dh_now host 0 1)
            (demo_version ''candidate000000'' ''demo-schema-hash-candidate'')) a1) (\<lambda>cv s.
          and_then (awaited (ss_create_run abstract (?id 2) (dh_now host 0 2) (demo_run (av_id bv))) s) (\<lambda>b. ?rest abstract b bv cv)))"
      unfolding bv(1)
    proof (rule version_then_alike [OF w1 new(2) demo_payloads_valid(2)])
      show "inside twin ids ?b2 c2 a2 \<Longrightarrow> ?S c2 a2" for c2 a2 by (erule S) blast
      fix cv' cv :: agent_version and c2 a2
      assume w2: "inside twin ids ?b2 c2 a2" and cv: "av_id cv' = av_id cv" "av_model cv' = av_model cv"
        "av_system_prompt cv' = av_system_prompt cv"
      show "agree_at ?S
          (and_then (awaited (ss_create_run concrete (?id 2) (dh_now host 0 2) (demo_run (av_id bv))) c2) (\<lambda>b. ?rest concrete b bv' cv'))
          (and_then (awaited (ss_create_run abstract (?id 2) (dh_now host 0 2) (demo_run (av_id bv))) a2) (\<lambda>b. ?rest abstract b bv cv))"
        by (rule run_then_alike [OF w2 new(3) run], erule S, blast, erule rest [OF _ cv])
    qed
  qed
qed

end

section \<open>The two stores of the source\<close>

definition stored_ids :: "platform_store \<Rightarrow> uuid set" where
  "stored_ids st = set (keys (ps_agent_versions st)) \<union> set (keys (ps_runs st)) \<union> set (keys (ps_executions st)) \<union>
     stored_event_ids st \<union> (\<Union>x. jv_id ` set (ps_verdicts st x))"

lemma stored_ids_simps:
  "stored_ids (st\<lparr>ps_agent_versions := versions\<rparr>) \<subseteq> stored_ids st \<union> set (keys versions)"
  "stored_ids (st\<lparr>ps_runs := runs\<rparr>) \<subseteq> stored_ids st \<union> set (keys runs)"
  "stored_ids (st\<lparr>ps_executions := executions\<rparr>) \<subseteq> stored_ids st \<union> set (keys executions)"
  "stored_ids (st\<lparr>ps_verdicts := (ps_verdicts st)(eid := ps_verdicts st eid @ [v])\<rparr>) \<subseteq> insert (jv_id v) (stored_ids st)"
proof -
  have parts: "X \<union> B \<union> C \<union> D \<union> E \<subseteq> A \<union> B \<union> C \<union> D \<union> E \<union> X" "A \<union> X \<union> C \<union> D \<union> E \<subseteq> A \<union> B \<union> C \<union> D \<union> E \<union> X"
      "A \<union> B \<union> X \<union> D \<union> E \<subseteq> A \<union> B \<union> C \<union> D \<union> E \<union> X" "F \<subseteq> insert u E \<Longrightarrow> A \<union> B \<union> C \<union> D \<union> F \<subseteq> insert u (A \<union> B \<union> C \<union> D \<union> E)"
    for A B C D E F X :: "uuid set" and u by blast+
  show "stored_ids (st\<lparr>ps_agent_versions := versions\<rparr>) \<subseteq> stored_ids st \<union> set (keys versions)"
    "stored_ids (st\<lparr>ps_runs := runs\<rparr>) \<subseteq> stored_ids st \<union> set (keys runs)"
    "stored_ids (st\<lparr>ps_executions := executions\<rparr>) \<subseteq> stored_ids st \<union> set (keys executions)"
    by (cases st; hypsubst; unfold stored_ids_def stored_event_ids_def platform_store.simps; rule parts)+
  have "(\<Union>x. jv_id ` set (((ps_verdicts st)(eid := ps_verdicts st eid @ [v])) x)) \<subseteq>
      insert (jv_id v) (\<Union>x. jv_id ` set (ps_verdicts st x))"
    by (rule UN_least) (auto split: if_splits)
  then show "stored_ids (st\<lparr>ps_verdicts := (ps_verdicts st)(eid := ps_verdicts st eid @ [v])\<rparr>) \<subseteq> insert (jv_id v) (stored_ids st)"
    by (cases st; hypsubst; unfold stored_ids_def stored_event_ids_def platform_store.simps; elim parts(4))
qed

lemma keys_set_fresh: "set (keys (dict_set k v d)) \<subseteq> insert k (set (keys d))"
  by (auto simp: keys_dict_set)

lemma keys_stored:
  "set (keys (ps_agent_versions st)) \<subseteq> stored_ids st" "set (keys (ps_runs st)) \<subseteq> stored_ids st"
  "set (keys (ps_executions st)) \<subseteq> stored_ids st"
  by (auto simp: stored_ids_def)

lemma created_ids:
  "create_agent_version sha256 u now p st = Inr (v, st') \<Longrightarrow> stored_ids st' \<subseteq> insert u (stored_ids st)"
  "create_run u now r st = Inr (x, st') \<Longrightarrow> stored_ids st' \<subseteq> insert u (stored_ids st)"
  "create_execution u now run e st = Inr (y, st') \<Longrightarrow> stored_ids st' \<subseteq> insert u (stored_ids st)"
  "append_judge_verdict u now eid j st = Inr (w, st') \<Longrightarrow> stored_ids st' \<subseteq> insert u (stored_ids st)"
  "append_trace_event now eid t st = Inr (z, st') \<Longrightarrow> stored_ids st' \<subseteq> insert (ev_id t) (stored_ids st)"
  "record_result now eid res st = Inr (y, st') \<Longrightarrow> stored_ids st' = stored_ids st"
proof -
  have dict: "stored_ids st \<union> set (keys (dict_set u f d)) \<subseteq> insert u (stored_ids st)" if "set (keys d) \<subseteq> stored_ids st"
    for f :: 'f and d using keys_set_fresh [of u f d] that by blast
  note grown = dict [OF keys_stored(1)] dict [OF keys_stored(2)] dict [OF keys_stored(3)]
  show "create_agent_version sha256 u now p st = Inr (v, st') \<Longrightarrow> stored_ids st' \<subseteq> insert u (stored_ids st)"
    using order_trans [OF stored_ids_simps(1) grown(1)]
    by (auto simp: create_agent_version_def AgentVersionCreate_def validated_Inr bind_res_eq_Inr agent_version_create.defs Let_def
        split: option.splits)
  show "create_run u now r st = Inr (x, st') \<Longrightarrow> stored_ids st' \<subseteq> insert u (stored_ids st)"
    using order_trans [OF stored_ids_simps(2) grown(2)]
    by (auto simp: create_run_def EvaluationRunCreate_def validated_Inr bind_res_eq_Inr evaluation_run_create.defs split: if_splits)
  show "create_execution u now run e st = Inr (y, st') \<Longrightarrow> stored_ids st' \<subseteq> insert u (stored_ids st)"
    using order_trans [OF stored_ids_simps(3) grown(3)]
    by (auto simp: create_execution_def TaskExecutionCreate_def validated_Inr bind_res_eq_Inr task_execution_create.defs split: if_splits)
  show "append_judge_verdict u now eid j st = Inr (w, st') \<Longrightarrow> stored_ids st' \<subseteq> insert u (stored_ids st)"
    using stored_ids_simps(4) [of st eid w]
    by (auto simp: append_judge_verdict_def JudgeVerdictCreate_def validated_Inr bind_res_eq_Inr judge_verdict_create.defs)
  assume "append_trace_event now eid t st = Inr (z, st')"
  from appended_ids [OF this] this show "stored_ids st' \<subseteq> insert (ev_id t) (stored_ids st)"
    by (auto simp: stored_ids_def append_trace_event_Inr)
next
  assume "record_result now eid res st = Inr (y, st')"
  then obtain e where e: "map_of (ps_executions st) eid = Some e" "st' = st\<lparr>ps_executions := dict_set eid (finalized now res e) (ps_executions st)\<rparr>"
    by (auto simp: record_result_Inr)
  have "keys (dict_set eid (finalized now res e) (ps_executions st)) = keys (ps_executions st)"
    unfolding keys_dict_set if_P [OF map_of_Some_key [OF e(1)]] ..
  then show "stored_ids st' = stored_ids st" by (simp add: stored_ids_def stored_event_ids_def e(2))
qed

text \<open>The contract of the scenario holds between the two stores.\<close>

interpretation postgres_demo: seed_refinement "platform_seed sha256" "postgres_seed pg sha256" "postgres_twin pg sha256" stored_ids
    "stored_version pg" for pg sha256
proof unfold_locales
  have ops: "ss_ops (platform_seed sha256) = platform_ops" "ss_ops (postgres_seed pg sha256) = postgres_ops pg"
    by (simp_all add: platform_seed_def postgres_seed_def)
  note strong = agree_mono [OF _ _, where R = "postgres_twin pg sha256"]
  fix db st
  assume tw: "postgres_twin pg sha256 db st"
  show "so_get_agent_version (ss_ops (postgres_seed pg sha256)) k db =
      map_sum id (stored_version pg) (so_get_agent_version (ss_ops (platform_seed sha256)) k st)"
    "so_get_execution (ss_ops (postgres_seed pg sha256)) k db = so_get_execution (ss_ops (platform_seed sha256)) k st" for k
    unfolding ops by (rule postgres_platform.version_kept [OF tw], rule postgres_platform.execution_alike [OF tw])
  show "agree (\<lambda>c' a'. postgres_twin pg sha256 c' a' \<and> stored_ids a' \<subseteq> insert (ev_id e) (stored_ids st))
      (so_append_trace_event (ss_ops (postgres_seed pg sha256)) now eid e db)
      (so_append_trace_event (ss_ops (platform_seed sha256)) now eid e st)"
    if e: "event_fits e" "ev_id e \<notin> stored_ids st" for e now eid
  proof -
    have "ev_id e \<notin> stored_event_ids st" using e(2) by (simp add: stored_ids_def)
    from postgres_platform.append_alike [OF tw e(1) this, of now eid]
    show ?thesis unfolding ops by (rule agree_mono) (use created_ids(5) in \<open>auto simp: platform_ops_def\<close>)
  qed
  show "agree (\<lambda>c' a'. postgres_twin pg sha256 c' a' \<and> stored_ids a' = stored_ids st)
      (so_record_result (ss_ops (postgres_seed pg sha256)) now eid r db) (so_record_result (ss_ops (platform_seed sha256)) now eid r st)"
    if "result_fits r" for r now eid
    unfolding ops using postgres_platform.record_alike [OF tw that, of now eid]
    by (rule agree_mono) (use created_ids(6) in \<open>auto simp: platform_ops_def\<close>)
  show "agree (inside (postgres_twin pg sha256) stored_ids (insert u (stored_ids st)))
      (version_seen (ss_create_agent_version (postgres_seed pg sha256) u now p db))
      (version_seen (ss_create_agent_version (platform_seed sha256) u now p st))"
    if p: "AgentVersionCreate p = Inr p" "u \<notin> stored_ids st" for p u now
  proof -
    have "admissible (RegisterVersion u now p) st" using p keys_stored(1) by auto
    from request_alike [where f = "\<lambda>v. (av_id v, av_model v, av_system_prompt v)",
        OF tw this serve_platform.simps(1) serve_postgres.simps(1) same_version]
    have "agree (postgres_twin pg sha256)
        (version_seen (ss_create_agent_version (postgres_seed pg sha256) u now p db))
        (version_seen (ss_create_agent_version (platform_seed sha256) u now p st))"
      unfolding version_seen_def platform_seed_def postgres_seed_def seed_store.simps .
    then show ?thesis
    proof (rule agree_mono)
      fix x c a
      assume s: "version_seen (ss_create_agent_version (platform_seed sha256) u now p st) = Inr (x, a)"
        and c: "postgres_twin pg sha256 c a"
      obtain v where "create_agent_version sha256 u now p st = Inr (v, a)"
        using s by (cases "create_agent_version sha256 u now p st") (auto simp: version_seen_def platform_seed_def)
      from created_ids(1) [OF this] c show "inside (postgres_twin pg sha256) stored_ids (insert u (stored_ids st)) c a"
        by (simp add: inside_def)
    qed
  qed
  note same = request_alike [where f = id, unfolded map_prod.id sum.map_id id_apply, OF tw]
  show "agree (inside (postgres_twin pg sha256) stored_ids (insert u (stored_ids st)))
      (ss_create_run (postgres_seed pg sha256) u now r db) (ss_create_run (platform_seed sha256) u now r st)"
    if r: "EvaluationRunCreate r = Inr r" "int4 (run_seed r)" "u \<notin> stored_ids st" for r u now
  proof -
    have "admissible (StartRun u now r) st" using r keys_stored(2) by auto
    from same [OF this serve_platform.simps(2) serve_postgres.simps(2)] show ?thesis unfolding platform_seed_def postgres_seed_def seed_store.simps
      by (rule agree_mono) (use created_ids(2) in \<open>auto simp: inside_def\<close>)
  qed
  show "agree (inside (postgres_twin pg sha256) stored_ids (insert u (stored_ids st)))
      (ss_create_execution (postgres_seed pg sha256) u now run e db) (ss_create_execution (platform_seed sha256) u now run e st)"
    if e: "TaskExecutionCreate e = Inr e" "int4 (ex_task_seed e)" "u \<notin> stored_ids st" for e u now run
  proof -
    have "admissible (StartExecution u now run e) st" using e keys_stored(3) by auto
    from same [OF this serve_platform.simps(3) serve_postgres.simps(3)] show ?thesis unfolding platform_seed_def postgres_seed_def seed_store.simps
      by (rule agree_mono) (use created_ids(3) in \<open>auto simp: inside_def\<close>)
  qed
  show "agree (inside (postgres_twin pg sha256) stored_ids (insert u (stored_ids st)))
      (so_append_judge_verdict (ss_ops (postgres_seed pg sha256)) u now eid v db)
      (so_append_judge_verdict (ss_ops (platform_seed sha256)) u now eid v st)"
    if v: "JudgeVerdictCreate v = Inr v" "u \<notin> stored_ids st" for v u now eid
  proof -
    have "admissible (AppendVerdict u now eid v) st" using v by (auto simp: stored_ids_def)
    from same [OF this serve_platform.simps(6) serve_postgres.simps(6)] show ?thesis unfolding ops platform_ops_def postgres_ops_def store_ops.simps
      by (rule agree_mono) (use created_ids(4) in \<open>auto simp: inside_def\<close>)
  qed
qed (simp_all add: stored_version_def)

section \<open>What the API shows of the seeded database\<close>

lemma distinct_apart:
  assumes "distinct xs" and "distinct ys" and "\<And>y. y \<in> set ys \<Longrightarrow> y \<notin> set xs"
  shows "distinct (xs @ ys)"
  using assms by auto

lemma demo_host_draws:
  assumes "demo_host_fits host (stored_ids st)" and ok: "store_ok sha256 st"
  shows "distinct_ids host st"
proof -
  let ?id = "\<lambda>n. dh_id host n 0"
  have h: "inj (dh_id host n)" "range (dh_id host n) \<inter> drawn host (stored_ids st) n = {}" for n
    using assms(1) [unfolded demo_host_fits_def, rule_format, of n] by simp_all
  have fresh: "dh_id host n k \<notin> stored_ids st" for n k using h(2) [of n] unfolding drawn_def by blast
  have new: "dh_id host n k \<notin> set (keys (ps_agent_versions st))" "dh_id host n k \<notin> set (keys (ps_runs st))"
    "dh_id host n k \<notin> set (keys (ps_executions st))" for n k
    using fresh [of n k] keys_stored [of st] by blast+
  have neq: "dh_id host 0 i = dh_id host 0 j \<longleftrightarrow> i = j" for i j using h(1) by (simp add: inj_eq)
  have "?id m \<noteq> ?id n" if "m < n" for m n
  proof -
    have "?id m \<in> drawn host (stored_ids st) n" using that unfolding drawn_def by blast
    then show ?thesis using h(2) [of n] by (metis IntI emptyE rangeI)
  qed
  then have "inj ?id" by (intro injI) (metis nat_neq_iff)
  then have draws: "distinct (map ?id [1..<7])" by (simp only: distinct_map distinct_upt inj_on_subset [OF _ subset_UNIV] simp_thms)
  have stored: "distinct (keys (ps_agent_versions st))" "distinct (keys (ps_runs st))" "distinct (keys (ps_executions st))"
    using ok by (simp_all add: store_ok_def keyed_by_def dict_ok_def)
  have "distinct (keys (ps_agent_versions st) @ [dh_id host 0 0, dh_id host 0 1])"
    by (rule distinct_apart [OF stored(1)], simp add: neq, unfold list.set, use new in blast)
  moreover have "distinct (keys (ps_runs st) @ [dh_id host 0 2, dh_id host 0 3])"
    by (rule distinct_apart [OF stored(2)], simp add: neq, unfold list.set, use new in blast)
  moreover have "distinct (keys (ps_executions st) @ map ?id [1..<7])"
    by (rule distinct_apart [OF stored(3) draws], subst (asm) set_map, use new in blast)
  ultimately show ?thesis unfolding distinct_ids_def by blast
qed

lemma shown_comparison:
  assumes tw: "postgres_twin pg sha256 db st" and j: "jsonb_ok pg" and r: "compare_runs platform_ops cost_round b c st = Inr r"
  shows "\<exists>s. handle (postgres_app pg sha256) cost_round (GetComparison b c None None None) db = ((200, ComparisonBody s), db) \<and>
    rc_compared_tasks s = rc_compared_tasks r \<and> rc_regressions s = rc_regressions r \<and> rc_improvements s = rc_improvements r \<and>
    map (\<lambda>item. (pc_task_id item, pc_disposition item)) (rc_results s) =
      map (\<lambda>item. (pc_task_id item, pc_disposition item)) (rc_results r)"
proof -
  have "res_alike same_comparison (compare_runs platform_ops cost_round b c st) (compare_runs (postgres_ops pg) cost_round b c db)"
    by (rule same_compare_runs [OF twin_reads [OF tw] j])
  then obtain s where s: "compare_runs (postgres_ops pg) cost_round b c db = Inr s" "same_comparison r s"
    unfolding r by (cases "compare_runs (postgres_ops pg) cost_round b c db") auto
  let ?shown = "\<lambda>item. (pc_task_id item, pc_disposition item)"
  have e: "map without_evidence (rc_results s) = map without_evidence (rc_results r)" "rc_compared_tasks s = rc_compared_tasks r"
      "rc_regressions s = rc_regressions r" "rc_improvements s = rc_improvements r"
    using s(2) unfolding same_comparison_def by (cases r, cases s, simp)+
  have shown: "map ?shown xs = map ?shown (map without_evidence xs)" for xs by (simp add: without_evidence_def)
  have "map ?shown (rc_results s) = map ?shown (rc_results r)" unfolding shown [of "rc_results s"] shown [of "rc_results r"] e(1) ..
  then show ?thesis using s(1) e(2-4) by (simp add: filtered_comparison_def reply_def postgres_app_def)
qed

lemma seeded_database:
  assumes tw: "postgres_twin pg sha256 db st" and host: "demo_host_fits host (stored_ids st)" and j: "jsonb_ok pg"
  shows "\<exists>b c db' st' r. seed_demo_data pg sha256 host db = (Inr (b, c), db') \<and>
    postgres_twin pg sha256 db' st' \<and> stored_ids st' \<subseteq> drawn host (stored_ids st) 7 \<and>
    rows st' = rows st @ demo_rows host 1 b c TASKS \<and>
    handle (postgres_app pg sha256) cost_round (GetComparison b c None None None) db' = ((200, ComparisonBody r), db') \<and>
    rc_compared_tasks r = 3 \<and> rc_regressions r = 1 \<and> rc_improvements r = 0 \<and>
    map (\<lambda>item. (pc_task_id item, pc_disposition item)) (rc_results r) = demo_dispositions"
proof -
  have ok: "store_ok sha256 st" using tw by (simp add: postgres_twin_def)
  obtain b c st' r where d: "seed (platform_seed sha256) host st = (Inr (b, c), st')" "rows st' = rows st @ demo_rows host 1 b c TASKS"
      "compare_runs platform_ops cost_round b c st' = Inr r" "rc_compared_tasks r = 3" "rc_regressions r = 1" "rc_improvements r = 0"
      "map (\<lambda>item. (pc_task_id item, pc_disposition item)) (rc_results r) = demo_dispositions"
    using demo_comparison [OF ok demo_host_draws [OF host ok]] by blast
  have seven: "1 + 2 * length TASKS = 7" by (simp add: TASKS_def)
  from postgres_demo.seed_alike [OF tw host, unfolded seven]
  obtain db' where db': "seed (postgres_seed pg sha256) host db = (Inr (b, c), db')" "postgres_twin pg sha256 db' st'"
      "stored_ids st' \<subseteq> drawn host (stored_ids st) 7"
    unfolding d(1) by (cases "seed (postgres_seed pg sha256) host db") (auto simp: agree_at_def inside_def)
  obtain s where s: "handle (postgres_app pg sha256) cost_round (GetComparison b c None None None) db' = ((200, ComparisonBody s), db')"
      "rc_compared_tasks s = rc_compared_tasks r" "rc_regressions s = rc_regressions r" "rc_improvements s = rc_improvements r"
      "map (\<lambda>item. (pc_task_id item, pc_disposition item)) (rc_results s) =
        map (\<lambda>item. (pc_task_id item, pc_disposition item)) (rc_results r)"
    using shown_comparison [OF db'(2) j d(3)] by blast
  note shown = s(1) s(2) [unfolded d(4)] s(3) [unfolded d(5)] s(4) [unfolded d(6)] s(5) [unfolded d(7)]
  show ?thesis unfolding seed_demo_data_def
    by (intro exI [of _ b] exI [of _ c] exI [of _ db'] exI [of _ st'] exI [of _ s] conjI) (fact db' d(2) shown)+
qed


text \<open>A host whose \<open>m\<close>-th start of the script draws from identifiers of its own.\<close>

definition numbered_host :: "nat \<Rightarrow> demo_host" where
  "numbered_host m =
     \<lparr>dh_id = (\<lambda>n k. UUID (prod_encode (2 * (m + n), k))), dh_now = (\<lambda>n k. 0),
      dh_runtime = (\<lambda>n. sample_runtime\<lparr>uuid4 := (\<lambda>k. UUID (prod_encode (2 * (m + n) + 1, k)))\<rparr>)\<rparr>"

lemma numbered_drawn:
  "drawn (numbered_host m) used n \<subseteq> used \<union> {UUID (prod_encode (i, k)) | i k. 2 * m \<le> i \<and> i < 2 * (m + n)}"
  by (auto simp: drawn_def numbered_host_def)

lemma numbered_host_fits:
  assumes "\<And>i k. UUID (prod_encode (i, k)) \<in> used \<Longrightarrow> i < 2 * m"
  shows "demo_host_fits (numbered_host m) used"
  unfolding demo_host_fits_def
proof (intro allI conjI)
  fix n
  let ?rt = "dh_runtime (numbered_host m) n"
  have d: "i < 2 * (m + n)" if "UUID (prod_encode (i, k)) \<in> drawn (numbered_host m) used n" for i k
    using subsetD [OF numbered_drawn that] assms [of i k] by auto
  show "inj (dh_id (numbered_host m) n)" by (simp add: numbered_host_def inj_def)
  show "range (dh_id (numbered_host m) n) \<inter> drawn (numbered_host m) used n = {}"
    using d by (fastforce simp: numbered_host_def)
  have "range (uuid4 ?rt) \<inter> drawn (numbered_host m) used n = {}" using d by (fastforce simp: numbered_host_def)
  moreover have "range (uuid4 ?rt) \<inter> range (dh_id (numbered_host m) n) = {}" by (auto simp: numbered_host_def)
  moreover have "int4 3" "int4 12" by (simp_all add: int4_def)
  ultimately show "host_fits ?rt (drawn (numbered_host m) used n \<union> range (dh_id (numbered_host m) n))"
    by (auto simp: host_fits_def numbered_host_def sample_runtime_def inj_def Int_Un_distrib)
qed

lemma stored_ids_empty: "stored_ids empty_store = {}"
  by (simp add: stored_ids_def stored_event_ids_def empty_store_def)


end
