(* ===== verification/PostgresLoadTest.thy ===== *)
theory PostgresLoadTest
  imports PostgresDemo LoadTest
begin

text \<open>
  \<open>scripts/load_test.py\<close> on the store it creates, \<open>PostgresStore()\<close>: seeding, workers and poller meet on
  the database what they meet on the in-memory store. The lemmas are about any two stores that satisfy
  \<open>seed_refinement\<close>.
\<close>

section \<open>The store and the queue of the script\<close>

definition paired :: "('c \<Rightarrow> 'a \<Rightarrow> bool) \<Rightarrow> 'c \<times> 'q \<Rightarrow> 'a \<times> 'q \<Rightarrow> bool" where
  "paired R p q \<longleftrightarrow> R (fst p) (fst q) \<and> snd p = snd q"

lemma on_store_alike:
  assumes "agree R (f c) (g a)" and "R' c a" and "\<And>c a. R c a \<Longrightarrow> R' c a"
  shows "agree_at (paired R') (on_store f (c, q)) (on_store g (a, q))"
  using assms by (cases "f c") (auto simp: on_store_def agree_at_def paired_def)

lemma on_queue_alike:
  assumes "R c a"
  shows "agree_at (paired R) (on_queue f (c, q)) (on_queue f (a, q))"
  using assms by (auto simp: on_queue_def agree_at_def paired_def split: prod.split)

lemma worker_on_simps [simp]:
  "wk_redis (worker_on ops w) = wk_redis w" "wk_codec (worker_on ops w) = wk_codec w" "wk_ops (worker_on ops w) = ops"
  "(worker_on ops w)\<lparr>wk_consumer := consumer, wk_block_ms := ms\<rparr> = worker_on ops (w\<lparr>wk_consumer := consumer, wk_block_ms := ms\<rparr>)"
  "(worker_on ops w)\<lparr>wk_registry := registry\<rparr> = worker_on ops (w\<lparr>wk_registry := registry\<rparr>)"
  by (simp_all add: worker_on_def)

section \<open>Workers\<close>

context store_refinement
begin

lemma workers_alike:
  assumes "wk_ops w = abstract" and "wk_judging w = None" and "run_workers w worlds k schedule (counts, s) = (counts', s')"
    and "worlds_fit worlds k (ids (ws_store s))" and "state_twin twin cs s"
  shows "\<exists>cs'. run_workers (worker_on concrete w) worlds k schedule (counts, cs) = (counts', cs') \<and> state_twin twin cs' s'"
  using assms(3-)
proof (induction schedule arbitrary: k counts s cs)
  case (Cons consumer schedule)
  let ?w = "w\<lparr>wk_consumer := consumer, wk_block_ms := 200\<rparr>"
  obtain r s1 where s1: "claim_and_process_one ?w (worlds k) s = (r, s1)" by fastforce
  have host: "host_fits (jw_runtime (worlds k)) (ids (ws_store s))" using Cons.prems(2) by (simp add: worlds_fit_def)
  have w: "wk_ops ?w = abstract" "wk_judging ?w = None" using assms(1,2) by simp_all
  obtain cs1 where cs1: "claim_and_process_one (worker_on concrete ?w) (worlds k) cs = (r, cs1)" "state_twin twin cs1 s1"
      "ids (ws_store s1) \<subseteq> ids (ws_store s) \<union> range (uuid4 (jw_runtime (worlds k)))"
    using claim_alike [OF w Cons.prems(3) host s1] by blast
  have it: "\<exists>counts1. worker_iteration w (worlds k) consumer (counts, s) = (counts1, s1) \<and>
      worker_iteration (worker_on concrete w) (worlds k) consumer (counts, cs) = (counts1, cs1)"
    using s1 cs1(1) by (cases r) (simp_all add: worker_iteration_def)
  have fit: "worlds_fit worlds (k + 1) (ids (ws_store s1))" using worlds_fit_next [OF Cons.prems(2) cs1(3)] by simp
  show ?case using Cons.IH [OF _ fit cs1(2)] it Cons.prems(1) by auto
qed simp

end

lemma worlds_fit_fewer:
  assumes "worlds_fit worlds k used" and "used' \<subseteq> used"
  shows "worlds_fit worlds k used'"
proof -
  have "host_fits (jw_runtime (worlds i)) used'" if "host_fits (jw_runtime (worlds i)) used" for i
    using that assms(2) unfolding host_fits_def by blast
  then show ?thesis using assms(1) unfolding worlds_fit_def by blast
qed

section \<open>Seeding\<close>

context seed_refinement
begin

lemma seed_loop_alike:
  fixes r :: "'q redis"
  assumes "inside twin ids b c a" and "inj new" and "\<forall>j\<ge>i. new (2 + j) \<notin> b" and "i + n \<le> 2 ^ 31"
  shows "agree_at (paired (inside twin ids (b \<union> range new)))
    (seed_loop concrete r codec new now clock run version i n acc (c, q))
    (seed_loop abstract r codec new now clock run version i n acc (a, q))"
  using assms
proof (induction n arbitrary: i b c a acc q)
  case 0
  have "inside twin ids (b \<union> range new) c a" by (rule inside_mono [OF "0.prems"(1)]) blast
  then show ?case by (simp add: agree_at_def paired_def)
next
  case (Suc n)
  let ?u = "new (2 + i)" and ?S = "paired (inside twin ids (b \<union> range new))" and ?b = "insert (new (2 + i)) b"
  have tw: "twin c a" "?u \<notin> ids a" "ids a \<subseteq> b" using Suc.prems(1,3) unfolding inside_def by blast+
  have seed: "int4 (ex_task_seed \<lparr>ex_task_id = bt_task_id LOAD_TASK, ex_task_seed = int i\<rparr>)"
    using Suc.prems(4) by (simp add: int4_def)
  note created = new_execution_alike [OF tw(1) load_execution_valid seed tw(2)]
  have S: "paired (inside twin ids ?b) p q' \<Longrightarrow> ?S p q'" for p q' :: "_ \<times> 'q"
    by (auto simp: paired_def elim!: inside_mono)
  show ?case unfolding seed_loop.simps
  proof (rule and_then_alike [OF on_store_alike [where R' = "inside twin ids ?b"]], rule created)
    show "inside twin ids ?b c a" by (rule inside_mono [OF Suc.prems(1)]) blast
    show "inside twin ids (insert ?u (ids a)) c' a' \<Longrightarrow> inside twin ids ?b c' a'" for c' a'
      by (erule inside_mono) (use tw(3) in blast)
    fix x :: task_execution and p :: "'c \<times> 'q" and p' :: "'a \<times> 'q"
    assume p: "paired (inside twin ids ?b) p p'"
    obtain c1 a1 q1 where p1: "p = (c1, q1)" "p' = (a1, q1)" "inside twin ids ?b c1 a1"
      using p by (cases p; cases p') (auto simp: paired_def)
    show "agree_at ?S
       (and_then (on_queue (enqueue r codec (load_job (ex_id x) version)) p) (\<lambda>_. seed_loop concrete r codec new now clock run version
          (i + 1) n (dict_set (ex_id x) (clock i) acc)))
       (and_then (on_queue (enqueue r codec (load_job (ex_id x) version)) p') (\<lambda>_. seed_loop abstract r codec new now clock run version
          (i + 1) n (dict_set (ex_id x) (clock i) acc)))" unfolding p1(1,2)
    proof (rule and_then_alike [OF on_queue_alike], rule p1(3))
      fix y :: string and p :: "'c \<times> 'q" and p' :: "'a \<times> 'q"
      assume "paired (inside twin ids ?b) p p'"
      then obtain c2 a2 q2 where p2: "p = (c2, q2)" "p' = (a2, q2)" "inside twin ids ?b c2 a2"
        by (cases p; cases p') (auto simp: paired_def)
      have "\<forall>j\<ge>i + 1. new (2 + j) \<notin> ?b" using Suc.prems(2,3) by (auto dest: injD)
      from Suc.IH [OF p2(3) Suc.prems(2) this, of "dict_set (ex_id x) (clock i) acc" q2] Suc.prems(4)
      show "agree_at ?S (seed_loop concrete r codec new now clock run version (i + 1) n (dict_set (ex_id x) (clock i) acc) p)
          (seed_loop abstract r codec new now clock run version (i + 1) n (dict_set (ex_id x) (clock i) acc) p')"
        unfolding p2(1,2) by (simp add: insert_absorb)
    qed (rule S)
  qed (rule S)
qed

lemma seed_jobs_alike:
  fixes r :: "'q redis"
  assumes w: "inside twin ids b c a" and new: "inj new" "\<forall>j. new j \<notin> b" and few: "jobs \<le> 2 ^ 31"
  shows "agree_at (paired (inside twin ids (b \<union> range new)))
    (seed_jobs concrete r codec new now clock jobs (c, q)) (seed_jobs abstract r codec new now clock jobs (a, q))"
proof -
  let ?S = "paired (inside twin ids (b \<union> range new))" and ?b1 = "insert (new 0) b" and ?b2 = "insert (new 1) (insert (new 0) b)"
  have b2: "?b2 \<union> range new = b \<union> range new" by auto
  have S: "inside twin ids b' c' a' \<Longrightarrow> b' \<subseteq> b \<union> range new \<Longrightarrow> inside twin ids (b \<union> range new) c' a'" for b' c' a'
    by (rule inside_mono)
  show ?thesis
  proof (rule version_cases [OF w new(2) [rule_format, of 0] load_payloads(1), of "now 0"])
    fix e
    assume "ss_create_agent_version concrete (new 0) (now 0) load_version c = Inl e"
      and "ss_create_agent_version abstract (new 0) (now 0) load_version a = Inl e"
    then show ?thesis using S [OF w] by (simp add: seed_jobs_def on_store_def and_then_def agree_at_def paired_def)
  next
    fix v' v :: agent_version and c1 a1
    assume created: "ss_create_agent_version concrete (new 0) (now 0) load_version c = Inr (v', c1)"
      "ss_create_agent_version abstract (new 0) (now 0) load_version a = Inr (v, a1)"
      "inside twin ids (insert (new 0) b) c1 a1" "av_id v' = av_id v"
    have tw: "twin c1 a1" "new 1 \<notin> ids a1" "ids a1 \<subseteq> ?b1" using created(3) new unfolding inside_def by (auto dest: injD)
    have seed: "int4 (run_seed (load_run (av_id v)))" by (simp add: load_run_def int4_def)
    note run = run_alike [OF tw(1) load_payloads(2) seed tw(2)]
    have "agree_at ?S
        (and_then (on_store (ss_create_run concrete (new 1) (now 1) (load_run (av_id v'))) (c1, q)) (\<lambda>run.
          seed_loop concrete r codec new now clock (run_id run) (av_id v') 0 jobs []))
        (and_then (on_store (ss_create_run abstract (new 1) (now 1) (load_run (av_id v))) (a1, q)) (\<lambda>run.
          seed_loop abstract r codec new now clock (run_id run) (av_id v) 0 jobs []))"
      unfolding created(4)
    proof (rule and_then_alike [OF on_store_alike [where R' = "inside twin ids ?b2"]], rule run)
      show "inside twin ids ?b2 c1 a1" by (rule inside_mono [OF created(3)]) blast
      show "inside twin ids (insert (new 1) (ids a1)) c' a' \<Longrightarrow> inside twin ids ?b2 c' a'" for c' a'
        by (erule inside_mono) (use tw(3) in blast)
      fix p :: "'c \<times> 'q" and p' :: "'a \<times> 'q"
      assume "paired (inside twin ids ?b2) p p'"
      then obtain c2 a2 q2 where p: "p = (c2, q2)" "p' = (a2, q2)" "inside twin ids ?b2 c2 a2"
        by (cases p; cases p') (auto simp: paired_def)
      show "?S p p'" using S [OF p(3)] p(1,2) by (simp add: paired_def)
      fix x :: evaluation_run
      have "\<forall>j\<ge>0. new (2 + j) \<notin> ?b2" using new by (auto dest: injD)
      from seed_loop_alike [OF p(3) new(1) this, of jobs r codec now clock "run_id x" "av_id v" "[]" q2] few
      show "agree_at ?S (seed_loop concrete r codec new now clock (run_id x) (av_id v) 0 jobs [] p)
          (seed_loop abstract r codec new now clock (run_id x) (av_id v) 0 jobs [] p')"
        unfolding p(1,2) b2 by simp
    qed
    then show ?thesis by (simp add: seed_jobs_def on_store_def and_then_def created(1,2))
  qed
qed

lemma load_test_alike:
  fixes s :: "('a, 'q, 'm) worker_state"
  assumes ops: "wk_ops w = ss_ops abstract" "wk_judging w = None" and tw: "state_twin twin cs s"
    and new: "inj new" "range new \<inter> ids (ws_store s) = {}" and few: "jobs \<le> 2 ^ 31"
    and fits: "worlds_fit (lh_worlds host) 0 (ids (ws_store s) \<union> range new)"
    and loaded: "run_load_test abstract w host new now clock jobs workers timeout fuel s = Some (r, s')"
  shows "\<exists>cs'. run_load_test concrete (worker_on (ss_ops concrete) w) host new now clock jobs workers timeout fuel cs = Some (r, cs') \<and>
    state_twin twin cs' s'"
proof -
  let ?w = "w\<lparr>wk_registry := LOAD_TASK_REGISTRY\<rparr>" and ?b = "ids (ws_store s) \<union> range new"
  let ?seeding = "\<lambda>ss store. and_then (on_queue (ensure_group (wk_redis w)) (store, ws_redis s))
    (\<lambda>_. seed_jobs ss (wk_redis w) (wk_codec w) new now clock jobs)"
  have st: "twin (ws_store cs) (ws_store s)" "ws_redis cs = ws_redis s" "ws_model cs = ws_model s"
    using tw by (simp_all add: state_twin_def)
  have w: "inside twin ids (ids (ws_store s)) (ws_store cs) (ws_store s)" using st(1) by (simp add: inside_def)
  have seeded: "agree_at (paired (inside twin ids ?b)) (?seeding concrete (ws_store cs)) (?seeding abstract (ws_store s))"
  proof (rule and_then_alike [OF on_queue_alike [where R = "inside twin ids (ids (ws_store s))"]], rule w)
    fix p :: "'c \<times> 'q" and p' :: "'a \<times> 'q"
    assume "paired (inside twin ids (ids (ws_store s))) p p'"
    then obtain c a q where p: "p = (c, q)" "p' = (a, q)" "inside twin ids (ids (ws_store s)) c a"
      by (cases p; cases p') (auto simp: paired_def)
    have "\<forall>j. new j \<notin> ids (ws_store s)" using new(2) by blast
    then show "agree_at (paired (inside twin ids ?b)) (seed_jobs concrete (wk_redis w) (wk_codec w) new now clock jobs p)
        (seed_jobs abstract (wk_redis w) (wk_codec w) new now clock jobs p')" for u :: unit
      unfolding p(1,2) by (intro seed_jobs_alike [OF p(3) new(1) _ few])
    show "paired (inside twin ids ?b) p p'"
      using inside_mono [OF p(3), of ?b] p(1,2) by (simp add: paired_def)
  qed
  obtain x a1 q1 where a1: "?seeding abstract (ws_store s) = (x, a1, q1)" by (metis prod_cases3)
  then obtain c1 where c1: "?seeding concrete (ws_store cs) = (x, c1, q1)" "inside twin ids ?b c1 a1"
    using seeded by (cases "?seeding concrete (ws_store cs)") (auto simp: agree_at_def paired_def)
  show ?thesis
  proof (cases x)
    case (Inl e)
    then show ?thesis using loaded a1 c1 st by (auto simp: run_load_test_def Let_def inside_def state_twin_def)
  next
    case (Inr enqueued_at)
    let ?start = "\<lambda>store. (no_counts, \<lparr>ws_store = store, ws_redis = q1, ws_model = ws_model s\<rparr>)"
    let ?after = "\<lambda>n. run_workers ?w (lh_worlds host) 0 (map worker_name (take n (lh_order host))) (?start a1)"
    let ?after' = "\<lambda>n. run_workers (worker_on (ss_ops concrete) ?w) (lh_worlds host) 0 (map worker_name (take n (lh_order host))) (?start c1)"
    have start: "state_twin twin (snd (?start c1)) (snd (?start a1))" "worlds_fit (lh_worlds host) 0 (ids (ws_store (snd (?start a1))))"
      using c1(2) worlds_fit_fewer [OF fits] by (simp_all add: state_twin_def inside_def)
    have after: "fst (?after' n) = fst (?after n) \<and> state_twin twin (snd (?after' n)) (snd (?after n))" for n
    proof -
      obtain counts s2 where a: "?after n = (counts, s2)" by fastforce
      have "wk_ops ?w = ss_ops abstract" "wk_judging ?w = None" using ops by simp_all
      from workers_alike [OF this a start(2) [unfolded snd_conv] start(1) [unfolded snd_conv]] show ?thesis unfolding a by auto
    qed
    have look: "so_get_execution (ss_ops concrete) e (ws_store (snd (?after' n))) = so_get_execution (ss_ops abstract) e (ws_store (snd (?after n)))"
      for e n using after [of n] by (intro execution_alike) (simp add: state_twin_def)
    have looks: "(\<lambda>pass e. so_get_execution (ss_ops concrete) e (ws_store (snd (?after' (lh_seen host pass))))) =
        (\<lambda>pass e. so_get_execution (ss_ops abstract) e (ws_store (snd (?after (lh_seen host pass)))))"
      unfolding look ..
    obtain counts s2 where a: "?after (length (lh_order host)) = (counts, s2)" by fastforce
    obtain s2' where a': "?after' (length (lh_order host)) = (counts, s2')" "state_twin twin s2' s2"
      using after [of "length (lh_order host)"] unfolding a by (cases "?after' (length (lh_order host))") auto
    have lt: "run_load_test abstract w host new now clock jobs workers timeout fuel s =
        map_option (\<lambda>completed_at. (load_report_of (lh_rounded host) jobs workers (lh_elapsed host) counts enqueued_at completed_at, s2))
          (poll_until_done (\<lambda>pass e. so_get_execution (ss_ops abstract) e (ws_store (snd (?after (lh_seen host pass)))))
            (lh_clock host) (lh_listed host (keys enqueued_at)) timeout fuel)"
      using a1 a ops(1) by (simp add: run_load_test_def Let_def Inr)
    have lt': "run_load_test concrete (worker_on (ss_ops concrete) w) host new now clock jobs workers timeout fuel cs =
        map_option (\<lambda>completed_at. (load_report_of (lh_rounded host) jobs workers (lh_elapsed host) counts enqueued_at completed_at, s2'))
          (poll_until_done (\<lambda>pass e. so_get_execution (ss_ops concrete) e (ws_store (snd (?after' (lh_seen host pass)))))
            (lh_clock host) (lh_listed host (keys enqueued_at)) timeout fuel)"
      using c1(1) a'(1) st(2,3) by (simp add: run_load_test_def Let_def Inr)
    show ?thesis using loaded a'(2) unfolding lt lt' looks by auto
  qed
qed

end

section \<open>The load test of the compose stack\<close>


text \<open>Two jobs and two workers; the seeding draws small and even identifiers, the runs odd ones.\<close>

definition even_ids :: "nat \<Rightarrow> uuid" where
  "even_ids k = UUID (if k < 4 then k else 2 * k)"

definition odd_worlds :: "nat \<Rightarrow> job_world" where
  "odd_worlds i = sample_world\<lparr>jw_runtime := sample_runtime\<lparr>uuid4 := (\<lambda>n. UUID (2 * prod_encode (i, n) + 5))\<rparr>\<rparr>"

lemma odd_worlds_fit: "worlds_fit odd_worlds 0 (stored_ids empty_store \<union> range even_ids)"
proof -
  have apart: "UUID (2 * prod_encode (i, n) + 5) \<noteq> even_ids k" for i n k
  proof (cases "k < 4")
    case False
    have "2 * prod_encode (i, n) + 5 \<noteq> 2 * k" by presburger
    then show ?thesis using False by (simp add: even_ids_def)
  qed (simp add: even_ids_def)
  have rt: "uuid4 (jw_runtime (odd_worlds i)) n = UUID (2 * prod_encode (i, n) + 5)"
    "elapsed_ms (jw_runtime (odd_worlds i)) n = 3" "run_ms (jw_runtime (odd_worlds i)) = 12" for i n
    by (simp_all add: odd_worlds_def sample_world_def sample_runtime_def)
  have inj: "inj (uuid4 (jw_runtime (odd_worlds i)))" for i by (simp add: inj_def rt)
  have new: "range (uuid4 (jw_runtime (odd_worlds i))) \<inter> range even_ids = {}" for i
  proof -
    have "uuid4 (jw_runtime (odd_worlds i)) n \<noteq> even_ids k" for n k unfolding rt by (rule apart)
    then show ?thesis by blast
  qed
  have "range (uuid4 (jw_runtime (odd_worlds i))) \<inter> range (uuid4 (jw_runtime (odd_worlds j))) = {}" if "i \<noteq> j" for i j
  proof -
    have "uuid4 (jw_runtime (odd_worlds i)) n \<noteq> uuid4 (jw_runtime (odd_worlds j)) m" for n m using that by (simp add: rt)
    then show ?thesis by blast
  qed
  moreover have "int4 3" "int4 12" by (simp_all add: int4_def)
  ultimately show ?thesis by (simp add: worlds_fit_def host_fits_def rt(2,3) inj new stored_ids_empty)
qed

definition load_database :: "(database, memory, unit) worker_state" where
  "load_database = \<lparr>ws_store = empty_database, ws_redis = empty_memory\<lparr>mem_group := False\<rparr>, ws_model = ()\<rparr>"


end
