(* ===== verification/Deployment.thy ===== *)
theory Deployment
  imports PostgresLoadTest
begin

text \<open>
  The processes of the compose stack: the worker (\<open>_main\<close> of \<open>runner/worker.py\<close>: \<open>serve_forever\<close> on
  \<open>PostgresStore\<close> with the seed tasks and no judges) and the local demo server
  (\<open>main\<close> of \<open>scripts/run_demo_comparison.py\<close>).
\<close>

section \<open>The worker process\<close>

definition deployed_worker :: "pg \<Rightarrow> 'q redis \<Rightarrow> job_codec \<Rightarrow> string \<Rightarrow> (database, 'q, reference_client, unit) worker" where
  "deployed_worker pg redis codec consumer =
     \<lparr>wk_ops = postgres_ops pg, wk_redis = redis, wk_codec = codec, wk_max_attempts = DEFAULT_MAX_ATTEMPTS,
      wk_registry = task_registry_from SEED_TASKS, wk_consumer = consumer, wk_block_ms = 5000,
      wk_ask = reference_complete, wk_judging = None\<rparr>"

text \<open>The client and the name of the consumer come from the environment.\<close>

definition consumer_name :: "(string, string) dict \<Rightarrow> string \<Rightarrow> string" where
  "consumer_name environ hostname = (case map_of environ ''WORKER_CONSUMER_NAME'' of None \<Rightarrow> hostname | Some name \<Rightarrow> name)"

definition worker_main ::
  "pg \<Rightarrow> (string \<Rightarrow> 'q redis) \<Rightarrow> job_codec \<Rightarrow> (string, string) dict \<Rightarrow> string \<Rightarrow> (nat \<Rightarrow> job_world) \<Rightarrow> nat
     \<Rightarrow> (database, 'q, unit) worker_state \<Rightarrow> (exc, unit) res \<times> (database, 'q, unit) worker_state" where
  "worker_main pg from_url codec environ hostname worlds fuel db =
     (let redis = create_redis_client from_url environ; consumer = consumer_name environ hostname in
      serve_forever (deployed_worker pg redis codec consumer) worlds fuel db)"

context store_refinement
begin

lemma serve_loop_alike:
  assumes "wk_ops w = abstract" and "wk_judging w = None" and "serve w worlds k fuel s = (r, s')"
    and "worlds_fit worlds k (ids (ws_store s))" and "state_twin twin cs s"
  shows "\<exists>cs'. serve (worker_on concrete w) worlds k fuel cs = (r, cs') \<and> state_twin twin cs' s'"
  using assms(3-)
proof (induction fuel arbitrary: k s cs)
  case (Suc fuel)
  obtain x s1 where s1: "claim_and_process_one w (worlds k) s = (x, s1)" by fastforce
  have host: "host_fits (jw_runtime (worlds k)) (ids (ws_store s))" using Suc.prems(2) by (simp add: worlds_fit_def)
  obtain cs1 where cs1: "claim_and_process_one (worker_on concrete w) (worlds k) cs = (x, cs1)" "state_twin twin cs1 s1"
      "ids (ws_store s1) \<subseteq> ids (ws_store s) \<union> range (uuid4 (jw_runtime (worlds k)))"
    using claim_alike [OF assms(1,2) Suc.prems(3) host s1] by blast
  have fit: "worlds_fit worlds (k + 1) (ids (ws_store s1))" using worlds_fit_next [OF Suc.prems(2) cs1(3)] by simp
  show ?case using Suc.IH [OF _ fit cs1(2)] Suc.prems(1) s1 cs1(1,2) by (cases x) auto
qed simp

lemma serve_forever_alike:
  assumes "wk_ops w = abstract" and "wk_judging w = None" and "serve_forever w worlds fuel s = (r, s')"
    and "worlds_fit worlds 0 (ids (ws_store s))" and "state_twin twin cs s"
  shows "\<exists>cs'. serve_forever (worker_on concrete w) worlds fuel cs = (r, cs') \<and> state_twin twin cs' s'"
proof -
  obtain x q where q: "ensure_group (wk_redis w) (ws_redis s) = (x, q)" by fastforce
  have tw: "state_twin twin (cs\<lparr>ws_redis := q\<rparr>) (s\<lparr>ws_redis := q\<rparr>)" "ws_redis cs = ws_redis s"
    using assms(5) by (simp_all add: state_twin_def)
  show ?thesis
  proof (cases x)
    case (Inl e)
    then show ?thesis using assms(3) q tw by (auto simp: serve_forever_def)
  next
    case (Inr u)
    have fit: "worlds_fit worlds 0 (ids (ws_store (s\<lparr>ws_redis := q\<rparr>)))" using assms(4) by simp
    have "serve w worlds 0 fuel (s\<lparr>ws_redis := q\<rparr>) = (r, s')" using assms(3) q Inr by (simp add: serve_forever_def)
    from serve_loop_alike [OF assms(1,2) this fit tw(1)] show ?thesis using q Inr tw(2) by (simp add: serve_forever_def)
  qed
qed

end

text \<open>C18: The deployed worker does its jobs: on a database that holds what a consistent store holds, when each
  waiting job is for an unfinished execution of its own without a trace and a registered task, the
  process started by \<open>python -m runner.worker\<close> is still running after any number of iterations that
  covers the waiting jobs; by then no job waits, none was dead-lettered, and every execution has the
  complete redacted trace of its run, as a JSON column keeps it, and the result the contract scored.\<close>

theorem worker_process_does_its_jobs:
  assumes "redis_ok (from_url (redis_url environ)) view" and "codec_ok codec" and "stands_for codec ((view (ws_redis db))\<lparr>qv_group := True\<rparr>) b"
    and "commits_ok pg" and "scans_ok pg" and "store_ok sha256 st" and "mirrors pg (ws_store db) st"
    and "worlds_fit worlds 0 (stored_event_ids st)"
    and "list_all (fresh_job (postgres_ops pg) (task_registry_from SEED_TASKS) (ws_store db)) (jb_waiting b)"
    and "distinct (map job_execution_id (jb_waiting b))" and "length (jb_waiting b) \<le> fuel"
  shows "\<exists>db' b'. worker_main pg from_url codec environ hostname worlds fuel db = (Inr (), db') \<and>
    stands_for codec (view (ws_redis db')) b' \<and> jb_waiting b' = [] \<and> jb_dead b' = jb_dead b \<and>
    (\<forall>i<length (jb_waiting b). done_job (postgres_ops pg) (pg_jsonb pg) (task_registry_from SEED_TASKS) reference_complete
       (worlds i) (ws_store db) (ws_store db') (jb_waiting b ! i))"
proof -
  let ?redis = "from_url (redis_url environ)" and ?consumer = "consumer_name environ hostname"
  let ?w = "worker_on platform_ops (deployed_worker pg ?redis codec ?consumer)"
  let ?st = "\<lparr>ws_store = st, ws_redis = ws_redis db, ws_model = ws_model db\<rparr>"
  have w: "wk_redis ?w = ?redis" "wk_codec ?w = codec" "wk_ops ?w = platform_ops" "wk_judging ?w = None"
      "wk_registry ?w = task_registry_from SEED_TASKS" "wk_ask ?w = reference_complete"
      "worker_on (postgres_ops pg) ?w = deployed_worker pg ?redis codec ?consumer"
    by (simp_all add: worker_on_def deployed_worker_def)
  have tw: "postgres_twin pg sha256 (ws_store db) st" using assms(4-7) by (simp add: postgres_twin_def)
  have fresh: "list_all (fresh_job platform_ops (wk_registry ?w) (ws_store ?st)) (jb_waiting b)"
    using assms(9) fresh_job_on_postgres [OF tw] by (simp add: w list_all_iff)
  have pre: "redis_ok (wk_redis ?w) view" "codec_ok (wk_codec ?w)"
      "stands_for (wk_codec ?w) ((view (ws_redis ?st))\<lparr>qv_group := True\<rparr>) b" "store_ok sha256 (ws_store ?st)"
    using assms(1-3,6) unfolding w by simp_all
  from fresh_board_is_served [OF pre(1-3) w(3,4) pre(4) fresh assms(10,11), of worlds]
  obtain st' b' where run: "serve_forever ?w worlds fuel ?st = (Inr (), st')"
      "stands_for codec (view (ws_redis st')) b'" "jb_waiting b' = []" "jb_dead b' = jb_dead b"
      "\<forall>i<length (jb_waiting b). done_job platform_ops (\<lambda>p. p) (task_registry_from SEED_TASKS) reference_complete (worlds i)
         (ws_store ?st) (ws_store st') (jb_waiting b ! i)"
    unfolding w by blast
  have "state_twin (postgres_twin pg sha256) db ?st" "worlds_fit worlds 0 (stored_event_ids (ws_store ?st))"
    using tw assms(8) by (simp_all add: state_twin_def)
  from postgres_platform.serve_forever_alike [OF w(3,4) run(1) this(2,1)]
  obtain db' where db': "worker_main pg from_url codec environ hostname worlds fuel db = (Inr (), db')"
      "state_twin (postgres_twin pg sha256) db' st'"
    unfolding w worker_main_def create_redis_client_def Let_def by blast
  have "postgres_twin pg sha256 (ws_store db') (ws_store st')" "ws_redis db' = ws_redis st'"
    using db'(2) by (simp_all add: state_twin_def)
  moreover from this have "\<forall>i<length (jb_waiting b). done_job (postgres_ops pg) (pg_jsonb pg) (task_registry_from SEED_TASKS)
      reference_complete (worlds i) (ws_store db) (ws_store db') (jb_waiting b ! i)"
    using run(5) done_job_on_postgres [OF tw] unfolding worker_state.simps by blast
  ultimately show ?thesis using db'(1) run(2-4) by (intro exI [of _ db'] exI [of _ b']) simp
qed

section \<open>A job of the queue\<close>

text \<open>A job for the execution of \<open>job_database\<close>, of a seed task, in a stream whose group is not there yet.\<close>

definition seed_job :: evaluation_job where
  "seed_job = sample_job\<lparr>job_task_id := bt_task_id LOAD_TASK\<rparr>"

definition database_seed_job :: "(database, memory, unit) worker_state" where
  "database_seed_job = \<lparr>ws_store = job_database,
     ws_redis = empty_memory\<lparr>mem_group := False, mem_new := [(''1-0'', job_fields sample_codec seed_job)]\<rparr>, ws_model = ()\<rparr>"

theorem worker_process_does_its_jobs_witness:
  "\<exists>db'. worker_main reversing_pg (\<lambda>_. memory_redis) sample_codec [] ''w'' own_worlds 5 database_seed_job = (Inr (), db') \<and>
     done_job (postgres_ops reversing_pg) (pg_jsonb reversing_pg) (task_registry_from SEED_TASKS) reference_complete
       (own_worlds 0) job_database (ws_store db') seed_job"
proof -
  let ?b = "\<lparr>jb_waiting = [seed_job], jb_claimed = [], jb_dead = []\<rparr>"
  have job: "job_ok sample_codec seed_job" using sample_job_ok by (simp add: job_ok_def seed_job_def)
  have st: "stands_for sample_codec ((memory_view (ws_redis database_seed_job))\<lparr>qv_group := True\<rparr>) ?b"
    using job by (simp add: database_seed_job_def stands_for_def memory_view_def empty_memory_def)
  have m: "mirrors reversing_pg (ws_store database_seed_job) job_store" using job_database_mirrors by (simp add: database_seed_job_def)
  have tw: "postgres_twin reversing_pg (\<lambda>s. s) job_database job_store"
    using reversing_commits reversing_scans job_database_mirrors job_store_ok by (simp add: postgres_twin_def)
  have reads: "so_get_agent_version (postgres_ops reversing_pg) k job_database =
        map_sum id (stored_version reversing_pg) (get_agent_version k job_store)"
      "so_get_execution (postgres_ops reversing_pg) k job_database = get_execution k job_store"
      "so_get_trace (postgres_ops reversing_pg) k job_database = map_sum id (map (stored_trace_event reversing_pg)) (get_trace k job_store)" for k
    using twin_reads [OF tw] by (simp_all add: reads_alike_def postgres_ops_def)
  have "map_of (task_registry_from SEED_TASKS) (bt_task_id LOAD_TASK) = Some LOAD_TASK"
    using load_payloads(5) by (simp add: LOAD_TASK_REGISTRY_def)
  then have "fresh_job (postgres_ops reversing_pg) (task_registry_from SEED_TASKS) job_database seed_job"
    using load_payloads(4) by (simp add: fresh_job_def reads seed_job_def sample_job_def get_agent_version_def
        get_execution_def get_trace_def lookup_or_404_def job_store_def)
  then have f: "list_all (fresh_job (postgres_ops reversing_pg) (task_registry_from SEED_TASKS) (ws_store database_seed_job)) (jb_waiting ?b)"
      "distinct (map job_execution_id (jb_waiting ?b))" "length (jb_waiting ?b) \<le> 5"
    by (simp_all add: database_seed_job_def)
  from worker_process_does_its_jobs [where from_url = "\<lambda>_. memory_redis" and environ = "[]" and hostname = "''w''",
      OF memory_redis_ok sample_codec_ok st reversing_commits reversing_scans job_store_ok m own_worlds_fit f]
  show ?thesis by (auto simp: database_seed_job_def)
qed

section \<open>The demo server\<close>

definition run_demo_comparison ::
  "(string \<Rightarrow> string) \<Rightarrow> (rat \<Rightarrow> rat \<Rightarrow> rat) \<Rightarrow> demo_host \<Rightarrow> api_request list
     \<Rightarrow> (exc, (uuid \<times> uuid) \<times> (nat \<times> api_body) list) res" where
  "run_demo_comparison sha256 cost_round host requests =
     (case seed (platform_seed sha256) host empty_store of
        (Inl e, st) \<Rightarrow> Inl e
      | (Inr runs, st) \<Rightarrow> Inr (runs, fst (handle_all (platform_app sha256) cost_round requests st)))"

text \<open>The server comes up, and answers the comparison it prints, however often it is asked.\<close>

lemma demo_server_answers:
  assumes "distinct_ids host empty_store"
  shows "\<exists>b c r. (\<forall>n. run_demo_comparison sha256 cost_round host (replicate n (GetComparison b c None None None)) =
      Inr ((b, c), replicate n (200, ComparisonBody r))) \<and>
    rc_compared_tasks r = 3 \<and> rc_regressions r = 1 \<and> rc_improvements r = 0"
proof -
  obtain b c st r where d: "seed (platform_seed sha256) host empty_store = (Inr (b, c), st)"
      "compare_runs platform_ops cost_round b c st = Inr r" "rc_compared_tasks r = 3" "rc_regressions r = 1" "rc_improvements r = 0"
    using demo_comparison [OF store_ok_empty assms] by blast
  have one: "handle (platform_app sha256) cost_round (GetComparison b c None None None) st = ((200, ComparisonBody r), st)"
    using d(2) by (simp add: filtered_comparison_def reply_def platform_app_def)
  have "fst (handle_all (platform_app sha256) cost_round (replicate n (GetComparison b c None None None)) st) =
      replicate n (200, ComparisonBody r)" for n
    by (induction n) (simp_all add: one [simplified] split_beta)
  then show ?thesis using d by (auto simp: run_demo_comparison_def)
qed

end
