(* ===== verification/Spec2Isabelle.thy ===== *)
theory Spec2Isabelle
  imports Prelude PyValue Redaction SupportTools Schemas Trace ToolProxy
    BenchmarkSchema Runner Contracts Json Versioning Store Comparison SeedTasks Serialization Validators Mutations
    Judges Queue Worker PostgresStore Api Gold
    PostgresApi Demo DemoTask LoadTest Migrations RunHost PostgresWorker PostgresDemo PostgresLoadTest Deployment
    MigrationEnv
begin

text \<open>
  AgentProof: a verification development for the regression-testing platform of support agents.

  The program. An agent version (\<open>backend/app/versioning.py\<close> gives it its identity) is run on seeded
  support tasks (\<open>benchmark/\<close>). \<open>runner/runner.py\<close> asks a model client for replies and plays the tool
  calls of each against an in-memory support environment (\<open>tool_environment/\<close>) through a proxy that
  records every call and outcome in an ordered trace (\<open>backend/app/trace.py\<close>). The finished run is
  scored against the contract of its task (\<open>judges/contracts.py\<close>), optionally judged by a model
  (\<open>judges/llm.py\<close>, \<open>orchestration.py\<close>, \<open>agreement.py\<close>, calibrated by \<open>gold.py\<close>), redacted
  (\<open>redaction.py\<close>) and stored (\<open>store.py\<close>, \<open>postgres_store.py\<close>). Jobs reach the worker
  (\<open>runner/worker.py\<close>) over a Redis stream (\<open>queue.py\<close>). The API (\<open>main.py\<close>) serves what is stored
  and compares two runs task by task (\<open>comparison.py\<close>). \<open>benchmark/mutations.py\<close> derives adversarial
  variants of tasks, \<open>validators.py\<close> checks them, \<open>serialization.py\<close> freezes suites under a hash.

  How the model follows it. Each module has a theory, in the order of the calls: a dataclass or model
  is a \<open>record\<close>, an enum a \<open>datatype\<close>, a function or method one definition of (almost) its name, with
  every early return and exception as a branch. A computation that may raise is \<open>(exc, 'a) res\<close>, an
  exception is its class and its text; one that changes state returns the state with it, also when it
  raises. Python's dictionaries are insertion-ordered association lists, the values of \<open>Any\<close> are the
  type \<open>pyval\<close>, Python's integers are \<open>int\<close>, floats are rationals with the rounding of each operation
  a parameter, times are integers, identifiers are \<open>UUID n\<close>. Awaiting is calling: operations of one
  coroutine are sequential, and where another session or worker can act in between and the code
  depends on it, its effect is an argument (\<open>meanwhile\<close> in \<open>PostgresStore\<close>, \<open>rd_sleep\<close> in \<open>Queue\<close>).

  The theories.
  \<^item> \<open>Prelude\<close>, \<open>PyValue\<close>, \<open>Json\<close>: results, dictionaries, sorting, the locale \<open>preserved\<close> (an
    invariant of a step relation holds in every reachable state); dynamic values with Python's
    equality, order, subscripts and \<open>repr\<close>; \<open>json.dumps\<close> and \<open>json.loads\<close> with their round trip.
  \<^item> \<open>Redaction\<close> (\<open>redaction.py\<close>): what is removed, what stays, and that exactly the sensitive differs.
  \<^item> \<open>SupportTools\<close> (\<open>services.py\<close>, \<open>state.py\<close>, \<open>errors.py\<close>), \<open>ToolProxy\<close> (\<open>tool_proxy.py\<close>,
    \<open>environment.py\<close>): every service method with the calls that succeed and what they write, the policy
    invariant of a whole session, name resolution and argument binding, the recorded invocation. The
    locale \<open>tool_provider\<close> is what the proxy relies on, interpreted on the services.
  \<^item> \<open>Schemas\<close>, \<open>Trace\<close>: the models with their constraints; traces, their storage and its round trip.
  \<^item> \<open>Runner\<close> (\<open>runner.py\<close>, \<open>model_client.py\<close>, \<open>reference_agent.py\<close>): the loop, its retries, the
    grammar of the traces it produces. The locale \<open>model_client\<close> is what the loop relies on, interpreted
    on both clients of the source.
  \<^item> \<open>BenchmarkSchema\<close>, \<open>SeedTasks\<close>, \<open>Contracts\<close> (\<open>schema.py\<close>, \<open>tasks.py\<close>, \<open>contracts.py\<close>,
    \<open>execution_scoring.py\<close>): tasks, the ten seeds, scoring; which seeds the reference agent passes.
  \<^item> \<open>Serialization\<close>, \<open>Validators\<close>, \<open>Mutations\<close>: round trips of tasks and suites, the content hash, and
    that what the mutations generate the validator accepts and the contract-preserving ones preserve.
  \<^item> \<open>Versioning\<close>, \<open>Store\<close>, \<open>Comparison\<close>: identity by content; the in-memory store with its invariant and
    what no operation may lose; run comparison and first divergence over any store. The locale
    \<open>evidence_store\<close> is what the writers of traces and results rely on, interpreted on the store.
  \<^item> \<open>PostgresStore\<close>: the SQL store over tables with their declared keys and constraints refines the
    in-memory one over any history; the races its checks leave open.
  \<^item> \<open>Queue\<close>, \<open>Worker\<close>: the queue implements an abstract board of jobs, the worker loop implements draining
    it, ends, and loses nothing; where the source does lose or repeat work.
  \<^item> \<open>Judges\<close>, \<open>Gold\<close>: parsing of judge answers, which judges run, agreement; human labels and calibration.
  \<^item> \<open>Api\<close>: every handler with its status codes, over any store; on the in-memory one no request is ever
    answered with an internal error.
  \<^item> \<open>PostgresApi\<close>: the API on the Postgres store (\<open>create_app()\<close>) answers every admissible request as
    the API on the in-memory store, up to the order of JSON keys and of unordered rows.
  \<^item> \<open>Demo\<close>, \<open>DemoTask\<close>, \<open>LoadTest\<close> (\<open>scripts/_demo_scenario.py\<close>, \<open>run_demo_task.py\<close>,
    \<open>load_test.py\<close>): whole paths through the system. The demo's comparison shows exactly the regression
    it stages; the demo task passes when every step goes through the API; a load test finishes however
    its workers interleave.
  \<^item> \<open>Migrations\<close> (\<open>models.py\<close>, \<open>alembic/versions/\<close>): the revisions build the schema the models declare,
    the hash back-fill is exact; what the downgrades leave behind. The locale \<open>migrator\<close> states the
    documented effect of Alembic's operations on a catalog, interpreted on a database that is its catalog.
  \<^item> \<open>MigrationEnv\<close> (\<open>db.py\<close>, \<open>alembic/env.py\<close>): migrations run on the database the application is configured
    for, in one transaction; the URLs and the mode with which they cannot run. The locales
    \<open>migration_context\<close> and \<open>offline_context\<close> (which extends it) state what is documented of Alembic's
    configuration and modes.
  \<^item> \<open>RunHost\<close>: what a run takes from its host. The locale \<open>brisk_client\<close>, interpreted on both clients,
    bounds the identifiers and times a run uses.
  \<^item> \<open>PostgresWorker\<close>, \<open>PostgresDemo\<close>, \<open>PostgresLoadTest\<close>: the worker loop, the demo data
    (\<open>scripts/seed_demo_data.py\<close>) and the load test on the Postgres store. The locale \<open>store_refinement\<close>
    says that one store refines another under the writes of the worker, \<open>seed_refinement\<close> extends it by
    those of the scripts; client programs are shown once, inside them, to run alike on both, and the
    interpretation on Postgres and the in-memory store carries the theorems over.
  \<^item> \<open>Deployment\<close>: the worker process (\<open>_main\<close> of \<open>worker.py\<close>) does the jobs that wait for it; the local
    demo server (\<open>run_demo_comparison.py\<close>) answers the comparison it prints.

  Bounds and fuel. Loops over data are structural. The run loop is bounded by \<open>max_steps\<close> as in the
  source. The worker loop is a \<open>partial_function\<close>; that it returns is a theorem (its measure is the sum
  of the attempts the waiting jobs have left). \<open>serve_forever\<close> never returns unless an exception is
  raised: its fuel is the number of iterations looked at; its theorems name the iteration that ends it and
  how many do the waiting jobs. The JSON parser's fuel is twice the length of its text plus two, which the round trip shows to be enough
  for every printed value.

  Parameters, with the hypotheses that state their documented behaviour: SHA-256 (injectivity where two
  hashes are compared), \<open>uuid4\<close> and clocks (fresh identifiers where needed), Redis (\<open>redis_ok\<close>), what
  pydantic prints for a job (\<open>codec_ok\<close>), the commits and row orders of Postgres (\<open>commits_ok\<close>,
  \<open>scans_ok\<close>), the model behind agents and judges, the random generator, float arithmetic
  (\<open>float_ok\<close>), \<open>isoformat\<close> (\<open>iso_ok\<close>), what a JSONB column keeps (\<open>jsonb_ok\<close>), Alembic (\<open>migrator\<close>,
  \<open>migration_context\<close>), the identifiers and times a run draws (\<open>worlds_fit\<close>, \<open>demo_host_fits\<close>: each draws
  identifiers of its own and stays within 32-bit milliseconds),
  \<open>UUID(str(u))\<close> (\<open>readable\<close>), Python's object protocol (\<open>object_call\<close>). Every property that
  assumes one has a witness with a concrete instance.

  Deliberate limits of the model. Characters are code points below 256; JSON numbers are integers; a
  validation error only names its first field; a NUL character in a JSON column, which Postgres
  refuses, is not considered; the list values an agent mutates after they are recorded do not occur,
  since services copy what they return.

  Not modelled. The engine and session factory objects of \<open>db.py\<close> (they are part of the parameter for
  Postgres). CORS, routing and the wire format of the API: FastAPI's.
  Command lines, printing (what is printed is a result) and uvicorn (the sequence of requests
  answered). The theorems about the worker on Postgres are for a worker without judges, as \<open>_main\<close>
  starts it. The load test's workers are interleaved at whole iterations (the store operations inside
  one are not); its poller has as fuel the passes it makes, and the theorem shows that one more than
  those up to the first that follows the last iteration are enough. The rows of tables other than
  \<open>agent_versions\<close> during a migration are not modelled.
  The front end, shell scripts and tests.
\<close>

end
